(* ===== verification/Prelude.thy ===== *)
theory Prelude
  imports Complex_Main "HOL-Library.Word" "HOL-Library.List_Lexorder" "HOL-Library.Char_ord"
    "HOL-Library.AList"
begin

text \<open>
  Shared vocabulary of the development: results of fallible Go functions, Go's string
  operations on byte strings, string maps as association lists, and the generic list lemmas
  that several components use.

  A Go function that returns \<open>(T, error)\<close> is a HOL function into \<open>'e + 'a\<close>: \<open>Inl e\<close> is a
  non-nil error, \<open>Inr x\<close> the value. \<open>rbind\<close> is the \<open>if err != nil { return err }\<close> idiom.

  Go strings are byte strings, so \<open>string\<close> (a list of 8-bit characters) is their exact carrier.
  \<open>to_lower\<close> and \<open>trim_space\<close> act on ASCII; Go's \<open>strings.ToLower\<close> and \<open>strings.TrimSpace\<close> also
  fold letters and strip spaces outside ASCII, so the model speaks about names whose
  letters and blanks are ASCII (other bytes are left alone).
\<close>

named_theorems go_string \<open>definitions of the Go string operations\<close>
named_theorems result_simps \<open>evaluation of the result operations\<close>

section \<open>Results\<close>

fun rbind :: "'e + 'a \<Rightarrow> ('a \<Rightarrow> 'e + 'b) \<Rightarrow> 'e + 'b" where
  "rbind (Inl e) f = Inl e"
| "rbind (Inr x) f = f x"

lemma rbind_eq_Inr [result_simps]:
  "rbind m f = Inr y \<longleftrightarrow> (\<exists>x. m = Inr x \<and> f x = Inr y)"
  by (cases m) auto

lemma rbind_eq_Inl [result_simps]:
  "rbind m f = Inl e \<longleftrightarrow> m = Inl e \<or> (\<exists>x. m = Inr x \<and> f x = Inl e)"
  by (cases m) auto

lemma rbind_cong [fundef_cong]:
  "m = m' \<Longrightarrow> (\<And>x. m' = Inr x \<Longrightarrow> f x = g x) \<Longrightarrow> rbind m f = rbind m' g"
  by (cases m') auto

text \<open>A loop over a slice that stops at the first error, threading a state.\<close>

fun rfold :: "('a \<Rightarrow> 's \<Rightarrow> 'e + 's) \<Rightarrow> 'a list \<Rightarrow> 's \<Rightarrow> 'e + 's" where
  "rfold f [] s = Inr s"
| "rfold f (x # xs) s = rbind (f x s) (rfold f xs)"

text \<open>An invariant of the body is an invariant of the loop.\<close>

lemma rfold_inv:
  assumes "rfold f xs s = Inr t" and "P s"
    and "\<And>x s t. x \<in> set xs \<Longrightarrow> P s \<Longrightarrow> f x s = Inr t \<Longrightarrow> P t"
  shows "P t"
  using assms
proof (induction xs arbitrary: s)
  case Nil
  then show ?case by simp
next
  case (Cons x xs)
  then obtain s' where "f x s = Inr s'" "rfold f xs s' = Inr t"
    by (auto simp: result_simps)
  with Cons show ?case by (metis list.set_intros)
qed

text \<open>A relation between the start and the end that the body's steps compose to.\<close>

lemma rfold_rel:
  assumes "rfold f xs s = Inr t"
    and refl: "\<And>s. R s s"
    and trans: "\<And>a b c. R a b \<Longrightarrow> R b c \<Longrightarrow> R a c"
    and step: "\<And>x s t. x \<in> set xs \<Longrightarrow> f x s = Inr t \<Longrightarrow> R s t"
  shows "R s t"
  using assms(1) step
proof (induction xs arbitrary: s)
  case Nil
  then show ?case by (simp add: refl)
next
  case (Cons x xs)
  then obtain s' where s': "f x s = Inr s'" "rfold f xs s' = Inr t"
    by (auto simp: result_simps)
  have "R s s'" using Cons.prems(2) s'(1) by auto
  moreover have "R s' t" using Cons.IH [OF s'(2)] Cons.prems(2) by auto
  ultimately show ?case by (rule trans)
qed

text \<open>A body that cannot fail where an invariant holds gives a loop that cannot fail.\<close>

lemma rfold_total:
  assumes "P s"
    and "\<And>x s. x \<in> set xs \<Longrightarrow> P s \<Longrightarrow> \<exists>t. f x s = Inr t \<and> P t"
  shows "\<exists>t. rfold f xs s = Inr t \<and> P t"
  using assms
proof (induction xs arbitrary: s)
  case Nil
  then show ?case by simp
next
  case (Cons x xs)
  then obtain s' where "f x s = Inr s'" "P s'" by (metis list.set_intros(1))
  with Cons show ?case by auto
qed

section \<open>Transactions\<close>

text \<open>
  \<open>DB.InTx\<close>: the callback runs on the single writer connection; its error rolls everything
  back, so the caller sees the error and the database as it was.
\<close>

definition in_tx :: "('d \<Rightarrow> 'e + ('a \<times> 'd)) \<Rightarrow> 'd \<Rightarrow> ('e + 'a) \<times> 'd" where
  "in_tx fn d = (case fn d of Inl e \<Rightarrow> (Inl e, d) | Inr (x, d') \<Rightarrow> (Inr x, d'))"

section \<open>Go strings\<close>

definition lower_char :: "char \<Rightarrow> char" where
  "lower_char c = (let n = of_char c :: nat in if 65 \<le> n \<and> n \<le> 90 then char_of (n + 32) else c)"

definition to_lower :: "string \<Rightarrow> string" where [go_string]:
  "to_lower = map lower_char"

definition equal_fold :: "string \<Rightarrow> string \<Rightarrow> bool" where [go_string]:
  "equal_fold a b \<longleftrightarrow> to_lower a = to_lower b"

definition is_digit :: "char \<Rightarrow> bool" where
  "is_digit c \<longleftrightarrow> (let n = of_char c :: nat in 48 \<le> n \<and> n \<le> 57)"

definition is_space :: "char \<Rightarrow> bool" where
  "is_space c \<longleftrightarrow> (let n = of_char c :: nat in n = 32 \<or> 9 \<le> n \<and> n \<le> 13)"

definition trim_space :: "string \<Rightarrow> string" where [go_string]:
  "trim_space s = rev (dropWhile is_space (rev (dropWhile is_space s)))"

fun has_prefix :: "string \<Rightarrow> string \<Rightarrow> bool" where
  "has_prefix s [] = True"
| "has_prefix [] (p # ps) = False"
| "has_prefix (c # s) (p # ps) = (c = p \<and> has_prefix s ps)"

definition has_suffix :: "string \<Rightarrow> string \<Rightarrow> bool" where [go_string]:
  "has_suffix s t = has_prefix (rev s) (rev t)"

definition trim_prefix :: "string \<Rightarrow> string \<Rightarrow> string" where [go_string]:
  "trim_prefix s p = (if has_prefix s p then drop (length p) s else s)"

definition trim_suffix :: "string \<Rightarrow> string \<Rightarrow> string" where [go_string]:
  "trim_suffix s t = (if has_suffix s t then take (length s - length t) s else s)"

fun contains :: "string \<Rightarrow> string \<Rightarrow> bool" where
  "contains [] p = (p = [])"
| "contains (c # s) p = (has_prefix (c # s) p \<or> contains s p)"

text \<open>\<open>strings.LastIndex(s, c)\<close> for a one-byte pattern; \<open>-1\<close> is \<open>None\<close>.\<close>

fun last_index :: "string \<Rightarrow> char \<Rightarrow> nat option" where
  "last_index [] c = None"
| "last_index (x # s) c =
     (case last_index s c of Some i \<Rightarrow> Some (Suc i) | None \<Rightarrow> if x = c then Some 0 else None)"

definition replace_char :: "char \<Rightarrow> char \<Rightarrow> string \<Rightarrow> string" where [go_string]:
  "replace_char a b = map (\<lambda>c. if c = a then b else c)"

text \<open>The \<open>String\<close> field of a \<open>sql.NullString\<close>: empty for NULL.\<close>

definition or_empty :: "string option \<Rightarrow> string" where
  "or_empty v = (case v of None \<Rightarrow> [] | Some s \<Rightarrow> s)"

lemma or_empty_Some [simp]: "or_empty (Some s) = s"
  by (simp add: or_empty_def)

lemma has_prefix_append: "has_prefix s p \<longleftrightarrow> (\<exists>r. s = p @ r)"
  by (induction s p rule: has_prefix.induct) auto

lemma has_suffix_append: "has_suffix s t \<longleftrightarrow> (\<exists>r. s = r @ t)"
proof
  assume "has_suffix s t"
  then obtain r where "rev s = rev t @ r" by (auto simp: has_suffix_def has_prefix_append)
  then have "s = rev r @ t" by (metis rev_append rev_rev_ident)
  then show "\<exists>r. s = r @ t" ..
next
  assume "\<exists>r. s = r @ t"
  then show "has_suffix s t" by (auto simp: has_suffix_def has_prefix_append)
qed

lemma trim_suffix_append [simp]: "trim_suffix (r @ t) t = r"
  by (auto simp: trim_suffix_def has_suffix_append)

lemma last_index_None: "last_index s c = None \<longleftrightarrow> c \<notin> set s"
  by (induction s) (auto split: option.splits)

lemma last_index_Some:
  "last_index s c = Some i \<Longrightarrow> i < length s \<and> s ! i = c \<and> c \<notin> set (drop (Suc i) s)"
proof (induction s arbitrary: i)
  case Nil
  then show ?case by simp
next
  case (Cons x s)
  then show ?case
    by (auto split: option.splits if_splits simp: last_index_None)
qed

lemma length_to_lower [simp]: "length (to_lower s) = length s"
  by (simp add: to_lower_def)

lemma length_trim_space: "length (trim_space s) \<le> length s"
  unfolding trim_space_def
  by (metis length_dropWhile_le le_trans length_rev)

section \<open>String maps\<close>

text \<open>
  A Go \<open>map[string]string\<close> is an association list with distinct keys; assignment is
  \<open>AList.update\<close>, lookup \<open>map_of\<close>. Iteration order never shows: every loop over such a map in
  the modelled code sorts the keys first or builds another map.
\<close>

type_synonym kv = "(string \<times> string) list"

definition kv_set :: "string \<Rightarrow> string \<Rightarrow> kv \<Rightarrow> kv" where
  "kv_set k v m = AList.update k v m"

lemma map_of_kv_set [simp]: "map_of (kv_set k v m) = (map_of m)(k \<mapsto> v)"
  by (simp add: kv_set_def update_conv')

lemma distinct_kv_set [simp]: "distinct (map fst m) \<Longrightarrow> distinct (map fst (kv_set k v m))"
  by (simp add: kv_set_def distinct_update)

section \<open>Lists\<close>

lemma map_cond_id:
  "(\<And>x. x \<in> set xs \<Longrightarrow> \<not> P x) \<Longrightarrow> map (\<lambda>x. if P x then f x else x) xs = xs"
  by (induction xs) auto

text \<open>The first element that satisfies a predicate: SQL's one-row queries.\<close>

lemma find_SomeD: "find P xs = Some x \<Longrightarrow> x \<in> set xs \<and> P x"
  by (induction xs) (auto split: if_splits)

lemma find_NoneD: "find P xs = None \<Longrightarrow> x \<in> set xs \<Longrightarrow> \<not> P x"
  by (induction xs) (auto split: if_splits)

lemma find_unique:
  assumes "x \<in> set xs" "P x" "\<And>y. y \<in> set xs \<Longrightarrow> P y \<Longrightarrow> y = x"
  shows "find P xs = Some x"
proof (cases "find P xs")
  case None
  with find_NoneD [OF None assms(1)] assms(2) show ?thesis by simp
next
  case (Some y)
  with find_SomeD [OF Some] assms(3) [of y] show ?thesis by simp
qed

lemma distinct_map_eqD:
  "distinct (map f xs) \<Longrightarrow> x \<in> set xs \<Longrightarrow> y \<in> set xs \<Longrightarrow> f x = f y \<Longrightarrow> x = y"
  by (meson distinct_map inj_onD)

lemma in_map_filter: "c \<in> set (List.map_filter f xs) \<longleftrightarrow> (\<exists>x \<in> set xs. f x = Some c)"
  by (force simp: List.map_filter_def image_iff)

end
