(* ===== verification/Float64.thy ===== *)
theory Float64
  imports Prelude "HOL-Library.Log_Nat"
begin

text \<open>
  Go's \<open>float64\<close>: the confidence scores of the lineage graph are sums of decimal literals in
  IEEE-754 binary64, and they are compared with \<open>>=\<close> against decimal thresholds, so the
  rounding is part of the behaviour (\<open>0.60 + 0.10 + 0.10\<close> is below \<open>0.80\<close>). A float is its
  exact value, a rational number; a literal is \<open>f64 q\<close>, the value of the decimal \<open>q\<close> rounded to
  53 significant bits, ties to even, and each arithmetic operation rounds its exact result
  once. Magnitudes outside the normal range (subnormal, infinite), NaN and the sign of zero
  are not represented: every float of the modelled code is zero or lies between
  \<open>10 ^ -300\<close> and \<open>10 ^ 300\<close>.
\<close>

type_synonym float64 = rat

definition pow2 :: "int \<Rightarrow> rat" where
  "pow2 k = (if 0 \<le> k then 2 ^ nat k else 1 / 2 ^ nat (- k))"

text \<open>The largest \<open>k\<close> with \<open>2 ^ k \<le> q\<close>, from the bit lengths of numerator and denominator.\<close>

definition ilog2 :: "rat \<Rightarrow> int" where
  "ilog2 q = (let (a, b) = quotient_of q; k = int (floorlog 2 (nat a)) - int (floorlog 2 (nat b))
              in if pow2 k \<le> q then k else k - 1)"

text \<open>Round to the nearest integer, a tie to the even one.\<close>

definition round_even :: "rat \<Rightarrow> int" where
  "round_even m = (let n = \<lfloor>m\<rfloor>; d = m - of_int n
                   in if d < 1 / 2 then n else if 1 / 2 < d then n + 1
                      else if even n then n else n + 1)"

definition f64 :: "rat \<Rightarrow> float64" where
  "f64 q = (if q = 0 then 0
            else let u = pow2 (ilog2 \<bar>q\<bar> - 52) in sgn q * (of_int (round_even (\<bar>q\<bar> / u)) * u))"

definition fadd :: "float64 \<Rightarrow> float64 \<Rightarrow> float64" where
  "fadd a b = f64 (a + b)"

definition fmul :: "float64 \<Rightarrow> float64 \<Rightarrow> float64" where
  "fmul a b = f64 (a * b)"

definition fdiv :: "float64 \<Rightarrow> float64 \<Rightarrow> float64" where
  "fdiv a b = f64 (a / b)"

text \<open>\<open>math.Round\<close>: half away from zero.\<close>

definition fround :: "float64 \<Rightarrow> float64" where
  "fround x = sgn x * of_int \<lfloor>\<bar>x\<bar> + 1 / 2\<rfloor>"

section \<open>Evaluation\<close>

lemma pow2_pos [simp]: "0 < pow2 k"
  by (simp add: pow2_def)

lemma pow2_add1: "pow2 (k + 1) = 2 * pow2 k"
proof (cases "0 \<le> k")
  case True
  then show ?thesis by (simp add: pow2_def nat_add_distrib)
next
  case False
  then obtain n where n: "k = - int (Suc n)"
    by (metis int_cases2 of_nat_0_le_iff neg_int_cases not_le zero_less_imp_eq_int Suc_pred)
  show ?thesis
    by (cases n) (simp_all add: n pow2_def nat_add_distrib)
qed

lemma pow2_add_nat: "pow2 (k + int n) = 2 ^ n * pow2 k"
proof (induction n)
  case 0
  then show ?case by simp
next
  case (Suc n)
  have "pow2 (k + int (Suc n)) = pow2 ((k + int n) + 1)" by (simp add: algebra_simps)
  then show ?case using Suc by (simp add: pow2_add1)
qed

lemma pow2_less: "i < j \<Longrightarrow> 2 * pow2 i \<le> pow2 j"
proof -
  assume "i < j"
  then obtain n where "j = (i + 1) + int n" by (metis add.commute zle_iff_zadd zless_imp_add1_zle)
  then have "pow2 j = 2 ^ n * (2 * pow2 i)" by (simp only: pow2_add_nat pow2_add1)
  moreover have "1 * (2 * pow2 i) \<le> 2 ^ n * (2 * pow2 i)"
    using less_imp_le [OF pow2_pos [of i]] by (intro mult_right_mono) auto
  ultimately show ?thesis by simp
qed

lemma pow2_diff: "pow2 (int m - int n) = 2 ^ m / 2 ^ n"
proof (cases "n \<le> m")
  case True
  then show ?thesis by (simp add: pow2_def nat_diff_distrib power_diff)
next
  case False
  then show ?thesis
    by (simp add: pow2_def nat_diff_distrib power_diff)
qed

text \<open>\<open>ilog2\<close> brackets its argument between two consecutive powers of two.\<close>

lemma ilog2_bounds:
  assumes "0 < q"
  shows "pow2 (ilog2 q) \<le> q \<and> q < pow2 (ilog2 q + 1)"
proof -
  obtain a b where ab: "quotient_of q = (a, b)" by fastforce
  have b: "0 < b" using ab quotient_of_denom_pos by blast
  have q: "q = of_int a / of_int b" using ab quotient_of_div by blast
  have a: "0 < a" using assms b q by (simp add: zero_less_divide_iff)
  define m n where "m = floorlog 2 (nat a)" and "n = floorlog 2 (nat b)"
  have mpos: "0 < m" using a by (simp add: m_def floorlog_def)
  have npos: "0 < n" using b by (simp add: n_def floorlog_def)
  have mb: "2 ^ (m - 1) \<le> nat a \<and> nat a < 2 ^ m"
    using floorlog_bounds [where b = 2 and x = "nat a"] a
    by (simp_all add: m_def)
  have nb: "2 ^ (n - 1) \<le> nat b \<and> nat b < 2 ^ n"
    using floorlog_bounds [where b = 2 and x = "nat b"] b
    by (simp_all add: n_def)
  have toR: "(2::rat) ^ k \<le> of_int x \<longleftrightarrow> 2 ^ k \<le> nat x"
    "of_int x < (2::rat) ^ k \<longleftrightarrow> nat x < 2 ^ k" if "0 < x" for x k
  proof -
    have e: "(of_int x :: rat) = of_nat (nat x)" using that by simp
    show "(2::rat) ^ k \<le> of_int x \<longleftrightarrow> 2 ^ k \<le> nat x"
      unfolding e by (metis of_nat_le_iff of_nat_numeral of_nat_power)
    show "of_int x < (2::rat) ^ k \<longleftrightarrow> nat x < 2 ^ k"
      unfolding e by (metis of_nat_less_iff of_nat_numeral of_nat_power)
  qed
  have A: "(2::rat) ^ (m - 1) \<le> of_int a" "of_int a < (2::rat) ^ m"
    using toR [OF a] mb by blast+
  have B: "(2::rat) ^ (n - 1) \<le> of_int b" "of_int b < (2::rat) ^ n"
    using toR [OF b] nb by blast+
  have m2: "(2::rat) ^ m = 2 * 2 ^ (m - 1)" and n2: "(2::rat) ^ n = 2 * 2 ^ (n - 1)"
    using mpos npos by (metis Suc_diff_1 power_Suc)+
  define k where "k = int m - int n"
  have kp: "pow2 k = 2 ^ m / 2 ^ n" by (simp add: k_def pow2_diff)
  have bq: "(0::rat) < of_int b" using b by simp
  have hi: "q < pow2 (k + 1)"
  proof -
    have "q * of_int b = of_int a" using q bq by simp
    also have "\<dots> < 2 ^ m" by (rule A(2))
    also have "\<dots> = pow2 k * 2 ^ n" by (simp add: kp)
    also have "\<dots> \<le> pow2 k * (2 * of_int b)" using B(1) n2 by (simp)
    finally have "q * of_int b < (2 * pow2 k) * of_int b" by simp
    then show ?thesis using bq by (simp add: pow2_add1 mult_less_cancel_right)
  qed
  have lo: "pow2 (k - 1) \<le> q"
  proof -
    have "pow2 (k - 1) * of_int b \<le> pow2 (k - 1) * 2 ^ n" using B(2) by simp
    also have "\<dots> = 2 ^ (m - 1)"
      using pow2_add1 [of "k - 1"] kp m2 by (simp add: field_simps)
    also have "\<dots> \<le> of_int a" by (rule A(1))
    also have "\<dots> = q * of_int b" using q bq by simp
    finally show ?thesis using bq by (simp add: mult_le_cancel_right)
  qed
  show ?thesis
  proof (cases "pow2 k \<le> q")
    case True
    then have "ilog2 q = k" by (simp add: ilog2_def ab k_def m_def n_def)
    with True hi show ?thesis by simp
  next
    case False
    then have "ilog2 q = k - 1" by (simp add: ilog2_def ab k_def m_def n_def)
    with False lo show ?thesis by simp
  qed
qed

lemma ilog2_unique:
  assumes "pow2 k \<le> q" "q < pow2 (k + 1)"
  shows "ilog2 q = k"
proof -
  have q: "0 < q" using assms(1) pow2_pos [of k] by linarith
  note B = ilog2_bounds [OF q]
  have "\<not> ilog2 q < k"
    using pow2_less [of "ilog2 q" k] B assms(1) by (auto simp: pow2_add1)
  moreover have "\<not> k < ilog2 q"
    using pow2_less [of k "ilog2 q"] B assms(2) by (auto simp: pow2_add1)
  ultimately show ?thesis by simp
qed

lemma round_even_near: "\<bar>m - of_int n\<bar> < 1 / 2 \<Longrightarrow> round_even m = n"
proof -
  assume h: "\<bar>m - of_int n\<bar> < 1 / 2"
  show ?thesis
  proof (cases "of_int n \<le> m")
    case True
    then have "\<lfloor>m\<rfloor> = n" using h by (intro floor_unique) auto
    with h True show ?thesis by (simp add: round_even_def)
  next
    case False
    then have "\<lfloor>m\<rfloor> = n - 1" using h by (intro floor_unique) auto
    with h False show ?thesis by (simp add: round_even_def)
  qed
qed

lemma round_even_error: "\<bar>m - of_int (round_even m)\<bar> \<le> 1 / 2"
proof -
  have "of_int \<lfloor>m\<rfloor> \<le> m" "m < of_int \<lfloor>m\<rfloor> + 1" by linarith+
  then show ?thesis by (auto simp: round_even_def Let_def)
qed

text \<open>
  Closed evaluation: \<open>n\<close> units of \<open>2 ^ (k - 52)\<close> is the float nearest to \<open>q\<close> when \<open>q\<close> lies in
  the binade of \<open>k\<close> and less than half a unit away.
\<close>

lemma f64_eqI:
  assumes "pow2 k \<le> q" "q < pow2 (k + 1)" "\<bar>q / pow2 (k - 52) - of_int n\<bar> < 1 / 2"
  shows "f64 q = of_int n * pow2 (k - 52)"
proof -
  have "0 < q" using assms(1) pow2_pos [of k] by linarith
  then show ?thesis
    using ilog2_unique [OF assms(1,2)] round_even_near [OF assms(3)]
    by (simp add: f64_def Let_def)
qed

lemma f64_0 [simp]: "f64 0 = 0"
  by (simp add: f64_def)

text \<open>The relative error of one rounding is at most \<open>2 ^ -53\<close>.\<close>

lemma f64_error: "\<bar>f64 q - q\<bar> \<le> \<bar>q\<bar> / 2 ^ 53"
proof (cases "q = 0")
  case True
  then show ?thesis by simp
next
  case False
  define u where "u = pow2 (ilog2 \<bar>q\<bar> - 52)"
  have u: "0 < u" by (simp add: u_def)
  have "pow2 (ilog2 \<bar>q\<bar>) \<le> \<bar>q\<bar>" using ilog2_bounds [of "\<bar>q\<bar>"] False by simp
  then have uq: "2 ^ 52 * u \<le> \<bar>q\<bar>"
    using pow2_add_nat [of "ilog2 \<bar>q\<bar> - 52" 52] by (simp add: u_def)
  have q: "q = sgn q * \<bar>q\<bar>" by (simp add: sgn_mult_abs)
  have "f64 q - q = sgn q * (of_int (round_even (\<bar>q\<bar> / u)) * u - \<bar>q\<bar>)"
    using False q by (simp add: f64_def Let_def u_def algebra_simps)
  then have "\<bar>f64 q - q\<bar> = \<bar>of_int (round_even (\<bar>q\<bar> / u)) * u - \<bar>q\<bar>\<bar>"
    using False by (simp add: abs_mult)
  also have "\<dots> = \<bar>\<bar>q\<bar> / u - of_int (round_even (\<bar>q\<bar> / u))\<bar> * u"
  proof -
    have "of_int (round_even (\<bar>q\<bar> / u)) * u - \<bar>q\<bar> = - (\<bar>q\<bar> / u - of_int (round_even (\<bar>q\<bar> / u))) * u"
      using u by (simp add: field_simps)
    then show ?thesis using u by (simp only: abs_mult abs_minus_cancel) simp
  qed
  also have "\<dots> \<le> 1 / 2 * u"
    using round_even_error u by (intro mult_right_mono) auto
  also have "\<dots> \<le> \<bar>q\<bar> / 2 ^ 53" using uq by simp
  finally show ?thesis .
qed

section \<open>Decimal text\<close>

text \<open>
  \<open>strconv.Itoa\<close>, and \<open>strconv.FormatFloat(x, 'f', -1, 64)\<close>: the fewest significant decimal
  digits whose decimal value rounds back to the same float (seventeen always do), written
  without an exponent.
\<close>

fun decimal :: "nat \<Rightarrow> string" where
  "decimal n = (if n < 10 then [char_of (48 + n)] else decimal (n div 10) @ [char_of (48 + n mod 10)])"

declare decimal.simps [simp del]

definition itoa :: "int \<Rightarrow> string" where
  "itoa i = (if i < 0 then CHR ''-'' # decimal (nat (- i)) else decimal (nat i))"

definition pow10 :: "int \<Rightarrow> rat" where
  "pow10 k = (if 0 \<le> k then 10 ^ nat k else 1 / 10 ^ nat (- k))"

definition ilog10 :: "rat \<Rightarrow> int" where
  "ilog10 q = (let (a, b) = quotient_of q; k = int (floorlog 10 (nat a)) - int (floorlog 10 (nat b))
               in if pow10 k \<le> q then k else k - 1)"

definition round_digits :: "nat \<Rightarrow> rat \<Rightarrow> int \<times> int" where
  "round_digits p x = (let e = ilog10 x; m = round_even (x / pow10 (e - int p + 1))
                       in if m = 10 ^ p then (10 ^ (p - 1), e + 1) else (m, e))"

definition shortest_digits :: "float64 \<Rightarrow> nat \<times> int \<times> int" where
  "shortest_digits x =
     (case find (\<lambda>p. let (m, e) = round_digits p x in f64 (of_int m * pow10 (e - int p + 1)) = x) [1..<17]
      of Some p \<Rightarrow> (p, round_digits p x) | None \<Rightarrow> (17, round_digits 17 x))"

definition format_pos :: "float64 \<Rightarrow> string" where
  "format_pos x =
     (let (p, m, e) = shortest_digits x; ds = decimal (nat m)
      in if e < 0 then ''0.'' @ replicate (nat (- e - 1)) (CHR ''0'') @ ds
         else if int p \<le> e + 1 then ds @ replicate (nat (e + 1 - int p)) (CHR ''0'')
         else take (nat (e + 1)) ds @ ''.'' @ drop (nat (e + 1)) ds)"

definition format_float :: "float64 \<Rightarrow> string" where
  "format_float x = (if x = 0 then ''0'' else if x < 0 then CHR ''-'' # format_pos (- x) else format_pos x)"

lemma decimal_digits: "\<forall>c \<in> set (decimal n). is_digit c"
proof (induction n rule: decimal.induct)
  case (1 n)
  have d: "is_digit (char_of (48 + k))" if "k < 10" for k :: nat
    using that by (simp add: is_digit_def of_char_of)
  show ?case
    using 1 d [of n] d [of "n mod 10"] by (subst decimal.simps) auto
qed

lemma decimal_nonempty [simp]: "decimal n \<noteq> []"
  by (subst decimal.simps) simp

end
