(* ===== verification/Schema.thy ===== *)
theory Schema
  imports Float64
begin

text \<open>
  The rows and constraints of the SQLite database (\<open>internal/db/migrations\<close>, row structs in
  \<open>internal/db/sqlcgen/models.go\<close>) that the lineage graph, the scanner's commit and the prune
  engine share. A table is the list of its rows in rowid order; columns with a closed \<open>CHECK\<close>
  list that the code only writes as constants are datatypes, the others keep their Go type
  (\<open>int64\<close> as \<open>int\<close>, nullable columns as options). \<open>db_clock\<close> is what \<open>unixepoch()\<close> returns to the
  statements of the current transaction. A statement that breaks a constraint fails with a
  \<open>db_error\<close> and changes nothing; failures of the disk or of the connection are not modelled.
\<close>

datatype lifecycle = ACTIVE | MISSING | ARCHIVED | HIDDEN | TRASHED
datatype indexing_status = PENDING | INDEXED_SHALLOW | INDEXED_FULL | INDEX_FAILED
datatype graph_status = UNLINKED | LINKED | GRAPH_NEEDS_REVIEW | ROOT
datatype review_state = AUTO_ACCEPTED | NEEDS_REVIEW | CONFIRMED | REJECTED
datatype thumb_state = THUMB_PENDING | THUMB_READY | THUMB_UNSUPPORTED | THUMB_FAILED
datatype hash_source = SERVER | AGENT
datatype storage_tier = TIER0_LOCAL_STAGING | TIER1_LOCAL_SCRATCH | TIER2_EXPORTS
  | TIER3_MASTER_ARCHIVE | PROJECTS

record media_node =
  n_id :: int
  n_uuid :: string
  n_loc :: int
  n_path :: string
  n_name :: string
  n_ext :: string
  n_size :: int
  n_mtime :: int
  n_fast :: "string option"
  n_full :: "string option"
  n_phash :: "64 word option"
  n_indexing :: indexing_status
  n_graph :: graph_status
  n_life :: lifecycle
  n_superseded :: "int option"
  n_origdoc :: "string option"
  n_doc :: "string option"
  n_derived :: "string option"
  n_captured :: "int option"
  n_camera :: "string option"
  n_stem :: "string option"
  n_first_seen :: int
  n_last_seen :: int
  n_created :: int
  n_updated :: int
  n_serial :: "string option"
  n_lens :: "string option"
  n_thumb :: thumb_state
  n_attempts :: int
  n_srchash :: "string option"
  n_uploader :: "int option"

text \<open>Evidence is the Go \<open>map[string]any\<close> a resolver fills; the column holds its JSON text.\<close>

datatype evidence =
    EvString string
  | EvBool bool
  | EvInt int
  | EvFloat float64
  | EvObject "(string \<times> evidence) list"

record media_edge =
  e_id :: int
  e_source :: int
  e_target :: int
  e_rel :: string
  e_conf :: float64
  e_tier :: int
  e_resolver :: string
  e_evidence :: evidence
  e_review :: review_state
  e_reviewed_at :: "int option"
  e_reviewed_by :: "string option"
  e_created :: int
  e_updated :: int
  e_active :: bool

record hash_provenance =
  p_node :: int
  p_full :: string
  p_source :: hash_source
  p_recorded :: int
  p_rehash_state :: "string option"
  p_rehash_checked :: "int option"
  p_rehash_attempts :: int
  p_rehash_computed :: "string option"
  p_rehash_mismatches :: int
  p_rehash_retry :: "int option"

record node_metadatum =
  md_node :: int
  md_source :: string
  md_key :: string
  md_value :: string

record storage_location =
  l_id :: int
  l_name :: string
  l_root :: string
  l_tier :: storage_tier
  l_readonly :: bool
  l_prunable :: bool
  l_active :: bool
  l_ttl_hours :: int
  l_virtual :: bool

record db =
  db_nodes :: "media_node list"
  db_edges :: "media_edge list"
  db_provs :: "hash_provenance list"
  db_meta :: "node_metadatum list"
  db_locs :: "storage_location list"
  db_users :: "int list"
  db_clock :: int

datatype db_error = UniqueNodeKey | UniqueLivePath | UniqueLiveFullHash | NodeCheck | NodeForeignKey
  | EdgeKey | EdgeCheck | EdgeForeignKey | ProvenanceCheck | MetadataCheck | NoRows | MintUuid

section \<open>Row predicates of the partial indexes\<close>

definition retired :: "media_node \<Rightarrow> bool" where
  "retired n \<longleftrightarrow> n_life n = ARCHIVED \<or> n_life n = TRASHED"

text \<open>\<open>lifecycle_state IN ('ACTIVE','HIDDEN')\<close>\<close>

definition visible :: "media_node \<Rightarrow> bool" where
  "visible n \<longleftrightarrow> n_life n = ACTIVE \<or> n_life n = HIDDEN"

text \<open>The rows of \<open>ux_media_nodes_live_full_hash\<close>.\<close>

definition hash_indexed :: "media_node \<Rightarrow> bool" where
  "hash_indexed n \<longleftrightarrow> visible n \<and> n_full n \<noteq> None \<and> n_full n \<noteq> Some ''''"

definition opt_len :: "nat \<Rightarrow> string option \<Rightarrow> bool" where
  "opt_len k v = (case v of None \<Rightarrow> True | Some s \<Rightarrow> length s = k)"

definition node_check :: "media_node \<Rightarrow> bool" where
  "node_check n \<longleftrightarrow> opt_len 16 (n_fast n) \<and> opt_len 64 (n_full n) \<and> opt_len 64 (n_srchash n) \<and>
     n_superseded n \<noteq> Some (n_id n) \<and> (n_superseded n \<noteq> None \<longrightarrow> n_life n = ARCHIVED)"

definition node_fk :: "db \<Rightarrow> media_node \<Rightarrow> bool" where
  "node_fk d n \<longleftrightarrow> n_loc n \<in> l_id ` set (db_locs d) \<and>
     (case n_superseded n of None \<Rightarrow> True | Some i \<Rightarrow> i \<in> n_id ` set (db_nodes d)) \<and>
     (case n_uploader n of None \<Rightarrow> True | Some u \<Rightarrow> u \<in> set (db_users d))"

text \<open>No two different rows among those that satisfy \<open>P\<close> share the value of \<open>g\<close>.\<close>

definition unique_on :: "(media_node \<Rightarrow> bool) \<Rightarrow> (media_node \<Rightarrow> 'k) \<Rightarrow> media_node list \<Rightarrow> bool" where
  "unique_on P g ns \<longleftrightarrow>
     (\<forall>m \<in> set ns. \<forall>n \<in> set ns. P m \<longrightarrow> P n \<longrightarrow> g m = g n \<longrightarrow> n_id m = n_id n)"

definition node_violation :: "db \<Rightarrow> db_error option" where
  "node_violation d =
     (let ns = db_nodes d
      in if \<not> distinct (map n_id ns) \<or> \<not> distinct (map n_uuid ns) then Some UniqueNodeKey
         else if \<not> unique_on (\<lambda>n. \<not> retired n) n_path ns then Some UniqueLivePath
         else if \<not> unique_on hash_indexed n_full ns then Some UniqueLiveFullHash
         else if \<not> list_all node_check ns then Some NodeCheck
         else if \<not> list_all (node_fk d) ns then Some NodeForeignKey
         else None)"

definition edge_check :: "media_edge \<Rightarrow> bool" where
  "edge_check e \<longleftrightarrow>
     e_rel e \<in> {''DERIVED_FROM'', ''FINAL_EXPORT'', ''PROXY_OF'', ''PROJECT_SIDECAR'', ''DUPLICATE_OF''} \<and>
     0 \<le> e_conf e \<and> e_conf e \<le> 1 \<and> e_tier e \<in> {1, 2, 3} \<and> e_source e \<noteq> e_target e \<and>
     (e_review e \<in> {CONFIRMED, REJECTED} \<longrightarrow> e_reviewed_at e \<noteq> None)"

definition edge_key :: "media_edge \<Rightarrow> int \<times> int \<times> string" where
  "edge_key e = (e_source e, e_target e, e_rel e)"

definition edge_violation :: "db \<Rightarrow> db_error option" where
  "edge_violation d =
     (let es = db_edges d; ids = n_id ` set (db_nodes d)
      in if \<not> distinct (map e_id es) \<or> \<not> distinct (map edge_key es) then Some EdgeKey
         else if \<not> list_all edge_check es then Some EdgeCheck
         else if \<not> list_all (\<lambda>e. e_source e \<in> ids \<and> e_target e \<in> ids) es then Some EdgeForeignKey
         else None)"

text \<open>The state of a database whose node and edge tables satisfy every constraint.\<close>

definition db_ok :: "db \<Rightarrow> bool" where
  "db_ok d \<longleftrightarrow> node_violation d = None \<and> edge_violation d = None"

section \<open>Statements\<close>

text \<open>The rowid of a new row: one more than the largest, from 1.\<close>

definition next_rowid :: "int list \<Rightarrow> int" where
  "next_rowid ids = fold max ids 0 + 1"

definition checked_nodes :: "db \<Rightarrow> db_error + db" where
  "checked_nodes d = (case node_violation d of None \<Rightarrow> Inr d | Some e \<Rightarrow> Inl e)"

definition update_nodes :: "(media_node \<Rightarrow> bool) \<Rightarrow> (media_node \<Rightarrow> media_node) \<Rightarrow> db \<Rightarrow> db_error + db" where
  "update_nodes P f d = checked_nodes (d\<lparr>db_nodes := map (\<lambda>n. if P n then f n else n) (db_nodes d)\<rparr>)"

definition checked_edges :: "db \<Rightarrow> db_error + db" where
  "checked_edges d = (case edge_violation d of None \<Rightarrow> Inr d | Some e \<Rightarrow> Inl e)"

definition update_edges :: "(media_edge \<Rightarrow> bool) \<Rightarrow> (media_edge \<Rightarrow> media_edge) \<Rightarrow> db \<Rightarrow> db_error + db" where
  "update_edges P f d = checked_edges (d\<lparr>db_edges := map (\<lambda>e. if P e then f e else e) (db_edges d)\<rparr>)"

section \<open>Reading the constraints back\<close>

lemma next_rowid_fresh: "i \<in> set ids \<Longrightarrow> i < next_rowid ids"
proof -
  have mono: "a \<le> fold max xs a" for xs and a :: int
    by (induction xs arbitrary: a) (auto intro: order_trans [OF max.cobounded2])
  have "x \<in> set xs \<Longrightarrow> x \<le> fold max xs a" for xs and a x :: int
    by (induction xs arbitrary: a) (auto intro: order_trans [OF _ mono])
  then show "i \<in> set ids \<Longrightarrow> i < next_rowid ids"
    by (fastforce simp: next_rowid_def)
qed

lemma node_violation_None:
  "node_violation d = None \<longleftrightarrow>
     distinct (map n_id (db_nodes d)) \<and> distinct (map n_uuid (db_nodes d)) \<and>
     unique_on (\<lambda>n. \<not> retired n) n_path (db_nodes d) \<and> unique_on hash_indexed n_full (db_nodes d) \<and>
     (\<forall>n \<in> set (db_nodes d). node_check n) \<and> (\<forall>n \<in> set (db_nodes d). node_fk d n)"
  by (auto simp: node_violation_def Let_def list_all_iff)

lemma edge_violation_None:
  "edge_violation d = None \<longleftrightarrow>
     distinct (map e_id (db_edges d)) \<and> distinct (map edge_key (db_edges d)) \<and>
     (\<forall>e \<in> set (db_edges d). edge_check e) \<and>
     (\<forall>e \<in> set (db_edges d). e_source e \<in> n_id ` set (db_nodes d) \<and> e_target e \<in> n_id ` set (db_nodes d))"
  by (auto simp: edge_violation_def Let_def list_all_iff)

lemma checked_nodes_Inr [result_simps]: "checked_nodes d = Inr d' \<longleftrightarrow> d' = d \<and> node_violation d = None"
  by (auto simp: checked_nodes_def split: option.splits)

lemma checked_edges_Inr [result_simps]: "checked_edges d = Inr d' \<longleftrightarrow> d' = d \<and> edge_violation d = None"
  by (auto simp: checked_edges_def split: option.splits)

lemma unique_onD:
  "unique_on P g ns \<Longrightarrow> m \<in> set ns \<Longrightarrow> n \<in> set ns \<Longrightarrow> P m \<Longrightarrow> P n \<Longrightarrow> g m = g n \<Longrightarrow> n_id m = n_id n"
  unfolding unique_on_def by blast

lemma node_same_id:
  "node_violation d = None \<Longrightarrow> m \<in> set (db_nodes d) \<Longrightarrow> n \<in> set (db_nodes d) \<Longrightarrow> n_id m = n_id n \<Longrightarrow> m = n"
  unfolding node_violation_None by (elim conjE) (rule distinct_map_eqD)

lemma edge_same_key:
  "edge_violation d = None \<Longrightarrow> a \<in> set (db_edges d) \<Longrightarrow> b \<in> set (db_edges d) \<Longrightarrow> edge_key a = edge_key b \<Longrightarrow> a = b"
  unfolding edge_violation_None by (elim conjE) (rule distinct_map_eqD)

end
