(* ===== verification/NodeQueries.thy ===== *)
theory NodeQueries
  imports Schema
begin

text \<open>
  The statements of \<open>internal/db/sqlcgen\<close> on \<open>media_nodes\<close>, \<open>full_hash_provenance\<close> and
  \<open>node_metadata\<close> that the commit stage, the lineage engine and the prune engine run, one
  definition per statement, with the lemmas that say which of them can break a constraint.
  A query without \<open>ORDER BY\<close> returns its rows in rowid order, the order SQLite reads both the
  table and a single-key index in.
\<close>

section \<open>Selecting nodes\<close>

definition nodes_where :: "(media_node \<Rightarrow> bool) \<Rightarrow> db \<Rightarrow> media_node list" where
  "nodes_where P d = filter P (db_nodes d)"

definition get_node :: "int \<Rightarrow> db \<Rightarrow> media_node option" where
  "get_node i d = find (\<lambda>n. n_id n = i) (db_nodes d)"

definition GetLiveNodeByPath :: "string \<Rightarrow> db \<Rightarrow> media_node option" where
  "GetLiveNodeByPath p d = find (\<lambda>n. n_path n = p \<and> \<not> retired n) (db_nodes d)"

definition GetLatestNodeByPath :: "string \<Rightarrow> db \<Rightarrow> media_node option" where
  "GetLatestNodeByPath p d = find (\<lambda>n. n_path n = p) (rev (sort_key n_id (db_nodes d)))"

definition GetMediaNodeByFullHash :: "string option \<Rightarrow> db \<Rightarrow> media_node option" where
  "GetMediaNodeByFullHash h d = find (\<lambda>n. h \<noteq> None \<and> n_full n = h \<and> visible n) (db_nodes d)"

definition ListLiveNodesByDocumentID :: "string \<Rightarrow> nat \<Rightarrow> db \<Rightarrow> media_node list" where
  "ListLiveNodesByDocumentID s k d = take k (nodes_where (\<lambda>n. n_doc n = Some s \<and> \<not> retired n) d)"

definition ListLiveNodesByFileName :: "string \<Rightarrow> nat \<Rightarrow> db \<Rightarrow> media_node list" where
  "ListLiveNodesByFileName s k d = take k (nodes_where (\<lambda>n. n_name n = s \<and> \<not> retired n) d)"

definition ListLiveNodesByFilenameStem :: "string \<Rightarrow> nat \<Rightarrow> db \<Rightarrow> media_node list" where
  "ListLiveNodesByFilenameStem s k d = take k (nodes_where (\<lambda>n. n_stem n = Some s \<and> \<not> retired n) d)"

definition ListMissingNodesByFastHash :: "string option \<Rightarrow> db \<Rightarrow> media_node list" where
  "ListMissingNodesByFastHash h d =
     take 8 (sort_key n_id (nodes_where (\<lambda>n. h \<noteq> None \<and> n_fast n = h \<and> n_life n = MISSING) d))"

definition between :: "int \<Rightarrow> int \<Rightarrow> int option \<Rightarrow> bool" where
  "between lo hi t = (case t of None \<Rightarrow> False | Some v \<Rightarrow> lo \<le> v \<and> v \<le> hi)"

definition ListTier3Candidates :: "string \<Rightarrow> int \<Rightarrow> int \<Rightarrow> int \<Rightarrow> db \<Rightarrow> media_node list" where
  "ListTier3Candidates serial lo hi self d =
     nodes_where (\<lambda>n. n_serial n = Some serial \<and> between lo hi (n_captured n) \<and> n_id n \<noteq> self \<and> \<not> retired n) d"

section \<open>Changing nodes\<close>

record new_node =
  i_uuid :: string
  i_loc :: int
  i_path :: string
  i_name :: string
  i_ext :: string
  i_size :: int
  i_mtime :: int
  i_fast :: "string option"
  i_full :: "string option"
  i_phash :: "64 word option"
  i_indexing :: indexing_status
  i_graph :: graph_status
  i_life :: lifecycle
  i_origdoc :: "string option"
  i_doc :: "string option"
  i_derived :: "string option"
  i_captured :: "int option"
  i_camera :: "string option"
  i_stem :: "string option"
  i_serial :: "string option"
  i_lens :: "string option"
  i_srchash :: "string option"
  i_uploader :: "int option"

definition node_row :: "int \<Rightarrow> int \<Rightarrow> new_node \<Rightarrow> media_node" where
  "node_row i now a = \<lparr>n_id = i, n_uuid = i_uuid a, n_loc = i_loc a, n_path = i_path a,
     n_name = i_name a, n_ext = i_ext a, n_size = i_size a, n_mtime = i_mtime a,
     n_fast = i_fast a, n_full = i_full a, n_phash = i_phash a, n_indexing = i_indexing a,
     n_graph = i_graph a, n_life = i_life a, n_superseded = None, n_origdoc = i_origdoc a,
     n_doc = i_doc a, n_derived = i_derived a, n_captured = i_captured a, n_camera = i_camera a,
     n_stem = i_stem a, n_first_seen = now, n_last_seen = now, n_created = now, n_updated = now,
     n_serial = i_serial a, n_lens = i_lens a, n_thumb = THUMB_PENDING, n_attempts = 0,
     n_srchash = i_srchash a, n_uploader = i_uploader a\<rparr>"

definition InsertMediaNode :: "new_node \<Rightarrow> db \<Rightarrow> db_error + (media_node \<times> db)" where
  "InsertMediaNode a d =
     (let n = node_row (next_rowid (map n_id (db_nodes d))) (db_clock d) a
      in rbind (checked_nodes (d\<lparr>db_nodes := db_nodes d @ [n]\<rparr>)) (\<lambda>d'. Inr (n, d')))"

definition ArchiveMediaNode :: "int \<Rightarrow> db \<Rightarrow> db_error + db" where
  "ArchiveMediaNode i d = update_nodes (\<lambda>n. n_id n = i)
     (\<lambda>n. n\<lparr>n_life := ARCHIVED, n_updated := db_clock d\<rparr>) d"

definition SetSupersededBy :: "int \<Rightarrow> int option \<Rightarrow> db \<Rightarrow> db_error + db" where
  "SetSupersededBy i s d = update_nodes (\<lambda>n. n_id n = i)
     (\<lambda>n. n\<lparr>n_superseded := s, n_updated := db_clock d\<rparr>) d"

definition TouchMediaNode :: "int \<Rightarrow> int \<Rightarrow> db \<Rightarrow> db_error + db" where
  "TouchMediaNode i mt d = update_nodes (\<lambda>n. n_id n = i \<and> \<not> retired n)
     (\<lambda>n. n\<lparr>n_mtime := mt, n_last_seen := db_clock d,
            n_life := (if n_life n = MISSING then ACTIVE else n_life n), n_updated := db_clock d\<rparr>) d"

definition RebaseMissingNodePath :: "int \<Rightarrow> string \<Rightarrow> string \<Rightarrow> int \<Rightarrow> int \<Rightarrow> db \<Rightarrow> db_error + db" where
  "RebaseMissingNodePath i p nm loc mt d = update_nodes (\<lambda>n. n_id n = i \<and> \<not> retired n)
     (\<lambda>n. n\<lparr>n_path := p, n_name := nm, n_loc := loc, n_life := ACTIVE, n_mtime := mt,
            n_last_seen := db_clock d, n_updated := db_clock d\<rparr>) d"

definition MarkNodeMissing :: "int \<Rightarrow> db \<Rightarrow> db_error + db" where
  "MarkNodeMissing i d = update_nodes (\<lambda>n. n_id n = i \<and> visible n)
     (\<lambda>n. n\<lparr>n_life := MISSING, n_updated := db_clock d\<rparr>) d"

definition UpdateMediaNodeFullHash :: "int \<Rightarrow> string option \<Rightarrow> db \<Rightarrow> db_error + db" where
  "UpdateMediaNodeFullHash i h d = update_nodes (\<lambda>n. n_id n = i)
     (\<lambda>n. n\<lparr>n_full := h, n_indexing := INDEXED_FULL, n_updated := db_clock d\<rparr>) d"

definition ClearMediaNodeFullHash :: "int \<Rightarrow> db \<Rightarrow> db_error + db" where
  "ClearMediaNodeFullHash i d = update_nodes (\<lambda>n. n_id n = i)
     (\<lambda>n. n\<lparr>n_full := None,
            n_indexing := (if n_indexing n = INDEXED_FULL then INDEXED_SHALLOW else n_indexing n),
            n_updated := db_clock d\<rparr>) d"

definition UpdateMediaNodeGraphStatus :: "int \<Rightarrow> graph_status \<Rightarrow> db \<Rightarrow> db_error + db" where
  "UpdateMediaNodeGraphStatus i g d = update_nodes (\<lambda>n. n_id n = i)
     (\<lambda>n. n\<lparr>n_graph := g, n_updated := db_clock d\<rparr>) d"

record promoted =
  pc_origdoc :: "string option"
  pc_doc :: "string option"
  pc_derived :: "string option"
  pc_camera :: "string option"
  pc_serial :: "string option"
  pc_lens :: "string option"
  pc_captured :: "int option"

definition UpdateMediaNodePromotedColumns :: "int \<Rightarrow> promoted \<Rightarrow> db \<Rightarrow> db_error + db" where
  "UpdateMediaNodePromotedColumns i p d = update_nodes (\<lambda>n. n_id n = i)
     (\<lambda>n. n\<lparr>n_origdoc := pc_origdoc p, n_doc := pc_doc p, n_derived := pc_derived p,
            n_camera := pc_camera p, n_serial := pc_serial p, n_lens := pc_lens p,
            n_captured := pc_captured p, n_updated := db_clock d\<rparr>) d"

section \<open>Provenance of the full hash\<close>

definition DeleteFullHashProvenance :: "int \<Rightarrow> string \<Rightarrow> db \<Rightarrow> db" where
  "DeleteFullHashProvenance i h d =
     d\<lparr>db_provs := filter (\<lambda>p. \<not> (p_node p = i \<and> p_full p = h)) (db_provs d)\<rparr>"

definition GetFullHashProvenance :: "int \<Rightarrow> db \<Rightarrow> hash_provenance option" where
  "GetFullHashProvenance i d = find (\<lambda>p. p_node p = i) (db_provs d)"

definition merge_prov :: "hash_provenance \<Rightarrow> hash_provenance \<Rightarrow> hash_provenance" where
  "merge_prov old ex =
     (let same = (p_full old = p_full ex); keep = (p_source ex = AGENT \<and> same)
      in \<lparr>p_node = p_node old, p_full = p_full ex,
          p_source = (if p_source ex = SERVER then SERVER
                      else if same \<and> p_source old = SERVER then SERVER else AGENT),
          p_recorded = (if same \<and> p_source old = p_source ex then p_recorded old else p_recorded ex),
          p_rehash_state = (if keep then p_rehash_state old else None),
          p_rehash_checked = (if keep then p_rehash_checked old else None),
          p_rehash_attempts = (if keep then p_rehash_attempts old else 0),
          p_rehash_computed = (if keep then p_rehash_computed old else None),
          p_rehash_mismatches = (if keep then p_rehash_mismatches old else 0),
          p_rehash_retry = (if keep then p_rehash_retry old else None)\<rparr>)"

definition new_prov :: "int \<Rightarrow> string \<Rightarrow> hash_source \<Rightarrow> int \<Rightarrow> hash_provenance" where
  "new_prov i h src now = \<lparr>p_node = i, p_full = h, p_source = src, p_recorded = now,
     p_rehash_state = None, p_rehash_checked = None, p_rehash_attempts = 0,
     p_rehash_computed = None, p_rehash_mismatches = 0, p_rehash_retry = None\<rparr>"

definition RecordFullHashProvenance :: "int \<Rightarrow> string \<Rightarrow> hash_source \<Rightarrow> db \<Rightarrow> db" where
  "RecordFullHashProvenance i h src d =
     (let ex = new_prov i h src (db_clock d)
      in d\<lparr>db_provs :=
            (if \<exists>p \<in> set (db_provs d). p_node p = i
             then map (\<lambda>p. if p_node p = i then merge_prov p ex else p) (db_provs d)
             else db_provs d @ [ex])\<rparr>)"

text \<open>\<open>db.RecordFullHashSource\<close>: no row for a hash that is absent or not 64 characters.\<close>

definition RecordFullHashSource :: "int \<Rightarrow> string option \<Rightarrow> hash_source \<Rightarrow> db \<Rightarrow> db" where
  "RecordFullHashSource i h src d =
     (case h of None \<Rightarrow> d
      | Some s \<Rightarrow> if length s \<noteq> 64 then d else RecordFullHashProvenance i s src d)"

definition MarkRehashMatched :: "int \<Rightarrow> string \<Rightarrow> db \<Rightarrow> nat \<times> db" where
  "MarkRehashMatched i h d =
     (let hit = (\<lambda>p. p_node p = i \<and> p_full p = h \<and> p_source p = AGENT)
      in (length (filter hit (db_provs d)),
          d\<lparr>db_provs := map (\<lambda>p. if hit p then p\<lparr>p_source := SERVER, p_recorded := db_clock d,
              p_rehash_state := None, p_rehash_computed := None, p_rehash_mismatches := 0,
              p_rehash_retry := None, p_rehash_checked := Some (db_clock d),
              p_rehash_attempts := p_rehash_attempts p + 1\<rparr> else p) (db_provs d)\<rparr>))"

text \<open>What the prune engine calls a verified hash: the server vouches for the current value.\<close>

definition vouched :: "db \<Rightarrow> media_node \<Rightarrow> bool" where
  "vouched d n =
     (case n_full n of
        None \<Rightarrow> False
      | Some h \<Rightarrow> length h = 64 \<and>
          (\<exists>p \<in> set (db_provs d). p_node p = n_id n \<and> p_source p = SERVER \<and> p_full p = h))"

lemma vouched_iff: "vouched d n \<longleftrightarrow> (\<exists>h. n_full n = Some h \<and> length h = 64 \<and>
     (\<exists>p \<in> set (db_provs d). p_node p = n_id n \<and> p_source p = SERVER \<and> p_full p = h))"
  by (simp add: vouched_def split: option.splits)

section \<open>Metadata rows\<close>

definition md_key3 :: "node_metadatum \<Rightarrow> int \<times> string \<times> string" where
  "md_key3 m = (md_node m, md_source m, md_key m)"

definition InsertNodeMetadata :: "int \<Rightarrow> string \<Rightarrow> string \<Rightarrow> string \<Rightarrow> db \<Rightarrow> db" where
  "InsertNodeMetadata i src k v d =
     (if \<exists>m \<in> set (db_meta d). md_key3 m = (i, src, k)
      then d\<lparr>db_meta := map (\<lambda>m. if md_key3 m = (i, src, k) then m\<lparr>md_value := v\<rparr> else m) (db_meta d)\<rparr>
      else d\<lparr>db_meta := db_meta d @ [\<lparr>md_node = i, md_source = src, md_key = k, md_value = v\<rparr>]\<rparr>)"

definition ListNodeMetadata :: "int \<Rightarrow> db \<Rightarrow> node_metadatum list" where
  "ListNodeMetadata i d =
     sort_key md_source (sort_key md_key (filter (\<lambda>m. md_node m = i) (db_meta d)))"

section \<open>What the statements leave alone\<close>

lemma update_nodes_Inr:
  "update_nodes P f d = Inr d' \<longleftrightarrow>
     d' = d\<lparr>db_nodes := map (\<lambda>n. if P n then f n else n) (db_nodes d)\<rparr> \<and> node_violation d' = None"
  by (auto simp: update_nodes_def result_simps)

lemma edge_violation_cong:
  "db_edges d' = db_edges d \<Longrightarrow> n_id ` set (db_nodes d') = n_id ` set (db_nodes d) \<Longrightarrow>
   edge_violation d' = edge_violation d"
  by (simp add: edge_violation_def)

lemma node_violation_cong:
  "db_nodes d' = db_nodes d \<Longrightarrow> db_locs d' = db_locs d \<Longrightarrow> db_users d' = db_users d \<Longrightarrow>
   node_violation d' = node_violation d"
proof -
  assume "db_nodes d' = db_nodes d" "db_locs d' = db_locs d" "db_users d' = db_users d"
  moreover from this have "node_fk d' = node_fk d" by (intro ext) (simp add: node_fk_def split: option.splits)
  ultimately show ?thesis by (simp add: node_violation_def Let_def)
qed

text \<open>An update that keeps the ids of the rows keeps the whole database consistent if it succeeds.\<close>

lemma update_nodes_ids:
  assumes "update_nodes P f d = Inr d'" "\<And>n. n_id (f n) = n_id n"
  shows "map n_id (db_nodes d') = map n_id (db_nodes d)"
  using assms by (simp add: update_nodes_Inr)

lemma update_nodes_ok:
  assumes "update_nodes P f d = Inr d'" "\<And>n. n_id (f n) = n_id n" "db_ok d"
  shows "db_ok d'"
proof -
  have "n_id ` set (db_nodes d') = n_id ` set (db_nodes d)"
    using update_nodes_ids [OF assms(1,2)] by (metis list.set_map)
  moreover have "db_edges d' = db_edges d" using assms(1) by (simp add: update_nodes_Inr)
  ultimately have "edge_violation d' = edge_violation d" by (rule edge_violation_cong [rotated])
  then show ?thesis using assms(1,3) by (metis db_ok_def update_nodes_Inr)
qed

text \<open>
  An update that cannot break a constraint: it keeps the identity and the path, revives no
  retired row, gives no row a hash the live-hash index did not already hold for it, and keeps
  the row's own checks.
\<close>

definition tame :: "(media_node \<Rightarrow> media_node) \<Rightarrow> bool" where
  "tame f \<longleftrightarrow> (\<forall>n. n_id (f n) = n_id n \<and> n_uuid (f n) = n_uuid n \<and> n_path (f n) = n_path n \<and>
     n_loc (f n) = n_loc n \<and> n_superseded (f n) = n_superseded n \<and> n_uploader (f n) = n_uploader n \<and>
     (retired n \<longrightarrow> retired (f n)) \<and>
     (hash_indexed (f n) \<longrightarrow> hash_indexed n \<and> n_full (f n) = n_full n) \<and>
     (node_check n \<longrightarrow> node_check (f n)))"

lemma unique_on_map:
  assumes "unique_on P g ns"
    and "\<And>n. P (f n) \<Longrightarrow> P n \<and> g (f n) = g n" "\<And>n. n_id (f n) = n_id n"
  shows "unique_on P g (map f ns)"
  unfolding unique_on_def
proof (intro ballI impI)
  fix m n assume *: "m \<in> set (map f ns)" "n \<in> set (map f ns)" "P m" "P n" "g m = g n"
  then obtain a b where "a \<in> set ns" "b \<in> set ns" "m = f a" "n = f b" by auto
  with * assms(2) [of a] assms(2) [of b] show "n_id m = n_id n"
    using unique_onD [OF assms(1), of a b] by (simp add: assms(3))
qed

lemma update_nodes_tame:
  assumes "tame f" "node_violation d = None"
  shows "\<exists>d'. update_nodes P f d = Inr d'"
proof -
  let ?f = "\<lambda>n. if P n then f n else n"
  let ?d = "d\<lparr>db_nodes := map ?f (db_nodes d)\<rparr>"
  have id: "n_id (?f n) = n_id n" "n_uuid (?f n) = n_uuid n" for n
    using assms(1) by (auto simp: tame_def)
  have ids: "map n_id (map ?f ns) = map n_id ns" "map n_uuid (map ?f ns) = map n_uuid ns" for ns
    using assms(1) by (auto simp: tame_def)
  have imgs: "n_id ` set (db_nodes ?d) = n_id ` set (db_nodes d)"
    using ids(1) [of "db_nodes d"] by (metis (no_types, lifting) db.select_convs(1) db.surjective db.update_convs(1) list.set_map)
  have "unique_on (\<lambda>n. \<not> retired n) n_path (map ?f (db_nodes d))"
    by (rule unique_on_map) (use assms in \<open>auto simp: node_violation_None tame_def split: if_splits\<close>)
  moreover have "unique_on hash_indexed n_full (map ?f (db_nodes d))"
    by (rule unique_on_map) (use assms in \<open>auto simp: node_violation_None tame_def split: if_splits\<close>)
  moreover have "\<forall>n \<in> set (db_nodes d). node_check (?f n)"
    using assms by (auto simp: node_violation_None tame_def)
  moreover have "\<forall>n \<in> set (db_nodes d). node_fk ?d (?f n)"
  proof
    fix n assume "n \<in> set (db_nodes d)"
    then have "node_fk d n" using assms(2) by (simp add: node_violation_None)
    moreover have "n_loc (?f n) = n_loc n" "n_superseded (?f n) = n_superseded n"
      "n_uploader (?f n) = n_uploader n" using assms(1) by (auto simp: tame_def)
    ultimately show "node_fk ?d (?f n)"
      unfolding node_fk_def imgs by (auto split: option.splits)
  qed
  moreover have "distinct (map n_id (map ?f (db_nodes d)))" "distinct (map n_uuid (map ?f (db_nodes d)))"
    unfolding ids using assms(2) by (simp_all add: node_violation_None)
  ultimately have "node_violation ?d = None"
    by (simp add: node_violation_None del: if_image_distrib)
  then show ?thesis by (simp add: update_nodes_Inr)
qed

lemmas node_row_props = retired_def visible_def hash_indexed_def node_check_def opt_len_def

lemma ArchiveMediaNode_total: "node_violation d = None \<Longrightarrow> \<exists>d'. ArchiveMediaNode i d = Inr d'"
  unfolding ArchiveMediaNode_def by (rule update_nodes_tame) (auto simp: tame_def node_row_props)

lemma MarkNodeMissing_total: "node_violation d = None \<Longrightarrow> \<exists>d'. MarkNodeMissing i d = Inr d'"
proof -
  assume "node_violation d = None"
  moreover have "MarkNodeMissing i d = update_nodes (\<lambda>n. n_id n = i \<and> visible n)
      (\<lambda>n. if visible n then n\<lparr>n_life := MISSING, n_updated := db_clock d\<rparr> else n) d"
    by (simp add: MarkNodeMissing_def update_nodes_def cong: if_cong)
  moreover have "tame (\<lambda>n. if visible n then n\<lparr>n_life := MISSING, n_updated := db_clock d\<rparr> else n)"
    by (auto simp: tame_def node_row_props)
  ultimately show ?thesis by (simp add: update_nodes_tame)
qed

lemma ClearMediaNodeFullHash_total: "node_violation d = None \<Longrightarrow> \<exists>d'. ClearMediaNodeFullHash i d = Inr d'"
  unfolding ClearMediaNodeFullHash_def by (rule update_nodes_tame) (auto simp: tame_def node_row_props)

lemma UpdateMediaNodeGraphStatus_total:
  "node_violation d = None \<Longrightarrow> \<exists>d'. UpdateMediaNodeGraphStatus i g d = Inr d'"
  unfolding UpdateMediaNodeGraphStatus_def
  by (rule update_nodes_tame) (auto simp: tame_def node_row_props)

lemma UpdateMediaNodePromotedColumns_total:
  "node_violation d = None \<Longrightarrow> \<exists>d'. UpdateMediaNodePromotedColumns i p d = Inr d'"
  unfolding UpdateMediaNodePromotedColumns_def
  by (rule update_nodes_tame) (auto simp: tame_def node_row_props)

section \<open>Provenance\<close>

lemma RecordFullHashProvenance_keeps:
  assumes "vouched d n" "n_id n \<noteq> i \<or> n_full n = Some h"
  shows "vouched (RecordFullHashProvenance i h src d) n"
proof -
  obtain v p where v: "n_full n = Some v" "length v = 64"
    and p: "p \<in> set (db_provs d)" "p_node p = n_id n" "p_source p = SERVER" "p_full p = v"
    using assms(1) by (auto simp: vouched_iff)
  define q where "q ex = (if p_node p = i then merge_prov p ex else p)" for ex
  have q: "p_node (q ex) = n_id n \<and> p_source (q ex) = SERVER \<and> p_full (q ex) = v" if "p_full ex = h" for ex
    using p v assms(2) that by (auto simp: q_def merge_prov_def Let_def)
  show ?thesis
  proof (cases "\<exists>p \<in> set (db_provs d). p_node p = i")
    case True
    let ?ex = "new_prov i h src (db_clock d)"
    have ex: "p_full ?ex = h" by (simp add: new_prov_def)
    have "db_provs (RecordFullHashProvenance i h src d) =
        map (\<lambda>p. if p_node p = i then merge_prov p ?ex else p) (db_provs d)"
      using True by (simp add: RecordFullHashProvenance_def Let_def)
    then have "q ?ex \<in> set (db_provs (RecordFullHashProvenance i h src d))"
      using p(1) unfolding q_def by auto
    with q [OF ex] v show ?thesis unfolding vouched_iff by blast
  next
    case False
    then have "set (db_provs d) \<subseteq> set (db_provs (RecordFullHashProvenance i h src d))"
      by (auto simp: RecordFullHashProvenance_def Let_def)
    with v p show ?thesis unfolding vouched_iff by blast
  qed
qed

lemma GetLiveNodeByPath_Some:
  "GetLiveNodeByPath p d = Some n \<Longrightarrow> n \<in> set (db_nodes d) \<and> n_path n = p \<and> \<not> retired n"
  by (auto simp: GetLiveNodeByPath_def dest: find_SomeD)

lemma GetLiveNodeByPath_None:
  "GetLiveNodeByPath p d = None \<Longrightarrow> n \<in> set (db_nodes d) \<Longrightarrow> n_path n = p \<Longrightarrow> retired n"
  by (auto simp: GetLiveNodeByPath_def dest: find_NoneD)

lemma GetMediaNodeByFullHash_Some:
  "GetMediaNodeByFullHash h d = Some n \<Longrightarrow> n \<in> set (db_nodes d) \<and> h \<noteq> None \<and> n_full n = h \<and> visible n"
  by (auto simp: GetMediaNodeByFullHash_def dest: find_SomeD)

lemma GetMediaNodeByFullHash_None:
  "GetMediaNodeByFullHash (Some h) d = None \<Longrightarrow> n \<in> set (db_nodes d) \<Longrightarrow> visible n \<Longrightarrow> n_full n \<noteq> Some h"
  by (auto simp: GetMediaNodeByFullHash_def dest: find_NoneD)

end
