(* ===== verification/EdgeQueries.thy ===== *)
theory EdgeQueries
  imports NodeQueries
begin

text \<open>
  The statements of \<open>internal/db/sqlcgen\<close> on \<open>media_edges\<close>: the recursive queries (cycle check,
  ancestors, the two prune walks), the resolver upsert and the review statements. A recursive
  query \<open>WITH RECURSIVE r AS (anchor UNION step)\<close> is \<open>cte_walk\<close>, the queue algorithm SQLite
  documents, proved equal to reachability, so that the queries' meaning does not depend on the
  order of rows.
\<close>

section \<open>Recursive queries\<close>

definition successors :: "('a \<times> 'a) list \<Rightarrow> 'a \<Rightarrow> 'a list" where
  "successors g x = map snd (filter (\<lambda>e. fst e = x) g)"

text \<open>The rows the step adds for \<open>x\<close>: \<open>UNION\<close> drops those already produced.\<close>

definition fresh :: "('a \<times> 'a) list \<Rightarrow> 'a list \<Rightarrow> 'a \<Rightarrow> 'a list" where
  "fresh g seen x = remdups (filter (\<lambda>y. y \<notin> set seen) (successors g x))"

lemma fresh_set: "set (fresh g seen x) = {y. (x, y) \<in> set g} - set seen"
  by (force simp: fresh_def successors_def)

function cte_walk :: "('a \<times> 'a) list \<Rightarrow> 'a list \<Rightarrow> 'a list \<Rightarrow> 'a list" where
  "cte_walk g [] seen = seen"
| "cte_walk g (x # q) seen = cte_walk g (q @ fresh g seen x) (seen @ fresh g seen x)"
  by pat_completeness auto

lemma fresh_shrinks:
  "fresh g seen x \<noteq> [] \<Longrightarrow>
   card (snd ` set g - set (seen @ fresh g seen x)) < card (snd ` set g - set seen)"
proof (rule psubset_card_mono)
  assume "fresh g seen x \<noteq> []"
  then obtain y where "y \<in> set (fresh g seen x)" by (meson last_in_set)
  then have "y \<in> snd ` set g - set seen" "y \<notin> snd ` set g - set (seen @ fresh g seen x)"
    by (force simp: fresh_set)+
  then show "snd ` set g - set (seen @ fresh g seen x) \<subset> snd ` set g - set seen" by auto
qed simp

termination cte_walk
proof (relation "measures [\<lambda>(g, q, seen). card (snd ` set g - set seen), \<lambda>(g, q, seen). length q]")
  fix g :: "('a \<times> 'a) list" and x q seen
  show "((g, q @ fresh g seen x, seen @ fresh g seen x), (g, x # q, seen))
    \<in> measures [\<lambda>(g, q, seen). card (snd ` set g - set seen), \<lambda>(g, q, seen). length q]"
    using fresh_shrinks [of g seen x] by (cases "fresh g seen x = []") (simp_all add: set_append [symmetric] del: set_append)
qed simp

definition reach :: "('a \<times> 'a) list \<Rightarrow> 'a \<Rightarrow> 'a list" where
  "reach g x = cte_walk g [x] [x]"

lemma cte_walk_sound:
  assumes "set q \<subseteq> set seen" "set seen \<subseteq> (set g)\<^sup>* `` {r}"
  shows "set (cte_walk g q seen) \<subseteq> (set g)\<^sup>* `` {r}"
  using assms
proof (induction g q seen rule: cte_walk.induct)
  case (1 g seen)
  then show ?case by simp
next
  case (2 g x q seen)
  have "y \<in> (set g)\<^sup>* `` {r}" if "y \<in> set (fresh g seen x)" for y
  proof -
    from that have "(x, y) \<in> set g" by (simp add: fresh_set)
    moreover have "(r, x) \<in> (set g)\<^sup>*" using 2(2,3) by auto
    ultimately show ?thesis by (auto intro: rtrancl_into_rtrancl)
  qed
  with 2 show ?case by auto
qed

lemma cte_walk_complete:
  assumes "\<And>v w. v \<in> set seen \<Longrightarrow> v \<notin> set q \<Longrightarrow> (v, w) \<in> set g \<Longrightarrow> w \<in> set seen"
  shows "set seen \<subseteq> set (cte_walk g q seen) \<and>
    (\<forall>v w. v \<in> set (cte_walk g q seen) \<longrightarrow> (v, w) \<in> set g \<longrightarrow> w \<in> set (cte_walk g q seen))"
  using assms
proof (induction g q seen rule: cte_walk.induct)
  case (1 g seen)
  then show ?case by simp
next
  case (2 g x q seen)
  have "w \<in> set (seen @ fresh g seen x)"
    if "v \<in> set (seen @ fresh g seen x)" "v \<notin> set (q @ fresh g seen x)" "(v, w) \<in> set g" for v w
    using that 2(2) [of v w] by (cases "v = x") (auto simp: fresh_set)
  from 2(1) [OF this] show ?case by simp
qed

lemma reach_rtrancl: "set (reach g x) = (set g)\<^sup>* `` {x}"
proof
  show "set (reach g x) \<subseteq> (set g)\<^sup>* `` {x}"
    unfolding reach_def by (rule cte_walk_sound) auto
next
  have *: "set [x] \<subseteq> set (reach g x) \<and>
      (\<forall>v w. v \<in> set (reach g x) \<longrightarrow> (v, w) \<in> set g \<longrightarrow> w \<in> set (reach g x))"
    unfolding reach_def by (rule cte_walk_complete) simp
  show "(set g)\<^sup>* `` {x} \<subseteq> set (reach g x)"
  proof
    fix y assume "y \<in> (set g)\<^sup>* `` {x}"
    then have "(x, y) \<in> (set g)\<^sup>*" by simp
    then show "y \<in> set (reach g x)" by induction (use * in auto)
  qed
qed

section \<open>Queries over the active edges\<close>

definition active_pairs :: "db \<Rightarrow> (int \<times> int) list" where
  "active_pairs d = map (\<lambda>e. (e_source e, e_target e)) (filter e_active (db_edges d))"

definition WouldCreateCycle :: "int \<Rightarrow> int \<Rightarrow> db \<Rightarrow> bool" where
  "WouldCreateCycle parent child d = (parent \<in> set (reach (active_pairs d) child))"

definition ListEdgesBySource :: "int \<Rightarrow> db \<Rightarrow> media_edge list" where
  "ListEdgesBySource s d = filter (\<lambda>e. e_source e = s \<and> e_active e) (db_edges d)"

definition ListEdgesByTarget :: "int \<Rightarrow> db \<Rightarrow> media_edge list" where
  "ListEdgesByTarget t d = filter (\<lambda>e. e_target e = t \<and> e_active e) (db_edges d)"

definition MediaEdgeExists :: "int \<Rightarrow> int \<Rightarrow> string \<Rightarrow> db \<Rightarrow> bool" where
  "MediaEdgeExists s t r d = (\<exists>e \<in> set (db_edges d). edge_key e = (s, t, r) \<and> e_active e)"

definition GetMediaEdgeBySourceTargetRel :: "int \<Rightarrow> int \<Rightarrow> string \<Rightarrow> db \<Rightarrow> media_edge option" where
  "GetMediaEdgeBySourceTargetRel s t r d = find (\<lambda>e. edge_key e = (s, t, r)) (db_edges d)"

definition GetMediaEdge :: "int \<Rightarrow> db \<Rightarrow> media_edge option" where
  "GetMediaEdge i d = find (\<lambda>e. e_id e = i) (db_edges d)"

text \<open>The step of the two prune walks, from a node to the source of an accepted cache edge.\<close>

definition cache_rels :: "string set" where
  "cache_rels = {''PROXY_OF'', ''DERIVED_FROM'', ''DUPLICATE_OF''}"

definition lineage_pairs :: "db \<Rightarrow> (int \<times> int) list" where
  "lineage_pairs d = map (\<lambda>e. (e_target e, e_source e))
     (filter (\<lambda>e. e_active e \<and> e_review e \<in> {CONFIRMED, AUTO_ACCEPTED} \<and> e_rel e \<in> cache_rels \<and>
                  (\<exists>a \<in> set (db_nodes d). n_id a = e_source e \<and> visible a)) (db_edges d))"

definition verified_master :: "db \<Rightarrow> media_node \<Rightarrow> bool" where
  "verified_master d m \<longleftrightarrow>
     (\<exists>l \<in> set (db_locs d). l_id l = n_loc m \<and> l_tier l = TIER3_MASTER_ARCHIVE) \<and> visible m \<and> vouched d m"

definition ListVerifiedTier3Ancestors :: "int \<Rightarrow> db \<Rightarrow> media_node list" where
  "ListVerifiedTier3Ancestors i d =
     nodes_where (\<lambda>m. n_id m \<in> set (reach (lineage_pairs d) i) \<and> n_id m \<noteq> i \<and> verified_master d m) d"

definition sidecar_exts :: "string list" where
  "sidecar_exts = [''.drp'', ''.fcpxml'', ''.edl'', ''.prproj'', ''.dam.json'', ''.xmp'']"

definition ListPrunableNodes :: "int \<Rightarrow> int \<Rightarrow> db \<Rightarrow> media_node list" where
  "ListPrunableNodes loc cutoff d = sort_key n_id
     (nodes_where (\<lambda>n. n_loc n = loc \<and> n_life n = ACTIVE \<and> n_mtime n < cutoff \<and>
        list_all (\<lambda>x. \<not> has_suffix (to_lower (n_name n)) x) sidecar_exts \<and>
        (\<exists>m \<in> set (db_nodes d). n_id m \<in> set (reach (lineage_pairs d) (n_id n)) \<and>
           n_id m \<noteq> n_id n \<and> verified_master d m)) d)"

section \<open>Statements\<close>

record new_edge =
  u_source :: int
  u_target :: int
  u_rel :: string
  u_conf :: float64
  u_tier :: int
  u_resolver :: string
  u_evidence :: evidence
  u_review :: review_state

definition edge_row :: "int \<Rightarrow> int \<Rightarrow> new_edge \<Rightarrow> media_edge" where
  "edge_row i now u = \<lparr>e_id = i, e_source = u_source u, e_target = u_target u, e_rel = u_rel u,
     e_conf = u_conf u, e_tier = u_tier u, e_resolver = u_resolver u, e_evidence = u_evidence u,
     e_review = u_review u, e_reviewed_at = None, e_reviewed_by = None, e_created = now,
     e_updated = now, e_active = True\<rparr>"

definition next_edge_id :: "db \<Rightarrow> int" where
  "next_edge_id d = next_rowid (map e_id (db_edges d))"

text \<open>Which side of the upsert's conflict the tier, resolver, evidence and review state come from.\<close>

definition excluded_wins :: "new_edge \<Rightarrow> media_edge \<Rightarrow> bool" where
  "excluded_wins u e \<longleftrightarrow> e_conf e \<le> u_conf u \<and>
     \<not> (u_conf u = e_conf e \<and> e_review e = AUTO_ACCEPTED \<and> u_review u = NEEDS_REVIEW)"

definition merge_edge :: "int \<Rightarrow> new_edge \<Rightarrow> media_edge \<Rightarrow> media_edge" where
  "merge_edge now u e = e\<lparr>e_conf := max (u_conf u) (e_conf e),
     e_tier := (if excluded_wins u e then u_tier u else e_tier e),
     e_resolver := (if excluded_wins u e then u_resolver u else e_resolver e),
     e_evidence := (if excluded_wins u e then u_evidence u else e_evidence e),
     e_review := (if excluded_wins u e then u_review u else e_review e),
     e_updated := now, e_active := True\<rparr>"

definition human :: "media_edge \<Rightarrow> bool" where
  "human e \<longleftrightarrow> e_review e = CONFIRMED \<or> e_review e = REJECTED"

definition upsert_key :: "new_edge \<Rightarrow> int \<times> int \<times> string" where
  "upsert_key u = (u_source u, u_target u, u_rel u)"

text \<open>
  \<open>UpsertMediaEdge\<close>: the row of \<open>RETURNING\<close>, or none (\<open>sql.ErrNoRows\<close>) when the stored row is
  a human decision. The \<open>CHECK\<close>s of the incoming row are tested before the conflict.
\<close>

definition UpsertMediaEdge :: "new_edge \<Rightarrow> db \<Rightarrow> db_error + (media_edge option \<times> db)" where
  "UpsertMediaEdge u d =
     (let row = edge_row (next_edge_id d) (db_clock d) u
      in if \<not> edge_check row then Inl EdgeCheck
         else case find (\<lambda>e. edge_key e = upsert_key u) (db_edges d) of
           None \<Rightarrow> rbind (checked_edges (d\<lparr>db_edges := db_edges d @ [row]\<rparr>)) (\<lambda>d'. Inr (Some row, d'))
         | Some e \<Rightarrow>
             if human e then Inr (None, d)
             else rbind (update_edges (\<lambda>x. edge_key x = upsert_key u) (merge_edge (db_clock d) u) d)
                    (\<lambda>d'. Inr (Some (merge_edge (db_clock d) u e), d')))"

definition set_review :: "int \<Rightarrow> review_state \<Rightarrow> int option \<Rightarrow> string option \<Rightarrow> media_edge \<Rightarrow> media_edge" where
  "set_review now s stamp by e = e\<lparr>e_review := s, e_reviewed_at := stamp, e_reviewed_by := by, e_updated := now\<rparr>"

definition review_edge :: "(media_edge \<Rightarrow> bool) \<Rightarrow> (media_edge \<Rightarrow> media_edge) \<Rightarrow> db \<Rightarrow> db_error + (int \<times> db)" where
  "review_edge P f d =
     (case find P (db_edges d) of
        None \<Rightarrow> Inl NoRows
      | Some e \<Rightarrow> rbind (update_edges P f d) (\<lambda>d'. Inr (e_target e, d')))"

definition ConfirmMediaEdge :: "int \<Rightarrow> string option \<Rightarrow> db \<Rightarrow> db_error + (int \<times> db)" where
  "ConfirmMediaEdge i by d = review_edge (\<lambda>e. e_id e = i)
     (set_review (db_clock d) CONFIRMED (Some (db_clock d)) by) d"

definition RejectMediaEdge :: "int \<Rightarrow> string option \<Rightarrow> db \<Rightarrow> db_error + (int \<times> db)" where
  "RejectMediaEdge i by d = review_edge (\<lambda>e. e_id e = i)
     (set_review (db_clock d) REJECTED (Some (db_clock d)) by) d"

definition ResetMediaEdgeReview :: "int \<Rightarrow> db \<Rightarrow> db_error + (int \<times> db)" where
  "ResetMediaEdgeReview i d = review_edge (\<lambda>e. e_id e = i \<and> human e)
     (set_review (db_clock d) NEEDS_REVIEW None None) d"

definition manual_edge :: "int \<Rightarrow> string option \<Rightarrow> media_edge \<Rightarrow> media_edge" where
  "manual_edge now by e = e\<lparr>e_conf := 1, e_tier := 1, e_resolver := ''manual'', e_review := CONFIRMED,
     e_reviewed_by := by, e_reviewed_at := Some now, e_active := True, e_updated := now\<rparr>"

definition CreateManualMediaEdge :: "int \<Rightarrow> int \<Rightarrow> string \<Rightarrow> string option \<Rightarrow> db \<Rightarrow> db_error + (media_edge \<times> db)" where
  "CreateManualMediaEdge s t r by d =
     (let row = manual_edge (db_clock d) by
                  (edge_row (next_edge_id d) (db_clock d)
                     \<lparr>u_source = s, u_target = t, u_rel = r, u_conf = 1, u_tier = 1,
                      u_resolver = ''manual'', u_evidence = EvObject [], u_review = CONFIRMED\<rparr>)
      in if \<not> edge_check row then Inl EdgeCheck
         else case find (\<lambda>e. edge_key e = (s, t, r)) (db_edges d) of
           None \<Rightarrow> rbind (checked_edges (d\<lparr>db_edges := db_edges d @ [row]\<rparr>)) (\<lambda>d'. Inr (row, d'))
         | Some e \<Rightarrow> rbind (update_edges (\<lambda>x. edge_key x = (s, t, r)) (manual_edge (db_clock d) by) d)
                      (\<lambda>d'. Inr (manual_edge (db_clock d) by e, d')))"

section \<open>The cycle check\<close>

definition active_rel :: "db \<Rightarrow> (int \<times> int) set" where
  "active_rel d = set (active_pairs d)"

lemma active_rel_iff: "(s, t) \<in> active_rel d \<longleftrightarrow> (\<exists>e \<in> set (db_edges d). e_active e \<and> e_source e = s \<and> e_target e = t)"
  by (force simp: active_rel_def active_pairs_def)

lemma WouldCreateCycle_iff: "WouldCreateCycle p c d \<longleftrightarrow> (c, p) \<in> (active_rel d)\<^sup>*"
  by (simp add: WouldCreateCycle_def reach_rtrancl active_rel_def)

text \<open>An edge the check lets through keeps an acyclic graph acyclic.\<close>

lemma cycle_check_sound:
  assumes "acyclic (active_rel d)" "\<not> WouldCreateCycle p c d" "active_rel d' \<subseteq> insert (p, c) (active_rel d)"
  shows "acyclic (active_rel d')"
proof -
  have "acyclic (insert (p, c) (active_rel d))"
    using assms(1,2) by (simp add: acyclic_insert WouldCreateCycle_iff)
  then show ?thesis using assms(3) by (rule acyclic_subset)
qed

section \<open>The upsert\<close>

lemma edge_key_row [simp]: "edge_key (edge_row i now u) = upsert_key u"
  by (simp add: edge_key_def edge_row_def upsert_key_def)

lemma edge_key_merge [simp]: "edge_key (merge_edge now u e) = edge_key e"
  by (simp add: edge_key_def merge_edge_def)

lemma edge_row_sel [simp]:
  "e_active (edge_row i now u)" "e_conf (edge_row i now u) = u_conf u"
  "e_review (edge_row i now u) = u_review u" "e_tier (edge_row i now u) = u_tier u"
  "e_resolver (edge_row i now u) = u_resolver u"
  by (simp_all add: edge_row_def)

lemma merge_edge_sel [simp]:
  "e_active (merge_edge now u e)" "e_conf (merge_edge now u e) = max (u_conf u) (e_conf e)"
  "e_id (merge_edge now u e) = e_id e"
  by (simp_all add: merge_edge_def)

lemma edge_key_parts:
  "edge_key e = upsert_key u \<longleftrightarrow> e_source e = u_source u \<and> e_target e = u_target u \<and> e_rel e = u_rel u"
  by (simp add: edge_key_def upsert_key_def)

text \<open>The rows with another key are the same before and after.\<close>

definition others_kept :: "(int \<times> int \<times> string) \<Rightarrow> db \<Rightarrow> db \<Rightarrow> bool" where
  "others_kept k d d' \<longleftrightarrow> d' = d\<lparr>db_edges := db_edges d'\<rparr> \<and>
     (\<forall>x. edge_key x \<noteq> k \<longrightarrow> (x \<in> set (db_edges d') \<longleftrightarrow> x \<in> set (db_edges d)))"

lemma others_kept_refl [simp]: "others_kept k d d"
  by (simp add: others_kept_def)

lemma others_kept_update:
  assumes "\<And>x. edge_key (f x) = edge_key x"
  shows "others_kept k d (d\<lparr>db_edges := map (\<lambda>x. if edge_key x = k then f x else x) (db_edges d)\<rparr>)"
  using assms by (force simp: others_kept_def split: if_splits)

lemma UpsertMediaEdge_None:
  assumes "UpsertMediaEdge u d = Inr (None, d')"
  shows "d' = d" "\<exists>e \<in> set (db_edges d). edge_key e = upsert_key u \<and> human e"
  using assms
  by (auto simp: UpsertMediaEdge_def Let_def result_simps split: if_splits option.splits dest!: find_SomeD)

lemma UpsertMediaEdge_Some:
  assumes "UpsertMediaEdge u d = Inr (Some e, d')" "edge_violation d = None"
  shows "others_kept (upsert_key u) d d'" "edge_violation d' = None"
    "edge_key e = upsert_key u" "e_active e" "e \<in> set (db_edges d')"
    "\<And>x. x \<in> set (db_edges d) \<Longrightarrow> edge_key x = upsert_key u \<Longrightarrow>
       \<not> human x \<and> e = merge_edge (db_clock d) u x"
    "(\<forall>x \<in> set (db_edges d). edge_key x \<noteq> upsert_key u) \<Longrightarrow> e = edge_row (next_edge_id d) (db_clock d) u"
proof -
  let ?row = "edge_row (next_edge_id d) (db_clock d) u"
  have "others_kept (upsert_key u) d d' \<and> edge_violation d' = None \<and> edge_key e = upsert_key u \<and>
    e_active e \<and> e \<in> set (db_edges d') \<and>
    (\<forall>x. x \<in> set (db_edges d) \<and> edge_key x = upsert_key u \<longrightarrow>
       \<not> human x \<and> e = merge_edge (db_clock d) u x) \<and>
    ((\<forall>x \<in> set (db_edges d). edge_key x \<noteq> upsert_key u) \<longrightarrow> e = ?row)"
  proof (cases "find (\<lambda>e. edge_key e = upsert_key u) (db_edges d)")
    case None
    with assms(1) have d': "e = ?row" "d' = d\<lparr>db_edges := db_edges d @ [?row]\<rparr>" "edge_violation d' = None"
      by (auto simp: UpsertMediaEdge_def Let_def result_simps split: if_splits)
    have "\<forall>x \<in> set (db_edges d). edge_key x \<noteq> upsert_key u"
      using find_NoneD [OF None] by auto
    with d' show ?thesis by (auto simp: others_kept_def)
  next
    case (Some old)
    have old: "old \<in> set (db_edges d)" "edge_key old = upsert_key u" using find_SomeD [OF Some] by auto
    have uniq: "x = old" if "x \<in> set (db_edges d)" "edge_key x = upsert_key u" for x
      by (rule edge_same_key [OF assms(2) that(1) old(1)]) (simp add: that old)
    have new: "\<not> human old" "e = merge_edge (db_clock d) u old" "edge_violation d' = None"
      and d': "d' = d\<lparr>db_edges := map (\<lambda>x. if edge_key x = upsert_key u then merge_edge (db_clock d) u x else x) (db_edges d)\<rparr>"
      using assms(1) Some
      by (auto simp: UpsertMediaEdge_def Let_def result_simps update_edges_def split: if_splits)
    have "others_kept (upsert_key u) d d'"
      unfolding d' by (rule others_kept_update) simp
    moreover have "e \<in> set (db_edges d')"
      using old unfolding d' new(2) by force
    moreover have "\<forall>x. x \<in> set (db_edges d) \<and> edge_key x = upsert_key u \<longrightarrow>
       \<not> human x \<and> e = merge_edge (db_clock d) u x"
      using uniq new by blast
    moreover have "edge_key e = upsert_key u" "e_active e" using new old by simp_all
    ultimately show ?thesis using new(3) old by blast
  qed
  then show "others_kept (upsert_key u) d d'" "edge_violation d' = None"
    "edge_key e = upsert_key u" "e_active e" "e \<in> set (db_edges d')"
    "\<And>x. x \<in> set (db_edges d) \<Longrightarrow> edge_key x = upsert_key u \<Longrightarrow>
       \<not> human x \<and> e = merge_edge (db_clock d) u x"
    "(\<forall>x \<in> set (db_edges d). edge_key x \<noteq> upsert_key u) \<Longrightarrow> e = ?row"
    by blast+
qed

end
