(* ===== verification/Paths.thy ===== *)
theory Paths
  imports Prelude
begin

text \<open>
  The parts of Go's \<open>path/filepath\<close> (on Unix) that the program uses: \<open>Clean\<close>, \<open>Dir\<close>, \<open>Base\<close>,
  \<open>IsAbs\<close> and \<open>Join\<close>, all lexical. \<open>path_clean\<close> is stated over the slash-separated components;
  a clean absolute path is \<open>abs_path cs\<close> for a list \<open>cs\<close> of proper names, which is the form the
  storage guard works on.
\<close>

fun split_slash :: "string \<Rightarrow> string list" where
  "split_slash [] = [[]]"
| "split_slash (c # s) =
     (if c = CHR ''/'' then [] # split_slash s
      else case split_slash s of [] \<Rightarrow> [[c]] | x # xs \<Rightarrow> (c # x) # xs)"

fun join_slash :: "string list \<Rightarrow> string" where
  "join_slash [] = []"
| "join_slash [x] = x"
| "join_slash (x # y # ys) = x @ CHR ''/'' # join_slash (y # ys)"

definition dot :: string where "dot = ''.''"
definition dotdot :: string where "dotdot = ''..''"

text \<open>One component of \<open>Clean\<close>'s scan; the stack holds the output components, last first.\<close>

definition clean_push :: "bool \<Rightarrow> string list \<Rightarrow> string \<Rightarrow> string list" where
  "clean_push rooted st c =
     (if c = [] \<or> c = dot then st
      else if c = dotdot then
        (case st of
           [] \<Rightarrow> if rooted then [] else [dotdot]
         | t # ts \<Rightarrow> if t = dotdot then dotdot # st else ts)
      else c # st)"

definition is_abs :: "string \<Rightarrow> bool" where
  "is_abs p = has_prefix p ''/''"

definition clean_comps :: "string \<Rightarrow> string list" where
  "clean_comps p = rev (foldl (clean_push (is_abs p)) [] (split_slash p))"

definition abs_path :: "string list \<Rightarrow> string" where
  "abs_path cs = CHR ''/'' # join_slash cs"

definition path_clean :: "string \<Rightarrow> string" where
  "path_clean p =
     (let cs = clean_comps p
      in if is_abs p then abs_path cs else if cs = [] then dot else join_slash cs)"

definition path_dir :: "string \<Rightarrow> string" where
  "path_dir p = path_clean (case last_index p (CHR ''/'') of None \<Rightarrow> [] | Some i \<Rightarrow> take (Suc i) p)"

definition path_base :: "string \<Rightarrow> string" where
  "path_base p =
     (if p = [] then dot
      else let q = rev (dropWhile (\<lambda>c. c = CHR ''/'') (rev p))
           in if q = [] then ''/''
              else case last_index q (CHR ''/'') of None \<Rightarrow> q | Some i \<Rightarrow> drop (Suc i) q)"

section \<open>Clean paths\<close>

text \<open>A name that \<open>Clean\<close> leaves as it is.\<close>

definition proper :: "string \<Rightarrow> bool" where
  "proper c \<longleftrightarrow> c \<noteq> [] \<and> c \<noteq> dot \<and> c \<noteq> dotdot \<and> CHR ''/'' \<notin> set c"

lemma split_slash_nonempty [simp]: "split_slash s \<noteq> []"
  by (cases s) (auto split: list.splits)

lemma split_slash_no_slash: "x \<in> set (split_slash s) \<Longrightarrow> CHR ''/'' \<notin> set x"
proof (induction s arbitrary: x)
  case Nil
  then show ?case by simp
next
  case (Cons c s)
  then show ?case
    by (cases "split_slash s") (auto split: if_splits)
qed

lemma split_join: "list_all (\<lambda>x. CHR ''/'' \<notin> set x) xs \<Longrightarrow> xs \<noteq> [] \<Longrightarrow> split_slash (join_slash xs) = xs"
proof (induction xs rule: join_slash.induct)
  case 1
  then show ?case by simp
next
  case (2 x)
  then have "CHR ''/'' \<notin> set x" by simp
  then show ?case by (induction x) auto
next
  case (3 x y ys)
  then have "CHR ''/'' \<notin> set x" "split_slash (join_slash (y # ys)) = y # ys" by auto
  then show ?case by (induction x) auto
qed

lemma clean_push_proper:
  assumes "list_all proper st" "CHR ''/'' \<notin> set c"
  shows "list_all proper (clean_push True st c)"
  using assms by (auto simp: clean_push_def proper_def split: list.splits)

lemma foldl_clean_push:
  "list_all proper st \<Longrightarrow> \<forall>c \<in> set cs. CHR ''/'' \<notin> set c \<Longrightarrow> list_all proper (foldl (clean_push True) st cs)"
  by (induction cs arbitrary: st) (auto simp: clean_push_proper)

text \<open>\<open>Clean\<close> of an absolute path has only proper components: no dots survive.\<close>

lemma clean_comps_proper: "is_abs p \<Longrightarrow> list_all proper (clean_comps p)"
proof -
  assume "is_abs p"
  then have "list_all proper (foldl (clean_push (is_abs p)) [] (split_slash p))"
    using foldl_clean_push [of "[]" "split_slash p"] split_slash_no_slash [of _ p] by auto
  then show ?thesis unfolding clean_comps_def by (simp add: list_all_iff)
qed

lemma is_abs_abs_path [simp]: "is_abs (abs_path cs)"
  by (simp add: is_abs_def abs_path_def)

lemma clean_push_id: "proper c \<Longrightarrow> clean_push r st c = c # st"
  by (simp add: clean_push_def proper_def)

lemma foldl_push_id: "list_all proper cs \<Longrightarrow> foldl (clean_push r) st cs = rev cs @ st"
  by (induction cs arbitrary: st) (auto simp: clean_push_id)

lemma clean_comps_abs_path: "list_all proper cs \<Longrightarrow> clean_comps (abs_path cs) = cs"
proof (cases "cs = []")
  case True
  then show ?thesis by (simp add: abs_path_def clean_comps_def clean_push_def)
next
  case False
  assume "list_all proper cs"
  moreover from this have "split_slash (abs_path cs) = [] # cs"
    using False split_join [of cs] by (simp add: abs_path_def proper_def list_all_iff)
  ultimately show ?thesis
    unfolding clean_comps_def by (simp add: foldl_push_id) (simp add: clean_push_def foldl_push_id)
qed

lemma path_clean_abs: "list_all proper cs \<Longrightarrow> path_clean (abs_path cs) = abs_path cs"
  by (simp add: path_clean_def clean_comps_abs_path)

lemma path_clean_idem: "is_abs p \<Longrightarrow> path_clean (path_clean p) = path_clean p"
  using clean_comps_proper [of p] by (simp add: path_clean_def clean_comps_abs_path)

lemma abs_path_inject:
  "list_all proper cs \<Longrightarrow> list_all proper ds \<Longrightarrow> abs_path cs = abs_path ds \<longleftrightarrow> cs = ds"
  by (metis clean_comps_abs_path)

lemma clean_push_names:
  "list_all (\<lambda>x. x \<noteq> [] \<and> CHR ''/'' \<notin> set x) st \<Longrightarrow> CHR ''/'' \<notin> set c \<Longrightarrow>
   list_all (\<lambda>x. x \<noteq> [] \<and> CHR ''/'' \<notin> set x) (clean_push r st c)"
  by (auto simp: clean_push_def dotdot_def split: list.splits)

lemma foldl_clean_names:
  "list_all (\<lambda>x. x \<noteq> [] \<and> CHR ''/'' \<notin> set x) st \<Longrightarrow> \<forall>c \<in> set cs. CHR ''/'' \<notin> set c \<Longrightarrow>
   list_all (\<lambda>x. x \<noteq> [] \<and> CHR ''/'' \<notin> set x) (foldl (clean_push r) st cs)"
  by (induction cs arbitrary: st) (auto simp: clean_push_names)

lemma is_abs_clean [simp]: "is_abs (path_clean p) \<longleftrightarrow> is_abs p"
proof (cases "is_abs p")
  case True
  then show ?thesis by (simp add: path_clean_def)
next
  case False
  have "list_all (\<lambda>x. x \<noteq> [] \<and> CHR ''/'' \<notin> set x) (foldl (clean_push (is_abs p)) [] (split_slash p))"
    by (rule foldl_clean_names) (use split_slash_no_slash in auto)
  then have "list_all (\<lambda>x. x \<noteq> [] \<and> CHR ''/'' \<notin> set x) (clean_comps p)"
    unfolding clean_comps_def by (simp add: list_all_iff)
  moreover have "\<not> is_abs (join_slash cs)" if "list_all (\<lambda>x. x \<noteq> [] \<and> CHR ''/'' \<notin> set x) cs" "cs \<noteq> []" for cs
    using that by (cases cs rule: join_slash.cases) (auto simp: is_abs_def neq_Nil_conv)
  ultimately show ?thesis using False by (auto simp: path_clean_def Let_def is_abs_def dot_def)
qed

end
