(* ===== verification/Naming.thy ===== *)
theory Naming
  imports Float64 Paths "HOL-Library.Sublist"
begin

text \<open>
  \<open>internal/naming\<close>: the normalized filename stem that the indexer stores and the lineage
  resolvers compare, the classification of the suffix that was stripped, and the rendering of
  an ingest path from a template. \<open>analyze\<close> is the loop of \<open>Analyze\<close>: one trailing index or
  role marker is stripped per round, an index marker first. Both regular expressions are
  anchored at the end of the text, so each has at most one match, which \<open>strip_index\<close> and
  \<open>strip_role\<close> find by reading the name backwards.
\<close>

section \<open>Stems\<close>

datatype suffix_kind = SuffixNone | SuffixIndex | SuffixRole

text \<open>\<open>(-\d{1,2}|\(\d+\))$\<close>\<close>

definition strip_index :: "string \<Rightarrow> string option" where
  "strip_index s =
     (case rev s of
        [] \<Rightarrow> None
      | c # t \<Rightarrow>
          if c = CHR '')'' then
            (case dropWhile is_digit t of
               [] \<Rightarrow> None
             | o' # u \<Rightarrow> if takeWhile is_digit t \<noteq> [] \<and> o' = CHR ''('' then Some (rev u) else None)
          else if is_digit c then
            (case t of
               [] \<Rightarrow> None
             | d # u \<Rightarrow>
                 if d = CHR ''-'' then Some (rev u)
                 else if is_digit d then
                   (case u of [] \<Rightarrow> None | h # v \<Rightarrow> if h = CHR ''-'' then Some (rev v) else None)
                 else None)
          else None)"

text \<open>\<open>(_edit|_proxy|_v\d+| copy)$\<close>\<close>

definition strip_version :: "string \<Rightarrow> string option" where
  "strip_version s =
     (case dropWhile is_digit (rev s) of
        v # u # r \<Rightarrow> if takeWhile is_digit (rev s) \<noteq> [] \<and> v = CHR ''v'' \<and> u = CHR ''_''
                      then Some (rev r) else None
      | _ \<Rightarrow> None)"

definition strip_role :: "string \<Rightarrow> string option" where
  "strip_role s =
     (if has_suffix s ''_edit'' then Some (trim_suffix s ''_edit'')
      else if has_suffix s ''_proxy'' then Some (trim_suffix s ''_proxy'')
      else if has_suffix s '' copy'' then Some (trim_suffix s '' copy'')
      else strip_version s)"

text \<open>A stripped stem is a proper prefix of the stem it came from, so the loop stops.\<close>

lemma strict_prefix_by_rev: "strict_suffix (rev t) (rev s) \<Longrightarrow> strict_prefix t s"
  by (simp add: strict_suffix_def suffix_to_prefix strict_prefix_def)

lemma suffix_strict_Cons: "suffix xs ys \<Longrightarrow> strict_suffix xs (y # ys)"
  using suffix_length_le [of xs ys] by (auto simp: strict_suffix_def intro: suffix_ConsI)

lemma suffix_dropWhile_Cons: "dropWhile P xs = y # ys \<Longrightarrow> suffix ys xs"
  by (metis suffix_ConsD suffix_dropWhile)

lemma suffix_Cons_self: "suffix xs (y # xs)" "suffix xs (y # z # xs)"
  by (simp_all add: suffix_Cons)

lemma strip_index_prefix:
  assumes "strip_index s = Some t"
  shows "strict_prefix t s"
proof (rule strict_prefix_by_rev)
  obtain c r where r: "rev s = c # r" using assms by (cases "rev s") (auto simp: strip_index_def)
  have "suffix (rev t) r"
  proof (cases "c = CHR '')''")
    case True
    with assms r show ?thesis
      by (auto simp: strip_index_def split: list.splits if_splits dest!: suffix_dropWhile_Cons)
  next
    case False
    with assms r show ?thesis
      by (auto simp: strip_index_def suffix_Cons_self split: list.splits if_splits)
  qed
  then show "strict_suffix (rev t) (rev s)" unfolding r by (rule suffix_strict_Cons)
qed

lemma strip_version_prefix: "strip_version s = Some t \<Longrightarrow> strict_prefix t s"
proof (rule strict_prefix_by_rev)
  assume "strip_version s = Some t"
  then obtain v u r where r: "dropWhile is_digit (rev s) = v # u # r" "t = rev r"
    by (auto simp: strip_version_def split: list.splits if_splits)
  have "suffix (u # r) (rev s)" by (rule suffix_dropWhile_Cons [OF r(1)])
  then show "strict_suffix (rev t) (rev s)"
    using r(2) by (auto simp: strict_suffix_def suffix_def)
qed

lemma trim_suffix_prefix: "has_suffix s m \<Longrightarrow> m \<noteq> [] \<Longrightarrow> strict_prefix (trim_suffix s m) s"
  by (auto simp: has_suffix_append strict_prefix_def)

lemma strip_role_prefix: "strip_role s = Some t \<Longrightarrow> strict_prefix t s"
  by (auto simp: strip_role_def trim_suffix_prefix strip_version_prefix split: if_splits)

function strip_all :: "string \<Rightarrow> suffix_kind \<Rightarrow> string \<times> suffix_kind" where
  "strip_all stem kind =
     (case strip_index stem of
        Some s \<Rightarrow> strip_all s SuffixIndex
      | None \<Rightarrow>
          (case strip_role stem of
             Some s \<Rightarrow> strip_all s (if kind = SuffixNone then SuffixRole else kind)
           | None \<Rightarrow> (stem, kind)))"
  by pat_completeness auto
termination
  by (relation "measure (\<lambda>(s, k). length s)")
    (auto dest!: strip_index_prefix strip_role_prefix intro: prefix_length_less)

declare strip_all.simps [simp del]

text \<open>\<open>if i := strings.LastIndex(stem, "."); i > 0\<close>: a leading dot is not an extension.\<close>

definition drop_ext :: "string \<Rightarrow> string" where
  "drop_ext s = (case last_index s (CHR ''.'') of Some i \<Rightarrow> if 0 < i then take i s else s | None \<Rightarrow> s)"

definition analyze :: "string \<Rightarrow> string \<times> suffix_kind" where
  "analyze fileName = strip_all (to_lower (trim_space (drop_ext fileName))) SuffixNone"

definition stem :: "string \<Rightarrow> string" where
  "stem fileName = fst (analyze fileName)"

definition kind :: "string \<Rightarrow> suffix_kind" where
  "kind fileName = snd (analyze fileName)"

lemma strip_all_cases:
  assumes "\<And>t. strip_index s = Some t \<Longrightarrow> P (strip_all t SuffixIndex)"
    and "\<And>t. strip_index s = None \<Longrightarrow> strip_role s = Some t \<Longrightarrow>
           P (strip_all t (if k = SuffixNone then SuffixRole else k))"
    and "strip_index s = None \<Longrightarrow> strip_role s = None \<Longrightarrow> P (s, k)"
  shows "P (strip_all s k)"
proof (cases "strip_index s")
  case (Some t)
  with assms(1) show ?thesis by (simp add: strip_all.simps [of s])
next
  case None
  with assms(2,3) show ?thesis by (cases "strip_role s") (simp_all add: strip_all.simps [of s])
qed

lemma strip_all_normal:
  "strip_index (fst (strip_all s k)) = None \<and> strip_role (fst (strip_all s k)) = None"
proof (induction s k rule: strip_all.induct)
  case (1 s k)
  show ?case by (rule strip_all_cases) (use 1 in auto)
qed

lemma prefix_strict_trans: "prefix t u \<Longrightarrow> strict_prefix u s \<Longrightarrow> prefix t s"
  by (auto simp: strict_prefix_def intro: prefix_order.trans)

lemma strip_all_prefix: "prefix (fst (strip_all s k)) s"
proof (induction s k rule: strip_all.induct)
  case (1 s k)
  show ?case
    by (rule strip_all_cases)
      (use 1 in \<open>auto dest: strip_index_prefix strip_role_prefix intro: prefix_strict_trans\<close>)
qed

text \<open>Which marker kinds were stripped decides the kind, index before role.\<close>

lemma strip_all_kind_keeps: "k \<noteq> SuffixNone \<Longrightarrow> snd (strip_all s k) \<noteq> SuffixNone"
proof (induction s k rule: strip_all.induct)
  case (1 s k)
  show ?case by (rule strip_all_cases) (use 1 in auto)
qed

lemma strip_all_index_keeps: "k = SuffixIndex \<Longrightarrow> snd (strip_all s k) = SuffixIndex"
proof (induction s k rule: strip_all.induct)
  case (1 s k)
  show ?case by (rule strip_all_cases) (use 1 in auto)
qed

lemma strip_all_none_iff: "snd (strip_all s SuffixNone) = SuffixNone \<longleftrightarrow> fst (strip_all s SuffixNone) = s"
proof (cases "strip_index s")
  case None
  note idx = None
  show ?thesis
  proof (cases "strip_role s")
    case None
    with idx show ?thesis by (simp add: strip_all.simps [of s])
  next
    case (Some t)
    have "prefix (fst (strip_all t SuffixRole)) t" by (rule strip_all_prefix)
    with strip_role_prefix [OF Some] have "fst (strip_all t SuffixRole) \<noteq> s"
      by (metis prefix_order.leD)
    with idx Some show ?thesis
      using strip_all_kind_keeps [of SuffixRole t] by (simp add: strip_all.simps [of s])
  qed
next
  case (Some t)
  have "prefix (fst (strip_all t SuffixIndex)) t" by (rule strip_all_prefix)
  with strip_index_prefix [OF Some] have "fst (strip_all t SuffixIndex) \<noteq> s"
    by (metis prefix_order.leD)
  with Some show ?thesis
    using strip_all_index_keeps [of SuffixIndex t] by (simp add: strip_all.simps [of s])
qed

section \<open>Rendered paths\<close>

definition DefaultPathTemplate :: string where
  "DefaultPathTemplate = ''{yyyy}/{yyyy}-{mm}-{dd}_{camera_model}/{original_name}''"

record template_vars =
  tv_year :: nat
  tv_month :: nat
  tv_day :: nat
  tv_camera :: string
  tv_name :: string

definition split_base :: "string \<Rightarrow> string \<times> string" where
  "split_base name =
     (case last_index name (CHR ''.'') of
        Some i \<Rightarrow> if 0 < i then (take i name, drop (Suc i) name) else (name, '''')
      | None \<Rightarrow> (name, ''''))"

definition forbidden :: "char set" where
  "forbidden = set ''/:*?<>|'' \<union> {CHR 0x5C, CHR 0x22}"

definition sanitize_segment :: "string \<Rightarrow> string" where
  "sanitize_segment s =
     (if s = '''' then s
      else let out = map (\<lambda>c. if c \<in> forbidden then CHR ''_'' else c) s
           in if \<forall>c \<in> set out. c = CHR ''.'' \<or> c = CHR '' '' then replicate (length out) (CHR ''_'') else out)"

text \<open>
  \<open>strings.NewReplacer\<close>: one pass from the left, at each position the first pair whose old
  string matches, replacements never rescanned. No old string of the code is empty.
\<close>

function replace_pairs :: "(string \<times> string) list \<Rightarrow> string \<Rightarrow> string" where
  "replace_pairs ps [] = []"
| "replace_pairs ps (c # s) =
     (case find (\<lambda>(old, new). old \<noteq> [] \<and> has_prefix (c # s) old) ps of
        Some (old, new) \<Rightarrow> new @ replace_pairs ps (drop (length old) (c # s))
      | None \<Rightarrow> c # replace_pairs ps s)"
  by pat_completeness auto
termination
  by (relation "measure (\<lambda>(ps, s). length s)") (auto dest!: find_SomeD)

text \<open>\<open>Format("2006")\<close>, \<open>Format("01")\<close>, \<open>Format("02")\<close>: zero-padded decimals.\<close>

definition pad :: "nat \<Rightarrow> nat \<Rightarrow> string" where
  "pad w n = (let d = decimal n in replicate (w - length d) (CHR ''0'') @ d)"

definition template_pairs :: "template_vars \<Rightarrow> (string \<times> string) list" where
  "template_pairs v =
     (let camera = (if tv_camera v = '''' then ''unknown_camera'' else tv_camera v);
          (st, ext) = split_base (tv_name v)
      in [(''{yyyy}'', pad 4 (tv_year v)), (''{mm}'', pad 2 (tv_month v)), (''{dd}'', pad 2 (tv_day v)),
          (''{camera_model}'', sanitize_segment camera),
          (''{original_name}'', sanitize_segment (tv_name v)),
          (''{stem}'', sanitize_segment st), (''{ext}'', sanitize_segment ext)])"

definition render_path :: "string \<Rightarrow> template_vars \<Rightarrow> string" where
  "render_path tpl v = replace_pairs (template_pairs v) (if tpl = '''' then DefaultPathTemplate else tpl)"

lemma underscore_allowed [simp]: "CHR ''_'' \<notin> forbidden"
  by (simp add: forbidden_def)

lemma slash_forbidden: "CHR ''/'' \<in> forbidden"
  by (simp add: forbidden_def)

lemma sanitize_allowed: "c \<in> set (sanitize_segment s) \<Longrightarrow> c \<notin> forbidden"
  by (auto simp: sanitize_segment_def Let_def split: if_splits)

lemma sanitize_length [simp]: "length (sanitize_segment s) = length s"
  by (simp add: sanitize_segment_def Let_def)

lemma sanitize_empty_iff [simp]: "sanitize_segment s = [] \<longleftrightarrow> s = []"
  by (metis length_0_conv sanitize_length)

text \<open>Some character of a non-empty segment is neither a dot nor a blank.\<close>

lemma sanitize_not_dots:
  assumes "s \<noteq> []"
  shows "\<exists>c \<in> set (sanitize_segment s). c \<noteq> CHR ''.'' \<and> c \<noteq> CHR '' ''"
proof (cases "\<forall>c \<in> set (map (\<lambda>c. if c \<in> forbidden then CHR ''_'' else c) s). c = CHR ''.'' \<or> c = CHR '' ''")
  case True
  then have "sanitize_segment s = replicate (length s) (CHR ''_'')"
    by (simp only: sanitize_segment_def Let_def if_not_P [OF assms] if_P [OF True] length_map)
  then show ?thesis using assms by simp
next
  case False
  then have "sanitize_segment s = map (\<lambda>c. if c \<in> forbidden then CHR ''_'' else c) s"
    by (simp only: sanitize_segment_def Let_def if_not_P [OF assms] if_not_P [OF False] if_False)
  with False show ?thesis by auto
qed

lemma pad_digits: "c \<in> set (pad w n) \<Longrightarrow> is_digit c"
  using decimal_digits [of n] by (auto simp: pad_def Let_def is_digit_def)

section \<open>Properties\<close>

text \<open>The stem is the extension-free, trimmed, lower-cased name with every trailing index and role
  marker removed: it is a prefix of that name, no marker is left at its end, and the kind is
  \<open>SuffixNone\<close> exactly when nothing was removed.\<close>

theorem analyze_normal_form:
  "prefix (stem x) (to_lower (trim_space (drop_ext x))) \<and>
   strip_index (stem x) = None \<and> strip_role (stem x) = None \<and>
   (kind x = SuffixNone \<longleftrightarrow> stem x = to_lower (trim_space (drop_ext x)))"
  using strip_all_prefix strip_all_normal strip_all_none_iff
  by (simp add: stem_def kind_def analyze_def)

lemma last_lower_space: "lower_char c = CHR '' '' \<Longrightarrow> is_space c"
proof -
  assume c: "lower_char c = CHR '' ''"
  let ?n = "of_char c :: nat"
  have "(of_char (lower_char c) :: nat) = (if 65 \<le> ?n \<and> ?n \<le> 90 then ?n + 32 else ?n)"
    by (simp add: lower_char_def Let_def take_bit_eq_mod)
  then have "?n = 32" using c by (auto split: if_splits)
  then show ?thesis by (simp add: is_space_def)
qed

lemma trimmed_last: "trim_space s \<noteq> [] \<Longrightarrow> \<not> is_space (last (trim_space s))"
  unfolding trim_space_def by (simp add: last_rev hd_dropWhile)

text \<open>The bare file that the copy index of \<open>file (12).jpg\<close> implies is not among the files that share its
  stem: the stem keeps the blank before the index, and the stem of a file without a marker never
  ends in one.\<close>

theorem spaced_copy_has_no_anchor:
  assumes "kind y = SuffixNone"
  shows "stem y \<noteq> stem ''file (12).jpg''"
proof
  assume same: "stem y = stem ''file (12).jpg''"
  have "stem ''file (12).jpg'' = ''file ''" by code_simp
  with same assms have "to_lower (trim_space (drop_ext y)) = ''file ''"
    using analyze_normal_form [of y] by simp
  then have "trim_space (drop_ext y) \<noteq> []" "lower_char (last (trim_space (drop_ext y))) = CHR '' ''"
    by (auto simp: to_lower_def last_map [symmetric])
  then show False using trimmed_last last_lower_space by blast
qed

theorem spaced_copy_has_no_anchor_witness:
  "kind ''file.jpg'' = SuffixNone \<and> stem ''file.jpg'' \<noteq> stem ''file (12).jpg''"
proof -
  have "kind ''file.jpg'' = SuffixNone" by code_simp
  then show ?thesis using spaced_copy_has_no_anchor by blast
qed

definition slashes :: "string \<Rightarrow> nat" where
  "slashes s = length (filter (\<lambda>c. c = CHR ''/'') s)"

lemma slashes_append [simp]: "slashes (a @ b) = slashes a + slashes b"
  by (simp add: slashes_def)

lemma slashes_0 [simp]: "slashes s = 0 \<longleftrightarrow> CHR ''/'' \<notin> set s"
  by (auto simp: slashes_def filter_empty_conv)

lemma replace_pairs_slashes:
  "(\<And>old new. (old, new) \<in> set ps \<Longrightarrow> CHR ''/'' \<notin> set old \<and> CHR ''/'' \<notin> set new) \<Longrightarrow>
   slashes (replace_pairs ps s) = slashes s"
proof (induction ps s rule: replace_pairs.induct)
  case (1 ps)
  then show ?case by simp
next
  case (2 ps c s)
  let ?P = "\<lambda>(old, new). old \<noteq> [] \<and> has_prefix (c # s) old"
  show ?case
  proof (cases "find ?P ps")
    case None
    have "slashes (replace_pairs ps s) = slashes s" by (rule 2(1) [OF None 2(3)])
    with None show ?thesis by (simp add: slashes_def)
  next
    case (Some on)
    obtain old new where on: "on = (old, new)" by (cases on)
    have mem: "(old, new) \<in> set ps" and pre: "has_prefix (c # s) old"
      using find_SomeD [OF Some] on by auto
    obtain r where r: "c # s = old @ r" using pre by (auto simp: has_prefix_append)
    have "slashes (replace_pairs ps (drop (length old) (c # s))) = slashes (drop (length old) (c # s))"
      by (rule 2(2) [OF Some [unfolded on] refl 2(3)])
    moreover have "slashes (c # s) = slashes old + slashes r" unfolding r by simp
    moreover have "drop (length old) (c # s) = r" unfolding r by simp
    moreover have "CHR ''/'' \<notin> set old" "CHR ''/'' \<notin> set new" using 2(3) [OF mem] by auto
    then have "slashes old = 0" "slashes new = 0" by simp_all
    ultimately show ?thesis using Some on by simp
  qed
qed

lemma pad_no_slash: "CHR ''/'' \<notin> set (pad w n)"
  using pad_digits [of "CHR ''/''" w n] by (auto simp: is_digit_def)

lemma sanitize_no_slash: "CHR ''/'' \<notin> set (sanitize_segment s)"
  using sanitize_allowed slash_forbidden by blast

text \<open>No value a file brings along (its name, its extension, its camera model) can add a directory
  level to the rendered path: it has exactly the slashes the template has.\<close>

theorem render_keeps_levels:
  "slashes (render_path tpl v) = slashes (if tpl = [] then DefaultPathTemplate else tpl)"
  unfolding render_path_def
  by (rule replace_pairs_slashes)
    (auto simp: template_pairs_def Let_def pad_no_slash sanitize_no_slash split: prod.splits)

end
