(* ===== verification/Lineage.thy ===== *)
theory Lineage
  imports EdgeQueries Naming Paths
begin

text \<open>
  \<open>internal/graph\<close> below its resolvers: the node and candidate values (\<open>types.go\<close>), the
  extension tables and \<open>inferRelationship\<close> (\<open>resolvers.go\<close>), the \<open>Lookup\<close> interface with its
  contract, and \<open>dbLookup\<close> (\<open>lookup.go\<close>), the implementation over the database. Times are the
  UTC seconds \<open>ToNode\<close> reads from \<open>captured_at_unix\<close>.
\<close>

section \<open>Values\<close>

record node =
  g_id :: int
  g_path :: string
  g_name :: string
  g_ext :: string
  g_origdoc :: string
  g_doc :: string
  g_captured :: "int option"
  g_camera :: string
  g_stem :: string
  g_phash :: "64 word option"
  g_serial :: string
  g_lens :: string

record candidate =
  c_parent :: int
  c_child :: int
  c_rel :: string
  c_conf :: float64
  c_tier :: int
  c_resolver :: string
  c_evidence :: "(string \<times> evidence) list"

definition ToNode :: "media_node \<Rightarrow> node" where
  "ToNode r = \<lparr>g_id = n_id r, g_path = n_path r, g_name = n_name r, g_ext = n_ext r,
     g_origdoc = or_empty (n_origdoc r), g_doc = or_empty (n_doc r), g_captured = n_captured r,
     g_camera = or_empty (n_camera r), g_stem = or_empty (n_stem r), g_phash = n_phash r,
     g_serial = or_empty (n_serial r), g_lens = or_empty (n_lens r)\<rparr>"

section \<open>Relationship inference\<close>

definition rawExts :: "string set" where
  "rawExts = {''arw'', ''cr2'', ''cr3'', ''nef'', ''raf'', ''dng'', ''orf'', ''rw2''}"

definition exportExts :: "string set" where
  "exportExts = {''jpg'', ''jpeg'', ''mp4'', ''mov''}"

definition proxyExts :: "string set" where
  "proxyExts = {''lrf''}"

text \<open>\<open>strings.ToLower(strings.TrimPrefix(ext, "."))\<close>\<close>

definition norm_ext :: "string \<Rightarrow> string" where
  "norm_ext x = to_lower (trim_prefix x ''.'')"

definition isProxyExt :: "string \<Rightarrow> bool" where
  "isProxyExt x = (norm_ext x \<in> proxyExts)"

definition isSrtExt :: "string \<Rightarrow> bool" where
  "isSrtExt x = equal_fold (trim_prefix x ''.'') ''srt''"

definition isVideoExt :: "string \<Rightarrow> bool" where
  "isVideoExt x = (norm_ext x = ''mp4'' \<or> norm_ext x = ''mov'')"

definition proxy_named :: "string \<Rightarrow> bool" where
  "proxy_named nm = contains (to_lower nm) ''_proxy''"

definition inferRelationship :: "string \<Rightarrow> string \<Rightarrow> string \<Rightarrow> string" where
  "inferRelationship childName childExt parentExt =
     (if proxy_named childName then ''PROXY_OF''
      else if isProxyExt childExt \<and> \<not> isProxyExt parentExt then ''PROXY_OF''
      else if to_lower parentExt \<in> rawExts \<and> to_lower childExt \<in> exportExts then ''FINAL_EXPORT''
      else ''DERIVED_FROM'')"

definition relationshipTypes :: "string set" where
  "relationshipTypes = {''DERIVED_FROM'', ''FINAL_EXPORT'', ''PROXY_OF'', ''PROJECT_SIDECAR'', ''DUPLICATE_OF''}"

definition IsValidRelationshipType :: "string \<Rightarrow> bool" where
  "IsValidRelationshipType r = (r \<in> relationshipTypes)"

text \<open>\<open>Date()\<close> on both sides: the UTC calendar day is the number of whole days since 1970.\<close>

definition sameCaptureDay :: "int option \<Rightarrow> int option \<Rightarrow> bool" where
  "sameCaptureDay a b = (case (a, b) of (Some s, Some t) \<Rightarrow> s div 86400 = t div 86400 | _ \<Rightarrow> False)"

definition sameDirectory :: "string \<Rightarrow> string \<Rightarrow> bool" where
  "sameDirectory a b = (a \<noteq> [] \<and> b \<noteq> [] \<and> path_dir a = path_dir b)"

definition HammingDistance :: "64 word \<Rightarrow> 64 word \<Rightarrow> nat" where
  "HammingDistance a b = length (filter (bit (xor a b)) [0..<64])"

lemma HammingDistance_card: "HammingDistance a b = card {i. i < 64 \<and> bit a i \<noteq> bit b i}"
proof -
  have "HammingDistance a b = card (set (filter (bit (xor a b)) [0..<64]))"
    unfolding HammingDistance_def by (rule distinct_card [symmetric]) simp
  also have "set (filter (bit (xor a b)) [0..<64]) = {i. i < 64 \<and> bit a i \<noteq> bit b i}"
    by (auto simp: bit_xor_iff)
  finally show ?thesis .
qed

lemma inferRelationship_valid: "IsValidRelationshipType (inferRelationship a b c)"
  by (simp add: inferRelationship_def IsValidRelationshipType_def relationshipTypes_def)

section \<open>The lookup interface\<close>

text \<open>
  \<open>BySpatialTemporal\<close> takes the serial, the capture time, the window in seconds and the id to
  leave out.
\<close>

record lookup =
  ByOriginalDocumentID :: "string \<Rightarrow> node list"
  ByFilenameStem :: "string \<Rightarrow> node list"
  BySpatialTemporal :: "string \<Rightarrow> int \<Rightarrow> int \<Rightarrow> int \<Rightarrow> node list"
  ByPath :: "string \<Rightarrow> node option"
  ByFileName :: "string \<Rightarrow> node list"

text \<open>What every resolver relies on: the rows are live nodes and match the key they were asked for.\<close>

locale lineage_lookup =
  fixes lk :: lookup
    and live :: "node \<Rightarrow> bool"
  assumes by_doc: "n \<in> set (ByOriginalDocumentID lk s) \<Longrightarrow> live n \<and> g_doc n = s"
    and by_stem: "n \<in> set (ByFilenameStem lk s) \<Longrightarrow> live n \<and> g_stem n = s"
    and by_time: "n \<in> set (BySpatialTemporal lk serial t w self) \<Longrightarrow>
      live n \<and> g_serial n = serial \<and> g_id n \<noteq> self \<and> (\<exists>u. g_captured n = Some u \<and> \<bar>u - t\<bar> \<le> \<bar>w\<bar>)"
    and by_path: "ByPath lk p = Some n \<Longrightarrow> live n \<and> g_path n = p"
    and by_name: "n \<in> set (ByFileName lk nm) \<Longrightarrow> live n \<and> g_name n = nm"

section \<open>The lookup over the database\<close>

definition FilenameStemCandidateCap :: nat where "FilenameStemCandidateCap = 500"
definition DocumentIDCandidateCap :: nat where "DocumentIDCandidateCap = 500"
definition FileNameCandidateCap :: nat where "FileNameCandidateCap = 500"

text \<open>Go's zero time, 0001-01-01, in Unix seconds: what \<open>IsZero\<close> tests for.\<close>

definition zero_time :: int where "zero_time = - 62135596800"

definition lookup_doc :: "db \<Rightarrow> string \<Rightarrow> node list" where
  "lookup_doc d s = (if s = [] then [] else map ToNode (ListLiveNodesByDocumentID s DocumentIDCandidateCap d))"

definition lookup_stem :: "db \<Rightarrow> string \<Rightarrow> node list" where
  "lookup_stem d s = (if s = [] then [] else map ToNode (ListLiveNodesByFilenameStem s FilenameStemCandidateCap d))"

definition lookup_time :: "db \<Rightarrow> string \<Rightarrow> int \<Rightarrow> int \<Rightarrow> int \<Rightarrow> node list" where
  "lookup_time d serial t w self =
     (if serial = [] \<or> t = zero_time then []
      else let w' = (if w < 0 then - w else w)
           in map ToNode (ListTier3Candidates serial (t - w') (t + w') self d))"

definition lookup_path :: "db \<Rightarrow> string \<Rightarrow> node option" where
  "lookup_path d p = (if p = [] then None else map_option ToNode (GetLiveNodeByPath p d))"

definition lookup_name :: "db \<Rightarrow> string \<Rightarrow> node list" where
  "lookup_name d nm = (if nm = [] then [] else map ToNode (ListLiveNodesByFileName nm FileNameCandidateCap d))"

definition dbLookup :: "db \<Rightarrow> lookup" where
  "dbLookup d = \<lparr>ByOriginalDocumentID = lookup_doc d, ByFilenameStem = lookup_stem d,
     BySpatialTemporal = lookup_time d, ByPath = lookup_path d, ByFileName = lookup_name d\<rparr>"

definition live_node :: "db \<Rightarrow> node \<Rightarrow> bool" where
  "live_node d n \<longleftrightarrow> (\<exists>r \<in> set (db_nodes d). \<not> retired r \<and> n = ToNode r)"

lemma in_take_nodes: "r \<in> set (take k (nodes_where P d)) \<Longrightarrow> r \<in> set (db_nodes d) \<and> P r"
  by (auto simp: nodes_where_def dest: in_set_takeD)

lemmas lookup_defs = lookup_doc_def lookup_stem_def lookup_time_def lookup_path_def lookup_name_def
  ListLiveNodesByDocumentID_def ListLiveNodesByFilenameStem_def ListLiveNodesByFileName_def
  ListTier3Candidates_def

lemma ToNode_sel [simp]:
  "g_id (ToNode r) = n_id r" "g_path (ToNode r) = n_path r" "g_name (ToNode r) = n_name r"
  "g_ext (ToNode r) = n_ext r" "g_doc (ToNode r) = or_empty (n_doc r)"
  "g_stem (ToNode r) = or_empty (n_stem r)" "g_serial (ToNode r) = or_empty (n_serial r)"
  "g_captured (ToNode r) = n_captured r"
  by (simp_all add: ToNode_def)

lemma live_nodeI [intro]: "r \<in> set (db_nodes d) \<Longrightarrow> \<not> retired r \<Longrightarrow> live_node d (ToNode r)"
  unfolding live_node_def by blast

interpretation dbl: lineage_lookup "dbLookup d" "live_node d" for d
proof
  show "n \<in> set (ByOriginalDocumentID (dbLookup d) s) \<Longrightarrow> live_node d n \<and> g_doc n = s" for n s
    unfolding dbLookup_def lookup_defs by (auto split: if_splits dest!: in_take_nodes)
  show "n \<in> set (ByFilenameStem (dbLookup d) s) \<Longrightarrow> live_node d n \<and> g_stem n = s" for n s
    unfolding dbLookup_def lookup_defs by (auto split: if_splits dest!: in_take_nodes)
  show "n \<in> set (BySpatialTemporal (dbLookup d) serial t w self) \<Longrightarrow>
      live_node d n \<and> g_serial n = serial \<and> g_id n \<noteq> self \<and> (\<exists>u. g_captured n = Some u \<and> \<bar>u - t\<bar> \<le> \<bar>w\<bar>)"
    for n serial t w self
    unfolding dbLookup_def lookup_defs nodes_where_def between_def Let_def
    by (auto split: if_splits option.splits)
  show "ByPath (dbLookup d) p = Some n \<Longrightarrow> live_node d n \<and> g_path n = p" for p n
    unfolding dbLookup_def lookup_defs by (auto split: if_splits dest!: GetLiveNodeByPath_Some)
  show "n \<in> set (ByFileName (dbLookup d) nm) \<Longrightarrow> live_node d n \<and> g_name n = nm" for n nm
    unfolding dbLookup_def lookup_defs by (auto split: if_splits dest!: in_take_nodes)
qed

end
