(* ===== verification/Confidence.thy ===== *)
theory Confidence
  imports Float64
begin

text \<open>
  The confidence arithmetic of \<open>internal/graph\<close>, in IEEE doubles as Go computes it: the per-tier
  acceptance threshold (\<open>engine.go\<close>), the additive scores of the filename resolver, of its
  flight-telemetry branch and of the tier-3 heuristic (\<open>resolvers.go\<close>). The sums are not the
  decimals they look like (\<open>0.60 + 0.10 + 0.10\<close> is below \<open>0.80\<close>), so each score that can arise is
  evaluated exactly, and the thresholds are compared with the floats.
\<close>

named_theorems conf_eval \<open>exact values of the floats that confidences pass through\<close>

section \<open>Thresholds\<close>

definition AutoAcceptThresholdForTier :: "int \<Rightarrow> float64" where
  "AutoAcceptThresholdForTier tier = (if tier = 3 then f64 (85/100) else f64 (90/100))"

definition NeedsReviewFloor :: float64 where "NeedsReviewFloor = f64 (50/100)"

definition indexMatchConfidenceCap :: float64 where "indexMatchConfidenceCap = f64 (89/100)"

section \<open>Scores\<close>

definition boost :: "bool \<Rightarrow> rat \<Rightarrow> float64 \<Rightarrow> float64" where
  "boost b q c = (if b then fadd c (f64 q) else c)"

definition cap :: "float64 \<Rightarrow> float64 \<Rightarrow> float64" where
  "cap m c = (if m < c then m else c)"

text \<open>\<open>FilenameStemResolver\<close>: same day, same camera, same directory; gated by an index suffix or not.\<close>

definition stem_confidence :: "bool \<Rightarrow> bool \<Rightarrow> bool \<Rightarrow> bool \<Rightarrow> float64" where
  "stem_confidence day camera dir gated =
     (let c = cap (f64 (90/100))
                (boost dir (10/100) (boost camera (10/100) (boost day (15/100) (f64 (60/100)))))
      in if gated then cap indexMatchConfidenceCap c else c)"

definition srt_confidence :: "bool \<Rightarrow> bool \<Rightarrow> bool \<Rightarrow> float64" where
  "srt_confidence day camera gated =
     (let c = cap (f64 (90/100)) (boost camera (10/100) (boost day (15/100) (f64 (70/100))))
      in if gated then cap indexMatchConfidenceCap c else c)"

text \<open>
  \<open>HeuristicSpatialTemporalResolver\<close>: same lens; whether both perceptual hashes are present
  (and then close). \<open>math.Round(confidence*100) / 100\<close> and the band's cap.
\<close>

definition tier3_confidence :: "bool \<Rightarrow> bool \<Rightarrow> float64" where
  "tier3_confidence lens phash =
     (let c = boost lens (10/100) (f64 (70/100));
          c = (if phash then fadd c (f64 (9/100)) else cap (f64 (79/100)) c)
      in cap (f64 (89/100)) (fdiv (fround (fmul c 100)) 100))"

section \<open>Exact values\<close>

lemma f64_060 [conf_eval]: "f64 (3 / 5) = 5404319552844595 / 9007199254740992"
  using f64_eqI [of "-1" "3 / 5" 5404319552844595] by (simp add: pow2_def)

lemma f64_015 [conf_eval]: "f64 (3 / 20) = 5404319552844595 / 36028797018963968"
  using f64_eqI [of "-3" "3 / 20" 5404319552844595] by (simp add: pow2_def)

lemma f64_010 [conf_eval]: "f64 (1 / 10) = 3602879701896397 / 36028797018963968"
  using f64_eqI [of "-4" "1 / 10" 7205759403792794] by (simp add: pow2_def)

lemma f64_090 [conf_eval]: "f64 (9 / 10) = 8106479329266893 / 9007199254740992"
  using f64_eqI [of "-1" "9 / 10" 8106479329266893] by (simp add: pow2_def)

lemma f64_089 [conf_eval]: "f64 (89 / 100) = 8016407336719483 / 9007199254740992"
  using f64_eqI [of "-1" "89 / 100" 8016407336719483] by (simp add: pow2_def)

lemma f64_095 [conf_eval]: "f64 (19 / 20) = 4278419646001971 / 4503599627370496"
  using f64_eqI [of "-1" "19 / 20" 8556839292003942] by (simp add: pow2_def)

lemma f64_070 [conf_eval]: "f64 (7 / 10) = 3152519739159347 / 4503599627370496"
  using f64_eqI [of "-1" "7 / 10" 6305039478318694] by (simp add: pow2_def)

lemma f64_079 [conf_eval]: "f64 (79 / 100) = 889460926405673 / 1125899906842624"
  using f64_eqI [of "-1" "79 / 100" 7115687411245384] by (simp add: pow2_def)

lemma f64_009 [conf_eval]: "f64 (9 / 100) = 3242591731706757 / 36028797018963968"
  using f64_eqI [of "-4" "9 / 100" 6485183463413514] by (simp add: pow2_def)

lemma f64_085 [conf_eval]: "f64 (17 / 20) = 7656119366529843 / 9007199254740992"
  using f64_eqI [of "-1" "17 / 20" 7656119366529843] by (simp add: pow2_def)

lemma f64_050 [conf_eval]: "f64 (1 / 2) = 1 / 2"
  using f64_eqI [of "-1" "1 / 2" 4503599627370496] by (simp add: pow2_def)

lemma float_sum1 [conf_eval]: "fadd (5404319552844595 / 9007199254740992) (3602879701896397 / 36028797018963968) = 3152519739159347 / 4503599627370496"
  using f64_eqI [of "-1" "25220157913274777 / 36028797018963968" 6305039478318694] by (simp add: pow2_def fadd_def)

lemma float_sum2 [conf_eval]: "fadd (3152519739159347 / 4503599627370496) (3602879701896397 / 36028797018963968) = 7205759403792793 / 9007199254740992"
  using f64_eqI [of "-1" "28823037615171173 / 36028797018963968" 7205759403792793] by (simp add: pow2_def fadd_def)

lemma float_sum3 [conf_eval]: "fadd (5404319552844595 / 9007199254740992) (5404319552844595 / 36028797018963968) = 3 / 4"
  using f64_eqI [of "-1" "27021597764222975 / 36028797018963968" 6755399441055744] by (simp add: pow2_def fadd_def)

lemma float_sum4 [conf_eval]: "fadd (3 / 4) (3602879701896397 / 36028797018963968) = 7656119366529843 / 9007199254740992"
  using f64_eqI [of "-1" "30624477466119373 / 36028797018963968" 7656119366529843] by (simp add: pow2_def fadd_def)

lemma float_sum5 [conf_eval]: "fadd (7656119366529843 / 9007199254740992) (3602879701896397 / 36028797018963968) = 4278419646001971 / 4503599627370496"
  using f64_eqI [of "-1" "34227357168015769 / 36028797018963968" 8556839292003942] by (simp add: pow2_def fadd_def)

lemma float_sum6 [conf_eval]: "fadd (3152519739159347 / 4503599627370496) (5404319552844595 / 36028797018963968) = 7656119366529843 / 9007199254740992"
  using f64_eqI [of "-1" "30624477466119371 / 36028797018963968" 7656119366529843] by (simp add: pow2_def fadd_def)

lemma float_sum7 [conf_eval]: "fmul (3152519739159347 / 4503599627370496) 100 = 70"
  using f64_eqI [of "6" "78812993478983675 / 1125899906842624" 4925812092436480] by (simp add: pow2_def fmul_def)

lemma float_sum8 [conf_eval]: "fdiv 70 100 = 3152519739159347 / 4503599627370496"
  using f64_eqI [of "-1" "7 / 10" 6305039478318694] by (simp add: pow2_def fdiv_def)

lemma float_sum9 [conf_eval]: "fadd (3152519739159347 / 4503599627370496) (3242591731706757 / 36028797018963968) = 7115687411245383 / 9007199254740992"
  using f64_eqI [of "-1" "28462749644981533 / 36028797018963968" 7115687411245383] by (simp add: pow2_def fadd_def)

lemma float_sum10 [conf_eval]: "fmul (7115687411245383 / 9007199254740992) 100 = 5559130790035455 / 70368744177664"
  using f64_eqI [of "6" "177892185281134575 / 2251799813685248" 5559130790035455] by (simp add: pow2_def fmul_def)

lemma float_sum11 [conf_eval]: "fdiv 79 100 = 889460926405673 / 1125899906842624"
  using f64_eqI [of "-1" "79 / 100" 7115687411245384] by (simp add: pow2_def fdiv_def)

lemma float_sum12 [conf_eval]: "fmul (889460926405673 / 1125899906842624) 100 = 79"
  using f64_eqI [of "6" "22236523160141825 / 281474976710656" 5559130790035456] by (simp add: pow2_def fmul_def)

lemma float_sum13 [conf_eval]: "fadd (7205759403792793 / 9007199254740992) (3242591731706757 / 36028797018963968) = 4008203668359741 / 4503599627370496"
  using f64_eqI [of "-1" "32065629346877929 / 36028797018963968" 8016407336719482] by (simp add: pow2_def fadd_def)

lemma float_sum14 [conf_eval]: "fmul (4008203668359741 / 4503599627370496) 100 = 6262818231812095 / 70368744177664"
  using f64_eqI [of "6" "100205091708993525 / 1125899906842624" 6262818231812095] by (simp add: pow2_def fmul_def)

lemma float_sum15 [conf_eval]: "fdiv 89 100 = 8016407336719483 / 9007199254740992"
  using f64_eqI [of "-1" "89 / 100" 8016407336719483] by (simp add: pow2_def fdiv_def)

lemma fround_floor:
  "of_int n - 1 / 2 \<le> q \<Longrightarrow> q < of_int n + 1 / 2 \<Longrightarrow> 0 < q \<Longrightarrow> fround q = of_int n"
proof -
  assume "of_int n - 1 / 2 \<le> q" "q < of_int n + 1 / 2" "0 < q"
  then have "\<lfloor>q + 1 / 2\<rfloor> = n" by (intro floor_unique) auto
  with \<open>0 < q\<close> show ?thesis by (simp add: fround_def)
qed

lemma fround_values [conf_eval]:
  "fround 70 = 70" "fround 79 = 79"
  "fround (5559130790035455 / 70368744177664) = 79"
  "fround (6262818231812095 / 70368744177664) = 89"
  using fround_floor [of 70 70] fround_floor [of 79 79]
    fround_floor [of 79 "5559130790035455 / 70368744177664"]
    fround_floor [of 89 "6262818231812095 / 70368744177664"] by simp_all

lemma stem_confidence_range:
  "f64 (60/100) \<le> stem_confidence day camera dir gated"
  "stem_confidence day camera dir gated \<le> f64 (90/100)"
  by (cases day; cases camera; cases dir; cases gated;
      simp add: stem_confidence_def boost_def cap_def Let_def indexMatchConfidenceCap_def conf_eval)+

lemma srt_confidence_range:
  "f64 (70/100) \<le> srt_confidence day camera gated" "srt_confidence day camera gated \<le> f64 (90/100)"
  by (cases day; cases camera; cases gated;
      simp add: srt_confidence_def boost_def cap_def Let_def indexMatchConfidenceCap_def conf_eval)+

lemma tier3_confidence_values:
  "tier3_confidence lens phash =
     (if phash then if lens then f64 (89/100) else f64 (79/100)
      else if lens then f64 (79/100) else f64 (70/100))"
  by (cases lens; cases phash; simp add: tier3_confidence_def boost_def cap_def Let_def conf_eval)

text \<open>Which scores reach \<open>AUTO_ACCEPTED\<close> on their own.\<close>

lemma stem_auto_accept:
  "AutoAcceptThresholdForTier 2 \<le> stem_confidence day camera dir gated \<longleftrightarrow> day \<and> camera \<and> dir \<and> \<not> gated"
  by (cases day; cases camera; cases dir; cases gated;
      simp add: stem_confidence_def boost_def cap_def Let_def indexMatchConfidenceCap_def
        AutoAcceptThresholdForTier_def conf_eval)

lemma srt_auto_accept:
  "AutoAcceptThresholdForTier 2 \<le> srt_confidence day camera gated \<longleftrightarrow> day \<and> camera \<and> \<not> gated"
  by (cases day; cases camera; cases gated;
      simp add: srt_confidence_def boost_def cap_def Let_def indexMatchConfidenceCap_def
        AutoAcceptThresholdForTier_def conf_eval)

lemma tier3_auto_accept:
  "AutoAcceptThresholdForTier 3 \<le> tier3_confidence lens phash \<longleftrightarrow> lens \<and> phash"
  by (cases lens; cases phash;
      simp add: tier3_confidence_values AutoAcceptThresholdForTier_def conf_eval)

text \<open>The bounds the edge table checks.\<close>

lemma conf_unit:
  "0 \<le> stem_confidence day camera dir gated" "stem_confidence day camera dir gated \<le> 1"
  "0 \<le> srt_confidence day camera gated" "srt_confidence day camera gated \<le> 1"
  "0 \<le> tier3_confidence lens phash" "tier3_confidence lens phash \<le> 1"
  "0 \<le> f64 (95/100)" "f64 (95/100) \<le> 1"
  using stem_confidence_range [of day camera dir gated] srt_confidence_range [of day camera gated]
  by (auto simp: conf_eval tier3_confidence_values)

lemma conf_above_floor:
  "NeedsReviewFloor \<le> stem_confidence day camera dir gated" "NeedsReviewFloor \<le> srt_confidence day camera gated"
  "NeedsReviewFloor \<le> tier3_confidence lens phash"
  using stem_confidence_range(1) [of day camera dir gated] srt_confidence_range(1) [of day camera gated]
  by (auto simp: conf_eval tier3_confidence_values NeedsReviewFloor_def)

end
