(* ===== verification/Samples.thy ===== *)
theory Samples
  imports EdgeQueries
begin

text \<open>
  Small concrete databases on which the theorems of the other theories are applied: a raw
  original on the archive, its export, and a project file that uses the original.
\<close>

definition sample_node :: "int \<Rightarrow> string \<Rightarrow> int \<Rightarrow> string \<Rightarrow> string \<Rightarrow> string \<Rightarrow> media_node" where
  "sample_node i uuid loc p nm ext =
     \<lparr>n_id = i, n_uuid = uuid, n_loc = loc, n_path = p, n_name = nm, n_ext = ext, n_size = 100,
      n_mtime = 1000, n_fast = None, n_full = None, n_phash = None, n_indexing = INDEXED_SHALLOW,
      n_graph = UNLINKED, n_life = ACTIVE, n_superseded = None, n_origdoc = None, n_doc = None,
      n_derived = None, n_captured = None, n_camera = None, n_stem = None, n_first_seen = 0,
      n_last_seen = 0, n_created = 0, n_updated = 0, n_serial = None, n_lens = None,
      n_thumb = THUMB_PENDING, n_attempts = 0, n_srchash = None, n_uploader = None\<rparr>"

definition sample_loc :: "int \<Rightarrow> string \<Rightarrow> storage_tier \<Rightarrow> bool \<Rightarrow> storage_location" where
  "sample_loc i dir tier ro = \<lparr>l_id = i, l_name = dir, l_root = dir, l_tier = tier, l_readonly = ro,
     l_prunable = True, l_active = True, l_ttl_hours = 1, l_virtual = False\<rparr>"

definition sample_edge :: "int \<Rightarrow> int \<Rightarrow> int \<Rightarrow> string \<Rightarrow> review_state \<Rightarrow> media_edge" where
  "sample_edge i s t r st = \<lparr>e_id = i, e_source = s, e_target = t, e_rel = r, e_conf = 1, e_tier = 1,
     e_resolver = ''project_sidecar'', e_evidence = EvObject [], e_review = st,
     e_reviewed_at = (if st = CONFIRMED \<or> st = REJECTED then Some 5 else None), e_reviewed_by = None,
     e_created = 0, e_updated = 0, e_active = True\<rparr>"

definition original :: media_node where
  "original = (sample_node 1 ''u1'' 1 ''/archive/a.arw'' ''a.arw'' ''arw'')\<lparr>n_doc := Some ''D''\<rparr>"

definition export :: media_node where
  "export = (sample_node 2 ''u2'' 2 ''/exports/b.jpg'' ''b.jpg'' ''jpg'')\<lparr>n_origdoc := Some ''D''\<rparr>"

definition project :: media_node where
  "project = sample_node 3 ''u3'' 2 ''/exports/p.drp'' ''p.drp'' ''drp''"

definition studio :: db where
  "studio = \<lparr>db_nodes = [original, export, project],
     db_edges = [sample_edge 1 1 3 ''PROJECT_SIDECAR'' AUTO_ACCEPTED, sample_edge 2 2 3 ''DERIVED_FROM'' REJECTED],
     db_provs = [], db_meta = [],
     db_locs = [sample_loc 1 ''/archive'' TIER3_MASTER_ARCHIVE True, sample_loc 2 ''/exports'' TIER2_EXPORTS False],
     db_users = [7], db_clock = 2000\<rparr>"

lemmas sample_defs = sample_node_def sample_loc_def sample_edge_def original_def export_def project_def

lemma studio_sel [simp]:
  "db_nodes studio = [original, export, project]"
  "db_edges studio = [sample_edge 1 1 3 ''PROJECT_SIDECAR'' AUTO_ACCEPTED, sample_edge 2 2 3 ''DERIVED_FROM'' REJECTED]"
  "db_clock studio = 2000"
  by (simp_all add: studio_def)

lemma studio_ok: "db_ok studio"
proof -
  have "unique_on (\<lambda>n. \<not> retired n) n_path (db_nodes studio)"
    "unique_on hash_indexed n_full (db_nodes studio)"
    by (simp_all add: unique_on_def studio_def sample_defs retired_def hash_indexed_def)
  moreover have "\<forall>n \<in> set (db_nodes studio). node_check n" "\<forall>n \<in> set (db_nodes studio). node_fk studio n"
    by (simp_all add: studio_def sample_defs node_check_def opt_len_def node_fk_def)
  ultimately have "node_violation studio = None"
    by (simp add: node_violation_None) (simp add: sample_defs)
  moreover have "edge_violation studio = None"
    by (simp add: edge_violation_None) (simp add: sample_defs edge_key_def edge_check_def)
  ultimately show ?thesis by (simp add: db_ok_def)
qed

lemma studio_pairs: "active_pairs studio = [(1, 3), (2, 3)]"
  by (simp add: active_pairs_def sample_defs)

lemma studio_acyclic: "acyclic (active_rel studio)"
  by (rule acyclicI_order [of _ "\<lambda>x. - x"]) (auto simp: active_rel_def studio_pairs)

end
