(* ===== verification/Resolvers.thy ===== *)
theory Resolvers
  imports Lineage Confidence Samples "HOL-Library.Product_Lexorder"
begin

text \<open>
  The four resolvers of \<open>internal/graph/resolvers.go\<close>, as functions from a child node and a
  lookup to candidate edges. What they read from disk is an environment: \<open>os.Open\<close> with the
  file's bytes, \<open>djisrt.ParseFirstPoint\<close> and the project-file parser that
  \<open>projectfile.GetParser\<close> selects for a path. A lookup error is not modelled (it aborts the pass).
\<close>

record reference =
  RawPath :: string
  Role :: string

record resolver_env =
  env_open :: "string \<Rightarrow> string option"
  env_point :: "string \<Rightarrow> (float64 \<times> float64) option"
  env_parser :: "string \<Rightarrow> (string \<Rightarrow> reference list option) option"
  env_rewrites :: "(string \<times> string) list"

type_synonym resolver = "node \<Rightarrow> lookup \<Rightarrow> candidate list"

definition ev_if :: "bool \<Rightarrow> string \<Rightarrow> evidence \<Rightarrow> (string \<times> evidence) list" where
  "ev_if b k v = (if b then [(k, v)] else [])"

section \<open>Document identifiers\<close>

definition xmp_candidate :: "node \<Rightarrow> node \<Rightarrow> candidate" where
  "xmp_candidate child parent = \<lparr>c_parent = g_id parent, c_child = g_id child,
     c_rel = inferRelationship (g_name child) (g_ext child) (g_ext parent),
     c_conf = f64 (95/100), c_tier = 2, c_resolver = ''xmp_original_document_id'',
     c_evidence = [(''child_original_document_id'', EvString (g_origdoc child)),
                   (''parent_document_id'', EvString (g_doc parent))]\<rparr>"

definition XMPOriginalDocumentIDResolver :: resolver where
  "XMPOriginalDocumentIDResolver child lk =
     (if g_origdoc child = [] then []
      else map (xmp_candidate child)
             (filter (\<lambda>p. g_id p \<noteq> g_id child) (ByOriginalDocumentID lk (g_origdoc child))))"

section \<open>Filename stems\<close>

definition sniffDjiTelemetry :: "resolver_env \<Rightarrow> string \<Rightarrow> (float64 \<times> float64) option" where
  "sniffDjiTelemetry env p = (case env_open env p of None \<Rightarrow> None | Some bytes \<Rightarrow> env_point env bytes)"

definition same_camera :: "node \<Rightarrow> node \<Rightarrow> bool" where
  "same_camera a b \<longleftrightarrow> g_camera a \<noteq> [] \<and> g_camera a = g_camera b"

definition same_day :: "node \<Rightarrow> node \<Rightarrow> bool" where
  "same_day a b = sameCaptureDay (g_captured a) (g_captured b)"

definition index_gated :: "node \<Rightarrow> node \<Rightarrow> bool" where
  "index_gated child parent \<longleftrightarrow> kind (g_name child) = SuffixIndex \<or> kind (g_name parent) = SuffixIndex"

text \<open>The branch for a subtitle file next to a video: \<open>child\<close> and \<open>parent\<close> as the caller has them.\<close>

definition srt_pair :: "resolver_env \<Rightarrow> node \<Rightarrow> node \<Rightarrow> candidate option" where
  "srt_pair env child parent =
     (if isSrtExt (g_ext child) \<and> isSrtExt (g_ext parent) then None
      else let (srt, video) = (if isSrtExt (g_ext child) then (child, parent) else (parent, child))
           in if \<not> isVideoExt (g_ext video) \<or> path_dir (g_path srt) \<noteq> path_dir (g_path video) then None
              else case sniffDjiTelemetry env (g_path srt) of
                None \<Rightarrow> None
              | Some (lat, lon) \<Rightarrow>
                  if g_id child \<noteq> g_id srt \<and> index_gated child parent then None
                  else Some \<lparr>c_parent = g_id video, c_child = g_id srt, c_rel = ''PROXY_OF'',
                    c_conf = srt_confidence (same_day srt video) (same_camera srt video) (index_gated child parent),
                    c_tier = 2, c_resolver = ''filename_stem'',
                    c_evidence = [(''filename_stem'', EvString (g_stem srt)), (''dji_telemetry'', EvBool True),
                        (''same_directory'', EvBool True), (''gps_latitude'', EvFloat lat), (''gps_longitude'', EvFloat lon)]
                      @ ev_if (same_day srt video) ''same_capture_day'' (EvBool True)
                      @ ev_if (same_camera srt video) ''same_camera_model'' (EvBool True)\<rparr>)"

definition is_proxy :: "node \<Rightarrow> bool" where
  "is_proxy n \<longleftrightarrow> isProxyExt (g_ext n) \<or> proxy_named (g_name n)"

definition is_raw :: "node \<Rightarrow> bool" where
  "is_raw n \<longleftrightarrow> norm_ext (g_ext n) \<in> rawExts"

definition is_export :: "node \<Rightarrow> bool" where
  "is_export n \<longleftrightarrow> norm_ext (g_ext n) \<in> exportExts"

definition proxy_swap :: "node \<Rightarrow> node \<Rightarrow> bool" where
  "proxy_swap child parent \<longleftrightarrow> is_proxy parent \<and> \<not> is_proxy child"

definition role_swap :: "node \<Rightarrow> node \<Rightarrow> bool" where
  "role_swap child parent \<longleftrightarrow> \<not> is_proxy parent \<and> \<not> is_proxy child \<and>
     kind (g_name parent) = SuffixRole \<and> kind (g_name child) = SuffixNone"

definition raw_swap :: "node \<Rightarrow> node \<Rightarrow> bool" where
  "raw_swap child parent \<longleftrightarrow> \<not> role_swap child parent \<and> \<not> is_proxy parent \<and> \<not> is_proxy child \<and>
     is_raw child \<and> is_export parent"

text \<open>Which node is the child and which the parent after the direction rules.\<close>

definition orient :: "node \<Rightarrow> node \<Rightarrow> node \<times> node" where
  "orient child parent =
     (if proxy_swap child parent \<or> role_swap child parent \<or> raw_swap child parent
      then (parent, child) else (child, parent))"

definition plain_pair :: "node \<Rightarrow> node \<Rightarrow> candidate option" where
  "plain_pair child parent =
     (let gated = index_gated child parent
      in if (proxy_swap child parent \<or> raw_swap child parent) \<and> gated then None
         else let (cn, pn) = orient child parent;
                  dir = sameDirectory (g_path cn) (g_path pn)
              in Some \<lparr>c_parent = g_id pn, c_child = g_id cn,
                   c_rel = inferRelationship (g_name cn) (g_ext cn) (g_ext pn),
                   c_conf = stem_confidence (same_day cn pn) (same_camera cn pn) dir gated,
                   c_tier = 2, c_resolver = ''filename_stem'',
                   c_evidence = [(''filename_stem'', EvString (g_stem cn))]
                     @ ev_if (same_day cn pn) ''same_capture_day'' (EvBool True)
                     @ ev_if (same_camera cn pn) ''same_camera_model'' (EvString (g_camera cn))
                     @ ev_if dir ''same_directory'' (EvBool True)
                     @ ev_if gated ''index_suffix_gated'' (EvBool True)
                     @ ev_if gated ''anchor_file_name'' (EvString (g_name pn))
                     @ ev_if (proxy_swap child parent) ''proxy_ext_direction_forced'' (EvBool True)\<rparr>)"

definition stem_pair :: "resolver_env \<Rightarrow> node \<Rightarrow> node \<Rightarrow> candidate option" where
  "stem_pair env child parent =
     (if g_id parent = g_id child then None
      else if index_gated child parent \<and>
              (kind (g_name child) \<noteq> SuffixIndex \<or> kind (g_name parent) \<noteq> SuffixNone) then None
      else if isSrtExt (g_ext child) \<or> isSrtExt (g_ext parent) then srt_pair env child parent
      else plain_pair child parent)"

definition FilenameStemResolver :: "resolver_env \<Rightarrow> resolver" where
  "FilenameStemResolver env child lk =
     (if g_stem child = [] then []
      else List.map_filter (stem_pair env child) (ByFilenameStem lk (g_stem child)))"

section \<open>Camera, time and image\<close>

definition MaxInt :: int where "MaxInt = 9223372036854775807"

text \<open>A scored parent: the candidate, the Hamming distance (\<open>MaxInt\<close> if unknown), the time delta.\<close>

type_synonym scored = "candidate \<times> int \<times> float64"

definition tier3_score :: "node \<Rightarrow> int \<Rightarrow> node \<Rightarrow> scored option" where
  "tier3_score child t parent =
     (case g_captured parent of
        None \<Rightarrow> None
      | Some u \<Rightarrow>
          if g_id parent = g_id child then None
          else if to_lower (g_ext parent) \<notin> rawExts \<or> to_lower (g_ext child) \<notin> exportExts then None
          else
            let delta = f64 (of_int \<bar>t - u\<bar>);
                lens = (g_lens child \<noteq> [] \<and> g_lens child = g_lens parent);
                dist = (case (g_phash child, g_phash parent) of
                          (Some a, Some b) \<Rightarrow> Some (int (HammingDistance a b)) | _ \<Rightarrow> None)
            in if (case dist of Some k \<Rightarrow> 10 < k | None \<Rightarrow> False) then None
               else Some
                 (\<lparr>c_parent = g_id parent, c_child = g_id child,
                   c_rel = inferRelationship (g_name child) (g_ext child) (g_ext parent),
                   c_conf = tier3_confidence lens (dist \<noteq> None), c_tier = 3,
                   c_resolver = ''heuristic_spatial_temporal'',
                   c_evidence = [(''camera_serial'', EvString (g_serial child)),
                                 (''capture_delta_seconds'', EvFloat delta)]
                     @ ev_if lens ''lens_model'' (EvString (g_lens child))
                     @ (case dist of Some k \<Rightarrow> [(''hamming_distance'', EvInt k)]
                        | None \<Rightarrow> [(''phash_missing'', EvBool True)])\<rparr>,
                  case dist of Some k \<Rightarrow> k | None \<Rightarrow> MaxInt, delta))"

definition better :: "scored \<Rightarrow> scored \<Rightarrow> bool" where
  "better = (\<lambda>(c, h, dt) (best, bh, bd).
     c_conf best < c_conf c \<or>
     c_conf c = c_conf best \<and> h < bh \<or>
     c_conf c = c_conf best \<and> h = bh \<and> dt < bd \<or>
     c_conf c = c_conf best \<and> h = bh \<and> dt = bd \<and> c_parent c < c_parent best)"

fun keep_best :: "scored option \<Rightarrow> scored list \<Rightarrow> scored option" where
  "keep_best best [] = best"
| "keep_best None (x # xs) = keep_best (Some x) xs"
| "keep_best (Some b) (x # xs) = keep_best (if better x b then Some x else Some b) xs"

definition HeuristicSpatialTemporalResolver :: resolver where
  "HeuristicSpatialTemporalResolver child lk =
     (case g_captured child of
        None \<Rightarrow> []
      | Some t \<Rightarrow>
          if g_serial child = [] then []
          else case keep_best None (List.map_filter (tier3_score child t)
                      (BySpatialTemporal lk (g_serial child) t 2 (g_id child))) of
                 None \<Rightarrow> []
               | Some (c, _, _) \<Rightarrow> [c])"

section \<open>Project files\<close>

text \<open>The prefix test folds case, the remainder keeps it; \<open>Clean\<close> closes both exits.\<close>

fun applyPathRewrite :: "string \<Rightarrow> (string \<times> string) list \<Rightarrow> string" where
  "applyPathRewrite raw [] = path_clean (replace_char (CHR 0x5C) (CHR ''/'') raw)"
| "applyPathRewrite raw ((from, to) # rws) =
     (let normRaw = replace_char (CHR 0x5C) (CHR ''/'') raw;
          normFrom = replace_char (CHR 0x5C) (CHR ''/'') from;
          normTo = replace_char (CHR 0x5C) (CHR ''/'') to
      in if normFrom = [] then applyPathRewrite raw rws
         else if has_prefix (to_lower normRaw) (to_lower normFrom) then
           let rel = drop (length normFrom) normRaw
           in path_clean (normTo @ (if \<not> has_suffix normTo ''/'' \<and> \<not> has_prefix rel ''/'' then ''/'' else []) @ rel)
         else applyPathRewrite raw rws)"

definition resolveReference :: "resolver_env \<Rightarrow> lookup \<Rightarrow> string \<Rightarrow> node option" where
  "resolveReference env lk raw =
     (case ByPath lk raw of
        Some n \<Rightarrow> Some n
      | None \<Rightarrow>
          let rewritten = applyPathRewrite raw (env_rewrites env)
          in case (if rewritten \<noteq> raw then ByPath lk rewritten else None) of
               Some n \<Rightarrow> Some n
             | None \<Rightarrow>
                 let base = path_base (replace_char (CHR 0x5C) (CHR ''/'') raw)
                 in if base \<noteq> [] \<and> base \<noteq> dot \<and> base \<noteq> ''/'' then
                      (case ByFileName lk base of [n] \<Rightarrow> Some n | _ \<Rightarrow> None)
                    else None)"

definition sidecar_candidate :: "node \<Rightarrow> node \<Rightarrow> (string \<times> evidence) list \<Rightarrow> candidate" where
  "sidecar_candidate child n ev = \<lparr>c_parent = g_id n, c_child = g_id child, c_rel = ''PROJECT_SIDECAR'',
     c_conf = 1, c_tier = 1, c_resolver = ''project_sidecar'', c_evidence = ev\<rparr>"

definition ref_step :: "resolver_env \<Rightarrow> node \<Rightarrow> lookup \<Rightarrow> candidate list \<Rightarrow> reference \<Rightarrow> candidate list" where
  "ref_step env child lk cs r =
     (if RawPath r = [] then cs
      else case resolveReference env lk (RawPath r) of
        None \<Rightarrow> cs
      | Some n \<Rightarrow>
          if g_id n = g_id child \<or> g_id n \<in> c_parent ` set cs then cs
          else cs @ [sidecar_candidate child n
                       [(''project_file_path'', EvString (g_path child)),
                        (''raw_reference'', EvString (RawPath r)), (''role'', EvString (Role r))]])"

definition is_xmp :: "node \<Rightarrow> bool" where
  "is_xmp n \<longleftrightarrow> equal_fold (g_ext n) ''xmp'' \<or> has_suffix (to_lower (g_name n)) ''.xmp''"

definition sibling_step :: "node \<Rightarrow> candidate list \<Rightarrow> node \<Rightarrow> candidate list" where
  "sibling_step child cs n =
     (if g_id n = g_id child \<or> g_id n \<in> c_parent ` set cs then cs
      else if is_xmp n then cs
      else if path_dir (g_path n) \<noteq> path_dir (g_path child) then cs
      else if kind (g_name n) = SuffixIndex \<and>
              trim_suffix (to_lower (g_name n)) (''.'' @ to_lower (g_ext n))
                \<noteq> trim_suffix (to_lower (g_name child)) ''.xmp'' then cs
      else cs @ [sidecar_candidate child n
                   [(''project_file_path'', EvString (g_path child)), (''raw_reference'', EvString (g_name n)),
                    (''role'', EvString ''sidecar''), (''match_type'', EvString ''same_stem_sibling'')]])"

definition stemsToTry :: "node \<Rightarrow> string list" where
  "stemsToTry child =
     (let s = (if g_stem child = [] then stem (g_name child) else g_stem child);
          alt = stem (trim_suffix (to_lower (g_name child)) ''.xmp'')
      in if alt \<noteq> [] \<and> alt \<noteq> s then [s, alt] else [s])"

definition ProjectSidecarResolver :: "resolver_env \<Rightarrow> resolver" where
  "ProjectSidecarResolver env child lk =
     (case env_parser env (g_path child) of
        None \<Rightarrow> []
      | Some parse \<Rightarrow>
          (case env_open env (g_path child) of
             None \<Rightarrow> []
           | Some bytes \<Rightarrow>
               (case parse bytes of
                  None \<Rightarrow> []
                | Some refs \<Rightarrow>
                    let cs = foldl (ref_step env child lk) [] refs
                    in if is_xmp child
                       then foldl (\<lambda>cs s. foldl (sibling_step child) cs (ByFilenameStem lk s)) cs (stemsToTry child)
                       else cs)))"

section \<open>What a resolver may propose\<close>

text \<open>
  A well-formed candidate of \<open>child\<close>: an edge between the child and another node, in either
  direction, that the checks of the edge table accept.
\<close>

definition wf_candidate :: "(node \<Rightarrow> bool) \<Rightarrow> node \<Rightarrow> candidate \<Rightarrow> bool" where
  "wf_candidate live child c \<longleftrightarrow>
     (\<exists>n. live n \<and> g_id n \<noteq> g_id child \<and>
        ((c_parent c, c_child c) = (g_id n, g_id child) \<or> (c_parent c, c_child c) = (g_id child, g_id n))) \<and>
     IsValidRelationshipType (c_rel c) \<and> 0 \<le> c_conf c \<and> c_conf c \<le> 1 \<and> c_tier c \<in> {1, 2, 3} \<and>
     NeedsReviewFloor \<le> c_conf c"

lemma valid_rels: "IsValidRelationshipType ''PROXY_OF''" "IsValidRelationshipType ''PROJECT_SIDECAR''"
  by (simp_all add: IsValidRelationshipType_def relationshipTypes_def)

lemma stem_pair_ids:
  assumes "stem_pair env child parent = Some c"
  shows "g_id parent \<noteq> g_id child"
    "(c_parent c, c_child c) = (g_id parent, g_id child) \<or> (c_parent c, c_child c) = (g_id child, g_id parent)"
  using assms
  by (auto simp: stem_pair_def srt_pair_def plain_pair_def orient_def Let_def
      split: if_splits option.splits prod.splits)

lemma stem_pair_row:
  assumes "stem_pair env child parent = Some c"
  shows "IsValidRelationshipType (c_rel c) \<and> 0 \<le> c_conf c \<and> c_conf c \<le> 1 \<and> c_tier c = 2 \<and>
    NeedsReviewFloor \<le> c_conf c"
  using assms
  by (auto simp: stem_pair_def srt_pair_def plain_pair_def Let_def valid_rels inferRelationship_valid
      conf_unit conf_above_floor split: if_splits option.splits prod.splits)

lemma tier3_score_row:
  assumes "tier3_score child t parent = Some (c, h, dt)"
  shows "g_id parent \<noteq> g_id child" "c_parent c = g_id parent" "c_child c = g_id child" "c_tier c = 3"
    "IsValidRelationshipType (c_rel c)" "0 \<le> c_conf c" "c_conf c \<le> 1" "NeedsReviewFloor \<le> c_conf c"
  using assms
  by (auto simp: tier3_score_def Let_def inferRelationship_valid conf_unit conf_above_floor
      split: if_splits option.splits)

section \<open>The best tier-3 match\<close>

text \<open>\<open>better\<close> is the order on this key, so the choice is a minimum over a linear order.\<close>

definition score_key :: "scored \<Rightarrow> float64 \<times> int \<times> float64 \<times> int" where
  "score_key = (\<lambda>(c, h, dt). (- c_conf c, h, dt, c_parent c))"

lemma better_key: "better x y \<longleftrightarrow> score_key x < score_key y"
  by (cases x; cases y) (auto simp: better_def score_key_def)

lemma keep_best_min:
  "keep_best b xs = Some m \<Longrightarrow>
    (b = Some m \<or> m \<in> set xs) \<and> (\<forall>x \<in> set xs. score_key m \<le> score_key x) \<and>
    (\<forall>y. b = Some y \<longrightarrow> score_key m \<le> score_key y)"
proof (induction b xs rule: keep_best.induct)
  case (1 best)
  then show ?case by simp
next
  case (2 x xs)
  then show ?case by auto
next
  case (3 b x xs)
  from 3(2) have k: "keep_best (if better x b then Some x else Some b) xs = Some m" by simp
  show ?case
  proof (cases "better x b")
    case True
    then have "score_key x < score_key b" by (simp add: better_key)
    with True 3(1) [OF k] show ?thesis by (force dest: less_imp_le intro: order_trans)
  next
    case False
    then have "score_key b \<le> score_key x" by (simp add: better_key not_less)
    with False 3(1) [OF k] show ?thesis by (force intro: order_trans)
  qed
qed

lemma keep_best_None: "keep_best b xs = None \<longleftrightarrow> b = None \<and> xs = []"
  by (induction b xs rule: keep_best.induct) auto

lemma keep_best_set_eq:
  assumes "set xs = set ys" "inj_on score_key (set xs)"
  shows "keep_best None xs = keep_best None ys"
proof (cases "keep_best None xs")
  case None
  then have "xs = []" by (simp add: keep_best_None)
  with assms show ?thesis by (simp add: None)
next
  case (Some m)
  then have "ys \<noteq> []" using assms(1) by (auto simp: keep_best_None)
  then obtain m' where m': "keep_best None ys = Some m'" by (cases "keep_best None ys") (auto simp: keep_best_None)
  have "m \<in> set xs" "m' \<in> set xs" "score_key m = score_key m'"
    using keep_best_min [OF Some] keep_best_min [OF m'] assms(1) by (auto intro: antisym)
  with assms(2) have "m = m'" by (auto dest: inj_onD)
  with Some m' show ?thesis by simp
qed

section \<open>Candidates of a lookup that keeps its contract\<close>

context lineage_lookup
begin

lemma xmp_wf: "c \<in> set (XMPOriginalDocumentIDResolver child lk) \<Longrightarrow> wf_candidate live child c"
proof -
  assume "c \<in> set (XMPOriginalDocumentIDResolver child lk)"
  then obtain p where p: "p \<in> set (ByOriginalDocumentID lk (g_origdoc child))" "g_id p \<noteq> g_id child"
    "c = xmp_candidate child p"
    by (auto simp: XMPOriginalDocumentIDResolver_def split: if_splits)
  have "live p" using by_doc [OF p(1)] by simp
  with p show ?thesis
    unfolding wf_candidate_def xmp_candidate_def
    by (auto simp: inferRelationship_valid conf_eval NeedsReviewFloor_def)
qed

lemma stem_wf: "c \<in> set (FilenameStemResolver env child lk) \<Longrightarrow> wf_candidate live child c"
proof -
  assume "c \<in> set (FilenameStemResolver env child lk)"
  then obtain p where p: "p \<in> set (ByFilenameStem lk (g_stem child))" "stem_pair env child p = Some c"
    by (auto simp: FilenameStemResolver_def in_map_filter split: if_splits)
  with by_stem [OF p(1)] stem_pair_ids [OF p(2)] stem_pair_row [OF p(2)] show ?thesis
    unfolding wf_candidate_def by auto
qed

lemma heuristic_best:
  assumes "c \<in> set (HeuristicSpatialTemporalResolver child lk)"
  obtains t p h dt where "g_captured child = Some t" "HeuristicSpatialTemporalResolver child lk = [c]"
    "p \<in> set (BySpatialTemporal lk (g_serial child) t 2 (g_id child))" "tier3_score child t p = Some (c, h, dt)"
proof -
  obtain t where t: "g_captured child = Some t" "g_serial child \<noteq> []"
    using assms by (cases "g_captured child"; cases "g_serial child = []")
      (simp_all add: HeuristicSpatialTemporalResolver_def)
  let ?xs = "List.map_filter (tier3_score child t) (BySpatialTemporal lk (g_serial child) t 2 (g_id child))"
  obtain m where m: "keep_best None ?xs = Some m" "HeuristicSpatialTemporalResolver child lk = [fst m]"
    using assms t by (cases "keep_best None ?xs") (simp_all add: HeuristicSpatialTemporalResolver_def split: prod.splits)
  then have "fst m = c" "m \<in> set ?xs" using assms keep_best_min [OF m(1)] by auto
  then show ?thesis using that t m by (cases m) (auto simp: in_map_filter)
qed

lemma heuristic_wf: "c \<in> set (HeuristicSpatialTemporalResolver child lk) \<Longrightarrow> wf_candidate live child c"
proof -
  assume "c \<in> set (HeuristicSpatialTemporalResolver child lk)"
  then obtain t p h dt where
    p: "p \<in> set (BySpatialTemporal lk (g_serial child) t 2 (g_id child))" "tier3_score child t p = Some (c, h, dt)"
    by (rule heuristic_best)
  show ?thesis
    unfolding wf_candidate_def using by_time [OF p(1)] tier3_score_row [OF p(2)] by auto
qed

lemma by_name_single: "ByFileName lk nm = [n] \<Longrightarrow> live n"
  using by_name [of n nm] by simp

lemma resolveReference_live: "resolveReference env lk raw = Some n \<Longrightarrow> live n"
  unfolding resolveReference_def Let_def
  by (auto split: option.splits if_splits list.splits dest: by_path by_name_single)

text \<open>The sidecar loops only ever append candidates for distinct live parents.\<close>

definition sidecar_inv :: "node \<Rightarrow> candidate list \<Rightarrow> bool" where
  "sidecar_inv child cs \<longleftrightarrow> distinct (map c_parent cs) \<and>
     (\<forall>c \<in> set cs. \<exists>n ev. live n \<and> g_id n \<noteq> g_id child \<and> c = sidecar_candidate child n ev)"

lemma sidecar_inv_snoc:
  "sidecar_inv child cs \<Longrightarrow> live n \<Longrightarrow> g_id n \<noteq> g_id child \<Longrightarrow> g_id n \<notin> c_parent ` set cs \<Longrightarrow>
   sidecar_inv child (cs @ [sidecar_candidate child n ev])"
  by (auto simp: sidecar_inv_def sidecar_candidate_def)

lemma ref_step_inv: "sidecar_inv child cs \<Longrightarrow> sidecar_inv child (ref_step env child lk cs r)"
  by (auto simp: ref_step_def intro!: sidecar_inv_snoc dest: resolveReference_live split: option.splits)

lemma sibling_step_inv: "sidecar_inv child cs \<Longrightarrow> live n \<Longrightarrow> sidecar_inv child (sibling_step child cs n)"
  by (auto simp: sibling_step_def intro!: sidecar_inv_snoc)

lemma foldl_inv: "P s \<Longrightarrow> (\<And>x s. x \<in> set xs \<Longrightarrow> P s \<Longrightarrow> P (f s x)) \<Longrightarrow> P (foldl f s xs)"
  by (induction xs arbitrary: s) auto

lemma sidecar_invariant: "sidecar_inv child (ProjectSidecarResolver env child lk)"
proof -
  have nil: "sidecar_inv child []" by (simp add: sidecar_inv_def)
  have refs: "sidecar_inv child (foldl (ref_step env child lk) [] refs)" for refs
    by (rule foldl_inv [where P = "sidecar_inv child", OF nil]) (rule ref_step_inv)
  have sibs: "sidecar_inv child (foldl (\<lambda>cs s. foldl (sibling_step child) cs (ByFilenameStem lk s)) cs ss)"
    if "sidecar_inv child cs" for cs ss
    by (rule foldl_inv [where P = "sidecar_inv child", OF that],
        erule foldl_inv [where P = "sidecar_inv child"])
      (auto intro!: sibling_step_inv dest: by_stem)
  show ?thesis
    unfolding ProjectSidecarResolver_def Let_def
    by (auto simp: nil refs sibs split: option.splits)
qed

lemma sidecar_wf: "c \<in> set (ProjectSidecarResolver env child lk) \<Longrightarrow> wf_candidate live child c"
  using sidecar_invariant [of child env]
  by (fastforce simp: sidecar_inv_def wf_candidate_def sidecar_candidate_def valid_rels NeedsReviewFloor_def conf_eval)

end

section \<open>Properties of the resolvers\<close>

lemma stem_pair_gated:
  assumes "stem_pair env child parent = Some c" "index_gated child parent"
  shows "(c_parent c, c_child c) = (g_id parent, g_id child) \<and> kind (g_name child) = SuffixIndex \<and>
    kind (g_name parent) = SuffixNone \<and> c_conf c < AutoAcceptThresholdForTier (c_tier c)"
proof -
  have k: "kind (g_name child) = SuffixIndex" "kind (g_name parent) = SuffixNone"
    using assms by (auto simp: stem_pair_def split: if_splits)
  then have "\<not> role_swap child parent" by (simp add: role_swap_def)
  moreover have "\<not> AutoAcceptThresholdForTier 2 \<le> srt_confidence x y True"
    "\<not> AutoAcceptThresholdForTier 2 \<le> stem_confidence x y z True" for x y z
    by (simp_all add: srt_auto_accept stem_auto_accept)
  ultimately show ?thesis
    using assms k stem_pair_ids(1) [OF assms(1)]
    by (auto simp: stem_pair_def srt_pair_def plain_pair_def orient_def Let_def not_le
        split: if_splits option.splits prod.splits)
qed

lemma stem_pair_accepts:
  assumes "stem_pair env child parent = Some c" "AutoAcceptThresholdForTier (c_tier c) \<le> c_conf c"
  shows "same_day child parent \<and> same_camera child parent"
proof -
  have sym: "same_day a b = same_day b a" "same_camera a b = same_camera b a" for a b
    by (auto simp: same_day_def sameCaptureDay_def same_camera_def split: option.splits)
  show ?thesis
    using assms sym [of child parent]
    by (auto simp: stem_pair_def srt_pair_def plain_pair_def orient_def Let_def srt_auto_accept stem_auto_accept
        split: if_splits option.splits prod.splits)
qed

text \<open>A shared filename stem is only as good as the suffix it came from: a candidate links the
  child to a live node with the same stem; if either name carries an index suffix then the child
  does, the parent is the bare file, and the score stays below the automatic threshold; and a score
  that reaches the threshold needs the same capture day and the same camera.\<close>

theorem stem_candidates:
  assumes "c \<in> set (FilenameStemResolver env child (dbLookup d))"
  shows "\<exists>parent. live_node d parent \<and> g_stem parent = g_stem child \<and> g_id parent \<noteq> g_id child \<and>
    ((c_parent c, c_child c) = (g_id parent, g_id child) \<or> (c_parent c, c_child c) = (g_id child, g_id parent)) \<and>
    (index_gated child parent \<longrightarrow>
       (c_parent c, c_child c) = (g_id parent, g_id child) \<and> kind (g_name child) = SuffixIndex \<and>
       kind (g_name parent) = SuffixNone \<and> c_conf c < AutoAcceptThresholdForTier (c_tier c)) \<and>
    (AutoAcceptThresholdForTier (c_tier c) \<le> c_conf c \<longrightarrow> same_day child parent \<and> same_camera child parent)"
proof -
  obtain p where p: "p \<in> set (ByFilenameStem (dbLookup d) (g_stem child))" "stem_pair env child p = Some c"
    using assms by (auto simp: FilenameStemResolver_def in_map_filter split: if_splits)
  show ?thesis
    using dbl.by_stem [OF p(1)] stem_pair_ids [OF p(2)] stem_pair_gated [OF p(2)] stem_pair_accepts [OF p(2)]
    by blast
qed

lemma plain_pair_child:
  "plain_pair a b = Some c \<Longrightarrow> (c_child c, c_parent c) = (let (cn, pn) = orient a b in (g_id cn, g_id pn))"
  by (auto simp: plain_pair_def Let_def split: if_splits prod.splits)

lemma plain_pair_total:
  "\<not> ((proxy_swap a b \<or> raw_swap a b) \<and> index_gated a b) \<Longrightarrow> \<exists>c. plain_pair a b = Some c"
  by (cases "orient a b") (auto simp: plain_pair_def Let_def)

text \<open>What the engine stores of a candidate, its evidence apart.\<close>

definition edge_of :: "candidate \<Rightarrow> int \<times> int \<times> string \<times> float64 \<times> int \<times> string" where
  "edge_of c = (c_parent c, c_child c, c_rel c, c_conf c, c_tier c, c_resolver c)"

lemma index_gated_sym: "index_gated a b = index_gated b a"
  by (auto simp: index_gated_def)

lemma srt_pair_sym:
  assumes "isSrtExt (g_ext a) \<or> isSrtExt (g_ext b)" "\<not> index_gated a b"
  shows "srt_pair env a b = srt_pair env b a"
proof -
  have "index_gated a b = False" "index_gated b a = False" using assms(2) index_gated_sym by auto
  then show ?thesis using assms(1) by (auto simp: srt_pair_def Let_def split: option.split)
qed

lemma orient_proxy: "is_proxy a \<Longrightarrow> \<not> is_proxy b \<Longrightarrow> orient a b = (a, b) \<and> orient b a = (a, b)"
  by (auto simp: orient_def proxy_swap_def role_swap_def raw_swap_def)

lemma plain_pair_sym:
  assumes "is_proxy a" "\<not> is_proxy b" "\<not> index_gated a b"
  shows "plain_pair a b \<noteq> None \<and> plain_pair b a \<noteq> None \<and> map_option edge_of (plain_pair a b) = map_option edge_of (plain_pair b a)"
  using assms orient_proxy [OF assms(1,2)] index_gated_sym [of a b] by (simp add: plain_pair_def Let_def edge_of_def)

text \<open>C38. Resolving a proxy and its original gives the same edge from both sides. When exactly one of the two
  is a proxy, or exactly one is a flight-telemetry subtitle, and neither name has an index suffix, both
  calls propose the same edge, with the same parent, child, relationship, confidence, tier and resolver,
  or neither proposes one, which for a pair without subtitles happens only when they are the same
  node. When one of the names has an index suffix, at most one of the calls proposes an edge.\<close>

theorem proxy_direction_stable:
  assumes "is_proxy a \<noteq> is_proxy b \<or> isSrtExt (g_ext a) \<noteq> isSrtExt (g_ext b)"
  shows "if index_gated a b then stem_pair env a b = None \<or> stem_pair env b a = None
    else map_option edge_of (stem_pair env a b) = map_option edge_of (stem_pair env b a) \<and>
      (g_id a \<noteq> g_id b \<and> \<not> isSrtExt (g_ext a) \<and> \<not> isSrtExt (g_ext b) \<longrightarrow> stem_pair env a b \<noteq> None)"
proof (cases "index_gated a b")
  case True
  then show ?thesis using index_gated_sym [of a b] by (auto simp: stem_pair_def)
next
  case gate: False
  show ?thesis
  proof (cases "isSrtExt (g_ext a) \<or> isSrtExt (g_ext b)")
    case True
    then show ?thesis using gate index_gated_sym [of a b] srt_pair_sym [of a b env] by (auto simp: stem_pair_def)
  next
    case False
    then consider "is_proxy a" "\<not> is_proxy b" | "is_proxy b" "\<not> is_proxy a" using assms by auto
    then show ?thesis
      by cases (use False gate index_gated_sym [of a b] plain_pair_sym [of a b] plain_pair_sym [of b a] in
        \<open>auto simp: stem_pair_def\<close>)
  qed
qed

text \<open>
  A pair without that property: an edited raw file next to a bare export. Resolving the export
  makes the raw file its child (the role rule), resolving the raw file makes it the parent (the
  raw rule), so the first node resolved decides and the cycle check drops the other direction.
\<close>

definition bare_node :: "int \<Rightarrow> string \<Rightarrow> string \<Rightarrow> node" where
  "bare_node i nm ext = \<lparr>g_id = i, g_path = ''/a/'' @ nm, g_name = nm, g_ext = ext, g_origdoc = [], g_doc = [],
     g_captured = None, g_camera = [], g_stem = stem nm, g_phash = None, g_serial = [], g_lens = []\<rparr>"

lemma edited_raw_kinds: "kind ''x_edit.arw'' = SuffixRole" "kind ''x.jpg'' = SuffixNone" "stem ''x_edit.arw'' = stem ''x.jpg''"
  by code_simp+

lemma edited_raw_classes:
  "is_proxy (bare_node i ''x_edit.arw'' ''arw'') = False" "is_proxy (bare_node i ''x.jpg'' ''jpg'') = False"
  "is_raw (bare_node i ''x_edit.arw'' ''arw'')" "is_export (bare_node i ''x.jpg'' ''jpg'')"
  "\<not> is_raw (bare_node i ''x.jpg'' ''jpg'')"
  "\<not> isSrtExt ''arw''" "\<not> isSrtExt ''jpg''"
  by (simp_all add: bare_node_def is_proxy_def is_raw_def is_export_def) (code_simp)+

text \<open>The direction of the pair is decided by whichever node is resolved first: from the raw file the
  export is the child, from the export the raw file is.\<close>

theorem edited_raw_direction_flips:
  "\<exists>c c'. stem_pair env (bare_node 1 ''x_edit.arw'' ''arw'') (bare_node 2 ''x.jpg'' ''jpg'') = Some c \<and>
     stem_pair env (bare_node 2 ''x.jpg'' ''jpg'') (bare_node 1 ''x_edit.arw'' ''arw'') = Some c' \<and>
     (c_parent c, c_child c) = (1, 2) \<and> (c_parent c', c_child c') = (2, 1)"
proof -
  let ?r = "bare_node 1 ''x_edit.arw'' ''arw''" and ?j = "bare_node 2 ''x.jpg'' ''jpg''"
  have sel: "g_id ?r = 1" "g_id ?j = 2" "g_ext ?r = ''arw''" "g_ext ?j = ''jpg''"
    "g_name ?r = ''x_edit.arw''" "g_name ?j = ''x.jpg''" by (simp_all add: bare_node_def)
  have gate: "\<not> index_gated ?r ?j" "\<not> index_gated ?j ?r"
    by (simp_all add: index_gated_def sel edited_raw_kinds)
  have swap: "orient ?r ?j = (?j, ?r)" "orient ?j ?r = (?r, ?j)"
    by (simp_all add: orient_def raw_swap_def role_swap_def proxy_swap_def edited_raw_classes edited_raw_kinds sel)
  obtain c where c: "plain_pair ?r ?j = Some c" using plain_pair_total [of ?r ?j] gate by blast
  obtain c' where c': "plain_pair ?j ?r = Some c'" using plain_pair_total [of ?j ?r] gate by blast
  have "(c_child c, c_parent c) = (2, 1)" "(c_child c', c_parent c') = (1, 2)"
    using plain_pair_child [OF c] plain_pair_child [OF c'] swap sel by simp_all
  with c c' show ?thesis
    by (intro exI [of _ c] exI [of _ c']) (simp add: stem_pair_def sel gate edited_raw_classes)
qed

lemma tier3_scored_inj:
  assumes "inj_on g_id (set ps)"
  shows "inj_on score_key (set (List.map_filter (tier3_score child t) ps))"
proof (rule inj_onI)
  fix x y assume *: "x \<in> set (List.map_filter (tier3_score child t) ps)"
    "y \<in> set (List.map_filter (tier3_score child t) ps)" "score_key x = score_key y"
  then obtain p q where p: "p \<in> set ps" "tier3_score child t p = Some x"
    and q: "q \<in> set ps" "tier3_score child t q = Some y" by (auto simp: in_map_filter)
  have "c_parent (fst x) = g_id p" "c_parent (fst y) = g_id q"
    using tier3_score_row(2) [of child t p "fst x"] tier3_score_row(2) [of child t q "fst y"] p q
    by (metis prod.collapse)+
  moreover have "c_parent (fst x) = c_parent (fst y)" using *(3) by (auto simp: score_key_def split: prod.splits)
  ultimately have "p = q" using assms p(1) q(1) by (auto dest: inj_onD)
  with p q show "x = y" by simp
qed

text \<open>The tier-3 match does not depend on the order the database returns the candidates in: two
  lookups that return the same rows (with distinct ids) give the same edge.\<close>

theorem tier3_order_independent:
  assumes "g_captured child = Some t"
    and "set (BySpatialTemporal lk (g_serial child) t 2 (g_id child)) =
         set (BySpatialTemporal lk' (g_serial child) t 2 (g_id child))"
    and "inj_on g_id (set (BySpatialTemporal lk (g_serial child) t 2 (g_id child)))"
  shows "HeuristicSpatialTemporalResolver child lk = HeuristicSpatialTemporalResolver child lk'"
proof -
  let ?f = "List.map_filter (tier3_score child t)"
  have "set (?f (BySpatialTemporal lk (g_serial child) t 2 (g_id child))) =
    set (?f (BySpatialTemporal lk' (g_serial child) t 2 (g_id child)))"
    using assms(2) by (auto simp: in_map_filter)
  from keep_best_set_eq [OF this tier3_scored_inj [OF assms(3)]] show ?thesis
    using assms(1) by (simp add: HeuristicSpatialTemporalResolver_def)
qed

section \<open>The properties on concrete nodes\<close>

definition twin :: "int \<Rightarrow> string \<Rightarrow> string \<Rightarrow> media_node" where
  "twin i uuid nm = (sample_node i uuid 2 (''/e/'' @ nm) nm ''jpg'')\<lparr>n_stem := Some ''x''\<rparr>"

definition quiet_env :: resolver_env where
  "quiet_env = \<lparr>env_open = (\<lambda>_. None), env_point = (\<lambda>_. None), env_parser = (\<lambda>_. None), env_rewrites = []\<rparr>"

definition twins :: db where
  "twins = studio\<lparr>db_nodes := [twin 1 ''u1'' ''x.jpg'', twin 2 ''u2'' ''x-2.jpg''], db_edges := []\<rparr>"

lemma twin_kinds: "kind ''x-2.jpg'' = SuffixIndex" "kind ''x.jpg'' = SuffixNone"
  "is_proxy (ToNode (twin i u ''x.jpg'')) = False" "is_proxy (ToNode (twin i u ''x-2.jpg'')) = False"
  "is_raw (ToNode (twin i u nm)) = False" "isSrtExt ''jpg'' = False"
proof -
  have p: "proxy_named ''x.jpg'' = False" "proxy_named ''x-2.jpg'' = False" "isProxyExt ''jpg'' = False"
    "(norm_ext ''jpg'' \<in> rawExts) = False" by code_simp+
  show "kind ''x-2.jpg'' = SuffixIndex" "kind ''x.jpg'' = SuffixNone" "isSrtExt ''jpg'' = False" by code_simp+
  show "is_proxy (ToNode (twin i u ''x.jpg'')) = False" "is_proxy (ToNode (twin i u ''x-2.jpg'')) = False"
    "is_raw (ToNode (twin i u nm)) = False"
    using p by (simp_all add: is_proxy_def is_raw_def twin_def sample_node_def)
qed

lemma twin_candidate:
  "\<exists>c. c \<in> set (FilenameStemResolver quiet_env (ToNode (twin 2 ''u2'' ''x-2.jpg'')) (dbLookup twins)) \<and>
     (c_parent c, c_child c) = (1, 2)"
proof -
  let ?a = "ToNode (twin 1 ''u1'' ''x.jpg'')" and ?b = "ToNode (twin 2 ''u2'' ''x-2.jpg'')"
  have sel: "g_id ?a = 1" "g_id ?b = 2" "g_name ?a = ''x.jpg''" "g_name ?b = ''x-2.jpg''" "g_ext ?a = ''jpg''"
    "g_ext ?b = ''jpg''" "g_stem ?b = ''x''"
    by (simp_all add: twin_def sample_node_def)
  have lk: "ByFilenameStem (dbLookup twins) ''x'' = [?a, ?b]"
    by (simp add: dbLookup_def lookup_stem_def ListLiveNodesByFilenameStem_def nodes_where_def twins_def
        retired_def FilenameStemCandidateCap_def) (simp add: twin_def sample_node_def)
  have swaps: "\<not> proxy_swap ?b ?a" "\<not> raw_swap ?b ?a" "\<not> role_swap ?b ?a"
    by (simp_all add: proxy_swap_def role_swap_def raw_swap_def twin_kinds sel del: ToNode_sel)
  then obtain c where c: "plain_pair ?b ?a = Some c" using plain_pair_total [of ?b ?a] by blast
  moreover have "(c_parent c, c_child c) = (1, 2)"
    using plain_pair_child [OF c] swaps by (simp add: orient_def sel del: ToNode_sel)
  moreover have "stem_pair quiet_env ?b ?a = Some c"
    using c by (simp add: stem_pair_def sel twin_kinds del: ToNode_sel)
  then have "c \<in> set (FilenameStemResolver quiet_env ?b (dbLookup twins))"
    by (simp add: FilenameStemResolver_def sel lk in_map_filter del: ToNode_sel)
  with \<open>(c_parent c, c_child c) = (1, 2)\<close> show ?thesis by (intro exI [of _ c] conjI)
qed

theorem stem_candidates_witness:
  "\<exists>c :: candidate. (c_parent c, c_child c) = (1, 2) \<and> c_conf c < AutoAcceptThresholdForTier (c_tier c) \<and>
     (\<exists>parent :: node. live_node twins parent \<and> g_stem parent = ''x'')"
proof -
  let ?b = "ToNode (twin 2 ''u2'' ''x-2.jpg'')"
  obtain c where c: "c \<in> set (FilenameStemResolver quiet_env ?b (dbLookup twins))"
    "(c_parent c, c_child c) = (1, 2)" using twin_candidate by blast
  have x: "g_stem ?b = ''x''" "g_name ?b = ''x-2.jpg''" by (simp_all add: twin_def sample_node_def)
  obtain parent where p: "live_node twins parent" "g_stem parent = g_stem ?b"
    "index_gated ?b parent \<longrightarrow> c_conf c < AutoAcceptThresholdForTier (c_tier c)"
    using stem_candidates [OF c(1)] by (elim exE conjE) (rule that, assumption+, simp)
  have "index_gated ?b parent" unfolding index_gated_def x by (simp add: twin_kinds)
  then have low: "c_conf c < AutoAcceptThresholdForTier (c_tier c)" using p(3) by simp
  show ?thesis
    by (intro exI [of _ c] exI [of _ parent] conjI) (rule c(2) low p(1) p(2) [unfolded x])+
qed

lemma lrf_classes:
  "is_proxy (bare_node i ''d.lrf'' ''lrf'') = True" "is_proxy (bare_node i ''d.mp4'' ''mp4'') = False"
  "isSrtExt ''lrf'' = False" "isSrtExt ''mp4'' = False" "kind ''d.lrf'' = SuffixNone" "kind ''d.mp4'' = SuffixNone"
proof -
  have "isProxyExt ''lrf'' = True" "isProxyExt ''mp4'' = False" "proxy_named ''d.mp4'' = False" by code_simp+
  then show "is_proxy (bare_node i ''d.lrf'' ''lrf'') = True" "is_proxy (bare_node i ''d.mp4'' ''mp4'') = False"
    by (simp_all add: is_proxy_def bare_node_def)
  show "isSrtExt ''lrf'' = False" "isSrtExt ''mp4'' = False" "kind ''d.lrf'' = SuffixNone" "kind ''d.mp4'' = SuffixNone"
    by code_simp+
qed

theorem proxy_direction_stable_witness:
  "\<exists>c c'. stem_pair quiet_env (bare_node 1 ''d.lrf'' ''lrf'') (bare_node 2 ''d.mp4'' ''mp4'') = Some c \<and>
     stem_pair quiet_env (bare_node 2 ''d.mp4'' ''mp4'') (bare_node 1 ''d.lrf'' ''lrf'') = Some c' \<and>
     edge_of c = edge_of c'"
proof -
  let ?l = "bare_node 1 ''d.lrf'' ''lrf''" and ?v = "bare_node 2 ''d.mp4'' ''mp4''"
  have sel: "g_id ?l = 1" "g_id ?v = 2" "g_ext ?l = ''lrf''" "g_ext ?v = ''mp4''" "g_name ?l = ''d.lrf''" "g_name ?v = ''d.mp4''"
    by (simp_all add: bare_node_def)
  have gate: "\<not> index_gated ?l ?v" by (simp add: index_gated_def sel lrf_classes)
  have "is_proxy ?l \<noteq> is_proxy ?v \<or> isSrtExt (g_ext ?l) \<noteq> isSrtExt (g_ext ?v)" by (simp add: lrf_classes)
  from proxy_direction_stable [OF this, of quiet_env]
  have "map_option edge_of (stem_pair quiet_env ?l ?v) = map_option edge_of (stem_pair quiet_env ?v ?l)"
    "stem_pair quiet_env ?l ?v \<noteq> None"
    using gate by (simp_all add: sel lrf_classes)
  then show ?thesis by (cases "stem_pair quiet_env ?v ?l") auto
qed

definition shot :: "int \<Rightarrow> string \<Rightarrow> string \<Rightarrow> node" where
  "shot i nm ext = (bare_node i nm ext)\<lparr>g_captured := Some 50, g_serial := ''S''\<rparr>"

definition fixed_lookup :: "node list \<Rightarrow> lookup" where
  "fixed_lookup ns = \<lparr>ByOriginalDocumentID = (\<lambda>_. []), ByFilenameStem = (\<lambda>_. []),
     BySpatialTemporal = (\<lambda>_ _ _ _. ns), ByPath = (\<lambda>_. None), ByFileName = (\<lambda>_. [])\<rparr>"

theorem tier3_order_independent_witness:
  "HeuristicSpatialTemporalResolver (shot 3 ''e.jpg'' ''jpg'') (fixed_lookup [shot 1 ''a.arw'' ''arw'', shot 2 ''b.arw'' ''arw''])
   = HeuristicSpatialTemporalResolver (shot 3 ''e.jpg'' ''jpg'') (fixed_lookup [shot 2 ''b.arw'' ''arw'', shot 1 ''a.arw'' ''arw''])"
  by (rule tier3_order_independent [of _ 50]) (auto simp: fixed_lookup_def shot_def bare_node_def)

end
