(* ===== verification/Engine.thy ===== *)
theory Engine
  imports Resolvers Samples
begin

text \<open>
  \<open>internal/graph/engine.go\<close> and \<open>status.go\<close>: merging the resolvers' candidates, committing the
  survivors in one transaction behind the cycle check, and recomputing \<open>graph_status\<close> of the
  targets. The lookup reads the reader pool before the transaction starts, so it is a parameter
  that need not agree with the database the transaction sees.
\<close>

section \<open>Merging\<close>

definition ckey :: "candidate \<Rightarrow> int \<times> int \<times> string" where
  "ckey c = (c_parent c, c_child c, c_rel c)"

definition absorb :: "candidate \<Rightarrow> candidate \<Rightarrow> candidate" where
  "absorb m c =
     (let m' = m\<lparr>c_evidence := AList.update (c_resolver c) (EvObject (c_evidence c)) (c_evidence m)\<rparr>
      in if c_conf m < c_conf c
         then m'\<lparr>c_conf := c_conf c, c_resolver := c_resolver c, c_tier := c_tier c\<rparr> else m')"

definition merge_one :: "candidate list \<Rightarrow> candidate \<Rightarrow> candidate list" where
  "merge_one ms c =
     (if \<exists>m \<in> set ms. ckey m = ckey c then map (\<lambda>m. if ckey m = ckey c then absorb m c else m) ms
      else ms @ [c\<lparr>c_evidence := [(c_resolver c, EvObject (c_evidence c))]\<rparr>])"

definition mergeCandidates :: "candidate list \<Rightarrow> candidate list" where
  "mergeCandidates cs = foldl merge_one [] cs"

section \<open>Graph status\<close>

fun status_loop :: "media_edge list \<Rightarrow> graph_status \<Rightarrow> graph_status" where
  "status_loop [] st = st"
| "status_loop (e # es) st =
     (if e_review e = AUTO_ACCEPTED \<or> e_review e = CONFIRMED then LINKED
      else status_loop es (if e_review e \<noteq> REJECTED then GRAPH_NEEDS_REVIEW else st))"

definition RecomputeStatusFromPersistedEdges :: "int \<Rightarrow> db \<Rightarrow> db_error + db" where
  "RecomputeStatusFromPersistedEdges i d =
     UpdateMediaNodeGraphStatus i (status_loop (ListEdgesByTarget i d) UNLINKED) d"

section \<open>Committing\<close>

definition review_for :: "candidate \<Rightarrow> review_state" where
  "review_for c = (if AutoAcceptThresholdForTier (c_tier c) \<le> c_conf c then AUTO_ACCEPTED else NEEDS_REVIEW)"

definition edge_of :: "candidate \<Rightarrow> new_edge" where
  "edge_of c = \<lparr>u_source = c_parent c, u_target = c_child c, u_rel = c_rel c, u_conf = c_conf c,
     u_tier = c_tier c, u_resolver = c_resolver c, u_evidence = EvObject (c_evidence c),
     u_review = review_for c\<rparr>"

text \<open>The transaction's state: the database, the committed rows, the number of new ones.\<close>

type_synonym commit_state = "db \<times> media_edge list \<times> nat"

definition commit_candidate :: "candidate \<Rightarrow> commit_state \<Rightarrow> db_error + commit_state" where
  "commit_candidate c = (\<lambda>(d, committed, created).
     if c_conf c < NeedsReviewFloor then Inr (d, committed, created)
     else if WouldCreateCycle (c_parent c) (c_child c) d then Inr (d, committed, created)
     else
       let existed = MediaEdgeExists (c_parent c) (c_child c) (c_rel c) d
       in rbind (UpsertMediaEdge (edge_of c) d) (\<lambda>(r, d').
            case r of
              Some e \<Rightarrow> Inr (d', committed @ [e], if existed then created else created + 1)
            | None \<Rightarrow>
                (case GetMediaEdgeBySourceTargetRel (c_parent c) (c_child c) (c_rel c) d' of
                   None \<Rightarrow> Inl NoRows
                 | Some e \<Rightarrow> Inr (d', committed @ [e], created))))"

text \<open>
  The set of targets with a non-rejected edge in this pass. Go ranges over a map here; each
  target's update touches that row only, and the status it writes depends on the edges alone.
\<close>

definition touched :: "media_edge list \<Rightarrow> int list" where
  "touched committed = remdups (map e_target (filter (\<lambda>e. e_review e \<noteq> REJECTED) committed))"

definition commit_all :: "candidate list \<Rightarrow> db \<Rightarrow> db_error + ((media_edge list \<times> nat) \<times> db)" where
  "commit_all merged d =
     rbind (rfold commit_candidate merged (d, [], 0)) (\<lambda>(d', committed, created).
       rbind (rfold RecomputeStatusFromPersistedEdges (touched committed) d') (\<lambda>d''.
         Inr ((committed, created), d'')))"

definition ResolveAndCommit ::
  "resolver list \<Rightarrow> lookup \<Rightarrow> node \<Rightarrow> db \<Rightarrow> (db_error + (media_edge list \<times> nat)) \<times> db" where
  "ResolveAndCommit resolvers lk child d =
     (let merged = mergeCandidates (concat (map (\<lambda>r. r child lk) resolvers))
      in if \<exists>c \<in> set merged. NeedsReviewFloor \<le> c_conf c then in_tx (commit_all merged) d
         else (Inr ([], 0), d))"

text \<open>The resolvers \<open>cmd/branchdam\<close> registers, in their order.\<close>

definition shipped :: "resolver_env \<Rightarrow> resolver list" where
  "shipped env = [ProjectSidecarResolver env, XMPOriginalDocumentIDResolver,
     FilenameStemResolver env, HeuristicSpatialTemporalResolver]"

section \<open>Merging keeps the best candidate of each key\<close>

lemma ckey_absorb [simp]: "ckey (absorb m c) = ckey m"
  by (simp add: absorb_def Let_def ckey_def)

lemma absorb_conf [simp]: "c_conf (absorb m c) = max (c_conf m) (c_conf c)"
  by (simp add: absorb_def Let_def max_def)

lemma keys_merge_one:
  "map ckey (merge_one ms c) = (if ckey c \<in> ckey ` set ms then map ckey ms else map ckey ms @ [ckey c])"
proof -
  have "map ckey (map (\<lambda>m. if ckey m = ckey c then absorb m c else m) ms) = map ckey ms"
    by (simp add: comp_def cong: map_cong)
  moreover have "ckey (c\<lparr>c_evidence := x\<rparr>) = ckey c" for x by (simp add: ckey_def)
  ultimately show ?thesis by (auto simp: merge_one_def image_iff) metis+
qed

lemma distinct_merge_one: "distinct (map ckey ms) \<Longrightarrow> distinct (map ckey (merge_one ms c))"
  unfolding keys_merge_one by auto

text \<open>
  Invariant of the loop: the merged list has one entry per key seen, and the entry carries the
  confidence, resolver and tier of one of the key's candidates, of maximal confidence.
\<close>

definition merged_of :: "candidate list \<Rightarrow> candidate list \<Rightarrow> bool" where
  "merged_of cs ms \<longleftrightarrow> distinct (map ckey ms) \<and> ckey ` set ms = ckey ` set cs \<and>
     (\<forall>m \<in> set ms. \<exists>c \<in> set cs. ckey c = ckey m \<and> c_conf c = c_conf m \<and> c_resolver c = c_resolver m \<and>
        c_tier c = c_tier m) \<and>
     (\<forall>m \<in> set ms. \<forall>c \<in> set cs. ckey c = ckey m \<longrightarrow> c_conf c \<le> c_conf m)"

lemma merged_of_step:
  assumes "merged_of cs ms"
  shows "merged_of (cs @ [c]) (merge_one ms c)"
proof (cases "\<exists>m \<in> set ms. ckey m = ckey c")
  case True
  let ?f = "\<lambda>m. if ckey m = ckey c then absorb m c else m"
  have ms': "merge_one ms c = map ?f ms" using True by (simp add: merge_one_def)
  have "distinct (map ckey (merge_one ms c))"
    using assms distinct_merge_one by (simp add: merged_of_def)
  moreover have "ckey ` set (merge_one ms c) = ckey ` set (cs @ [c])"
  proof -
    have "ckey ` set (merge_one ms c) = set (map ckey (merge_one ms c))" by simp
    also have "\<dots> = insert (ckey c) (ckey ` set ms)" unfolding keys_merge_one by auto
    finally show ?thesis using assms by (auto simp: merged_of_def)
  qed
  moreover have "\<exists>x \<in> set (cs @ [c]). ckey x = ckey (?f m) \<and> c_conf x = c_conf (?f m) \<and>
      c_resolver x = c_resolver (?f m) \<and> c_tier x = c_tier (?f m)" if "m \<in> set ms" for m
  proof (cases "ckey m = ckey c \<and> c_conf m < c_conf c")
    case True
    then show ?thesis by (simp add: absorb_def Let_def ckey_def)
  next
    case False
    then have "c_resolver (?f m) = c_resolver m" "c_tier (?f m) = c_tier m" "c_conf (?f m) = c_conf m"
      "ckey (?f m) = ckey m" by (auto simp: absorb_def Let_def ckey_def)
    moreover obtain x where "x \<in> set cs" "ckey x = ckey m" "c_conf x = c_conf m"
      "c_resolver x = c_resolver m" "c_tier x = c_tier m"
      using assms \<open>m \<in> set ms\<close> unfolding merged_of_def by blast
    ultimately show ?thesis by force
  qed
  moreover have "c_conf x \<le> c_conf (?f m)"
    if "m \<in> set ms" "x \<in> set (cs @ [c])" "ckey x = ckey (?f m)" for m x
  proof -
    have "ckey (?f m) = ckey m" by simp
    with that have "x \<in> set cs \<longrightarrow> c_conf x \<le> c_conf m" "x = c \<longrightarrow> ckey m = ckey c"
      using assms unfolding merged_of_def by auto
    with that show ?thesis by (auto intro: max.coboundedI1)
  qed
  ultimately show ?thesis unfolding merged_of_def ms' by (auto simp del: if_image_distrib)
next
  case False
  let ?c = "c\<lparr>c_evidence := [(c_resolver c, EvObject (c_evidence c))]\<rparr>"
  have "merge_one ms c = ms @ [?c]" using False by (simp add: merge_one_def)
  moreover have "ckey ?c = ckey c" by (simp add: ckey_def)
  moreover have "ckey x \<noteq> ckey c" if "x \<in> set cs" for x
    using that False assms unfolding merged_of_def by (metis image_iff)
  ultimately show ?thesis
    using assms False unfolding merged_of_def by fastforce
qed

lemma merged_of_fold: "merged_of cs ms \<Longrightarrow> merged_of (cs @ xs) (foldl merge_one ms xs)"
proof (induction xs arbitrary: cs ms)
  case Nil
  then show ?case by simp
next
  case (Cons x xs)
  from Cons.IH [OF merged_of_step [OF Cons.prems, of x]] show ?case by simp
qed

lemma merged_of_merge: "merged_of cs (mergeCandidates cs)"
  using merged_of_fold [of "[]" "[]" cs] by (simp add: mergeCandidates_def merged_of_def)

section \<open>One candidate\<close>

lemma upsert_key_edge_of [simp]: "upsert_key (edge_of c) = ckey c"
  by (simp add: upsert_key_def edge_of_def ckey_def)

lemma edge_of_sel [simp]:
  "u_conf (edge_of c) = c_conf c" "u_tier (edge_of c) = c_tier c" "u_review (edge_of c) = review_for c"
  "u_source (edge_of c) = c_parent c" "u_target (edge_of c) = c_child c" "u_rel (edge_of c) = c_rel c"
  by (simp_all add: edge_of_def)

lemma commit_candidate_cases:
  assumes "commit_candidate c (d, cm, k) = Inr (d', cm', k')"
  obtains (skip) "d' = d" "cm' = cm" "k' = k"
  | (locked) e where "d' = d" "e \<in> set (db_edges d)" "edge_key e = ckey c" "human e" "cm' = cm @ [e]" "k' = k"
  | (wrote) e where "UpsertMediaEdge (edge_of c) d = Inr (Some e, d')" "cm' = cm @ [e]"
      "\<not> WouldCreateCycle (c_parent c) (c_child c) d" "NeedsReviewFloor \<le> c_conf c"
      "k' = (if MediaEdgeExists (c_parent c) (c_child c) (c_rel c) d then k else k + 1)"
proof (cases "c_conf c < NeedsReviewFloor \<or> WouldCreateCycle (c_parent c) (c_child c) d")
  case True
  with assms show ?thesis by (intro skip) (auto simp: commit_candidate_def split: if_splits)
next
  case False
  with assms obtain r d1 where u: "UpsertMediaEdge (edge_of c) d = Inr (r, d1)"
    by (auto simp: commit_candidate_def Let_def result_simps)
  show ?thesis
  proof (cases r)
    case (Some e)
    with u False assms show ?thesis
      by (intro wrote [of e]) (auto simp: commit_candidate_def Let_def)
  next
    case None
    with u have d1: "d1 = d" using UpsertMediaEdge_None(1) by blast
    obtain o' where o': "o' \<in> set (db_edges d)" "edge_key o' = ckey c" "human o'"
      using UpsertMediaEdge_None(2) [of "edge_of c" d d1] u None by auto
    from u None False assms d1 obtain e where
      e: "find (\<lambda>e. edge_key e = ckey c) (db_edges d) = Some e" "d' = d" "cm' = cm @ [e]" "k' = k"
      by (auto simp: commit_candidate_def Let_def GetMediaEdgeBySourceTargetRel_def ckey_def split: option.splits)
    have "human e"
      using u None e(1) by (auto simp: UpsertMediaEdge_def Let_def result_simps split: if_splits)
    with e find_SomeD [OF e(1)] show ?thesis by (intro locked [of e]) auto
  qed
qed

text \<open>A step either leaves the database alone or is an upsert of one key.\<close>

lemma commit_candidate_others:
  assumes "commit_candidate c (d, cm, k) = Inr (d', cm', k')" "edge_violation d = None"
  shows "edge_violation d' = None" "others_kept (ckey c) d d'" "db_nodes d' = db_nodes d" "db_locs d' = db_locs d"
proof -
  have "edge_violation d' = None \<and> others_kept (ckey c) d d'"
    using assms(1)
  proof (cases rule: commit_candidate_cases)
    case (wrote e)
    then show ?thesis using UpsertMediaEdge_Some(1,2) [OF wrote(1) assms(2)] by simp
  qed (use assms(2) in auto)
  moreover from this have "db_nodes d' = db_nodes d \<and> db_locs d' = db_locs d"
    unfolding others_kept_def by (metis db.ext_inject db.surjective db.update_convs(2))
  ultimately show "edge_violation d' = None" "others_kept (ckey c) d d'" "db_nodes d' = db_nodes d" "db_locs d' = db_locs d"
    by auto
qed

text \<open>The cycle check keeps the active edges acyclic.\<close>

lemma commit_candidate_acyclic:
  assumes "commit_candidate c (d, cm, k) = Inr (d', cm', k')" "edge_violation d = None" "acyclic (active_rel d)"
  shows "acyclic (active_rel d')"
  using assms(1)
proof (cases rule: commit_candidate_cases)
  case (wrote e)
  note u = UpsertMediaEdge_Some [OF wrote(1) assms(2)]
  have "active_rel d' \<subseteq> insert (c_parent c, c_child c) (active_rel d)"
  proof
    fix st assume "st \<in> active_rel d'"
    then obtain x where x: "x \<in> set (db_edges d')" "e_active x" "st = (e_source x, e_target x)"
      by (cases st) (auto simp: active_rel_iff)
    show "st \<in> insert (c_parent c, c_child c) (active_rel d)"
    proof (cases "edge_key x = ckey c")
      case True
      then show ?thesis using x by (simp add: edge_key_def ckey_def)
    next
      case False
      then have "x \<in> set (db_edges d)" using u(1) x(1) by (simp add: others_kept_def)
      then show ?thesis using x by (auto simp: active_rel_iff)
    qed
  qed
  then show ?thesis by (rule cycle_check_sound [OF assms(3) wrote(3)])
qed (use assms in auto)

text \<open>How a row may evolve: human decisions never, the rest only upwards.\<close>

definition row_evolves :: "media_edge \<Rightarrow> media_edge \<Rightarrow> bool" where
  "row_evolves e e' \<longleftrightarrow> e_id e' = e_id e \<and> edge_key e' = edge_key e \<and> e_conf e \<le> e_conf e' \<and>
     (e_active e \<longrightarrow> e_active e') \<and> (human e \<longrightarrow> e' = e)"

definition edges_evolve :: "db \<Rightarrow> db \<Rightarrow> bool" where
  "edges_evolve d d' \<longleftrightarrow> (\<forall>e \<in> set (db_edges d). \<exists>e' \<in> set (db_edges d'). row_evolves e e')"

lemma row_evolves_refl [simp]: "row_evolves e e"
  by (simp add: row_evolves_def)

lemma row_evolves_trans: "row_evolves a b \<Longrightarrow> row_evolves b c \<Longrightarrow> row_evolves a c"
  by (auto simp: row_evolves_def)

lemma edges_evolve_refl: "edges_evolve d d"
  unfolding edges_evolve_def
proof
  fix e assume "e \<in> set (db_edges d)"
  then show "\<exists>e' \<in> set (db_edges d). row_evolves e e'" by (rule bexI [rotated]) simp
qed

lemma edges_evolve_trans:
  assumes "edges_evolve a b" "edges_evolve b c"
  shows "edges_evolve a c"
  unfolding edges_evolve_def
proof
  fix e assume "e \<in> set (db_edges a)"
  then obtain f where f: "f \<in> set (db_edges b)" "row_evolves e f" using assms(1) unfolding edges_evolve_def by auto
  then obtain g where "g \<in> set (db_edges c)" "row_evolves f g" using assms(2) unfolding edges_evolve_def by auto
  then show "\<exists>e' \<in> set (db_edges c). row_evolves e e'" using row_evolves_trans [OF f(2)] by (rule_tac bexI) auto
qed

lemma commit_candidate_evolve:
  assumes "commit_candidate c (d, cm, k) = Inr (d', cm', k')" "edge_violation d = None"
  shows "edges_evolve d d'"
  using assms(1)
proof (cases rule: commit_candidate_cases)
  case (wrote e)
  note u = UpsertMediaEdge_Some [OF wrote(1) assms(2)]
  show ?thesis
    unfolding edges_evolve_def
  proof
    fix x assume x: "x \<in> set (db_edges d)"
    show "\<exists>e' \<in> set (db_edges d'). row_evolves x e'"
    proof (cases "edge_key x = ckey c")
      case True
      then have "\<not> human x" "e = merge_edge (db_clock d) (edge_of c) x" using u(6) [OF x] by auto
      then have "row_evolves x e" by (simp add: row_evolves_def)
      then show ?thesis using u(5) by blast
    next
      case False
      then have "x \<in> set (db_edges d')" using u(1) x by (simp add: others_kept_def)
      then show ?thesis using row_evolves_refl by blast
    qed
  qed
qed (simp_all add: edges_evolve_refl)

section \<open>The transaction\<close>

text \<open>What the status updates leave alone: everything but \<open>graph_status\<close> and \<open>updated_at\<close> of nodes.\<close>

lemma recompute_edges:
  assumes "rfold RecomputeStatusFromPersistedEdges ts d = Inr d'"
  shows "db_edges d' = db_edges d" "map n_id (db_nodes d') = map n_id (db_nodes d)"
proof -
  have "db_edges d' = db_edges d \<and> map n_id (db_nodes d') = map n_id (db_nodes d)"
    by (rule rfold_rel [OF assms, where R = "\<lambda>a b. db_edges b = db_edges a \<and> map n_id (db_nodes b) = map n_id (db_nodes a)"])
      (auto simp: RecomputeStatusFromPersistedEdges_def UpdateMediaNodeGraphStatus_def update_nodes_Inr)
  then show "db_edges d' = db_edges d" "map n_id (db_nodes d') = map n_id (db_nodes d)" by auto
qed

lemma active_rel_cong: "db_edges d' = db_edges d \<Longrightarrow> active_rel d' = active_rel d"
  by (simp add: active_rel_def active_pairs_def)

text \<open>The loop invariant and the loop relation, from those of one candidate.\<close>

lemma commit_loop_inv:
  assumes "rfold commit_candidate cs s = Inr s'" "edge_violation (fst s) = None" "P s"
    and "\<And>c d cm k s'. c \<in> set cs \<Longrightarrow> P (d, cm, k) \<Longrightarrow> edge_violation d = None \<Longrightarrow>
      commit_candidate c (d, cm, k) = Inr s' \<Longrightarrow> P s'"
  shows "edge_violation (fst s') = None \<and> P s'"
proof (rule rfold_inv [OF assms(1), where P = "\<lambda>s. edge_violation (fst s) = None \<and> P s"])
  show "edge_violation (fst s) = None \<and> P s" using assms(2,3) by simp
next
  fix c s t assume *: "c \<in> set cs" "edge_violation (fst s) = None \<and> P s" "commit_candidate c s = Inr t"
  obtain d cm k d' cm' k' where s: "s = (d, cm, k)" "t = (d', cm', k')" by (cases s; cases t)
  show "edge_violation (fst t) = None \<and> P t"
    using * commit_candidate_others(1) [of c d cm k d' cm' k'] assms(4) [of c d cm k t] unfolding s by auto
qed

lemma in_tx_cases:
  assumes "in_tx f d = (r, d')"
  obtains (failed) e where "f d = Inl e" "r = Inl e" "d' = d"
  | (finished) x where "f d = Inr (x, d')" "r = Inr x"
  using assms by (cases "f d") (auto simp: in_tx_def)

lemma ResolveAndCommit_cases:
  assumes "ResolveAndCommit rs lk child d = (r, d')"
  obtains (unchanged) "d' = d" "r = Inr ([], 0) \<or> (\<exists>e. r = Inl e)"
  | (committed) cm k d1 where "r = Inr (cm, k)"
      "rfold commit_candidate (mergeCandidates (concat (map (\<lambda>r. r child lk) rs))) (d, [], 0) = Inr (d1, cm, k)"
      "rfold RecomputeStatusFromPersistedEdges (touched cm) d1 = Inr d'"
proof -
  let ?m = "mergeCandidates (concat (map (\<lambda>r. r child lk) rs))"
  show ?thesis
  proof (cases "\<exists>c \<in> set ?m. NeedsReviewFloor \<le> c_conf c")
    case False
    then have "ResolveAndCommit rs lk child d = (Inr ([], 0), d)"
      unfolding ResolveAndCommit_def Let_def by (simp only: if_False)
    with assms show ?thesis by (intro unchanged) auto
  next
    case True
    then have "in_tx (commit_all ?m) d = (r, d')"
      using assms unfolding ResolveAndCommit_def Let_def by (simp only: if_True)
    then show ?thesis
    proof (cases rule: in_tx_cases)
      case (failed e)
      then show ?thesis by (intro unchanged) auto
    next
      case (finished x)
      then obtain cm k where x: "x = (cm, k)" by (cases x)
      from finished(1) x obtain d1 where
        "rfold commit_candidate ?m (d, [], 0) = Inr (d1, cm, k)"
        "rfold RecomputeStatusFromPersistedEdges (touched cm) d1 = Inr d'"
        unfolding commit_all_def by (auto simp: result_simps)
      with finished(2) x show ?thesis by (intro committed) auto
    qed
  qed
qed

section \<open>New edges are counted\<close>

definition active_keys :: "db \<Rightarrow> (int \<times> int \<times> string) set" where
  "active_keys d = edge_key ` {e \<in> set (db_edges d). e_active e}"

lemma finite_active_keys [simp]: "finite (active_keys d)"
  by (simp add: active_keys_def)

lemma MediaEdgeExists_iff: "MediaEdgeExists s t r d \<longleftrightarrow> (s, t, r) \<in> active_keys d"
  by (force simp: MediaEdgeExists_def active_keys_def)

lemma active_keys_upsert:
  assumes "UpsertMediaEdge u d = Inr (Some e, d')" "edge_violation d = None"
  shows "active_keys d' = insert (upsert_key u) (active_keys d)"
proof -
  note u = UpsertMediaEdge_Some [OF assms]
  have "k \<in> active_keys d' \<longleftrightarrow> k \<in> active_keys d" if "k \<noteq> upsert_key u" for k
    using u(1) that unfolding active_keys_def others_kept_def by blast
  moreover have "upsert_key u \<in> active_keys d'"
    unfolding active_keys_def by (rule image_eqI [of _ _ e]) (use u(3-5) in simp_all)
  ultimately show ?thesis by (intro set_eqI) (metis insert_iff)
qed

definition counted :: "db \<Rightarrow> commit_state \<Rightarrow> bool" where
  "counted d0 = (\<lambda>(d, cm, k). active_keys d0 \<subseteq> active_keys d \<and> k = card (active_keys d - active_keys d0))"

lemma counted_step:
  assumes "commit_candidate c (d, cm, k) = Inr (d', cm', k')" "edge_violation d = None" "counted d0 (d, cm, k)"
  shows "counted d0 (d', cm', k')"
  using assms(1)
proof (cases rule: commit_candidate_cases)
  case (wrote e)
  have keys: "active_keys d' = insert (ckey c) (active_keys d)"
    using active_keys_upsert [OF wrote(1) assms(2)] by simp
  show ?thesis
  proof (cases "ckey c \<in> active_keys d")
    case True
    then have "active_keys d' = active_keys d" "k' = k"
      using keys wrote(5) by (auto simp: MediaEdgeExists_iff ckey_def)
    with assms(3) show ?thesis by (simp add: counted_def)
  next
    case False
    then have "k' = k + 1" using wrote(5) by (simp add: MediaEdgeExists_iff ckey_def)
    moreover have "active_keys d' - active_keys d0 = insert (ckey c) (active_keys d - active_keys d0)"
      using keys False assms(3) by (auto simp: counted_def)
    ultimately show ?thesis
      using assms(3) False keys by (auto simp: counted_def)
  qed
qed (use assms in \<open>auto simp: counted_def\<close>)

section \<open>Graph status of the targets\<close>

text \<open>The status a set of parent edges stands for.\<close>

definition status_of :: "media_edge list \<Rightarrow> graph_status" where
  "status_of es =
     (if \<exists>e \<in> set es. e_review e = AUTO_ACCEPTED \<or> e_review e = CONFIRMED then LINKED
      else if \<exists>e \<in> set es. e_review e = NEEDS_REVIEW then GRAPH_NEEDS_REVIEW else UNLINKED)"

lemma status_loop_spec:
  "status_loop es st =
     (if \<exists>e \<in> set es. e_review e = AUTO_ACCEPTED \<or> e_review e = CONFIRMED then LINKED
      else if \<exists>e \<in> set es. e_review e = NEEDS_REVIEW then GRAPH_NEEDS_REVIEW else st)"
proof (induction es st rule: status_loop.induct)
  case (1 st)
  then show ?case by simp
next
  case (2 e es st)
  then show ?case by (cases "e_review e") auto
qed

lemma ListEdges_cong: "db_edges d' = db_edges d \<Longrightarrow> ListEdgesByTarget i d' = ListEdgesByTarget i d"
  by (simp add: ListEdgesByTarget_def)

definition status_ok :: "db \<Rightarrow> int list \<Rightarrow> db \<Rightarrow> bool" where
  "status_ok d0 ts d \<longleftrightarrow> db_edges d = db_edges d0 \<and>
     (\<forall>n \<in> set (db_nodes d). if n_id n \<in> set ts then n_graph n = status_of (ListEdgesByTarget (n_id n) d0)
                             else n \<in> set (db_nodes d0))"

lemma recompute_step:
  assumes "RecomputeStatusFromPersistedEdges t d = Inr d'" "status_ok d0 ts d"
  shows "status_ok d0 (ts @ [t]) d'"
proof -
  let ?f = "\<lambda>n. n\<lparr>n_graph := status_of (ListEdgesByTarget t d), n_updated := db_clock d\<rparr>"
  have d': "db_nodes d' = map (\<lambda>n. if n_id n = t then ?f n else n) (db_nodes d)" "db_edges d' = db_edges d"
    using assms(1) by (auto simp: RecomputeStatusFromPersistedEdges_def UpdateMediaNodeGraphStatus_def
        update_nodes_Inr status_loop_spec status_of_def)
  have edges: "db_edges d = db_edges d0" using assms(2) by (simp add: status_ok_def)
  have "if n_id n \<in> set (ts @ [t]) then n_graph n = status_of (ListEdgesByTarget (n_id n) d0)
        else n \<in> set (db_nodes d0)" if "n \<in> set (db_nodes d')" for n
  proof -
    obtain m where m: "m \<in> set (db_nodes d)" "n = (if n_id m = t then ?f m else m)"
      using \<open>n \<in> set (db_nodes d')\<close> unfolding d'(1) by auto
    have "ListEdgesByTarget t d = ListEdgesByTarget t d0" using edges by (rule ListEdges_cong)
    with m assms(2) show ?thesis by (auto simp: status_ok_def split: if_splits)
  qed
  then show ?thesis using edges d'(2) by (simp add: status_ok_def)
qed

lemma recompute_status_ok:
  "rfold RecomputeStatusFromPersistedEdges ts d = Inr d' \<Longrightarrow> status_ok d0 us d \<Longrightarrow> status_ok d0 (us @ ts) d'"
proof (induction ts arbitrary: us d)
  case Nil
  then show ?case by simp
next
  case (Cons t ts)
  then obtain d1 where "RecomputeStatusFromPersistedEdges t d = Inr d1"
    "rfold RecomputeStatusFromPersistedEdges ts d1 = Inr d'" by (auto simp: result_simps)
  then show ?case using Cons.IH [of d1 "us @ [t]"] recompute_step Cons.prems(2) by simp
qed

section \<open>Totality\<close>

lemma merge_edge_check:
  assumes "edge_check e" "\<not> human e" "edge_key e = upsert_key u" "edge_check (edge_row i now u)"
  shows "edge_check (merge_edge now u e)"
proof -
  let ?m = "merge_edge now u e"
  have same: "e_source ?m = e_source e" "e_target ?m = e_target e" "e_rel ?m = e_rel e"
    "e_reviewed_at ?m = e_reviewed_at e"
    by (simp_all add: merge_edge_def)
  have tier: "e_tier ?m = e_tier e \<or> e_tier ?m = u_tier u"
    and review: "e_review ?m = e_review e \<or> e_review ?m = u_review u"
    by (simp_all add: merge_edge_def)
  have u: "u_review u \<notin> {CONFIRMED, REJECTED} \<and> u_tier u \<in> {1, 2, 3} \<and> 0 \<le> u_conf u \<and> u_conf u \<le> 1"
    using assms(4) unfolding edge_check_def by (simp add: edge_row_def)
  have e: "e_tier e \<in> {1, 2, 3} \<and> 0 \<le> e_conf e \<and> e_conf e \<le> 1"
    using assms(1) unfolding edge_check_def by simp
  have "e_tier ?m \<in> {1, 2, 3}" using tier u e by metis
  moreover have "e_review ?m \<notin> {CONFIRMED, REJECTED}" using review u assms(2) unfolding human_def by auto
  moreover have "0 \<le> e_conf ?m" "e_conf ?m \<le> 1" using u e by auto
  ultimately show ?thesis using assms(1) unfolding edge_check_def same by blast
qed

lemma UpsertMediaEdge_total:
  assumes "edge_violation d = None" "edge_check (edge_row (next_edge_id d) (db_clock d) u)"
    and "u_source u \<in> n_id ` set (db_nodes d)" "u_target u \<in> n_id ` set (db_nodes d)"
  shows "\<exists>r d'. UpsertMediaEdge u d = Inr (r, d')"
proof (cases "find (\<lambda>e. edge_key e = upsert_key u) (db_edges d)")
  case None
  let ?row = "edge_row (next_edge_id d) (db_clock d) u"
  have row: "e_source ?row = u_source u" "e_target ?row = u_target u" by (simp_all add: edge_row_def)
  have "e_id ?row \<notin> e_id ` set (db_edges d)"
    using next_rowid_fresh [of _ "map e_id (db_edges d)"] by (auto simp: edge_row_def next_edge_id_def)
  moreover have "upsert_key u \<notin> edge_key ` set (db_edges d)" using find_NoneD [OF None] by (metis image_iff)
  ultimately have "edge_violation (d\<lparr>db_edges := db_edges d @ [?row]\<rparr>) = None"
    using assms row by (simp add: edge_violation_None)
  with None assms(2) show ?thesis by (simp add: UpsertMediaEdge_def Let_def checked_edges_def)
next
  case (Some old)
  let ?f = "\<lambda>x. if edge_key x = upsert_key u then merge_edge (db_clock d) u x else x"
  have ids: "map (e_id \<circ> ?f) es = map e_id es" "map (edge_key \<circ> ?f) es = map edge_key es" for es
    by simp_all
  have merge_check: "edge_check (merge_edge (db_clock d) u e)"
    if "edge_check e" "\<not> human e" "edge_key e = upsert_key u" for e
    by (rule merge_edge_check [OF that assms(2)])
  show ?thesis
  proof (cases "human old")
    case True
    with Some assms(2) show ?thesis by (simp add: UpsertMediaEdge_def Let_def)
  next
    case False
    have "edge_check (?f e)" if e: "e \<in> set (db_edges d)" for e
    proof (cases "edge_key e = upsert_key u")
      case True
      then have "e = old" using edge_same_key [OF assms(1) e, of old] find_SomeD [OF Some] by simp
      then show ?thesis
        using True False e assms(1) merge_check [of e] by (simp add: edge_violation_None)
    qed (use e assms(1) in \<open>simp add: edge_violation_None\<close>)
    moreover have "e_source (?f e) = e_source e" "e_target (?f e) = e_target e" for e
      by (simp_all add: merge_edge_def)
    moreover have "distinct (map e_id (map ?f (db_edges d)))" "distinct (map edge_key (map ?f (db_edges d)))"
      unfolding map_map ids using assms(1) by (simp_all add: edge_violation_None)
    ultimately have "edge_violation (d\<lparr>db_edges := map ?f (db_edges d)\<rparr>) = None"
      using assms(1) by (simp add: edge_violation_None del: if_image_distrib map_map)
    with Some False assms(2) show ?thesis
      by (simp add: UpsertMediaEdge_def Let_def update_edges_def checked_edges_def)
  qed
qed

text \<open>A candidate whose commit cannot fail: the table's checks hold and both nodes exist.\<close>

definition sound_candidate :: "db \<Rightarrow> candidate \<Rightarrow> bool" where
  "sound_candidate d c \<longleftrightarrow> IsValidRelationshipType (c_rel c) \<and> 0 \<le> c_conf c \<and> c_conf c \<le> 1 \<and>
     c_tier c \<in> {1, 2, 3} \<and> c_parent c \<in> n_id ` set (db_nodes d) \<and> c_child c \<in> n_id ` set (db_nodes d)"

lemma commit_candidate_total:
  assumes "edge_violation d = None" "sound_candidate d c"
  shows "\<exists>s. commit_candidate c (d, cm, k) = Inr s"
proof (cases "c_conf c < NeedsReviewFloor \<or> WouldCreateCycle (c_parent c) (c_child c) d")
  case True
  then show ?thesis by (auto simp: commit_candidate_def)
next
  case False
  then have "c_parent c \<noteq> c_child c" by (auto simp: WouldCreateCycle_iff)
  then have "edge_check (edge_row (next_edge_id d) (db_clock d) (edge_of c))"
    using assms(2)
    by (auto simp: edge_check_def edge_row_def edge_of_def sound_candidate_def IsValidRelationshipType_def
        relationshipTypes_def review_for_def)
  then obtain r d' where u: "UpsertMediaEdge (edge_of c) d = Inr (r, d')"
    using UpsertMediaEdge_total [OF assms(1), of "edge_of c"] assms(2) by (auto simp: sound_candidate_def)
  show ?thesis
  proof (cases r)
    case (Some e)
    with u False show ?thesis by (simp add: commit_candidate_def Let_def)
  next
    case None
    with u have "d' = d" "\<exists>e \<in> set (db_edges d). edge_key e = ckey c" using UpsertMediaEdge_None by fastforce+
    then obtain e where "GetMediaEdgeBySourceTargetRel (c_parent c) (c_child c) (c_rel c) d' = Some e"
      using find_NoneD [of "\<lambda>e. edge_key e = ckey c" "db_edges d"]
      by (cases "find (\<lambda>e. edge_key e = ckey c) (db_edges d)")
        (auto simp: GetMediaEdgeBySourceTargetRel_def ckey_def)
    with u None False show ?thesis by (simp add: commit_candidate_def Let_def)
  qed
qed

section \<open>The whole pass\<close>

lemma commit_loop_evolve:
  assumes "rfold commit_candidate cs (d, [], 0) = Inr (d1, cm, k)" "edge_violation d = None"
  shows "edge_violation d1 = None" "edges_evolve d d1" "db_nodes d1 = db_nodes d" "counted d (d1, cm, k)"
    "acyclic (active_rel d) \<Longrightarrow> acyclic (active_rel d1)"
proof -
  have start: "edge_violation (fst (d, [] :: media_edge list, 0::nat)) = None" using assms(2) by simp
  have "edge_violation (fst (d1, cm, k)) = None \<and>
    (edges_evolve d (fst (d1, cm, k)) \<and> db_nodes (fst (d1, cm, k)) = db_nodes d \<and> counted d (d1, cm, k) \<and>
     (acyclic (active_rel d) \<longrightarrow> acyclic (active_rel (fst (d1, cm, k)))))"
  proof (rule commit_loop_inv [OF assms(1) start])
    show "edges_evolve d (fst (d, [], 0)) \<and> db_nodes (fst (d, [], 0)) = db_nodes d \<and> counted d (d, [], 0) \<and>
      (acyclic (active_rel d) \<longrightarrow> acyclic (active_rel (fst (d, [], 0))))"
      by (simp add: edges_evolve_refl counted_def)
  next
    fix c d' cm' k' s'
    assume inv: "edges_evolve d (fst (d', cm', k')) \<and> db_nodes (fst (d', cm', k')) = db_nodes d \<and>
        counted d (d', cm', k') \<and> (acyclic (active_rel d) \<longrightarrow> acyclic (active_rel (fst (d', cm', k'))))"
      and ok: "edge_violation d' = None" and step: "commit_candidate c (d', cm', k') = Inr s'"
    obtain d2 cm2 k2 where s': "s' = (d2, cm2, k2)" by (cases s')
    note step = step [unfolded s']
    show "edges_evolve d (fst s') \<and> db_nodes (fst s') = db_nodes d \<and> counted d s' \<and>
      (acyclic (active_rel d) \<longrightarrow> acyclic (active_rel (fst s')))"
    proof (intro conjI)
      have "edges_evolve d d'" using inv by simp
      then show "edges_evolve d (fst s')"
        using commit_candidate_evolve [OF step ok] unfolding s' by (auto intro: edges_evolve_trans)
      show "db_nodes (fst s') = db_nodes d"
        using inv commit_candidate_others(3) [OF step ok] unfolding s' by simp
      have "counted d (d', cm', k')" using inv by simp
      then show "counted d s'" unfolding s' by (rule counted_step [OF step ok])
      show "acyclic (active_rel d) \<longrightarrow> acyclic (active_rel (fst s'))"
        using inv commit_candidate_acyclic [OF step ok] unfolding s' by simp
    qed
  qed
  then show "edge_violation d1 = None" "edges_evolve d d1" "db_nodes d1 = db_nodes d" "counted d (d1, cm, k)"
    "acyclic (active_rel d) \<Longrightarrow> acyclic (active_rel d1)" by simp_all
qed

text \<open>What one pass does to the edges, in whichever way it ends.\<close>

lemma resolve_summary:
  assumes "ResolveAndCommit rs lk child d = (r, d')" "edge_violation d = None"
  shows "edges_evolve d d' \<and> map n_id (db_nodes d') = map n_id (db_nodes d) \<and> edge_violation d' = None \<and>
    (acyclic (active_rel d) \<longrightarrow> acyclic (active_rel d')) \<and>
    (\<forall>cm k. r = Inr (cm, k) \<longrightarrow> active_keys d \<subseteq> active_keys d' \<and> k = card (active_keys d' - active_keys d))"
  using assms(1)
proof (cases rule: ResolveAndCommit_cases)
  case unchanged
  then show ?thesis using assms(2) by (auto simp: edges_evolve_refl)
next
  case (committed cm k d1)
  note loop = commit_loop_evolve [OF committed(2) assms(2)] and status = recompute_edges [OF committed(3)]
  have same: "edges_evolve d d' = edges_evolve d d1" "active_keys d' = active_keys d1"
    "active_rel d' = active_rel d1"
    unfolding edges_evolve_def active_keys_def active_rel_def active_pairs_def status(1) by (rule refl)+
  have "map n_id (db_nodes d') = map n_id (db_nodes d)" using status(2) loop(3) by simp
  moreover from this have "n_id ` set (db_nodes d') = n_id ` set (db_nodes d1)"
    using loop(3) by (metis list.set_map)
  then have "edge_violation d' = None" using edge_violation_cong [OF status(1)] loop(1) by simp
  ultimately show ?thesis using loop committed(1) same by (auto simp: counted_def)
qed

text \<open>C1. The lineage graph stays a DAG: whatever the resolvers propose, and whether the pass commits or
  fails, active edges that form no cycle before form none after.\<close>

theorem resolve_acyclic:
  assumes "db_ok d" "acyclic (active_rel d)" "ResolveAndCommit rs lk child d = (r, d')"
  shows "acyclic (active_rel d')"
  using resolve_summary [OF assms(3)] assms(1,2) by (simp add: db_ok_def)

text \<open>C8. A pass never takes anything back: every edge row is still there under its id and key, a row a
  person confirmed or rejected is unchanged in every column, any other row's confidence has not
  fallen and an active row is still active.\<close>

theorem resolve_never_takes_back:
  assumes "db_ok d" "ResolveAndCommit rs lk child d = (r, d')"
  shows "\<forall>e \<in> set (db_edges d). \<exists>e' \<in> set (db_edges d').
    e_id e' = e_id e \<and> edge_key e' = edge_key e \<and> e_conf e \<le> e_conf e' \<and>
    (e_active e \<longrightarrow> e_active e') \<and> (human e \<longrightarrow> e' = e)"
  using resolve_summary [OF assms(2)] assms(1) by (simp add: db_ok_def edges_evolve_def row_evolves_def)

text \<open>The second result of a successful pass is the number of (source, target, relationship) keys
  that have an active row after the pass and had none before it.\<close>

theorem resolve_created_count:
  assumes "db_ok d" "ResolveAndCommit rs lk child d = (Inr (cm, k), d')"
  shows "k = card (active_keys d' - active_keys d)"
  using resolve_summary [OF assms(2)] assms(1) by (simp add: db_ok_def)

text \<open>C36. After a successful pass, the \<open>graph_status\<close> of every node that is the target of a committed,
  not rejected edge is the one its active incoming edges stand for, and every other node row is the
  row it was.\<close>

theorem resolve_graph_status:
  assumes "ResolveAndCommit rs lk child d = (Inr (cm, k), d')" "db_ok d" "n \<in> set (db_nodes d')"
  shows "if \<exists>e \<in> set cm. e_target e = n_id n \<and> e_review e \<noteq> REJECTED
         then n_graph n = status_of (ListEdgesByTarget (n_id n) d') else n \<in> set (db_nodes d)"
  using assms(1)
proof (cases rule: ResolveAndCommit_cases)
  case unchanged
  then show ?thesis using assms(3) by simp
next
  case (committed cm' k' d1)
  have "edge_violation d = None" using assms(2) by (simp add: db_ok_def)
  then have nodes: "db_nodes d1 = db_nodes d" by (rule commit_loop_evolve(3) [OF committed(2)])
  have targets: "n_id n \<in> set (touched cm) \<longleftrightarrow> (\<exists>e \<in> set cm. e_target e = n_id n \<and> e_review e \<noteq> REJECTED)"
    by (auto simp: touched_def intro: rev_image_eqI)
  have parents: "ListEdgesByTarget (n_id n) d' = ListEdgesByTarget (n_id n) d1"
    using recompute_edges(1) [OF committed(3)] by (rule ListEdges_cong)
  have "status_ok d1 [] d1" by (simp add: status_ok_def)
  then have "status_ok d1 ([] @ touched cm) d'" using committed(1,3) by (intro recompute_status_ok) simp_all
  then have "if n_id n \<in> set (touched cm) then n_graph n = status_of (ListEdgesByTarget (n_id n) d1)
      else n \<in> set (db_nodes d1)"
    using assms(3) unfolding status_ok_def by simp
  then show ?thesis unfolding targets parents nodes .
qed

section \<open>The shipped resolvers never fail a pass\<close>

lemma shipped_wf:
  assumes "c \<in> set (concat (map (\<lambda>r. r child (dbLookup dr)) (shipped env)))"
  shows "wf_candidate (live_node dr) child c"
  using assms
  by (auto simp: shipped_def intro: dbl.xmp_wf dbl.stem_wf dbl.heuristic_wf dbl.sidecar_wf)

lemma merged_origin:
  assumes "m \<in> set (mergeCandidates cs)"
  obtains c where "c \<in> set cs" "ckey c = ckey m" "c_conf c = c_conf m" "c_tier c = c_tier m"
  using merged_of_merge [of cs] assms unfolding merged_of_def by blast

lemma wf_sound:
  assumes "wf_candidate (live_node dr) child c" "g_id child \<in> n_id ` set (db_nodes d)"
    and "n_id ` set (db_nodes dr) \<subseteq> n_id ` set (db_nodes d)"
    and "ckey c = ckey m" "c_conf c = c_conf m" "c_tier c = c_tier m"
  shows "sound_candidate d m"
proof -
  obtain n where n: "live_node dr n"
    "(c_parent c, c_child c) = (g_id n, g_id child) \<or> (c_parent c, c_child c) = (g_id child, g_id n)"
    using assms(1) unfolding wf_candidate_def by blast
  have "g_id n \<in> n_id ` set (db_nodes d)" using n(1) assms(3) by (auto simp: live_node_def)
  with n(2) assms show ?thesis by (auto simp: wf_candidate_def sound_candidate_def ckey_def)
qed

lemma UpdateMediaNodeGraphStatus_step:
  assumes "db_ok d"
  shows "\<exists>d'. RecomputeStatusFromPersistedEdges i d = Inr d' \<and> db_ok d'"
proof -
  obtain d' where d': "RecomputeStatusFromPersistedEdges i d = Inr d'"
    using UpdateMediaNodeGraphStatus_total assms
    unfolding RecomputeStatusFromPersistedEdges_def db_ok_def by blast
  moreover have "db_ok d'"
    by (rule update_nodes_ok [OF d' [unfolded RecomputeStatusFromPersistedEdges_def UpdateMediaNodeGraphStatus_def] _ assms]) simp
  ultimately show ?thesis by blast
qed

lemma commit_all_total:
  assumes "db_ok d" "\<And>c. c \<in> set cs \<Longrightarrow> sound_candidate d c"
  shows "\<exists>x d'. commit_all cs d = Inr (x, d') \<and> db_ok d'"
proof -
  let ?P = "\<lambda>s :: commit_state. edge_violation (fst s) = None \<and> db_nodes (fst s) = db_nodes d \<and>
    db_locs (fst s) = db_locs d \<and> db_users (fst s) = db_users d"
  have "\<exists>s'. rfold commit_candidate cs (d, [], 0) = Inr s' \<and> ?P s'"
  proof (rule rfold_total [where P = ?P])
    show "?P (d, [], 0)" using assms(1) by (simp add: db_ok_def)
  next
    fix c and s :: commit_state
    assume c: "c \<in> set cs" and P: "?P s"
    obtain d1 cm k where s: "s = (d1, cm, k)" by (cases s)
    have "sound_candidate d1 c" using assms(2) [OF c] P by (simp add: s sound_candidate_def)
    then obtain d2 cm2 k2 where step: "commit_candidate c (d1, cm, k) = Inr (d2, cm2, k2)"
      using commit_candidate_total [of d1 c cm k] P s by auto
    moreover have "edge_violation d2 = None" "others_kept (ckey c) d1 d2"
      using commit_candidate_others(1,2) [OF step] P s by auto
    moreover from this have "db_nodes d2 = db_nodes d1 \<and> db_locs d2 = db_locs d1 \<and> db_users d2 = db_users d1"
      unfolding others_kept_def by (metis db.ext_inject db.surjective db.update_convs(2))
    ultimately show "\<exists>t. commit_candidate c s = Inr t \<and> ?P t" using P s by auto
  qed
  then obtain d1 cm k where loop: "rfold commit_candidate cs (d, [], 0) = Inr (d1, cm, k)" "?P (d1, cm, k)"
    by (metis surj_pair)
  have "node_violation d1 = node_violation d"
    using loop(2) by (intro node_violation_cong) auto
  then have "db_ok d1" using loop(2) assms(1) by (simp add: db_ok_def)
  then have "\<exists>d2. rfold RecomputeStatusFromPersistedEdges (touched cm) d1 = Inr d2 \<and> db_ok d2"
    by (rule rfold_total) (rule UpdateMediaNodeGraphStatus_step)
  with loop(1) show ?thesis by (auto simp: commit_all_def)
qed

text \<open>C37. With the resolvers the program registers, resolving a node that exists never fails: no check or
  foreign key of the edge table is ever hit, whatever the lookup's (possibly older) snapshot, the
  project files and the telemetry files hold, and the database is consistent afterwards.\<close>

theorem resolve_shipped_total:
  assumes "db_ok d" "g_id child \<in> n_id ` set (db_nodes d)"
    and "n_id ` set (db_nodes snapshot) \<subseteq> n_id ` set (db_nodes d)"
  shows "\<exists>cm k d'. ResolveAndCommit (shipped env) (dbLookup snapshot) child d = (Inr (cm, k), d') \<and> db_ok d'"
proof -
  let ?cs = "concat (map (\<lambda>r. r child (dbLookup snapshot)) (shipped env))"
  have "sound_candidate d m" if m: "m \<in> set (mergeCandidates ?cs)" for m
  proof -
    obtain c where "c \<in> set ?cs" "ckey c = ckey m" "c_conf c = c_conf m" "c_tier c = c_tier m"
      using merged_origin [OF m] .
    then show ?thesis using shipped_wf wf_sound assms(2,3) by blast
  qed
  then obtain cm k d' where "commit_all (mergeCandidates ?cs) d = Inr ((cm, k), d')" "db_ok d'"
    using commit_all_total [OF assms(1)] by (metis surj_pair)
  then show ?thesis using assms(1) unfolding ResolveAndCommit_def Let_def in_tx_def by simp
qed

section \<open>The shipped resolvers never take an automatic acceptance back\<close>

text \<open>Their scores leave a gap between what is queued and what is accepted, in every tier.\<close>

definition gap :: "candidate \<Rightarrow> bool" where
  "gap c \<longleftrightarrow> (if review_for c = AUTO_ACCEPTED then f64 (89/100) \<le> c_conf c else c_conf c \<le> f64 (89/100))"

lemma stem_gap: "\<not> AutoAcceptThresholdForTier 2 \<le> stem_confidence day camera dir gated \<Longrightarrow>
    stem_confidence day camera dir gated \<le> f64 (89/100)"
  by (cases day; cases camera; cases dir; cases gated;
      simp add: stem_confidence_def boost_def cap_def Let_def indexMatchConfidenceCap_def
        AutoAcceptThresholdForTier_def conf_eval)

lemma srt_gap: "\<not> AutoAcceptThresholdForTier 2 \<le> srt_confidence day camera gated \<Longrightarrow>
    srt_confidence day camera gated \<le> f64 (89/100)"
  by (cases day; cases camera; cases gated;
      simp add: srt_confidence_def boost_def cap_def Let_def indexMatchConfidenceCap_def
        AutoAcceptThresholdForTier_def conf_eval)

lemma threshold_089: "c_tier c \<noteq> 3 \<Longrightarrow> AutoAcceptThresholdForTier (c_tier c) \<le> c_conf c \<Longrightarrow> f64 (89/100) \<le> c_conf c"
  by (simp add: AutoAcceptThresholdForTier_def conf_eval)

lemma gapI2: "c_tier c = 2 \<Longrightarrow> c_conf c \<le> f64 (89/100) \<or> AutoAcceptThresholdForTier 2 \<le> c_conf c \<Longrightarrow> gap c"
  using threshold_089 [of c] by (auto simp: gap_def review_for_def)

lemma stem_pair_gap: "stem_pair env child parent = Some c \<Longrightarrow> gap c"
  by (rule gapI2)
    (auto simp: stem_pair_def srt_pair_def plain_pair_def Let_def intro: stem_gap srt_gap
      split: if_splits option.splits prod.splits)

lemma tier3_gap: "tier3_score child t parent = Some (c, h, dt) \<Longrightarrow> gap c"
proof -
  assume *: "tier3_score child t parent = Some (c, h, dt)"
  then obtain lens ph where "c_conf c = tier3_confidence lens ph" "c_tier c = 3"
    by (auto simp: tier3_score_def Let_def split: if_splits option.splits)
  then show ?thesis
    using tier3_auto_accept [of lens ph]
    by (cases lens; cases ph; simp add: gap_def review_for_def tier3_confidence_values conf_eval)
qed

lemma shipped_gap:
  assumes "c \<in> set (concat (map (\<lambda>r. r child (dbLookup dr)) (shipped env)))"
  shows "gap c"
proof -
  consider "c \<in> set (ProjectSidecarResolver env child (dbLookup dr))"
    | "c \<in> set (XMPOriginalDocumentIDResolver child (dbLookup dr))"
    | "c \<in> set (FilenameStemResolver env child (dbLookup dr))"
    | "c \<in> set (HeuristicSpatialTemporalResolver child (dbLookup dr))"
    using assms by (auto simp: shipped_def)
  then show ?thesis
  proof cases
    case 1
    then have "c_conf c = 1" "c_tier c = 1"
      using dbl.sidecar_invariant [of dr child env] unfolding dbl.sidecar_inv_def
      by (auto simp: sidecar_candidate_def)
    then show ?thesis by (simp add: gap_def review_for_def AutoAcceptThresholdForTier_def conf_eval)
  next
    case 2
    then show ?thesis
      by (auto simp: XMPOriginalDocumentIDResolver_def xmp_candidate_def gap_def review_for_def
          AutoAcceptThresholdForTier_def conf_eval split: if_splits)
  next
    case 3
    then show ?thesis by (auto simp: FilenameStemResolver_def in_map_filter stem_pair_gap split: if_splits)
  next
    case 4
    then show ?thesis by (rule dbl.heuristic_best) (rule tier3_gap)
  qed
qed

lemma merged_gap: "m \<in> set (mergeCandidates cs) \<Longrightarrow> (\<And>c. c \<in> set cs \<Longrightarrow> gap c) \<Longrightarrow> gap m"
  by (erule merged_origin) (metis gap_def review_for_def)

text \<open>Accepted rows are at least as confident as the weakest score any resolver accepts on its own.\<close>

definition accepted_strong :: "db \<Rightarrow> bool" where
  "accepted_strong d \<longleftrightarrow> (\<forall>e \<in> set (db_edges d). e_review e = AUTO_ACCEPTED \<longrightarrow> f64 (89/100) \<le> e_conf e)"

definition accepted_ids :: "db \<Rightarrow> int set" where
  "accepted_ids d = e_id ` {e \<in> set (db_edges d). e_review e = AUTO_ACCEPTED}"

lemma merge_edge_accepted:
  assumes "gap c" "e_review e = AUTO_ACCEPTED" "f64 (89/100) \<le> e_conf e"
  shows "e_review (merge_edge now (edge_of c) e) = AUTO_ACCEPTED"
proof (rule ccontr)
  assume neg: "e_review (merge_edge now (edge_of c) e) \<noteq> AUTO_ACCEPTED"
  then have wins: "excluded_wins (edge_of c) e" and "review_for c \<noteq> AUTO_ACCEPTED"
    using assms(2) by (auto simp: merge_edge_def split: if_splits)
  then have "review_for c = NEEDS_REVIEW" "c_conf c \<le> f64 (89/100)"
    using assms(1) by (auto simp: gap_def review_for_def split: if_splits)
  with wins assms show False by (simp add: excluded_wins_def)
qed

lemma commit_candidate_accepted:
  assumes "commit_candidate c (d, cm, k) = Inr (d', cm', k')" "edge_violation d = None" "gap c" "accepted_strong d"
  shows "accepted_strong d'" "accepted_ids d \<subseteq> accepted_ids d'"
proof -
  have "accepted_strong d' \<and> accepted_ids d \<subseteq> accepted_ids d'"
    using assms(1)
  proof (cases rule: commit_candidate_cases)
    case (wrote e)
    note u = UpsertMediaEdge_Some [OF wrote(1) assms(2)]
    have new: "x = e" if "x \<in> set (db_edges d')" "edge_key x = ckey c" for x
      by (rule edge_same_key [OF u(2) that(1) u(5)]) (simp add: that u(3))
    have strong_e: "f64 (89/100) \<le> e_conf e" if "e_review e = AUTO_ACCEPTED"
    proof (cases "\<exists>x \<in> set (db_edges d). edge_key x = ckey c")
      case True
      then obtain x where x: "x \<in> set (db_edges d)" "e = merge_edge (db_clock d) (edge_of c) x"
        using u(6) by auto
      show ?thesis
      proof (cases "excluded_wins (edge_of c) x")
        case True
        then have "review_for c = AUTO_ACCEPTED" using that unfolding x(2) by (simp add: merge_edge_def)
        then show ?thesis using assms(3) unfolding x(2) by (simp add: gap_def le_max_iff_disj)
      next
        case False
        then have "e_review x = AUTO_ACCEPTED" using that unfolding x(2) by (simp add: merge_edge_def)
        then show ?thesis using assms(4) x(1) unfolding x(2) by (simp add: accepted_strong_def le_max_iff_disj)
      qed
    next
      case False
      then have "e = edge_row (next_edge_id d) (db_clock d) (edge_of c)" using u(7) by auto
      with that assms(3) show ?thesis by (simp add: gap_def)
    qed
    have "accepted_strong d'"
      unfolding accepted_strong_def
    proof (intro ballI impI)
      fix x assume x: "x \<in> set (db_edges d')" "e_review x = AUTO_ACCEPTED"
      show "f64 (89/100) \<le> e_conf x"
      proof (cases "edge_key x = ckey c")
        case True
        then show ?thesis using new [OF x(1)] strong_e x(2) by simp
      next
        case False
        then have "x \<in> set (db_edges d)" using u(1) x(1) by (simp add: others_kept_def)
        then show ?thesis using assms(4) x(2) by (simp add: accepted_strong_def)
      qed
    qed
    moreover have "e_id x \<in> accepted_ids d'" if x: "x \<in> set (db_edges d)" "e_review x = AUTO_ACCEPTED" for x
    proof (cases "edge_key x = ckey c")
      case True
      then have "e = merge_edge (db_clock d) (edge_of c) x" using u(6) [OF x(1)] by simp
      moreover from this have "e_review e = AUTO_ACCEPTED"
        using merge_edge_accepted [OF assms(3) x(2)] assms(4) x by (simp add: accepted_strong_def)
      ultimately show ?thesis
        unfolding accepted_ids_def by (intro image_eqI [of _ _ e]) (use u(5) in simp_all)
    next
      case False
      then have "x \<in> set (db_edges d')" using u(1) x(1) by (simp add: others_kept_def)
      then show ?thesis unfolding accepted_ids_def using x(2) by (intro image_eqI [of _ _ x]) simp_all
    qed
    ultimately show ?thesis unfolding accepted_ids_def by auto
  qed (use assms(4) in auto)
  then show "accepted_strong d'" "accepted_ids d \<subseteq> accepted_ids d'" by auto
qed

text \<open>Scanning never weakens a decision the program made by itself: with the registered resolvers,
  every automatically accepted edge is still automatically accepted after any pass over any node,
  although each tier has its own threshold and later candidates may tie or outscore it.\<close>

theorem resolve_keeps_accepted:
  assumes "db_ok d" "accepted_strong d"
    and "ResolveAndCommit (shipped env) (dbLookup snapshot) child d = (r, d')"
  shows "accepted_strong d' \<and> accepted_ids d \<subseteq> accepted_ids d'"
  using assms(3)
proof (cases rule: ResolveAndCommit_cases)
  case unchanged
  then show ?thesis using assms(2) by simp
next
  case (committed cm k d1)
  let ?P = "\<lambda>s :: commit_state. accepted_strong (fst s) \<and> accepted_ids d \<subseteq> accepted_ids (fst s)"
  let ?cs = "mergeCandidates (concat (map (\<lambda>r. r child (dbLookup snapshot)) (shipped env)))"
  have start: "edge_violation (fst (d, [] :: media_edge list, 0::nat)) = None"
    using assms(1) by (simp add: db_ok_def)
  have "edge_violation (fst (d1, cm, k)) = None \<and> ?P (d1, cm, k)"
  proof (rule commit_loop_inv [OF committed(2) start, where P = ?P])
    show "?P (d, [], 0)" using assms(2) by simp
  next
    fix c d2 cm2 k2 s'
    assume c: "c \<in> set ?cs" and P: "?P (d2, cm2, k2)" and ok: "edge_violation d2 = None"
      and step: "commit_candidate c (d2, cm2, k2) = Inr s'"
    obtain d3 cm3 k3 where s': "s' = (d3, cm3, k3)" by (cases s')
    have "gap c" using c by (rule merged_gap) (rule shipped_gap)
    with commit_candidate_accepted [OF step [unfolded s'] ok] P show "?P s'" unfolding s' by auto
  qed
  moreover have "db_edges d' = db_edges d1" by (rule recompute_edges(1) [OF committed(3)])
  ultimately show ?thesis by (simp add: accepted_strong_def accepted_ids_def)
qed

section \<open>A pass over the sample database\<close>

definition studio_candidate :: candidate where
  "studio_candidate = \<lparr>c_parent = 1, c_child = 2, c_rel = ''FINAL_EXPORT'', c_conf = f64 (95/100), c_tier = 2,
     c_resolver = ''xmp_original_document_id'',
     c_evidence = [(''child_original_document_id'', EvString ''D''), (''parent_document_id'', EvString ''D'')]\<rparr>"

lemma studio_rel: "inferRelationship ''b.jpg'' ''jpg'' ''arw'' = ''FINAL_EXPORT''"
  by code_simp

lemma studio_parents: "ByOriginalDocumentID (dbLookup studio) ''D'' = [ToNode original]"
  by (simp add: dbLookup_def lookup_doc_def ListLiveNodesByDocumentID_def nodes_where_def sample_defs
      retired_def DocumentIDCandidateCap_def)

lemma studio_candidates:
  "concat (map (\<lambda>r. r (ToNode export) (dbLookup studio)) (shipped quiet_env)) = [studio_candidate]"
proof -
  have sel: "g_id (ToNode export) = 2" "g_name (ToNode export) = ''b.jpg''" "g_ext (ToNode export) = ''jpg''"
    "g_origdoc (ToNode export) = ''D''" "g_stem (ToNode export) = []" "g_captured (ToNode export) = None"
    by (simp_all add: sample_defs ToNode_def or_empty_def)
  have par: "g_id (ToNode original) = 1" "g_ext (ToNode original) = ''arw''" "g_doc (ToNode original) = ''D''"
    by (simp_all add: sample_defs or_empty_def)
  have "ProjectSidecarResolver quiet_env (ToNode export) lk = []" for lk
    by (simp add: ProjectSidecarResolver_def quiet_env_def)
  moreover have "XMPOriginalDocumentIDResolver (ToNode export) (dbLookup studio) = [studio_candidate]"
    unfolding XMPOriginalDocumentIDResolver_def sel studio_parents
    by (simp add: xmp_candidate_def sel par studio_rel studio_candidate_def del: ToNode_sel)
  moreover have "FilenameStemResolver quiet_env (ToNode export) lk = []" for lk
    by (simp add: FilenameStemResolver_def sel del: ToNode_sel)
  moreover have "HeuristicSpatialTemporalResolver (ToNode export) lk = []" for lk
    by (simp add: HeuristicSpatialTemporalResolver_def sel del: ToNode_sel)
  ultimately show ?thesis by (simp add: shipped_def)
qed

definition studio_edge :: media_edge where
  "studio_edge = edge_row 3 2000 (edge_of (studio_candidate\<lparr>c_evidence :=
     [(''xmp_original_document_id'', EvObject (c_evidence studio_candidate))]\<rparr>))"

definition studio_after :: db where
  "studio_after = studio\<lparr>db_edges := db_edges studio @ [studio_edge],
     db_nodes := [original, export\<lparr>n_graph := LINKED, n_updated := 2000\<rparr>, project]\<rparr>"

lemma studio_run:
  "ResolveAndCommit (shipped quiet_env) (dbLookup studio) (ToNode export) studio
     = (Inr ([studio_edge], 1), studio_after)"
proof -
  let ?c = "studio_candidate\<lparr>c_evidence := [(''xmp_original_document_id'', EvObject (c_evidence studio_candidate))]\<rparr>"
  let ?d = "studio\<lparr>db_edges := db_edges studio @ [studio_edge]\<rparr>"
  have csel: "c_parent ?c = 1" "c_child ?c = 2" "c_rel ?c = ''FINAL_EXPORT''" "c_conf ?c = f64 (95/100)" "c_tier ?c = 2"
    by (simp_all add: studio_candidate_def)
  have merged: "mergeCandidates [studio_candidate] = [?c]"
    by (simp add: mergeCandidates_def merge_one_def studio_candidate_def)
  have floor: "\<not> c_conf ?c < NeedsReviewFloor" "NeedsReviewFloor \<le> c_conf ?c"
    by (simp_all add: csel NeedsReviewFloor_def conf_eval)
  have review: "review_for ?c = AUTO_ACCEPTED"
    by (simp add: review_for_def csel AutoAcceptThresholdForTier_def conf_eval)
  have cycle: "\<not> WouldCreateCycle 1 2 studio"
    by (simp add: WouldCreateCycle_def studio_pairs reach_def fresh_def successors_def)
  have fresh_key: "find (\<lambda>e. edge_key e = upsert_key (edge_of ?c)) (db_edges studio) = None"
    by (simp add: ckey_def csel sample_defs edge_key_def)
  have existed: "\<not> MediaEdgeExists 1 2 ''FINAL_EXPORT'' studio"
    by (simp add: MediaEdgeExists_def sample_defs edge_key_def)
  have id: "next_edge_id studio = 3" by (simp add: next_edge_id_def next_rowid_def sample_defs)
  have row: "edge_row (next_edge_id studio) (db_clock studio) (edge_of ?c) = studio_edge"
    by (simp add: id studio_edge_def)
  have ksel: "e_id studio_edge = 3" "edge_key studio_edge = (1, 2, ''FINAL_EXPORT'')"
    "e_source studio_edge = 1" "e_target studio_edge = 2" "e_review studio_edge = AUTO_ACCEPTED"
    "e_active studio_edge"
    using review by (simp_all add: studio_edge_def edge_row_def ckey_def csel edge_key_def)
  have check: "edge_check studio_edge"
    using review by (simp add: studio_edge_def edge_row_def edge_check_def csel conf_eval)
  have ok: "edge_violation ?d = None"
    using studio_ok check
    by (simp add: db_ok_def edge_violation_None ksel) (simp add: sample_defs edge_key_def)
  have upsert: "UpsertMediaEdge (edge_of ?c) studio = Inr (Some studio_edge, ?d)"
    unfolding UpsertMediaEdge_def Let_def row fresh_key
    by (simp add: check checked_edges_def ok [simplified])
  have commit: "commit_candidate ?c (studio, [], 0) = Inr (?d, [studio_edge], 1)"
    unfolding commit_candidate_def Let_def using floor cycle existed upsert by (simp add: csel)
  have targets: "touched [studio_edge] = [2]" by (simp add: touched_def ksel)
  have status: "status_loop (ListEdgesByTarget 2 ?d) UNLINKED = LINKED"
    by (simp add: ListEdgesByTarget_def ksel sample_edge_def)
  have "node_violation (studio_after) = None"
  proof -
    have "unique_on (\<lambda>n. \<not> retired n) n_path (db_nodes studio_after)"
      "unique_on hash_indexed n_full (db_nodes studio_after)"
      by (simp_all add: unique_on_def studio_after_def sample_defs retired_def hash_indexed_def)
    moreover have "\<forall>n \<in> set (db_nodes studio_after). node_check n"
      "\<forall>n \<in> set (db_nodes studio_after). node_fk studio_after n"
      by (simp_all add: studio_after_def studio_def sample_defs node_check_def opt_len_def node_fk_def)
    ultimately show ?thesis
      by (simp add: node_violation_None studio_after_def sample_defs)
  qed
  then have recompute: "RecomputeStatusFromPersistedEdges 2 ?d = Inr studio_after"
    unfolding RecomputeStatusFromPersistedEdges_def status UpdateMediaNodeGraphStatus_def update_nodes_Inr
    by (simp add: studio_after_def) (simp add: sample_defs)
  have "commit_all [?c] studio = Inr (([studio_edge], 1), studio_after)"
    by (simp add: commit_all_def commit targets recompute [simplified])
  then show ?thesis
    unfolding ResolveAndCommit_def Let_def studio_candidates merged in_tx_def using floor(2) by simp
qed

theorem resolve_acyclic_witness: "acyclic (active_rel studio_after)"
  by (rule resolve_acyclic [OF studio_ok studio_acyclic studio_run])

theorem resolve_never_takes_back_witness:
  "sample_edge 2 2 3 ''DERIVED_FROM'' REJECTED \<in> set (db_edges studio_after)"
proof -
  let ?e = "sample_edge 2 2 3 ''DERIVED_FROM'' REJECTED"
  have e: "?e \<in> set (db_edges studio)" "human ?e" by (simp_all add: human_def sample_edge_def)
  obtain e' where "e' \<in> set (db_edges studio_after)" "human ?e \<longrightarrow> e' = ?e"
    using resolve_never_takes_back [OF studio_ok studio_run] e(1) by blast
  with e(2) show ?thesis by simp
qed

theorem resolve_created_count_witness: "1 = card (active_keys studio_after - active_keys studio)"
  by (rule resolve_created_count [OF studio_ok studio_run])

theorem resolve_graph_status_witness:
  "n_graph (export\<lparr>n_graph := LINKED, n_updated := 2000\<rparr>) = status_of (ListEdgesByTarget 2 studio_after)"
proof -
  let ?n = "export\<lparr>n_graph := LINKED, n_updated := 2000\<rparr>"
  have n: "?n \<in> set (db_nodes studio_after)" "n_id ?n = 2" by (simp_all add: studio_after_def sample_defs)
  have "\<exists>e \<in> set [studio_edge]. e_target e = n_id ?n \<and> e_review e \<noteq> REJECTED"
    by (simp add: n(2) studio_edge_def edge_row_def studio_candidate_def review_for_def
        AutoAcceptThresholdForTier_def conf_eval)
  with resolve_graph_status [OF studio_run studio_ok n(1)] show ?thesis unfolding n(2) by simp
qed

theorem resolve_shipped_total_witness:
  "\<exists>cm k d'. ResolveAndCommit (shipped quiet_env) (dbLookup studio) (ToNode export) studio = (Inr (cm, k), d') \<and> db_ok d'"
  by (rule resolve_shipped_total [OF studio_ok]) (simp_all add: sample_defs)

theorem resolve_keeps_accepted_witness:
  "accepted_strong studio_after \<and> accepted_ids studio \<subseteq> accepted_ids studio_after"
proof (rule resolve_keeps_accepted [OF studio_ok _ studio_run])
  show "accepted_strong studio"
    unfolding accepted_strong_def by (simp add: sample_defs conf_eval)
qed

end
