(* ===== verification/Commit.thy ===== *)
theory Commit
  imports Naming Samples
begin

text \<open>
  \<open>internal/pipeline/commit.go\<close> (with \<open>result.go\<close>): what one scan pass writes for a file whose
  hashes and probes are already computed. \<open>commitOne\<close> and its helpers are the functions of that
  name; each threads \<open>Stats\<close> and the transaction's database and stops at the first error, which
  rolls the batch back. \<open>mint\<close> is \<open>uuid.NewV7\<close>: the identifier it yields in a given state, or
  its failure. The statistics of a batch that failed are not modelled.
\<close>

section \<open>Results and statistics\<close>

record ffprobe =
  f_format :: string
  f_duration :: "float64 option"
  f_video :: string
  f_audio :: string
  f_width :: int
  f_height :: int

record file_result =
  r_path :: string
  r_name :: string
  r_ext :: string
  r_size :: int
  r_mtime :: int
  r_fast :: string
  r_full :: string
  r_phash :: "64 word option"
  r_origdoc :: string
  r_doc :: string
  r_derived :: string
  r_captured :: "int option"
  r_camera :: string
  r_make :: string
  r_lens :: string
  r_serial :: string
  r_lat :: "float64 option"
  r_lon :: "float64 option"
  r_exifraw :: kv
  r_ffprobe :: "ffprobe option"

record stats =
  s_inserted :: nat
  s_touched :: nat
  s_collisions :: nat
  s_moved :: nat
  s_duplicates :: nat
  s_metadata :: nat
  s_promoted :: nat

definition no_stats :: stats where
  "no_stats = \<lparr>s_inserted = 0, s_touched = 0, s_collisions = 0, s_moved = 0, s_duplicates = 0,
     s_metadata = 0, s_promoted = 0\<rparr>"

type_synonym cstate = "stats \<times> db"

section \<open>Metadata\<close>

definition exifRawAllowlist :: "string set" where
  "exifRawAllowlist = {''EXIF:ExposureTime'', ''EXIF:FNumber'', ''EXIF:ISO'', ''EXIF:FocalLength'',
     ''EXIF:FocalLengthIn35mmFormat'', ''EXIF:WhiteBalance'', ''EXIF:ColorSpace'', ''EXIF:Orientation'',
     ''EXIF:Software'', ''EXIF:Artist'', ''EXIF:Copyright'', ''EXIF:ImageDescription'',
     ''EXIF:DateTimeOriginal'', ''EXIF:OffsetTimeOriginal'', ''XMP:Rating'', ''XMP:Label'', ''XMP:Subject''}"

definition selectExifRaw :: "kv \<Rightarrow> kv" where
  "selectExifRaw raw = filter (\<lambda>(k, v). k \<in> exifRawAllowlist) raw"

definition set_if :: "bool \<Rightarrow> string \<Rightarrow> string \<Rightarrow> kv \<Rightarrow> kv" where
  "set_if b k v m = (if b then kv_set k v m else m)"

definition exifMetadata :: "file_result \<Rightarrow> kv" where
  "exifMetadata r =
     foldl (\<lambda>m (k, v). set_if (k \<in> exifRawAllowlist) k v m)
       ((case r_lon r of None \<Rightarrow> id | Some x \<Rightarrow> kv_set ''Composite:GPSLongitude'' (format_float x))
         ((case r_lat r of None \<Rightarrow> id | Some x \<Rightarrow> kv_set ''Composite:GPSLatitude'' (format_float x))
           (set_if (r_serial r \<noteq> []) ''EXIF:SerialNumber'' (r_serial r)
             (set_if (r_lens r \<noteq> []) ''EXIF:LensModel'' (r_lens r)
               (set_if (r_make r \<noteq> []) ''EXIF:Make'' (r_make r) [])))))
       (r_exifraw r)"

definition ffprobeMetadata :: "file_result \<Rightarrow> kv" where
  "ffprobeMetadata r =
     (case r_ffprobe r of
        None \<Rightarrow> []
      | Some f \<Rightarrow>
          set_if (0 < f_height f) ''height'' (itoa (f_height f))
            (set_if (0 < f_width f) ''width'' (itoa (f_width f))
              (set_if (f_audio f \<noteq> []) ''audio_codec'' (f_audio f)
                (set_if (f_video f \<noteq> []) ''video_codec'' (f_video f)
                  ((case f_duration f of None \<Rightarrow> id | Some x \<Rightarrow> kv_set ''duration_seconds'' (format_float x))
                    (set_if (f_format f \<noteq> []) ''format_name'' (f_format f) []))))))"

definition metadataCap :: nat where "metadataCap = 64"

definition cappedSortedKeys :: "kv \<Rightarrow> nat \<Rightarrow> string list" where
  "cappedSortedKeys m maxRows = take maxRows (sort (map fst m))"

definition persistMetadata :: "int \<Rightarrow> string \<Rightarrow> kv \<Rightarrow> nat \<Rightarrow> db \<Rightarrow> db" where
  "persistMetadata i src m maxRows d =
     foldl (\<lambda>d k. InsertNodeMetadata i src k (or_empty (map_of m k)) d) d (cappedSortedKeys m maxRows)"

definition persistAllMetadata :: "int \<Rightarrow> file_result \<Rightarrow> db \<Rightarrow> db" where
  "persistAllMetadata i r d =
     persistMetadata i ''ffprobe'' (ffprobeMetadata r) metadataCap
       (persistMetadata i ''exiftool'' (exifMetadata r) metadataCap d)"

text \<open>\<open>prior\<close> is the map built from the rows read before either source is reconciled.\<close>

definition prior_of :: "int \<Rightarrow> db \<Rightarrow> string \<times> string \<Rightarrow> string option" where
  "prior_of i d = map_of (map (\<lambda>m. ((md_source m, md_key m), md_value m)) (rev (ListNodeMetadata i d)))"

definition reconcileMetadata ::
  "int \<Rightarrow> string \<Rightarrow> kv \<Rightarrow> nat \<Rightarrow> (string \<times> string \<Rightarrow> string option) \<Rightarrow> db \<Rightarrow> nat \<times> db" where
  "reconcileMetadata i src m maxRows prior d =
     foldl (\<lambda>(written, d) k.
         let v = or_empty (map_of m k)
         in if prior (src, k) = Some v then (written, d) else (written + 1, InsertNodeMetadata i src k v d))
       (0, d) (cappedSortedKeys m maxRows)"

text \<open>\<open>assign\<close>: a non-empty fresh value that differs replaces the stored one.\<close>

definition assigns :: "string \<Rightarrow> string option \<Rightarrow> bool" where
  "assigns fv stored \<longleftrightarrow> fv \<noteq> [] \<and> or_empty stored \<noteq> fv"

definition assign :: "string \<Rightarrow> string option \<Rightarrow> string option" where
  "assign fv stored = (if assigns fv stored then Some fv else stored)"

definition go_zero_time :: int where "go_zero_time = - 62135596800"

definition fresh_capture :: "file_result \<Rightarrow> media_node \<Rightarrow> int option" where
  "fresh_capture r n =
     (case r_captured r of
        None \<Rightarrow> None
      | Some t \<Rightarrow> if t \<noteq> go_zero_time \<and> n_captured n \<noteq> Some t then Some t else None)"

definition reconcilePromotedColumns :: "media_node \<Rightarrow> file_result \<Rightarrow> db \<Rightarrow> db_error + (bool \<times> db)" where
  "reconcilePromotedColumns n r d =
     (let p = \<lparr>pc_origdoc = assign (r_origdoc r) (n_origdoc n), pc_doc = assign (r_doc r) (n_doc n),
               pc_derived = assign (r_derived r) (n_derived n), pc_camera = assign (r_camera r) (n_camera n),
               pc_serial = assign (r_serial r) (n_serial n), pc_lens = assign (r_lens r) (n_lens n),
               pc_captured = (case fresh_capture r n of Some t \<Rightarrow> Some t | None \<Rightarrow> n_captured n)\<rparr>;
          changed = (assigns (r_origdoc r) (n_origdoc n) \<or> assigns (r_doc r) (n_doc n) \<or>
                     assigns (r_derived r) (n_derived n) \<or> assigns (r_camera r) (n_camera n) \<or>
                     assigns (r_serial r) (n_serial n) \<or> assigns (r_lens r) (n_lens n) \<or>
                     fresh_capture r n \<noteq> None)
      in if \<not> changed then Inr (False, d)
         else rbind (UpdateMediaNodePromotedColumns (n_id n) p d) (\<lambda>d'. Inr (True, d')))"

definition reconcileAllMetadata :: "media_node \<Rightarrow> file_result \<Rightarrow> cstate \<Rightarrow> db_error + cstate" where
  "reconcileAllMetadata n r = (\<lambda>(st, d).
     let exif = exifMetadata r; ff = ffprobeMetadata r;
         (st, d) =
           (if exif \<noteq> [] \<or> ff \<noteq> [] then
              let prior = prior_of (n_id n) d;
                  (w1, d) = reconcileMetadata (n_id n) ''exiftool'' exif metadataCap prior d;
                  (w2, d) = reconcileMetadata (n_id n) ''ffprobe'' ff metadataCap prior d
              in (st\<lparr>s_metadata := s_metadata st + w1 + w2\<rparr>, d)
            else (st, d))
     in rbind (reconcilePromotedColumns n r d) (\<lambda>(refreshed, d).
          Inr (if refreshed then st\<lparr>s_promoted := s_promoted st + 1\<rparr> else st, d)))"

section \<open>Hash decisions\<close>

definition fullHashContradicts :: "string option \<Rightarrow> string \<Rightarrow> bool" where
  "fullHashContradicts stored computed \<longleftrightarrow>
     computed \<noteq> [] \<and> stored \<noteq> None \<and> stored \<noteq> Some [] \<and> stored \<noteq> Some computed"

definition serverVouchedFullHash :: "db \<Rightarrow> media_node \<Rightarrow> bool" where
  "serverVouchedFullHash d n =
     (case n_full n of
        None \<Rightarrow> False
      | Some h \<Rightarrow> h \<noteq> [] \<and>
          (case GetFullHashProvenance (n_id n) d of
             None \<Rightarrow> False
           | Some p \<Rightarrow> p_source p = SERVER \<and> p_full p = h))"

definition movePlausible :: "int \<Rightarrow> string option \<Rightarrow> int \<Rightarrow> string \<Rightarrow> bool" where
  "movePlausible nodeLoc nodeFull loc newFull =
     (if nodeFull \<noteq> None \<and> nodeFull \<noteq> Some [] \<and> newFull \<noteq> [] then nodeFull = Some newFull
      else nodeLoc = loc)"

definition skipDuplicateContent :: "file_result \<Rightarrow> int \<Rightarrow> cstate \<Rightarrow> bool \<times> cstate" where
  "skipDuplicateContent r self = (\<lambda>(st, d).
     if r_full r = [] then (False, st, d)
     else case GetMediaNodeByFullHash (Some (r_full r)) d of
       None \<Rightarrow> (False, st, d)
     | Some n \<Rightarrow> if n_id n = self then (False, st, d)
                 else (True, st\<lparr>s_duplicates := s_duplicates st + 1\<rparr>, d))"

definition clearDisprovedFullHash :: "media_node \<Rightarrow> db \<Rightarrow> db_error + db" where
  "clearDisprovedFullHash n d =
     (case n_full n of
        None \<Rightarrow> Inr d
      | Some h \<Rightarrow>
          if h = [] then Inr d
          else rbind (ClearMediaNodeFullHash (n_id n) d) (\<lambda>d'. Inr (DeleteFullHashProvenance (n_id n) h d')))"

definition IndexingStatusFor :: "string option \<Rightarrow> indexing_status" where
  "IndexingStatusFor h = (if h \<noteq> None \<and> h \<noteq> Some [] then INDEXED_FULL else INDEXED_SHALLOW)"

definition nullString :: "string \<Rightarrow> string option" where
  "nullString s = (if s = [] then None else Some s)"

section \<open>Committing one result\<close>

type_synonym minter = "db \<Rightarrow> string option"

definition new_node_of :: "string \<Rightarrow> int \<Rightarrow> file_result \<Rightarrow> int \<Rightarrow> new_node" where
  "new_node_of uuid loc r user =
     \<lparr>i_uuid = uuid, i_loc = loc, i_path = r_path r, i_name = r_name r, i_ext = r_ext r,
      i_size = r_size r, i_mtime = r_mtime r, i_fast = Some (r_fast r), i_full = nullString (r_full r),
      i_phash = r_phash r, i_indexing = IndexingStatusFor (nullString (r_full r)), i_graph = UNLINKED,
      i_life = ACTIVE, i_origdoc = nullString (r_origdoc r), i_doc = nullString (r_doc r),
      i_derived = nullString (r_derived r), i_captured = r_captured r,
      i_camera = nullString (r_camera r), i_stem = nullString (stem (r_name r)),
      i_serial = nullString (r_serial r), i_lens = nullString (r_lens r), i_srchash = None,
      i_uploader = (if user = 0 then None else Some user)\<rparr>"

definition insertNewNode :: "minter \<Rightarrow> int \<Rightarrow> int \<Rightarrow> file_result \<Rightarrow> db \<Rightarrow> db_error + (media_node \<times> db)" where
  "insertNewNode mint loc user r d =
     (case mint d of
        None \<Rightarrow> Inl MintUuid
      | Some uuid \<Rightarrow>
          rbind (InsertMediaNode (new_node_of uuid loc r user) d) (\<lambda>(n, d).
            let d = RecordFullHashSource (n_id n) (nullString (r_full r)) SERVER d
            in Inr (n, persistAllMetadata (n_id n) r d)))"

definition commitVersionCollision ::
  "minter \<Rightarrow> int \<Rightarrow> int \<Rightarrow> media_node \<Rightarrow> file_result \<Rightarrow> cstate \<Rightarrow> db_error + cstate" where
  "commitVersionCollision mint loc user existing r = (\<lambda>(st, d).
     rbind (ArchiveMediaNode (n_id existing) d) (\<lambda>d.
       rbind (insertNewNode mint loc user r d) (\<lambda>(n, d).
         rbind (SetSupersededBy (n_id existing) (Some (n_id n)) d) (\<lambda>d.
           Inr (st\<lparr>s_collisions := s_collisions st + 1\<rparr>, d)))))"

text \<open>The superseded row is archived without a successor when the content is held elsewhere.\<close>

definition archive_duplicate :: "media_node \<Rightarrow> cstate \<Rightarrow> db_error + cstate" where
  "archive_duplicate existing = (\<lambda>(st, d).
     rbind (ArchiveMediaNode (n_id existing) d) (\<lambda>d.
       Inr (st\<lparr>s_collisions := s_collisions st + 1\<rparr>, d)))"

definition commitContentChange ::
  "minter \<Rightarrow> int \<Rightarrow> int \<Rightarrow> media_node \<Rightarrow> file_result \<Rightarrow> cstate \<Rightarrow> db_error + cstate" where
  "commitContentChange mint loc user existing r s =
     (let (skip, s) = skipDuplicateContent r (n_id existing) s
      in if skip then archive_duplicate existing s
         else commitVersionCollision mint loc user existing r s)"

text \<open>The full hash of a node seen again with the same fast hash.\<close>

definition touch_hash :: "media_node \<Rightarrow> file_result \<Rightarrow> cstate \<Rightarrow> db_error + cstate" where
  "touch_hash existing r s =
     (if r_full r = [] then Inr s
      else if n_full existing = Some (r_full r) then
        Inr (fst s, RecordFullHashSource (n_id existing) (Some (r_full r)) SERVER (snd s))
      else
        let (skip, st, d) = skipDuplicateContent r (n_id existing) s
        in if skip then rbind (clearDisprovedFullHash existing d) (\<lambda>d. Inr (st, d))
           else rbind (UpdateMediaNodeFullHash (n_id existing) (Some (r_full r)) d) (\<lambda>d.
             Inr (st, RecordFullHashSource (n_id existing) (Some (r_full r)) SERVER d)))"

definition commitTouched :: "media_node \<Rightarrow> file_result \<Rightarrow> cstate \<Rightarrow> db_error + cstate" where
  "commitTouched existing r = (\<lambda>(st, d).
     rbind (TouchMediaNode (n_id existing) (r_mtime r) d) (\<lambda>d.
       rbind (touch_hash existing r (st\<lparr>s_touched := s_touched st + 1\<rparr>, d))
         (reconcileAllMetadata existing r)))"

text \<open>Pillar 5: the first plausible candidate decides.\<close>

definition commitMove :: "int \<Rightarrow> media_node \<Rightarrow> file_result \<Rightarrow> cstate \<Rightarrow> db_error + cstate" where
  "commitMove loc missing r s =
     (let (skip, st, d) = skipDuplicateContent r (n_id missing) s
      in if skip then Inr (st, d)
         else rbind (RebaseMissingNodePath (n_id missing) (r_path r) (r_name r) loc (r_mtime r) d) (\<lambda>d.
           rbind (if r_full r \<noteq> [] then
                    rbind (UpdateMediaNodeFullHash (n_id missing) (Some (r_full r)) d) (\<lambda>d.
                      Inr (RecordFullHashSource (n_id missing) (Some (r_full r)) SERVER d))
                  else if n_full missing \<noteq> None \<and> n_full missing \<noteq> Some [] \<and> n_indexing missing \<noteq> INDEXED_FULL
                  then UpdateMediaNodeFullHash (n_id missing) (n_full missing) d
                  else Inr d)
             (\<lambda>d. reconcileAllMetadata missing r (st\<lparr>s_moved := s_moved st + 1\<rparr>, d))))"

definition commitInsert :: "minter \<Rightarrow> int \<Rightarrow> int \<Rightarrow> file_result \<Rightarrow> cstate \<Rightarrow> db_error + cstate" where
  "commitInsert mint loc user r s =
     (let (skip, st, d) = skipDuplicateContent r 0 s
      in if skip then Inr (st, d)
         else rbind (insertNewNode mint loc user r d) (\<lambda>(n, d).
           Inr (st\<lparr>s_inserted := s_inserted st + 1\<rparr>, d)))"

text \<open>Changed content at a path whose latest row is archived: the successor inherits the archive intent.\<close>

definition commitArchivedPath ::
  "minter \<Rightarrow> int \<Rightarrow> int \<Rightarrow> media_node \<Rightarrow> file_result \<Rightarrow> cstate \<Rightarrow> db_error + cstate" where
  "commitArchivedPath mint loc user latest r s =
     (let (skip, st, d) = skipDuplicateContent r 0 s
      in if skip then Inr (st, d)
         else rbind (insertNewNode mint loc user r d) (\<lambda>(n, d).
           rbind (ArchiveMediaNode (n_id n) d) (\<lambda>d.
             rbind (SetSupersededBy (n_id latest) (Some (n_id n)) d) (\<lambda>d.
               Inr (st\<lparr>s_inserted := s_inserted st + 1\<rparr>, d)))))"

definition unchanged_at :: "media_node \<Rightarrow> file_result \<Rightarrow> bool" where
  "unchanged_at latest r \<longleftrightarrow> r_fast r = [] \<or> n_fast latest = Some (r_fast r)"

definition commitNoLiveNode :: "minter \<Rightarrow> int \<Rightarrow> int \<Rightarrow> file_result \<Rightarrow> cstate \<Rightarrow> db_error + cstate" where
  "commitNoLiveNode mint loc user r = (\<lambda>(st, d).
     let fallthrough =
           (case (if r_fast r = [] then None
                  else find (\<lambda>m. movePlausible (n_loc m) (n_full m) loc (r_full r))
                         (ListMissingNodesByFastHash (Some (r_fast r)) d)) of
              Some missing \<Rightarrow> commitMove loc missing r (st, d)
            | None \<Rightarrow> commitInsert mint loc user r (st, d))
     in case GetLatestNodeByPath (r_path r) d of
          None \<Rightarrow> fallthrough
        | Some latest \<Rightarrow>
            if n_life latest = ARCHIVED then
              (if unchanged_at latest r then Inr (st, d)
               else commitArchivedPath mint loc user latest r (st, d))
            else if n_life latest = TRASHED \<and> unchanged_at latest r then Inr (st, d)
            else fallthrough)"

definition commitOne :: "minter \<Rightarrow> int \<Rightarrow> int \<Rightarrow> file_result \<Rightarrow> cstate \<Rightarrow> db_error + cstate" where
  "commitOne mint loc user r = (\<lambda>(st, d).
     case GetLiveNodeByPath (r_path r) d of
       None \<Rightarrow> commitNoLiveNode mint loc user r (st, d)
     | Some existing \<Rightarrow>
         if n_fast existing = Some (r_fast r) then
           (if fullHashContradicts (n_full existing) (r_full r) \<and> serverVouchedFullHash d existing
            then commitContentChange mint loc user existing r (st, d)
            else commitTouched existing r (st, d))
         else commitContentChange mint loc user existing r (st, d))"

definition Commit :: "minter \<Rightarrow> int \<Rightarrow> int \<Rightarrow> file_result list \<Rightarrow> db \<Rightarrow> (db_error + stats) \<times> db" where
  "Commit mint loc user results d =
     in_tx (\<lambda>d. rfold (commitOne mint loc user) results (no_stats, d)) d"

definition PersistExifMetadata :: "int \<Rightarrow> file_result option \<Rightarrow> db \<Rightarrow> db" where
  "PersistExifMetadata i exif d =
     (case exif of
        None \<Rightarrow> d
      | Some r \<Rightarrow> persistMetadata i ''exiftool'' (exifMetadata (r\<lparr>r_exifraw := selectExifRaw (r_exifraw r)\<rparr>)) metadataCap d)"

end
