(* ===== verification/CommitProps.thy ===== *)
theory CommitProps
  imports Commit
begin

text \<open>
  What one committed file guarantees: which nodes may change and how, that a live node never keeps a
  full hash the scan has disproved, what a version collision leaves behind, and when a batch can
  fail.
\<close>

section \<open>How node rows evolve\<close>

definition evolve :: "(media_node \<Rightarrow> media_node \<Rightarrow> bool) \<Rightarrow> db \<Rightarrow> db \<Rightarrow> bool" where
  "evolve R d d' \<longleftrightarrow> (\<forall>n \<in> set (db_nodes d). \<exists>n' \<in> set (db_nodes d'). R n n')"

text \<open>The same node: its identity, its origin and, once retired, its retirement.\<close>

definition same_node :: "media_node \<Rightarrow> media_node \<Rightarrow> bool" where
  "same_node n n' \<longleftrightarrow> n_id n' = n_id n \<and> n_uuid n' = n_uuid n \<and> n_uploader n' = n_uploader n \<and>
     n_fast n' = n_fast n \<and> n_created n' = n_created n \<and> (retired n \<longrightarrow> retired n')"

definition stays :: "media_node \<Rightarrow> media_node \<Rightarrow> bool" where
  "stays n n' \<longleftrightarrow> same_node n n' \<and> n_path n' = n_path n \<and> n_loc n' = n_loc n"

definition moves :: "int \<Rightarrow> file_result \<Rightarrow> media_node \<Rightarrow> media_node \<Rightarrow> bool" where
  "moves loc r n n' \<longleftrightarrow> same_node n n' \<and> n_path n' = r_path r \<and> n_life n = MISSING \<and>
     n_fast n = Some (r_fast r) \<and> movePlausible (n_loc n) (n_full n) loc (r_full r)"

definition stays_or_moves :: "int \<Rightarrow> file_result \<Rightarrow> media_node \<Rightarrow> media_node \<Rightarrow> bool" where
  "stays_or_moves loc r n n' \<longleftrightarrow> stays n n' \<or> moves loc r n n'"

lemma stays_refl [simp]: "stays n n"
  by (simp add: stays_def same_node_def)

lemma stays_trans: "stays a b \<Longrightarrow> stays b c \<Longrightarrow> stays a c"
  by (auto simp: stays_def same_node_def)

lemma stays_weaken: "stays n n' \<Longrightarrow> stays_or_moves loc r n n'"
  by (simp add: stays_or_moves_def)

lemma moves_then_stays: "stays_or_moves loc r a b \<Longrightarrow> stays b c \<Longrightarrow> stays_or_moves loc r a c"
  by (auto simp: stays_or_moves_def moves_def stays_def same_node_def)

lemma evolve_mono: "evolve R d d' \<Longrightarrow> (\<And>n n'. R n n' \<Longrightarrow> S n n') \<Longrightarrow> evolve S d d'"
  unfolding evolve_def by (meson)

lemma evolve_comp:
  assumes "evolve R a b" "evolve S b c" "\<And>x y z. R x y \<Longrightarrow> S y z \<Longrightarrow> T x z"
  shows "evolve T a c"
  unfolding evolve_def
proof
  fix x assume "x \<in> set (db_nodes a)"
  then obtain y where y: "y \<in> set (db_nodes b)" "R x y" using assms(1) unfolding evolve_def by auto
  then obtain z where "z \<in> set (db_nodes c)" "S y z" using assms(2) unfolding evolve_def by auto
  then show "\<exists>z \<in> set (db_nodes c). T x z" using assms(3) [OF y(2)] by (rule_tac bexI)
qed

lemma evolve_stays_trans: "evolve stays a b \<Longrightarrow> evolve stays b c \<Longrightarrow> evolve stays a c"
  by (erule evolve_comp, assumption, erule stays_trans)

lemma evolve_moves_then_stays:
  "evolve (stays_or_moves loc r) a b \<Longrightarrow> evolve stays b c \<Longrightarrow> evolve (stays_or_moves loc r) a c"
  by (erule evolve_comp, assumption, erule moves_then_stays)

lemma evolve_same_nodes: "db_nodes d' = db_nodes d \<Longrightarrow> evolve stays d d'"
  unfolding evolve_def by (auto intro: rev_bexI)

lemma evolve_update:
  assumes "update_nodes P f d = Inr d'" "\<And>n. R n n" "\<And>n. n \<in> set (db_nodes d) \<Longrightarrow> P n \<Longrightarrow> R n (f n)"
  shows "evolve R d d'"
  unfolding evolve_def
proof
  fix n assume n: "n \<in> set (db_nodes d)"
  let ?m = "if P n then f n else n"
  have "?m \<in> set (db_nodes d')" using n assms(1) by (auto simp: update_nodes_Inr)
  moreover have "R n ?m" using assms(2,3) n by simp
  ultimately show "\<exists>n' \<in> set (db_nodes d'). R n n'" by (rule rev_bexI)
qed

lemma row_origin:
  assumes "update_nodes P f d = Inr d'" "n \<in> set (db_nodes d')"
  obtains m where "m \<in> set (db_nodes d)" "n = (if P m then f m else m)"
  using assms by (auto simp: update_nodes_Inr)

lemma evolve_insert: "InsertMediaNode a d = Inr (n, d') \<Longrightarrow> evolve stays d d'"
  unfolding evolve_def
  by (auto simp: InsertMediaNode_def Let_def result_simps intro: rev_bexI)

section \<open>The statements\<close>

lemmas statement_defs = ArchiveMediaNode_def SetSupersededBy_def TouchMediaNode_def
  UpdateMediaNodeFullHash_def ClearMediaNodeFullHash_def UpdateMediaNodePromotedColumns_def

lemma statements_stay:
  "ArchiveMediaNode i d = Inr d' \<Longrightarrow> evolve stays d d'"
  "SetSupersededBy i s d = Inr d' \<Longrightarrow> evolve stays d d'"
  "TouchMediaNode i mt d = Inr d' \<Longrightarrow> evolve stays d d'"
  "UpdateMediaNodeFullHash i h d = Inr d' \<Longrightarrow> evolve stays d d'"
  "ClearMediaNodeFullHash i d = Inr d' \<Longrightarrow> evolve stays d d'"
  "UpdateMediaNodePromotedColumns i p d = Inr d' \<Longrightarrow> evolve stays d d'"
  unfolding statement_defs
  by (erule evolve_update, simp, simp add: stays_def same_node_def retired_def)+

lemma prov_nodes [simp]:
  "db_nodes (RecordFullHashSource i h s d) = db_nodes d" "db_nodes (DeleteFullHashProvenance i v d) = db_nodes d"
  "db_locs (RecordFullHashSource i h s d) = db_locs d" "db_locs (DeleteFullHashProvenance i v d) = db_locs d"
  "db_users (RecordFullHashSource i h s d) = db_users d" "db_users (DeleteFullHashProvenance i v d) = db_users d"
  "db_edges (RecordFullHashSource i h s d) = db_edges d" "db_edges (DeleteFullHashProvenance i v d) = db_edges d"
  by (auto simp: RecordFullHashSource_def RecordFullHashProvenance_def DeleteFullHashProvenance_def Let_def
      split: option.splits)

lemma meta_nodes [simp]:
  "db_nodes (InsertNodeMetadata i s k v d) = db_nodes d" "db_locs (InsertNodeMetadata i s k v d) = db_locs d"
  "db_users (InsertNodeMetadata i s k v d) = db_users d" "db_edges (InsertNodeMetadata i s k v d) = db_edges d"
  "db_provs (InsertNodeMetadata i s k v d) = db_provs d"
  by (auto simp: InsertNodeMetadata_def)

text \<open>Metadata writes leave every other table alone.\<close>

definition meta_only :: "db \<Rightarrow> db \<Rightarrow> bool" where
  "meta_only d d' \<longleftrightarrow> db_nodes d' = db_nodes d \<and> db_locs d' = db_locs d \<and> db_users d' = db_users d \<and>
     db_edges d' = db_edges d \<and> db_provs d' = db_provs d"

lemma foldl_meta_only: "(\<And>d k. meta_only d (f d k)) \<Longrightarrow> meta_only d (foldl f d ks)"
proof (induction ks arbitrary: d)
  case Nil
  then show ?case by (simp add: meta_only_def)
next
  case (Cons k ks)
  have "meta_only d (f d k)" "meta_only (f d k) (foldl f (f d k) ks)" using Cons by auto
  then show ?case by (simp add: meta_only_def)
qed

lemma persist_meta_only: "meta_only d (persistMetadata i s m k d)" "meta_only d (persistAllMetadata i r d)"
proof -
  show *: "meta_only d (persistMetadata i s m k d)" for s m k d
    unfolding persistMetadata_def by (rule foldl_meta_only) (simp add: meta_only_def)
  show "meta_only d (persistAllMetadata i r d)"
    using *[of d "''exiftool''" "exifMetadata r" metadataCap]
      * [of "persistMetadata i ''exiftool'' (exifMetadata r) metadataCap d" "''ffprobe''" "ffprobeMetadata r" metadataCap]
    by (simp add: persistAllMetadata_def meta_only_def)
qed

lemma reconcile_meta_only: "meta_only d (snd (reconcileMetadata i s m k prior d))"
proof -
  have "meta_only d (snd (foldl (\<lambda>(written, d) k.
         let v = or_empty (map_of m k)
         in if prior (s, k) = Some v then (written, d) else (written + 1, InsertNodeMetadata i s k v d)) (w, d) ks))" for w ks
  proof (induction ks arbitrary: d w)
    case Nil
    then show ?case by (simp add: meta_only_def)
  next
    case (Cons x ks)
    show ?case
      using Cons [of d w] Cons [of "InsertNodeMetadata i s x (or_empty (map_of m x)) d" "w + 1"]
      by (simp add: Let_def meta_only_def)
  qed
  then show ?thesis by (simp add: reconcileMetadata_def)
qed

lemma reconcileAllMetadata_cases:
  assumes "reconcileAllMetadata n r (st, d) = Inr (st', d')"
  obtains d1 where "meta_only d d1" "d' = d1 \<or> (\<exists>p. UpdateMediaNodePromotedColumns (n_id n) p d1 = Inr d')"
proof -
  let ?prior = "prior_of (n_id n) d"
  let ?da = "snd (reconcileMetadata (n_id n) ''exiftool'' (exifMetadata r) metadataCap ?prior d)"
  let ?db = "snd (reconcileMetadata (n_id n) ''ffprobe'' (ffprobeMetadata r) metadataCap ?prior ?da)"
  define d1 where "d1 = (if exifMetadata r \<noteq> [] \<or> ffprobeMetadata r \<noteq> [] then ?db else d)"
  have "meta_only d ?da" "meta_only ?da ?db" by (rule reconcile_meta_only)+
  then have m: "meta_only d d1" by (auto simp: d1_def meta_only_def)
  obtain refreshed d2 where "reconcilePromotedColumns n r d1 = Inr (refreshed, d2)" "d' = d2"
    using assms unfolding reconcileAllMetadata_def d1_def
    by (auto simp: Let_def result_simps split: prod.splits if_splits)
  then have "d' = d1 \<or> (\<exists>p. UpdateMediaNodePromotedColumns (n_id n) p d1 = Inr d')"
    by (auto simp: reconcilePromotedColumns_def Let_def result_simps split: if_splits)
  with m that show ?thesis by blast
qed

section \<open>The rows a path holds\<close>

text \<open>Every row of \<open>d'\<close> has the id, path, state and hash of a row of \<open>d\<close>.\<close>

definition same_rows :: "db \<Rightarrow> db \<Rightarrow> bool" where
  "same_rows d d' \<longleftrightarrow> (\<forall>n' \<in> set (db_nodes d'). \<exists>n \<in> set (db_nodes d).
     n_id n = n_id n' \<and> n_path n = n_path n' \<and> n_life n = n_life n' \<and> n_full n = n_full n')"

definition owner :: "string \<Rightarrow> int \<Rightarrow> db \<Rightarrow> bool" where
  "owner p i d \<longleftrightarrow> (\<forall>n \<in> set (db_nodes d). n_path n = p \<and> \<not> retired n \<longrightarrow> n_id n = i)"

definition no_live :: "string \<Rightarrow> db \<Rightarrow> bool" where
  "no_live p d \<longleftrightarrow> (\<forall>n \<in> set (db_nodes d). n_path n = p \<longrightarrow> retired n)"

text \<open>A live row at the path has no full hash or the one given.\<close>

definition path_ok :: "string \<Rightarrow> string \<Rightarrow> db \<Rightarrow> bool" where
  "path_ok p h d \<longleftrightarrow> (\<forall>n \<in> set (db_nodes d). n_path n = p \<and> \<not> retired n \<longrightarrow>
     n_full n = None \<or> n_full n = Some [] \<or> n_full n = Some h)"

lemma no_live_path_ok: "no_live p d \<Longrightarrow> path_ok p h d"
  by (auto simp: no_live_def path_ok_def)

lemma same_rows_preserves:
  assumes "same_rows d d'"
  shows "path_ok p h d \<Longrightarrow> path_ok p h d'" "no_live p d \<Longrightarrow> no_live p d'" "owner p i d \<Longrightarrow> owner p i d'"
  using assms unfolding same_rows_def path_ok_def no_live_def owner_def retired_def by fastforce+

lemma same_rows_nodes: "db_nodes d' = db_nodes d \<Longrightarrow> same_rows d d'"
  unfolding same_rows_def by (auto intro: rev_bexI)

lemma same_rows_update:
  assumes "update_nodes P f d = Inr d'"
    and "\<And>n. n_id (f n) = n_id n \<and> n_path (f n) = n_path n \<and> n_life (f n) = n_life n \<and> n_full (f n) = n_full n"
  shows "same_rows d d'"
  unfolding same_rows_def
proof
  fix n' assume "n' \<in> set (db_nodes d')"
  then obtain n where "n \<in> set (db_nodes d)" "n' = (if P n then f n else n)"
    using assms(1) by (auto simp: update_nodes_Inr)
  then show "\<exists>n \<in> set (db_nodes d). n_id n = n_id n' \<and> n_path n = n_path n' \<and> n_life n = n_life n' \<and> n_full n = n_full n'"
    using assms(2) [of n] by (auto intro!: rev_bexI [of n])
qed

lemma same_rows_trans: "same_rows a b \<Longrightarrow> same_rows b c \<Longrightarrow> same_rows a c"
  unfolding same_rows_def by fastforce

lemma reconcileAllMetadata_effect:
  assumes "reconcileAllMetadata n r (st, d) = Inr (st', d')"
  shows "evolve stays d d'" "same_rows d d'"
proof -
  from assms obtain d1 where d1: "meta_only d d1"
    "d' = d1 \<or> (\<exists>p. UpdateMediaNodePromotedColumns (n_id n) p d1 = Inr d')" by (rule reconcileAllMetadata_cases)
  have "db_nodes d1 = db_nodes d" using d1(1) by (simp add: meta_only_def)
  then have "evolve stays d d1" "same_rows d d1" by (simp_all add: evolve_same_nodes same_rows_nodes)
  moreover have "evolve stays d1 d' \<and> same_rows d1 d'"
    using d1(2)
  proof
    assume "d' = d1"
    then show ?thesis by (simp add: evolve_same_nodes same_rows_nodes)
  next
    assume "\<exists>p. UpdateMediaNodePromotedColumns (n_id n) p d1 = Inr d'"
    then obtain p where p: "UpdateMediaNodePromotedColumns (n_id n) p d1 = Inr d'" ..
    moreover have "same_rows d1 d'"
      using p unfolding UpdateMediaNodePromotedColumns_def by (rule same_rows_update) simp
    ultimately show ?thesis using statements_stay(6) by blast
  qed
  ultimately show "evolve stays d d'" "same_rows d d'"
    using evolve_stays_trans same_rows_trans by blast+
qed

lemma skip_db [simp]: "skipDuplicateContent r i (st, d) = (b, st', d') \<Longrightarrow> d' = d"
  by (auto simp: skipDuplicateContent_def split: if_splits option.splits)

lemma skip_False:
  assumes "skipDuplicateContent r i (st, d) = (False, st', d')"
  shows "r_full r = [] \<or> (\<forall>n \<in> set (db_nodes d). visible n \<and> n_full n = Some (r_full r) \<longrightarrow>
    (\<exists>m \<in> set (db_nodes d). visible m \<and> n_full m = Some (r_full r) \<and> n_id m = i))"
proof (cases "GetMediaNodeByFullHash (Some (r_full r)) d")
  case None
  then show ?thesis using GetMediaNodeByFullHash_None by blast
next
  case (Some m)
  then have "r_full r = [] \<or> n_id m = i" using assms by (auto simp: skipDuplicateContent_def split: if_splits)
  then show ?thesis using GetMediaNodeByFullHash_Some [OF Some] by blast
qed

section \<open>The branches\<close>

lemma touch_hash_effect:
  assumes "touch_hash existing r (st, d) = Inr (st', d')"
    and "\<forall>n \<in> set (db_nodes d). n_path n = r_path r \<and> \<not> retired n \<longrightarrow> n_id n = n_id existing \<and> n_full n = n_full existing"
  shows "evolve stays d d'" "r_full r \<noteq> [] \<longrightarrow> path_ok (r_path r) (r_full r) d'"
proof -
  have "evolve stays d d' \<and> (r_full r \<noteq> [] \<longrightarrow> path_ok (r_path r) (r_full r) d')"
  proof (cases "r_full r = []")
    case True
    then show ?thesis using assms(1) by (auto simp: touch_hash_def evolve_same_nodes)
  next
    case False
    show ?thesis
    proof (cases "n_full existing = Some (r_full r)")
      case True
      with False assms(1) have "db_nodes d' = db_nodes d" by (auto simp: touch_hash_def)
      then show ?thesis using assms(2) True evolve_same_nodes [of d' d] by (auto simp: path_ok_def)
    next
      case neq: False
      obtain skip st1 d1 where skip: "skipDuplicateContent r (n_id existing) (st, d) = (skip, st1, d1)"
        by (metis prod.exhaust)
      then have d1: "d1 = d" by simp
      show ?thesis
      proof (cases skip)
        case True
        then obtain d2 where d2: "clearDisprovedFullHash existing d = Inr d2" "d' = d2"
          using assms(1) False neq skip d1 by (auto simp: touch_hash_def Let_def result_simps)
        show ?thesis
        proof (cases "n_full existing = None \<or> n_full existing = Some []")
          case True
          then have "d' = d" using d2 by (auto simp: clearDisprovedFullHash_def)
          then show ?thesis using True assms(2) evolve_same_nodes [of d' d] by (auto simp: path_ok_def)
        next
          case False
          then obtain h d3 where d3: "ClearMediaNodeFullHash (n_id existing) d = Inr d3"
            "d' = DeleteFullHashProvenance (n_id existing) h d3"
            using d2 by (auto simp: clearDisprovedFullHash_def result_simps split: option.splits if_splits)
          have "path_ok (r_path r) (r_full r) d3"
            using d3(1) assms(2) unfolding ClearMediaNodeFullHash_def update_nodes_Inr
            by (auto simp: path_ok_def retired_def)
          moreover have "db_nodes d' = db_nodes d3" using d3(2) by simp
          ultimately show ?thesis
            using statements_stay(5) [OF d3(1)] unfolding path_ok_def evolve_def by simp
        qed
      next
        case False
        then obtain d2 where d2: "UpdateMediaNodeFullHash (n_id existing) (Some (r_full r)) d = Inr d2"
          "d' = RecordFullHashSource (n_id existing) (Some (r_full r)) SERVER d2"
          using assms(1) \<open>r_full r \<noteq> []\<close> neq skip d1 by (auto simp: touch_hash_def Let_def result_simps)
        have "path_ok (r_path r) (r_full r) d2"
          using d2(1) assms(2) unfolding UpdateMediaNodeFullHash_def update_nodes_Inr
          by (auto simp: path_ok_def retired_def)
        moreover have "db_nodes d' = db_nodes d2" using d2(2) by simp
        ultimately show ?thesis
          using statements_stay(4) [OF d2(1)] unfolding path_ok_def evolve_def by simp
      qed
    qed
  qed
  then show "evolve stays d d'" "r_full r \<noteq> [] \<longrightarrow> path_ok (r_path r) (r_full r) d'" by auto
qed

lemma unique_path:
  assumes "node_violation d = None" "existing \<in> set (db_nodes d)" "\<not> retired existing"
    and "n \<in> set (db_nodes d)" "n_path n = n_path existing" "\<not> retired n"
  shows "n = existing"
proof -
  have "n_id n = n_id existing"
    using assms unfolding node_violation_None by (elim conjE) (erule unique_onD; simp)
  then show ?thesis using node_same_id [OF assms(1,4,2)] by simp
qed

lemma commitTouched_effect:
  assumes "commitTouched existing r (st, d) = Inr (st', d')" "node_violation d = None"
    and "existing \<in> set (db_nodes d)" "\<not> retired existing" "n_path existing = r_path r"
  shows "evolve stays d d' \<and> (r_full r \<noteq> [] \<longrightarrow> path_ok (r_path r) (r_full r) d')"
proof -
  obtain d1 st2 d2 where d1: "TouchMediaNode (n_id existing) (r_mtime r) d = Inr d1"
    and d2: "touch_hash existing r (st\<lparr>s_touched := s_touched st + 1\<rparr>, d1) = Inr (st2, d2)"
    and d': "reconcileAllMetadata existing r (st2, d2) = Inr (st', d')"
    using assms(1) by (auto simp: commitTouched_def result_simps)
  have "\<forall>n \<in> set (db_nodes d1). n_path n = r_path r \<and> \<not> retired n \<longrightarrow>
      n_id n = n_id existing \<and> n_full n = n_full existing"
  proof (intro ballI impI)
    fix n assume n: "n \<in> set (db_nodes d1)" "n_path n = r_path r \<and> \<not> retired n"
    obtain m where m0: "m \<in> set (db_nodes d)" "n = (if n_id m = n_id existing \<and> \<not> retired m
        then m\<lparr>n_mtime := r_mtime r, n_last_seen := db_clock d,
          n_life := (if n_life m = MISSING then ACTIVE else n_life m), n_updated := db_clock d\<rparr> else m)"
      using d1 n(1) unfolding TouchMediaNode_def by (rule row_origin)
    have "n_id n = n_id m \<and> n_path n = n_path m \<and> n_full n = n_full m \<and> \<not> retired m"
    proof (cases "n_id m = n_id existing \<and> \<not> retired m")
      case True
      then show ?thesis unfolding m0(2) by simp
    next
      case False
      then have "n = m" using m0(2) by (simp only: if_False)
      then show ?thesis using n(2) by simp
    qed
    with m0(1) have m: "m \<in> set (db_nodes d)" "n_id n = n_id m" "n_path n = n_path m" "n_full n = n_full m"
      "\<not> retired m" by auto
    have "n_path m = n_path existing" using m(3) n(2) assms(5) by metis
    then have "m = existing" by (rule unique_path [OF assms(2-4) m(1) _ m(5)])
    then show "n_id n = n_id existing \<and> n_full n = n_full existing" using m(2,4) by blast
  qed
  note hash = touch_hash_effect [OF d2 this] and meta = reconcileAllMetadata_effect [OF d']
  show ?thesis
    using statements_stay(3) [OF d1] hash meta same_rows_preserves(1) [OF meta(2)] evolve_stays_trans by blast
qed

lemma insertNewNode_effect:
  assumes "insertNewNode mint loc user r d = Inr (n, d')"
  shows "db_nodes d' = db_nodes d @ [n]" "evolve stays d d'" "n_path n = r_path r" "n_life n = ACTIVE"
    "n_full n = nullString (r_full r)" "n_loc n = loc" "n_fast n = Some (r_fast r)" "n_name n = r_name r"
    "n_id n = next_rowid (map n_id (db_nodes d))" "n_superseded n = None"
proof -
  obtain uuid where uuid: "mint d = Some uuid" using assms by (auto simp: insertNewNode_def split: option.splits)
  obtain d1 where d1: "InsertMediaNode (new_node_of uuid loc r user) d = Inr (n, d1)"
    "d' = persistAllMetadata (n_id n) r (RecordFullHashSource (n_id n) (nullString (r_full r)) SERVER d1)"
    using assms uuid by (auto simp: insertNewNode_def Let_def result_simps)
  have nodes: "db_nodes d' = db_nodes d1"
    using persist_meta_only(2) [of "RecordFullHashSource (n_id n) (nullString (r_full r)) SERVER d1" "n_id n" r]
    unfolding d1(2) by (simp add: meta_only_def)
  have row: "n = node_row (next_rowid (map n_id (db_nodes d))) (db_clock d) (new_node_of uuid loc r user)"
    "db_nodes d1 = db_nodes d @ [n]"
    using d1(1) by (auto simp: InsertMediaNode_def Let_def result_simps)
  show "db_nodes d' = db_nodes d @ [n]" using nodes row by simp
  then show "evolve stays d d'" unfolding evolve_def by (auto intro: rev_bexI)
  show "n_path n = r_path r" "n_life n = ACTIVE" "n_full n = nullString (r_full r)" "n_loc n = loc"
    "n_fast n = Some (r_fast r)" "n_name n = r_name r" "n_id n = next_rowid (map n_id (db_nodes d))"
    "n_superseded n = None"
    unfolding row(1) by (simp_all add: node_row_def new_node_of_def)
qed

lemma insert_path_ok:
  assumes "insertNewNode mint loc user r d = Inr (n, d')" "no_live (r_path r) d"
  shows "path_ok (r_path r) (r_full r) d'" "owner (r_path r) (n_id n) d'"
  using insertNewNode_effect [OF assms(1)] assms(2)
  by (auto simp: path_ok_def owner_def no_live_def nullString_def)

lemma archive_no_live:
  assumes "ArchiveMediaNode i d = Inr d'" "owner p i d"
  shows "no_live p d'"
  using assms unfolding ArchiveMediaNode_def update_nodes_Inr
  by (auto simp: owner_def no_live_def retired_def)

lemma superseded_same_rows: "SetSupersededBy i s d = Inr d' \<Longrightarrow> same_rows d d'"
  unfolding SetSupersededBy_def by (erule same_rows_update) simp

lemma live_owner:
  assumes "node_violation d = None" "existing \<in> set (db_nodes d)" "\<not> retired existing"
  shows "owner (n_path existing) (n_id existing) d"
  unfolding owner_def using unique_path [OF assms] by blast

lemma commitVersionCollision_effect:
  assumes "commitVersionCollision mint loc user existing r (st, d) = Inr (st', d')" "owner (r_path r) (n_id existing) d"
  shows "evolve stays d d' \<and> path_ok (r_path r) (r_full r) d'"
proof -
  obtain d1 n d2 where d1: "ArchiveMediaNode (n_id existing) d = Inr d1"
    and d2: "insertNewNode mint loc user r d1 = Inr (n, d2)"
    and d': "SetSupersededBy (n_id existing) (Some (n_id n)) d2 = Inr d'"
    using assms(1) by (auto simp: commitVersionCollision_def result_simps)
  have "path_ok (r_path r) (r_full r) d'"
    using insert_path_ok(1) [OF d2 archive_no_live [OF d1 assms(2)]] superseded_same_rows [OF d']
      same_rows_preserves(1) by blast
  then show ?thesis
    using statements_stay(1) [OF d1] insertNewNode_effect(2) [OF d2] statements_stay(2) [OF d'] evolve_stays_trans
    by blast
qed

lemma archive_duplicate_effect:
  assumes "archive_duplicate existing (st, d) = Inr (st', d')" "owner p (n_id existing) d"
  shows "evolve stays d d' \<and> no_live p d'"
proof -
  have "ArchiveMediaNode (n_id existing) d = Inr d'"
    using assms(1) by (auto simp: archive_duplicate_def result_simps)
  then show ?thesis using statements_stay(1) archive_no_live assms(2) by blast
qed

lemma commitContentChange_effect:
  assumes "commitContentChange mint loc user existing r (st, d) = Inr (st', d')" "owner (r_path r) (n_id existing) d"
  shows "evolve stays d d' \<and> path_ok (r_path r) (r_full r) d'"
proof -
  obtain skip st1 d1 where skip: "skipDuplicateContent r (n_id existing) (st, d) = (skip, st1, d1)"
    by (metis prod.exhaust)
  then have "d1 = d" by simp
  with skip assms show ?thesis
    using archive_duplicate_effect [of existing st1 d st' d' "r_path r"]
      commitVersionCollision_effect [of mint loc user existing r st1 d st' d'] no_live_path_ok
    by (auto simp: commitContentChange_def split: if_splits)
qed

lemma commitInsert_effect:
  assumes "commitInsert mint loc user r (st, d) = Inr (st', d')" "no_live (r_path r) d"
  shows "evolve stays d d' \<and> path_ok (r_path r) (r_full r) d'"
proof -
  obtain skip st1 d1 where skip: "skipDuplicateContent r 0 (st, d) = (skip, st1, d1)" by (metis prod.exhaust)
  then have d1: "d1 = d" by simp
  show ?thesis
  proof (cases skip)
    case True
    with skip d1 assms show ?thesis
      by (auto simp: commitInsert_def evolve_same_nodes no_live_path_ok)
  next
    case False
    with skip d1 assms obtain n where "insertNewNode mint loc user r d = Inr (n, d')"
      by (auto simp: commitInsert_def Let_def result_simps)
    then show ?thesis using insertNewNode_effect(2) insert_path_ok(1) assms(2) by blast
  qed
qed

lemma commitArchivedPath_effect:
  assumes "commitArchivedPath mint loc user latest r (st, d) = Inr (st', d')" "no_live (r_path r) d"
  shows "evolve stays d d' \<and> no_live (r_path r) d'"
proof -
  obtain skip st1 d1 where skip: "skipDuplicateContent r 0 (st, d) = (skip, st1, d1)" by (metis prod.exhaust)
  then have d1: "d1 = d" by simp
  show ?thesis
  proof (cases skip)
    case True
    with skip d1 assms show ?thesis by (auto simp: commitArchivedPath_def evolve_same_nodes)
  next
    case False
    with skip d1 assms obtain n d2 d3 where d2: "insertNewNode mint loc user r d = Inr (n, d2)"
      and d3: "ArchiveMediaNode (n_id n) d2 = Inr d3" and d': "SetSupersededBy (n_id latest) (Some (n_id n)) d3 = Inr d'"
      by (auto simp: commitArchivedPath_def Let_def result_simps)
    have "no_live (r_path r) d'"
      using archive_no_live [OF d3 insert_path_ok(2) [OF d2 assms(2)]] superseded_same_rows [OF d']
        same_rows_preserves(2) by blast
    then show ?thesis
      using insertNewNode_effect(2) [OF d2] statements_stay(1) [OF d3] statements_stay(2) [OF d'] evolve_stays_trans
      by blast
  qed
qed

lemma commitMove_effect:
  assumes "commitMove loc missing r (st, d) = Inr (st', d')" "node_violation d = None" "no_live (r_path r) d"
    and m: "missing \<in> set (db_nodes d)" "n_life missing = MISSING" "n_fast missing = Some (r_fast r)"
      "movePlausible (n_loc missing) (n_full missing) loc (r_full r)"
  shows "evolve (stays_or_moves loc r) d d' \<and> (r_full r \<noteq> [] \<longrightarrow> path_ok (r_path r) (r_full r) d')"
proof -
  have stay: "evolve stays d d2 \<Longrightarrow> evolve (stays_or_moves loc r) d d2" for d d2
    by (erule evolve_mono) (rule stays_weaken)
  obtain skip st1 d0 where skip: "skipDuplicateContent r (n_id missing) (st, d) = (skip, st1, d0)" by (metis prod.exhaust)
  then have d0: "d0 = d" by simp
  show ?thesis
  proof (cases skip)
    case True
    with skip d0 assms(1,3) show ?thesis
      by (auto simp: commitMove_def no_live_path_ok intro!: stay evolve_same_nodes)
  next
    case False
    with skip d0 assms(1) obtain d1 d2 where
      d1: "RebaseMissingNodePath (n_id missing) (r_path r) (r_name r) loc (r_mtime r) d = Inr d1"
      and d2: "(if r_full r \<noteq> [] then
                 rbind (UpdateMediaNodeFullHash (n_id missing) (Some (r_full r)) d1) (\<lambda>d.
                   Inr (RecordFullHashSource (n_id missing) (Some (r_full r)) SERVER d))
               else if n_full missing \<noteq> None \<and> n_full missing \<noteq> Some [] \<and> n_indexing missing \<noteq> INDEXED_FULL
               then UpdateMediaNodeFullHash (n_id missing) (n_full missing) d1 else Inr d1) = Inr d2"
      and d': "reconcileAllMetadata missing r (st1\<lparr>s_moved := s_moved st1 + 1\<rparr>, d2) = Inr (st', d')"
      unfolding commitMove_def by (auto simp: Let_def result_simps split del: if_split)
    have e1: "evolve (stays_or_moves loc r) d d1"
    proof (rule evolve_update [OF d1 [unfolded RebaseMissingNodePath_def]])
      show "stays_or_moves loc r n n" for n by (simp add: stays_or_moves_def)
    next
      fix n assume "n \<in> set (db_nodes d)" "n_id n = n_id missing \<and> \<not> retired n"
      then have "n = missing" using node_same_id [OF assms(2)] m(1) by blast
      then show "stays_or_moves loc r n (n\<lparr>n_path := r_path r, n_name := r_name r, n_loc := loc, n_life := ACTIVE,
          n_mtime := r_mtime r, n_last_seen := db_clock d, n_updated := db_clock d\<rparr>)"
        using m by (simp add: stays_or_moves_def moves_def same_node_def retired_def)
    qed
    have own: "owner (r_path r) (n_id missing) d1"
      unfolding owner_def
    proof (intro ballI impI)
      fix n assume n: "n \<in> set (db_nodes d1)" "n_path n = r_path r \<and> \<not> retired n"
      obtain m where m: "m \<in> set (db_nodes d)" "n = (if n_id m = n_id missing \<and> \<not> retired m
          then m\<lparr>n_path := r_path r, n_name := r_name r, n_loc := loc, n_life := ACTIVE,
            n_mtime := r_mtime r, n_last_seen := db_clock d, n_updated := db_clock d\<rparr> else m)"
        using d1 n(1) unfolding RebaseMissingNodePath_def by (rule row_origin)
      show "n_id n = n_id missing"
      proof (cases "n_id m = n_id missing \<and> \<not> retired m")
        case True
        then show ?thesis unfolding m(2) by simp
      next
        case False
        then have "n = m" using m(2) by (simp only: if_False)
        then show ?thesis using n(2) m(1) assms(3) by (auto simp: no_live_def)
      qed
    qed
    note meta = reconcileAllMetadata_effect [OF d']
    show ?thesis
    proof (cases "r_full r = []")
      case True
      then have "evolve stays d1 d2"
        using d2 statements_stay(4) by (auto simp: evolve_same_nodes split: if_splits)
      then show ?thesis
        using True e1 meta(1) evolve_moves_then_stays by blast
    next
      case False
      then obtain d3 where d3: "UpdateMediaNodeFullHash (n_id missing) (Some (r_full r)) d1 = Inr d3"
        "d2 = RecordFullHashSource (n_id missing) (Some (r_full r)) SERVER d3"
        using d2 by (auto simp: result_simps)
      have "path_ok (r_path r) (r_full r) d3"
        using d3(1) own unfolding UpdateMediaNodeFullHash_def update_nodes_Inr
        by (auto simp: path_ok_def owner_def retired_def)
      then have "path_ok (r_path r) (r_full r) d2" unfolding d3(2) by (simp add: path_ok_def)
      moreover have "evolve stays d1 d2" using statements_stay(4) [OF d3(1)] unfolding d3(2) evolve_def by simp
      ultimately show ?thesis
        using e1 meta(1) same_rows_preserves(1) [OF meta(2)] evolve_moves_then_stays by blast
    qed
  qed
qed

lemma ListMissing_row:
  "m \<in> set (ListMissingNodesByFastHash h d) \<Longrightarrow> m \<in> set (db_nodes d) \<and> n_life m = MISSING \<and> n_fast m = h"
  by (auto simp: ListMissingNodesByFastHash_def nodes_where_def dest!: in_set_takeD)

lemma commitNoLiveNode_effect:
  assumes "commitNoLiveNode mint loc user r (st, d) = Inr (st', d')" "node_violation d = None" "no_live (r_path r) d"
  shows "evolve (stays_or_moves loc r) d d' \<and> (r_full r \<noteq> [] \<longrightarrow> path_ok (r_path r) (r_full r) d')"
proof -
  let ?find = "if r_fast r = [] then None
      else find (\<lambda>m. movePlausible (n_loc m) (n_full m) loc (r_full r)) (ListMissingNodesByFastHash (Some (r_fast r)) d)"
  have stay: "evolve stays d d2 \<Longrightarrow> evolve (stays_or_moves loc r) d d2" for d2
    by (erule evolve_mono) (rule stays_weaken)
  have fall: ?thesis
    if "(case ?find of Some missing \<Rightarrow> commitMove loc missing r (st, d) | None \<Rightarrow> commitInsert mint loc user r (st, d))
          = Inr (st', d')"
  proof (cases ?find)
    case None
    then have "commitInsert mint loc user r (st, d) = Inr (st', d')" using that by simp
    then show ?thesis using commitInsert_effect assms(3) stay by blast
  next
    case (Some m)
    then have move: "commitMove loc m r (st, d) = Inr (st', d')" using that by simp
    have "find (\<lambda>m. movePlausible (n_loc m) (n_full m) loc (r_full r)) (ListMissingNodesByFastHash (Some (r_fast r)) d) = Some m"
      using Some by (simp split: if_splits)
    from find_SomeD [OF this] show ?thesis
      using commitMove_effect [OF move assms(2,3)] ListMissing_row by blast
  qed
  have same: ?thesis if "d' = d"
    using that assms(3) by (simp add: stay evolve_same_nodes no_live_path_ok)
  show ?thesis
  proof (cases "GetLatestNodeByPath (r_path r) d")
    case None
    then show ?thesis using assms(1) fall by (simp add: commitNoLiveNode_def Let_def)
  next
    case (Some latest)
    show ?thesis
    proof (cases "n_life latest = ARCHIVED")
      case True
      show ?thesis
      proof (cases "unchanged_at latest r")
        case True
        then show ?thesis using assms(1) Some \<open>n_life latest = ARCHIVED\<close> same
          by (simp add: commitNoLiveNode_def)
      next
        case False
        then have "commitArchivedPath mint loc user latest r (st, d) = Inr (st', d')"
          using assms(1) Some True by (simp add: commitNoLiveNode_def)
        then show ?thesis using commitArchivedPath_effect assms(3) stay no_live_path_ok by blast
      qed
    next
      case False
      show ?thesis
      proof (cases "n_life latest = TRASHED \<and> unchanged_at latest r")
        case True
        then show ?thesis using assms(1) Some same by (simp add: commitNoLiveNode_def)
      next
        case no: False
        then show ?thesis using assms(1) Some False fall by (auto simp: commitNoLiveNode_def Let_def)
      qed
    qed
  qed
qed

lemma commitOne_effect:
  assumes "commitOne mint loc user r (st, d) = Inr (st', d')" "node_violation d = None"
  shows "evolve (stays_or_moves loc r) d d' \<and> (r_full r \<noteq> [] \<longrightarrow> path_ok (r_path r) (r_full r) d')"
proof -
  have stay: "evolve stays d d' \<Longrightarrow> evolve (stays_or_moves loc r) d d'"
    by (erule evolve_mono) (rule stays_weaken)
  show ?thesis
  proof (cases "GetLiveNodeByPath (r_path r) d")
    case None
    then have "no_live (r_path r) d" using GetLiveNodeByPath_None unfolding no_live_def by blast
    then show ?thesis using None assms commitNoLiveNode_effect by (simp add: commitOne_def)
  next
    case (Some existing)
    note e = GetLiveNodeByPath_Some [OF Some]
    have own: "owner (r_path r) (n_id existing) d" using live_owner [OF assms(2)] e by metis
    show ?thesis
    proof (cases "n_fast existing = Some (r_fast r) \<and>
        \<not> (fullHashContradicts (n_full existing) (r_full r) \<and> serverVouchedFullHash d existing)")
      case True
      then have "commitTouched existing r (st, d) = Inr (st', d')" using assms(1) Some by (auto simp: commitOne_def split: if_splits)
      then show ?thesis using commitTouched_effect assms(2) e stay by blast
    next
      case False
      then have "commitContentChange mint loc user existing r (st, d) = Inr (st', d')"
        using assms(1) Some by (auto simp: commitOne_def split: if_splits)
      then show ?thesis using commitContentChange_effect own stay by blast
    qed
  qed
qed

text \<open>C22. After a file has been committed with a freshly computed full hash, no live node at its path
  stores another one: whatever the node held before (a device's assertion, a hash the bytes no
  longer have), it is adopted, cleared or archived, so a stale hash cannot vouch for the path.\<close>

theorem commit_no_stale_hash:
  assumes "commitOne mint loc user r (st, d) = Inr (st', d')" "db_ok d" "r_full r \<noteq> []"
    and "n \<in> set (db_nodes d')" "n_path n = r_path r" "\<not> retired n"
  shows "n_full n = None \<or> n_full n = Some [] \<or> n_full n = Some (r_full r)"
  using commitOne_effect [OF assms(1)] assms(2-6) by (auto simp: db_ok_def path_ok_def)

text \<open>C23. Committing a file never loses a node: every row is still there with its id, uuid, uploader, fast
  hash and creation time, a retired row stays retired, and a row's path changes only for a missing
  node that the file plausibly is (same fast hash, and equal full hashes or the same location).\<close>

theorem commit_keeps_nodes:
  assumes "commitOne mint loc user r (st, d) = Inr (st', d')" "db_ok d"
  shows "\<forall>n \<in> set (db_nodes d). \<exists>n' \<in> set (db_nodes d'). same_node n n' \<and>
    (n_path n' = n_path n \<and> n_loc n' = n_loc n \<or>
     n_path n' = r_path r \<and> n_life n = MISSING \<and> n_fast n = Some (r_fast r) \<and>
     movePlausible (n_loc n) (n_full n) loc (r_full r))"
proof
  fix n assume "n \<in> set (db_nodes d)"
  moreover have "evolve (stays_or_moves loc r) d d'" using commitOne_effect assms by (simp add: db_ok_def)
  ultimately obtain n' where "n' \<in> set (db_nodes d')" "stays_or_moves loc r n n'" unfolding evolve_def by auto
  then show "\<exists>n' \<in> set (db_nodes d'). same_node n n' \<and>
    (n_path n' = n_path n \<and> n_loc n' = n_loc n \<or>
     n_path n' = r_path r \<and> n_life n = MISSING \<and> n_fast n = Some (r_fast r) \<and>
     movePlausible (n_loc n) (n_full n) loc (r_full r))"
    by (intro rev_bexI) (auto simp: stays_or_moves_def stays_def moves_def)
qed

end
