(* ===== verification/CommitHazards.thy ===== *)
theory CommitHazards
  imports CommitProps
begin

text \<open>Three situations of the commit phase that decide what a scan does with a path that is already
  known: new content over a live file, a path whose latest row is archived, and a missing file
  that comes back after its content was indexed elsewhere.\<close>

section \<open>Version collisions\<close>

lemma live_unique_find:
  assumes "owner p i d" "n \<in> set (db_nodes d)" "n_path n = p" "\<not> retired n" "node_violation d = None" "n_id n = i"
  shows "GetLiveNodeByPath p d = Some n"
  unfolding GetLiveNodeByPath_def
proof (rule find_unique [OF assms(2)])
  show "n_path n = p \<and> \<not> retired n" using assms by simp
next
  fix y assume "y \<in> set (db_nodes d)" "n_path y = p \<and> \<not> retired y"
  then show "y = n" using assms(1,2,6) node_same_id [OF assms(5)] unfolding owner_def by blast
qed

text \<open>C24. New content over an existing file: when the fast hash differs and the content is not already
  indexed elsewhere, the old row is archived and linked to its successor, which is the one live node
  of the path and carries the new content's hashes under a new id.\<close>

theorem version_collision:
  assumes "commitOne mint loc user r (st, d) = Inr (st', d')" "db_ok d"
    and "GetLiveNodeByPath (r_path r) d = Some old" "n_fast old \<noteq> Some (r_fast r)"
    and "\<not> fst (skipDuplicateContent r (n_id old) (st, d))"
  shows "\<exists>new old'. GetLiveNodeByPath (r_path r) d' = Some new \<and> n_id new \<notin> n_id ` set (db_nodes d) \<and>
    n_fast new = Some (r_fast r) \<and> n_full new = nullString (r_full r) \<and> n_life new = ACTIVE \<and>
    old' \<in> set (db_nodes d') \<and> n_id old' = n_id old \<and> n_life old' = ARCHIVED \<and>
    n_superseded old' = Some (n_id new) \<and> s_collisions st' = s_collisions st + 1"
proof -
  have nv: "node_violation d = None" using assms(2) by (simp add: db_ok_def)
  note e = GetLiveNodeByPath_Some [OF assms(3)]
  have own: "owner (r_path r) (n_id old) d" using live_owner [OF nv] e by metis
  obtain st1 where "skipDuplicateContent r (n_id old) (st, d) = (False, st1, d)"
    using assms(5) skip_db by (metis (full_types) prod.collapse)
  moreover from this have "st1 = st" by (auto simp: skipDuplicateContent_def split: if_splits option.splits)
  ultimately have "commitVersionCollision mint loc user old r (st, d) = Inr (st', d')"
    using assms(1,3,4) by (simp add: commitOne_def commitContentChange_def)
  then obtain d1 n d2 where d1: "ArchiveMediaNode (n_id old) d = Inr d1"
    and d2: "insertNewNode mint loc user r d1 = Inr (n, d2)"
    and d': "SetSupersededBy (n_id old) (Some (n_id n)) d2 = Inr d'" and st': "st' = st\<lparr>s_collisions := s_collisions st + 1\<rparr>"
    by (auto simp: commitVersionCollision_def result_simps)
  note ins = insertNewNode_effect [OF d2]
  let ?old1 = "old\<lparr>n_life := ARCHIVED, n_updated := db_clock d\<rparr>"
  let ?old2 = "?old1\<lparr>n_superseded := Some (n_id n), n_updated := db_clock d2\<rparr>"
  have "map n_id (db_nodes d1) = map n_id (db_nodes d)"
    by (rule update_nodes_ids [OF d1 [unfolded ArchiveMediaNode_def]]) simp
  then have new: "n_id n \<notin> n_id ` set (db_nodes d)"
    using ins(9) next_rowid_fresh [of _ "map n_id (db_nodes d)"] by fastforce
  then have neq: "n_id n \<noteq> n_id old" using e by auto
  have n: "n \<in> set (db_nodes d')"
    using ins(1) d' neq unfolding SetSupersededBy_def update_nodes_Inr by auto
  have "?old1 \<in> set (db_nodes d1)"
    using d1 e unfolding ArchiveMediaNode_def update_nodes_Inr by (auto intro!: rev_image_eqI [of old])
  then have "?old1 \<in> set (db_nodes d2)" using ins(1) by simp
  then have old2: "?old2 \<in> set (db_nodes d')"
    using d' unfolding SetSupersededBy_def update_nodes_Inr by (auto intro!: rev_image_eqI [of ?old1])
  have "owner (r_path r) (n_id n) d2"
    by (rule insert_path_ok(2) [OF d2 archive_no_live [OF d1 own]])
  then have "owner (r_path r) (n_id n) d'" using superseded_same_rows [OF d'] same_rows_preserves(3) by blast
  moreover have "node_violation d' = None" using d' [unfolded SetSupersededBy_def update_nodes_Inr] by (rule conjunct2)
  ultimately have "GetLiveNodeByPath (r_path r) d' = Some n"
    using n ins(3,4) by (intro live_unique_find) (simp_all add: retired_def)
  with new ins old2 st' show ?thesis
    by (intro exI [of _ n] exI [of _ ?old2]) simp
qed

section \<open>Archived paths\<close>

text \<open>A path whose latest row is archived never becomes live again by scanning: changed content is
  recorded, linked to the row it supersedes, and archived with it. The archive may come from the
  user, or from a commit that found the path's new content already indexed elsewhere.\<close>

theorem archived_path_stays_archived:
  assumes "commitOne mint loc user r (st, d) = Inr (st', d')"
    and "GetLiveNodeByPath (r_path r) d = None" "GetLatestNodeByPath (r_path r) d = Some latest" "n_life latest = ARCHIVED"
    and "n \<in> set (db_nodes d')" "n_path n = r_path r"
  shows "retired n"
proof -
  have dead: "no_live (r_path r) d" using GetLiveNodeByPath_None assms(2) unfolding no_live_def by blast
  have "commitNoLiveNode mint loc user r (st, d) = Inr (st', d')" using assms(1,2) by (simp add: commitOne_def)
  then have "d' = d \<or> commitArchivedPath mint loc user latest r (st, d) = Inr (st', d')"
    using assms(3,4) by (auto simp: commitNoLiveNode_def split: if_splits)
  then have "no_live (r_path r) d'" using dead commitArchivedPath_effect by blast
  then show ?thesis using assms(5,6) by (simp add: no_live_def)
qed

section \<open>A missing node that comes back\<close>

lemma not_unique_on:
  "\<lbrakk>m \<in> set ns; n \<in> set ns; P m; P n; g m = g n; n_id n \<noteq> n_id m\<rbrakk> \<Longrightarrow> \<not> unique_on P g ns"
  unfolding unique_on_def by metis

lemma touch_conflict:
  assumes "node_violation d = None" "a \<in> set (db_nodes d)" "n_life a = MISSING" "n_full a = Some h" "h \<noteq> []"
    and "b \<in> set (db_nodes d)" "visible b" "n_full b = Some h"
  shows "TouchMediaNode (n_id a) mt d = Inl UniqueLiveFullHash"
proof -
  let ?P = "\<lambda>n. n_id n = n_id a \<and> \<not> retired n"
  let ?f = "\<lambda>n. n\<lparr>n_mtime := mt, n_last_seen := db_clock d,
      n_life := (if n_life n = MISSING then ACTIVE else n_life n), n_updated := db_clock d\<rparr>"
  let ?g = "\<lambda>n. if ?P n then ?f n else n"
  let ?d = "d\<lparr>db_nodes := map ?g (db_nodes d)\<rparr>"
  have ids: "map (n_id \<circ> ?g) ns = map n_id ns" "map (n_uuid \<circ> ?g) ns = map n_uuid ns" for ns by simp_all
  have dist: "distinct (map n_id (map ?g (db_nodes d)))" "distinct (map n_uuid (map ?g (db_nodes d)))"
    unfolding map_map ids using assms(1) by (simp_all add: node_violation_None)
  have path: "unique_on (\<lambda>n. \<not> retired n) n_path (map ?g (db_nodes d))"
    by (rule unique_on_map) (use assms(1) in \<open>auto simp: node_violation_None retired_def split: if_splits\<close>)
  have neq: "n_id b \<noteq> n_id a"
    using node_same_id [OF assms(1,6,2)] assms(3,7) by (auto simp: visible_def)
  have ga: "?g a = ?f a" using assms(3) by (simp add: retired_def)
  have gb: "?g b = b" using neq by simp
  have hash: "\<not> unique_on hash_indexed n_full (map ?g (db_nodes d))"
  proof (rule not_unique_on [where m = "?f a" and n = b])
    show "?f a \<in> set (map ?g (db_nodes d))" using imageI [OF assms(2), of ?g] unfolding ga set_map .
    show "b \<in> set (map ?g (db_nodes d))" using imageI [OF assms(6), of ?g] unfolding gb set_map .
    show "hash_indexed (?f a)" "hash_indexed b" "n_full (?f a) = n_full b"
      using assms by (simp_all add: hash_indexed_def visible_def)
    show "n_id b \<noteq> n_id (?f a)" using neq by simp
  qed
  have "node_violation ?d = Some UniqueLiveFullHash"
    unfolding node_violation_def Let_def using dist path hash by simp
  then show ?thesis
    by (simp add: TouchMediaNode_def update_nodes_def checked_nodes_def)
qed

text \<open>A file that reappears at the path of a missing node whose content has meanwhile been indexed at
  another path makes the whole batch fail: the touch that reactivates the node breaks the unique
  index on live full hashes before the duplicate check is reached, and every scan fails the same way.\<close>

theorem reactivation_conflict_fails_batch:
  assumes "db_ok d" "GetLiveNodeByPath (r_path r) d = Some a" "n_life a = MISSING" "n_fast a = Some (r_fast r)"
    and "n_full a = Some h" "h \<noteq> []" "r_full r = [] \<or> r_full r = h"
    and "b \<in> set (db_nodes d)" "visible b" "n_full b = Some h"
  shows "Commit mint loc user (r # rs) d = (Inl UniqueLiveFullHash, d)"
proof -
  have "TouchMediaNode (n_id a) (r_mtime r) d = Inl UniqueLiveFullHash"
    using touch_conflict [of d a h b] GetLiveNodeByPath_Some [OF assms(2)] assms by (simp add: db_ok_def)
  then have "commitTouched a r (no_stats, d) = Inl UniqueLiveFullHash" by (simp add: commitTouched_def)
  moreover have "\<not> fullHashContradicts (n_full a) (r_full r)"
    using assms(5,7) by (auto simp: fullHashContradicts_def)
  ultimately have "commitOne mint loc user r (no_stats, d) = Inl UniqueLiveFullHash"
    using assms(2,4) by (simp add: commitOne_def)
  then show ?thesis by (simp add: Commit_def in_tx_def)
qed

section \<open>The theorems at concrete inputs\<close>

definition sample_result :: "string \<Rightarrow> string \<Rightarrow> string \<Rightarrow> string \<Rightarrow> file_result" where
  "sample_result p nm fh h =
     \<lparr>r_path = p, r_name = nm, r_ext = ''jpg'', r_size = 200, r_mtime = 1500, r_fast = fh, r_full = h,
      r_phash = None, r_origdoc = [], r_doc = [], r_derived = [], r_captured = None, r_camera = [],
      r_make = [], r_lens = [], r_serial = [], r_lat = None, r_lon = None, r_exifraw = [], r_ffprobe = None\<rparr>"

definition sample_hash :: string where
  "sample_hash = ''0123456789abcdef0123456789abcdef0123456789abcdef0123456789abcdef''"

definition rescan :: file_result where
  "rescan = sample_result ''/exports/b.jpg'' ''b.jpg'' ''0123456789abcdef'' sample_hash"

definition fixed_uuid :: minter where
  "fixed_uuid d = Some ''u4''"

definition rescanned :: cstate where
  "rescanned = projr (commitOne fixed_uuid 2 7 rescan (no_stats, studio))"

lemma not_isl_Inr: "isl x = False \<Longrightarrow> x = Inr (fst (projr x), snd (projr x))"
  by (cases x) auto

lemma rescan_ok: "commitOne fixed_uuid 2 7 rescan (no_stats, studio) = Inr (fst rescanned, snd rescanned)"
proof -
  have "isl (commitOne fixed_uuid 2 7 rescan (no_stats, studio)) = False" by code_simp
  from not_isl_Inr [OF this] show ?thesis by (simp add: rescanned_def)
qed

theorem version_collision_witness:
  "\<exists>new old'. GetLiveNodeByPath (r_path rescan) (snd rescanned) = Some new \<and> n_id new \<notin> n_id ` set (db_nodes studio) \<and>
    n_fast new = Some (r_fast rescan) \<and> n_full new = nullString (r_full rescan) \<and> n_life new = ACTIVE \<and>
    old' \<in> set (db_nodes (snd rescanned)) \<and> n_id old' = n_id export \<and> n_life old' = ARCHIVED \<and>
    n_superseded old' = Some (n_id new) \<and> s_collisions (fst rescanned) = s_collisions no_stats + 1"
proof (rule version_collision [OF rescan_ok studio_ok])
  show "GetLiveNodeByPath (r_path rescan) studio = Some export" by code_simp
  show "n_fast export \<noteq> Some (r_fast rescan)" by code_simp
  show "\<not> fst (skipDuplicateContent rescan (n_id export) (no_stats, studio))" by code_simp
qed

definition rescanned_node :: media_node where
  "rescanned_node = the (GetLiveNodeByPath (r_path rescan) (snd rescanned))"

lemma rescanned_node:
  "rescanned_node \<in> set (db_nodes (snd rescanned))" "n_path rescanned_node = r_path rescan" "\<not> retired rescanned_node"
proof -
  have "(GetLiveNodeByPath (r_path rescan) (snd rescanned) = None) = False" by code_simp
  then have "GetLiveNodeByPath (r_path rescan) (snd rescanned) = Some rescanned_node"
    by (simp add: rescanned_node_def)
  from GetLiveNodeByPath_Some [OF this]
  show "rescanned_node \<in> set (db_nodes (snd rescanned))" "n_path rescanned_node = r_path rescan" "\<not> retired rescanned_node"
    by auto
qed

theorem commit_no_stale_hash_witness:
  "n_full rescanned_node = None \<or> n_full rescanned_node = Some [] \<or> n_full rescanned_node = Some (r_full rescan)"
proof (rule commit_no_stale_hash [OF rescan_ok studio_ok _ rescanned_node])
  show "r_full rescan \<noteq> []" by code_simp
qed

theorem commit_keeps_nodes_witness:
  "\<exists>n' \<in> set (db_nodes (snd rescanned)). same_node export n' \<and> n_path n' = n_path export \<and> n_loc n' = n_loc export"
proof -
  have "export \<in> set (db_nodes studio)" by simp
  then obtain n' where n': "n' \<in> set (db_nodes (snd rescanned))" "same_node export n'"
    "n_path n' = n_path export \<and> n_loc n' = n_loc export \<or> n_path n' = r_path rescan \<and> n_life export = MISSING \<and>
     n_fast export = Some (r_fast rescan) \<and> movePlausible (n_loc export) (n_full export) 2 (r_full rescan)"
    using commit_keeps_nodes [OF rescan_ok studio_ok] by (elim ballE) blast+
  moreover have "n_life export \<noteq> MISSING" by (simp add: sample_defs)
  ultimately show ?thesis by blast
qed

definition shelf :: db where
  "shelf = studio\<lparr>db_nodes := [original, export\<lparr>n_life := ARCHIVED\<rparr>, project]\<rparr>"

definition shelf_rescanned :: cstate where
  "shelf_rescanned = projr (commitOne fixed_uuid 2 7 rescan (no_stats, shelf))"

definition shelf_newest :: media_node where
  "shelf_newest = last (db_nodes (snd shelf_rescanned))"

theorem archived_path_stays_archived_witness:
  "n_full shelf_newest = Some sample_hash \<and> retired shelf_newest"
proof
  show "n_full shelf_newest = Some sample_hash" by code_simp
  show "retired shelf_newest"
  proof (rule archived_path_stays_archived)
    have "isl (commitOne fixed_uuid 2 7 rescan (no_stats, shelf)) = False" by code_simp
    from not_isl_Inr [OF this]
    show "commitOne fixed_uuid 2 7 rescan (no_stats, shelf) = Inr (fst shelf_rescanned, snd shelf_rescanned)"
      by (simp add: shelf_rescanned_def)
    show "GetLiveNodeByPath (r_path rescan) shelf = None" by code_simp
    show "GetLatestNodeByPath (r_path rescan) shelf = Some (export\<lparr>n_life := ARCHIVED\<rparr>)" by code_simp
    show "n_life (export\<lparr>n_life := ARCHIVED\<rparr>) = ARCHIVED" by simp
    have "db_nodes (snd shelf_rescanned) \<noteq> []" by code_simp
    then show "shelf_newest \<in> set (db_nodes (snd shelf_rescanned))" unfolding shelf_newest_def by (rule last_in_set)
    show "n_path shelf_newest = r_path rescan" by code_simp
  qed
qed

definition gone :: media_node where
  "gone = export\<lparr>n_life := MISSING, n_fast := Some ''0123456789abcdef'', n_full := Some sample_hash\<rparr>"

definition moved_back :: db where
  "moved_back = studio\<lparr>db_nodes := [original\<lparr>n_full := Some sample_hash\<rparr>, gone, project]\<rparr>"

lemma moved_back_ok: "db_ok moved_back"
proof -
  have "unique_on (\<lambda>n. \<not> retired n) n_path (db_nodes moved_back)"
    "unique_on hash_indexed n_full (db_nodes moved_back)"
    by (simp_all add: unique_on_def moved_back_def gone_def sample_defs retired_def hash_indexed_def visible_def)
  moreover have "\<forall>n \<in> set (db_nodes moved_back). node_check n" "\<forall>n \<in> set (db_nodes moved_back). node_fk moved_back n"
    by (simp_all add: moved_back_def gone_def studio_def sample_defs sample_hash_def node_check_def opt_len_def node_fk_def)
  ultimately have "node_violation moved_back = None"
    by (simp add: node_violation_None) (simp add: moved_back_def gone_def sample_defs)
  moreover have "edge_violation moved_back = None"
    by (simp add: edge_violation_None) (simp add: moved_back_def gone_def sample_defs edge_key_def edge_check_def)
  ultimately show ?thesis by (simp add: db_ok_def)
qed

theorem reactivation_conflict_fails_batch_witness:
  "Commit fixed_uuid 2 7 [rescan] moved_back = (Inl UniqueLiveFullHash, moved_back)"
proof (rule reactivation_conflict_fails_batch [OF moved_back_ok])
  show "GetLiveNodeByPath (r_path rescan) moved_back = Some gone" by code_simp
  show "n_life gone = MISSING" "n_fast gone = Some (r_fast rescan)" "n_full gone = Some sample_hash"
    by (simp_all add: gone_def rescan_def sample_result_def)
  show "sample_hash \<noteq> []" by (simp add: sample_hash_def)
  show "r_full rescan = [] \<or> r_full rescan = sample_hash" by (simp add: rescan_def sample_result_def)
  show "original\<lparr>n_full := Some sample_hash\<rparr> \<in> set (db_nodes moved_back)" by (simp add: moved_back_def)
  show "visible (original\<lparr>n_full := Some sample_hash\<rparr>)" by (simp add: visible_def sample_defs)
  show "n_full (original\<lparr>n_full := Some sample_hash\<rparr>) = Some sample_hash" by simp
qed

end
