(* ===== verification/FileSystem.thy ===== *)
theory FileSystem
  imports Paths "HOL-Library.Sublist"
begin

text \<open>
  The file system as the program's \<open>os\<close> calls see it on Linux: a tree of directories, regular
  files and symbolic links, named by the component lists of their real (link-free) paths. \<open>walk\<close>
  is path resolution, for the kernel and for Go's \<open>filepath.EvalSymlinks\<close> alike: they differ in
  how many links they follow and in what they do with the last component. An entry has its
  modification time (nanoseconds since the epoch) and what \<open>Size()\<close> reports: a directory's own
  number (0 for a new one), the bytes of a file, the target of a link. Permissions, hard-link
  aliasing, mount points and access times are not modelled.
\<close>

datatype entry = Directory int int | Regular int string | Symlink int string

datatype fs_error = NotExist | NotDir | TooManyLinks | IsDir | FileExists | NotEmpty | InvalidMove

record fs =
  fs_tree :: "(string list \<times> entry) list"
  fs_now :: int

definition look :: "fs \<Rightarrow> string list \<Rightarrow> entry option" where
  "look fs p = (if p = [] then Some (Directory 0 0) else map_of (fs_tree fs) p)"

fun entry_mtime :: "entry \<Rightarrow> int" where
  "entry_mtime (Directory t _) = t"
| "entry_mtime (Regular t _) = t"
| "entry_mtime (Symlink t _) = t"

fun entry_size :: "entry \<Rightarrow> int" where
  "entry_size (Directory _ z) = z"
| "entry_size (Regular _ b) = int (length b)"
| "entry_size (Symlink _ l) = int (length l)"

definition put :: "string list \<Rightarrow> entry \<Rightarrow> fs \<Rightarrow> fs" where
  "put p e fs = fs\<lparr>fs_tree := AList.update p e (fs_tree fs)\<rparr>"

definition cut :: "string list \<Rightarrow> fs \<Rightarrow> fs" where
  "cut p fs = fs\<lparr>fs_tree := AList.delete p (fs_tree fs)\<rparr>"

fun is_directory :: "entry option \<Rightarrow> bool" where
  "is_directory (Some (Directory _ _)) = True"
| "is_directory _ = False"

fun is_symlink :: "entry option \<Rightarrow> bool" where
  "is_symlink (Some (Symlink _ _)) = True"
| "is_symlink _ = False"

lemma entry_kinds [simp]: "\<not> is_directory None" "\<not> is_symlink None"
  by simp_all

lemma look_put: "p \<noteq> [] \<Longrightarrow> look (put p e fs) q = (if q = p then Some e else look fs q)"
  by (auto simp: look_def put_def update_conv')

lemma look_cut: "p \<noteq> [] \<Longrightarrow> look (cut p fs) q = (if q = p then None else look fs q)"
  by (auto simp: look_def cut_def delete_conv')

section \<open>Path resolution\<close>

text \<open>
  \<open>Must\<close>: the path has to exist and a final link is followed (\<open>open\<close>, \<open>stat\<close>). \<open>MayCreate\<close>: as
  \<open>Must\<close>, but the last component may be missing (\<open>open\<close> with \<open>O_CREAT\<close>). \<open>NoFollow\<close>: the last
  component is not followed and may be missing (\<open>lstat\<close>, \<open>unlink\<close>, \<open>mkdir\<close>, \<open>rename\<close>, \<open>link\<close>,
  \<open>O_EXCL\<close>). The result carries the number of links that may still be followed.
\<close>

datatype final = Must | MayCreate | NoFollow

function walk :: "final \<Rightarrow> fs \<Rightarrow> nat \<Rightarrow> string list \<Rightarrow> string list \<Rightarrow> fs_error + (string list \<times> nat)" where
  "walk m fs n d [] = Inr (d, n)"
| "walk m fs n d (c # cs) =
     (if c = [] \<or> c = dot then walk m fs n d cs
      else if c = dotdot then walk m fs n (butlast d) cs
      else case look fs (d @ [c]) of
        None \<Rightarrow> if cs = [] \<and> m \<noteq> Must then Inr (d @ [c], n) else Inl NotExist
      | Some (Directory _ _) \<Rightarrow> walk m fs n (d @ [c]) cs
      | Some (Regular _ _) \<Rightarrow> if cs = [] then Inr (d @ [c], n) else Inl NotDir
      | Some (Symlink _ t) \<Rightarrow>
          if cs = [] \<and> m = NoFollow then Inr (d @ [c], n)
          else case n of
            0 \<Rightarrow> Inl TooManyLinks
          | Suc k \<Rightarrow> walk m fs k (if is_abs t then [] else d) (split_slash t @ cs))"
  by pat_completeness auto

termination walk
  by (relation "measures [\<lambda>(m, fs, n, d, cs). n, \<lambda>(m, fs, n, d, cs). length cs]") auto

declare walk.simps(2) [simp del]

text \<open>Limits: \<open>filepath.EvalSymlinks\<close> follows 255 links, the kernel 40.\<close>

definition EvalSymlinks :: "fs \<Rightarrow> string list \<Rightarrow> fs_error + string list" where
  "EvalSymlinks fs cs = map_sum id fst (walk Must fs 255 [] cs)"

definition namei :: "final \<Rightarrow> fs \<Rightarrow> string list \<Rightarrow> fs_error + string list" where
  "namei m fs cs = map_sum id fst (walk m fs 40 [] cs)"

definition named :: "string \<Rightarrow> bool" where
  "named c \<longleftrightarrow> c \<noteq> [] \<and> c \<noteq> dot \<and> c \<noteq> dotdot"

lemma walk_skip: "c = [] \<or> c = dot \<Longrightarrow> walk m fs n d (c # cs) = walk m fs n d cs"
  by (simp add: walk.simps(2))

lemma walk_up: "walk m fs n d (dotdot # cs) = walk m fs n (butlast d) cs"
  by (simp add: walk.simps(2) dot_def dotdot_def)

lemma walk_missing: "named c \<Longrightarrow> look fs (d @ [c]) = None \<Longrightarrow>
    walk m fs n d (c # cs) = (if cs = [] \<and> m \<noteq> Must then Inr (d @ [c], n) else Inl NotExist)"
  by (simp add: walk.simps(2) named_def)

lemma walk_directory: "named c \<Longrightarrow> look fs (d @ [c]) = Some (Directory t z) \<Longrightarrow>
    walk m fs n d (c # cs) = walk m fs n (d @ [c]) cs"
  by (simp add: walk.simps(2) named_def)

lemma walk_regular: "named c \<Longrightarrow> look fs (d @ [c]) = Some (Regular t b) \<Longrightarrow>
    walk m fs n d (c # cs) = (if cs = [] then Inr (d @ [c], n) else Inl NotDir)"
  by (simp add: walk.simps(2) named_def)

lemma walk_final_link: "named c \<Longrightarrow> look fs (d @ [c]) = Some (Symlink z t) \<Longrightarrow>
    walk NoFollow fs n d [c] = Inr (d @ [c], n)"
  by (simp add: walk.simps(2) named_def)

lemma walk_link: "named c \<Longrightarrow> look fs (d @ [c]) = Some (Symlink z t) \<Longrightarrow> \<not> (cs = [] \<and> m = NoFollow) \<Longrightarrow>
    walk m fs n d (c # cs) =
    (case n of 0 \<Rightarrow> Inl TooManyLinks | Suc k \<Rightarrow> walk m fs k (if is_abs t then [] else d) (split_slash t @ cs))"
  by (auto simp: walk.simps(2) named_def)

lemmas walk_eqs = walk_skip walk_up walk_missing walk_directory walk_regular walk_final_link walk_link

text \<open>The induction of \<open>walk\<close> with one case per branch.\<close>

lemma walk_cases [case_names Nil Skip Up Missing Dir File FinalLink NoLinks Link]:
  assumes "\<And>n d. P n d []"
    and "\<And>n d c cs. c = [] \<or> c = dot \<Longrightarrow> P n d cs \<Longrightarrow> P n d (c # cs)"
    and "\<And>n d cs. P n (butlast d) cs \<Longrightarrow> P n d (dotdot # cs)"
    and "\<And>n d c cs. named c \<Longrightarrow> look fs (d @ [c]) = None \<Longrightarrow> P n d (c # cs)"
    and "\<And>n d c cs t z. named c \<Longrightarrow> look fs (d @ [c]) = Some (Directory t z) \<Longrightarrow> P n (d @ [c]) cs \<Longrightarrow> P n d (c # cs)"
    and "\<And>n d c cs t b. named c \<Longrightarrow> look fs (d @ [c]) = Some (Regular t b) \<Longrightarrow> P n d (c # cs)"
    and "\<And>n d c t z. named c \<Longrightarrow> look fs (d @ [c]) = Some (Symlink z t) \<Longrightarrow> m = NoFollow \<Longrightarrow> P n d [c]"
    and "\<And>d c cs t z. named c \<Longrightarrow> look fs (d @ [c]) = Some (Symlink z t) \<Longrightarrow> \<not> (cs = [] \<and> m = NoFollow) \<Longrightarrow> P 0 d (c # cs)"
    and "\<And>n d c cs t z. named c \<Longrightarrow> look fs (d @ [c]) = Some (Symlink z t) \<Longrightarrow> \<not> (cs = [] \<and> m = NoFollow) \<Longrightarrow>
      P n (if is_abs t then [] else d) (split_slash t @ cs) \<Longrightarrow> P (Suc n) d (c # cs)"
  shows "P n d cs"
proof (induction "(n, d, cs)" arbitrary: n d cs
    rule: wf_induct_rule [OF wf_measures [of "[\<lambda>(n, d, cs). n, \<lambda>(n, d, cs). length cs]"]])
  case less: 1
  then have IH: "P n' d' cs'" if "n' < n \<or> n' = n \<and> length cs' < length cs" for n' d' cs' using that by auto
  show ?case
  proof (cases cs)
    case Nil
    then show ?thesis using assms(1) by simp
  next
    case (Cons c r)
    show ?thesis
    proof (cases "named c")
      case False
      then show ?thesis using assms(2,3) IH Cons by (auto simp: named_def)
    next
      case True
      show ?thesis
      proof (cases "look fs (d @ [c])")
        case None
        then show ?thesis using assms(4) True Cons by simp
      next
        case (Some e)
        show ?thesis
        proof (cases e)
          case (Symlink z t)
          show ?thesis
          proof (cases "r = [] \<and> m = NoFollow")
            case True
            then show ?thesis using assms(7) \<open>named c\<close> Some Symlink Cons by simp
          next
            case False
            then show ?thesis using assms(8,9) True Some Symlink Cons IH by (cases n) auto
          qed
        qed (use assms(5,6) True Some Cons IH in auto)
      qed
    qed
  qed
qed

text \<open>More links to follow change nothing once the walk does not run out of them.\<close>

lemma walk_more_links:
  "walk m fs n d cs \<noteq> Inl TooManyLinks \<Longrightarrow>
   map_sum id fst (walk m fs (n + j) d cs) = map_sum id fst (walk m fs n d cs)"
  by (induction n d cs rule: walk_cases [where m = m and fs = fs]) (simp_all add: walk_eqs)

text \<open>A file that has to exist is found whatever else is allowed.\<close>

lemma walk_must:
  "walk Must fs n d cs = Inr r \<Longrightarrow> walk MayCreate fs n d cs = Inr r"
  by (induction n d cs rule: walk_cases [where m = Must and fs = fs]) (simp_all add: walk_eqs)

lemma walk_may_create:
  "walk MayCreate fs n d cs = Inr (q, k) \<Longrightarrow> look fs q \<noteq> None \<Longrightarrow> walk Must fs n d cs = Inr (q, k)"
  by (induction n d cs rule: walk_cases [where m = MayCreate and fs = fs]) (simp_all add: walk_eqs split: if_splits)

section \<open>Real paths\<close>

text \<open>Every prefix is a directory.\<close>

definition real_dir :: "fs \<Rightarrow> string list \<Rightarrow> bool" where
  "real_dir fs d \<longleftrightarrow> list_all proper d \<and> (\<forall>k \<le> length d. is_directory (look fs (take k d)))"

lemma real_dir_Nil [simp]: "real_dir fs []"
  by (simp add: real_dir_def look_def)

lemma real_dir_butlast: "real_dir fs d \<Longrightarrow> real_dir fs (butlast d)"
proof -
  assume d: "real_dir fs d"
  have "take k (butlast d) = take k d" if "k \<le> length (butlast d)" for k
    using that by (cases d rule: rev_cases) auto
  moreover have "list_all proper (butlast d)"
    using d in_set_butlastD by (fastforce simp: real_dir_def list_all_iff)
  ultimately show ?thesis using d by (auto simp: real_dir_def)
qed

lemma real_dir_snoc: "real_dir fs (d @ [c]) \<longleftrightarrow> real_dir fs d \<and> proper c \<and> is_directory (look fs (d @ [c]))"
proof
  assume "real_dir fs (d @ [c])"
  moreover from this have "is_directory (look fs (take (length (d @ [c])) (d @ [c])))" unfolding real_dir_def by blast
  ultimately show "real_dir fs d \<and> proper c \<and> is_directory (look fs (d @ [c]))"
    using real_dir_butlast [of fs "d @ [c]"] by (simp add: real_dir_def)
next
  assume d: "real_dir fs d \<and> proper c \<and> is_directory (look fs (d @ [c]))"
  have "is_directory (look fs (take k (d @ [c])))" if "k \<le> length (d @ [c])" for k
    using that d by (cases "k \<le> length d") (auto simp: real_dir_def not_le)
  with d show "real_dir fs (d @ [c])" by (simp add: real_dir_def)
qed

lemma proper_named: "proper c \<Longrightarrow> named c"
  by (simp add: proper_def named_def)

lemma named_proper: "named c \<Longrightarrow> CHR ''/'' \<notin> set c \<Longrightarrow> proper c"
  by (simp add: proper_def named_def)

text \<open>What a walk arrives at: a proper name in a real directory, and no link unless it is left unfollowed.\<close>

lemma walk_real:
  "walk m fs n d cs = Inr (q, k) \<Longrightarrow> real_dir fs d \<Longrightarrow> \<forall>c \<in> set cs. CHR ''/'' \<notin> set c \<Longrightarrow>
   real_dir fs q \<or> (\<exists>e c. q = e @ [c] \<and> real_dir fs e \<and> proper c \<and> \<not> is_directory (look fs q) \<and>
     (m \<noteq> NoFollow \<longrightarrow> \<not> is_symlink (look fs q)) \<and> (m = Must \<longrightarrow> look fs q \<noteq> None))"
proof (induction n d cs rule: walk_cases [where m = m and fs = fs])
  case (Link n d c cs t z)
  then have "\<forall>c \<in> set (split_slash t @ cs). CHR ''/'' \<notin> set c" "real_dir fs (if is_abs t then [] else d)"
    using split_slash_no_slash by auto
  moreover have "walk m fs n (if is_abs t then [] else d) (split_slash t @ cs) = Inr (q, k)"
    using Link by (simp add: walk_link)
  ultimately show ?case using Link.IH by blast
qed (auto simp: walk_eqs real_dir_butlast real_dir_snoc named_proper split: if_splits)

text \<open>Walking a real path stays on it.\<close>

lemma walk_real_dir: "real_dir fs (d @ e) \<Longrightarrow> walk m fs n d (e @ cs) = walk m fs n (d @ e) cs"
proof (induction e arbitrary: d)
  case Nil
  then show ?case by simp
next
  case (Cons c e)
  have "real_dir fs ((d @ [c]) @ e)" using Cons.prems by simp
  moreover from this have "real_dir fs (d @ [c])"
  proof (induction e rule: rev_induct)
    case (snoc x xs)
    then show ?case using real_dir_snoc [of fs "(d @ [c]) @ xs" x] by simp
  qed simp
  then have "named c" "\<exists>t z. look fs (d @ [c]) = Some (Directory t z)"
    by (auto simp: real_dir_snoc proper_named elim: is_directory.elims)
  ultimately show ?case using Cons.IH [of "d @ [c]"] by (auto simp: walk_directory)
qed

section \<open>Walking to the parent first\<close>

lemma walk_append:
  assumes "ys \<noteq> []" "real_dir fs d" "\<forall>c \<in> set xs. CHR ''/'' \<notin> set c"
  shows "walk m fs n d (xs @ ys) =
    (case walk Must fs n d xs of
       Inl e \<Rightarrow> Inl e
     | Inr (e, k) \<Rightarrow> if is_directory (look fs e) then walk m fs k e ys else Inl NotDir)"
  using assms(2,3)
proof (induction n d xs rule: walk_cases [where m = Must and fs = fs])
  case (Nil n d)
  then have "is_directory (look fs (take (length d) d))" unfolding real_dir_def by blast
  then show ?case by simp
next
  case (Link n d c cs t z)
  then have "\<forall>c \<in> set (split_slash t @ cs). CHR ''/'' \<notin> set c" "real_dir fs (if is_abs t then [] else d)"
    using split_slash_no_slash by auto
  with Link.IH Link.hyps show ?case using assms(1) by (simp add: walk_link)
qed (auto simp: walk_eqs assms(1) real_dir_butlast real_dir_snoc named_proper)

section \<open>System calls\<close>

text \<open>The \<open>os\<close> functions the program calls, for a path given as a string.\<close>

definition os_write :: "string \<Rightarrow> string \<Rightarrow> fs \<Rightarrow> fs_error + fs" where
  "os_write p bytes fs =
     rbind (namei MayCreate fs (split_slash p)) (\<lambda>q.
       if is_directory (look fs q) then Inl IsDir else Inr (put q (Regular (fs_now fs) bytes) fs))"

definition os_create_excl :: "string \<Rightarrow> fs \<Rightarrow> fs_error + fs" where
  "os_create_excl p fs =
     rbind (namei NoFollow fs (split_slash p)) (\<lambda>q.
       if look fs q \<noteq> None then Inl FileExists else Inr (put q (Regular (fs_now fs) []) fs))"

definition has_children :: "fs \<Rightarrow> string list \<Rightarrow> bool" where
  "has_children fs q \<longleftrightarrow> (\<exists>p \<in> fst ` set (fs_tree fs). strict_prefix q p)"

definition os_remove :: "string \<Rightarrow> fs \<Rightarrow> fs_error + fs" where
  "os_remove p fs =
     rbind (namei NoFollow fs (split_slash p)) (\<lambda>q.
       if q = [] then Inl NotEmpty
       else if look fs q = None then Inl NotExist
       else if is_directory (look fs q) \<and> has_children fs q then Inl NotEmpty
       else Inr (cut q fs))"

fun set_mtime :: "int \<Rightarrow> entry \<Rightarrow> entry" where
  "set_mtime t (Directory _ z) = Directory t z"
| "set_mtime t (Regular _ b) = Regular t b"
| "set_mtime t (Symlink _ l) = Symlink t l"

definition os_chtimes :: "string \<Rightarrow> int \<Rightarrow> fs \<Rightarrow> fs_error + fs" where
  "os_chtimes p t fs =
     rbind (namei Must fs (split_slash p)) (\<lambda>q.
       case look fs q of
         None \<Rightarrow> Inl NotExist
       | Some e \<Rightarrow> Inr (if q = [] then fs else put q (set_mtime t e) fs))"

definition os_lstat :: "string \<Rightarrow> fs \<Rightarrow> fs_error + entry" where
  "os_lstat p fs =
     rbind (namei NoFollow fs (split_slash p)) (\<lambda>q. case look fs q of None \<Rightarrow> Inl NotExist | Some e \<Rightarrow> Inr e)"

text \<open>\<open>stat\<close> and \<open>open\<close> for reading: the entry found, and the real path it is at.\<close>

definition os_open :: "string \<Rightarrow> fs \<Rightarrow> fs_error + (string list \<times> entry)" where
  "os_open p fs =
     rbind (namei Must fs (split_slash p)) (\<lambda>q. case look fs q of None \<Rightarrow> Inl NotExist | Some e \<Rightarrow> Inr (q, e))"

definition os_link :: "string \<Rightarrow> string \<Rightarrow> fs \<Rightarrow> fs_error + fs" where
  "os_link old new fs =
     rbind (namei NoFollow fs (split_slash old)) (\<lambda>po.
       rbind (namei NoFollow fs (split_slash new)) (\<lambda>pn.
         case look fs po of
           None \<Rightarrow> Inl NotExist
         | Some (Directory _ _) \<Rightarrow> Inl IsDir
         | Some e \<Rightarrow> if look fs pn \<noteq> None then Inl FileExists else Inr (put pn e fs)))"

definition move_tree :: "string list \<Rightarrow> string list \<Rightarrow> fs \<Rightarrow> fs" where
  "move_tree po pn fs = fs\<lparr>fs_tree :=
     map (\<lambda>(p, e). (if prefix po p then pn @ drop (length po) p else p, e))
       (filter (\<lambda>(p, e). p \<noteq> pn) (fs_tree fs))\<rparr>"

definition os_rename :: "string \<Rightarrow> string \<Rightarrow> fs \<Rightarrow> fs_error + fs" where
  "os_rename old new fs =
     rbind (namei NoFollow fs (split_slash old)) (\<lambda>po.
       rbind (namei NoFollow fs (split_slash new)) (\<lambda>pn.
         if is_directory (look fs pn) then Inl FileExists
         else case look fs po of
           None \<Rightarrow> Inl NotExist
         | Some (Directory _ _) \<Rightarrow>
             if look fs pn \<noteq> None then Inl NotDir
             else if po = [] \<or> prefix po pn then Inl InvalidMove
             else Inr (move_tree po pn fs)
         | Some e \<Rightarrow> Inr (if po = pn then fs else put pn e (cut po fs))))"

text \<open>\<open>os.MkdirAll\<close> on the names of a path: the parent first, then the directory itself.\<close>

definition mkdir_names :: "string list \<Rightarrow> fs \<Rightarrow> fs_error + fs" where
  "mkdir_names cs fs =
     rbind (namei NoFollow fs cs) (\<lambda>q.
       if look fs q \<noteq> None then Inl FileExists else Inr (put q (Directory (fs_now fs) 0) fs))"

definition lstat_names :: "string list \<Rightarrow> fs \<Rightarrow> entry option" where
  "lstat_names cs fs = (case namei NoFollow fs cs of Inl _ \<Rightarrow> None | Inr q \<Rightarrow> look fs q)"

function mkdir_all_names :: "string list \<Rightarrow> fs \<Rightarrow> fs_error + fs" where
  "mkdir_all_names cs fs =
     (case namei Must fs cs of
        Inr q \<Rightarrow> if is_directory (look fs q) then Inr fs else Inl NotDir
      | Inl err \<Rightarrow>
          if cs = [] then Inl err
          else rbind (mkdir_all_names (butlast cs) fs) (\<lambda>fs'.
            case mkdir_names cs fs' of
              Inr fs'' \<Rightarrow> Inr fs''
            | Inl err \<Rightarrow> if is_directory (lstat_names cs fs') then Inr fs' else Inl err))"
  by pat_completeness auto

termination mkdir_all_names
  by (relation "measure (\<lambda>(cs, fs). length cs)") auto

declare mkdir_all_names.simps [simp del]

definition os_mkdir_all :: "string \<Rightarrow> fs \<Rightarrow> fs_error + fs" where
  "os_mkdir_all p fs = mkdir_all_names (filter (\<lambda>c. c \<noteq> []) (split_slash p)) fs"

section \<open>What a clean path leads to\<close>

definition clean :: "string \<Rightarrow> bool" where
  "clean p \<longleftrightarrow> is_abs p \<and> path_clean p = p"

lemma cleanE:
  assumes "clean p"
  obtains cs where "p = abs_path cs" "list_all proper cs"
  using assms clean_comps_proper [of p] unfolding clean_def path_clean_def by metis

lemma walk_abs_path: "list_all proper cs \<Longrightarrow> walk m fs n [] (split_slash (abs_path cs)) = walk m fs n [] cs"
proof (cases "cs = []")
  case True
  then show ?thesis by (simp add: abs_path_def walk_skip)
next
  case False
  assume "list_all proper cs"
  then have "split_slash (abs_path cs) = [] # cs"
    using False split_join [of cs] by (simp add: abs_path_def proper_def list_all_iff)
  then show ?thesis by (simp add: walk_skip)
qed

lemma proper_no_slash: "list_all proper cs \<Longrightarrow> \<forall>c \<in> set cs. CHR ''/'' \<notin> set c"
  by (auto simp: list_all_iff proper_def)

end
