(* ===== verification/Guard.thy ===== *)
theory Guard
  imports FileSystem Schema "HOL-Library.Multiset"
begin

text \<open>
  \<open>internal/storage/guard.go\<close>: the single door for writes to the file system. A guard is the list
  of its locations, longest root first; \<open>sort.Slice\<close> leaves the order of equally long roots open,
  so the theorems hold for every such order (\<open>guard_of\<close>). The canonical path of a clean path is
  computed on component lists (\<open>abs_path\<close> turns it into the string Go compares).
\<close>

record location =
  gl_id :: int
  gl_name :: string
  gl_root :: string
  gl_tier :: storage_tier
  gl_readonly :: bool
  gl_virtual :: bool

datatype guard_error =
    NotAbsolute
  | NoAncestor
  | SystemCall fs_error
  | ErrUnknownLocation string
  | ErrReadOnlyTier string string storage_tier
  | MissingId string string

type_synonym guard = "location list"

section \<open>Building a guard\<close>

definition buildSortedLocations :: "location list \<Rightarrow> guard" where
  "buildSortedLocations locs = sort_key (\<lambda>l. - int (length (gl_root l))) locs"

definition NewGuard :: "location list \<Rightarrow> guard" where
  "NewGuard locs = buildSortedLocations locs"

definition ReloadLocations :: "location list \<Rightarrow> guard \<Rightarrow> guard_error + guard" where
  "ReloadLocations locs g =
     (case find (\<lambda>l. gl_id l \<le> 0) locs of
        Some l \<Rightarrow> Inl (MissingId (gl_name l) (gl_root l))
      | None \<Rightarrow> Inr (buildSortedLocations locs))"

text \<open>One row of \<open>storage_locations\<close>; \<open>None\<close> when the location is skipped. Roots are absolute
  (\<open>config.Validate\<close>).\<close>

definition load_location :: "fs \<Rightarrow> storage_location \<Rightarrow> location option" where
  "load_location fs row =
     (if l_virtual row then
        let c = path_clean (l_root row)
        in if \<not> is_abs c then None
           else Some \<lparr>gl_id = l_id row, gl_name = l_name row, gl_root = c, gl_tier = l_tier row,
                      gl_readonly = True, gl_virtual = True\<rparr>
      else case EvalSymlinks fs (split_slash (l_root row)) of
             Inl _ \<Rightarrow> None
           | Inr q \<Rightarrow> Some \<lparr>gl_id = l_id row, gl_name = l_name row, gl_root = abs_path q, gl_tier = l_tier row,
                            gl_readonly = l_readonly row, gl_virtual = False\<rparr>)"

definition LoadGuard :: "fs \<Rightarrow> storage_location list \<Rightarrow> guard \<times> int list" where
  "LoadGuard fs rows =
     (NewGuard (List.map_filter (load_location fs) rows),
      map l_id (filter (\<lambda>r. load_location fs r = None) rows))"

section \<open>Resolving a path\<close>

definition under :: "string \<Rightarrow> location \<Rightarrow> bool" where
  "under p l \<longleftrightarrow> p = gl_root l \<or> has_prefix p (gl_root l @ ''/'')"

text \<open>The loop of \<open>canonicalize\<close>: \<open>cur\<close> is the path still to resolve, \<open>rest\<close> the names taken off it.\<close>

function canon :: "fs \<Rightarrow> string list \<Rightarrow> string list \<Rightarrow> guard_error + string list" where
  "canon fs cur rest =
     (case EvalSymlinks fs cur of
        Inr full \<Rightarrow> Inr (full @ rest)
      | Inl e \<Rightarrow>
          if e \<noteq> NotExist then Inl (SystemCall e)
          else if cur = [] then Inl NoAncestor
          else canon fs (butlast cur) (last cur # rest))"
  by pat_completeness auto

termination canon
  by (relation "measure (\<lambda>(fs, cur, rest). length cur)") auto

declare canon.simps [simp del]

definition canonicalize :: "fs \<Rightarrow> string \<Rightarrow> guard_error + string" where
  "canonicalize fs path =
     (let p = path_clean path
      in if \<not> is_abs p then Inl NotAbsolute
         else rbind (canon fs (clean_comps p) []) (\<lambda>full. Inr (abs_path full)))"

definition resolveCanonical :: "guard \<Rightarrow> fs \<Rightarrow> string \<Rightarrow> guard_error + (location \<times> string)" where
  "resolveCanonical g fs path =
     (let cleanPath = path_clean path
      in if \<not> is_abs cleanPath then Inl NotAbsolute
         else case find (\<lambda>l. gl_virtual l \<and> under cleanPath l) g of
           Some l \<Rightarrow> Inr (l, [])
         | None \<Rightarrow>
             rbind (canonicalize fs cleanPath) (\<lambda>cn.
               case find (\<lambda>l. \<not> gl_virtual l \<and> under cn l) g of
                 Some l \<Rightarrow> Inr (l, cn)
               | None \<Rightarrow> Inl (ErrUnknownLocation path)))"

definition Resolve :: "guard \<Rightarrow> fs \<Rightarrow> string \<Rightarrow> guard_error + location" where
  "Resolve g fs path = rbind (resolveCanonical g fs path) (\<lambda>(l, _). Inr l)"

definition CheckWrite :: "guard \<Rightarrow> fs \<Rightarrow> string \<Rightarrow> guard_error + unit" where
  "CheckWrite g fs path =
     rbind (Resolve g fs path) (\<lambda>l.
       if gl_readonly l then Inl (ErrReadOnlyTier path (gl_name l) (gl_tier l)) else Inr ())"

section \<open>Guarded operations\<close>

fun lift_os :: "fs_error + 'a \<Rightarrow> guard_error + 'a" where
  "lift_os (Inl e) = Inl (SystemCall e)"
| "lift_os (Inr x) = Inr x"

definition gate :: "guard \<Rightarrow> string \<Rightarrow> (fs \<Rightarrow> fs_error + fs) \<Rightarrow> fs \<Rightarrow> guard_error + fs" where
  "gate g path act fs = rbind (CheckWrite g fs path) (\<lambda>_. lift_os (act fs))"

definition Create :: "guard \<Rightarrow> string \<Rightarrow> fs \<Rightarrow> guard_error + fs" where
  "Create g path = gate g path (os_write path [])"

definition WriteFile :: "guard \<Rightarrow> string \<Rightarrow> string \<Rightarrow> fs \<Rightarrow> guard_error + fs" where
  "WriteFile g path bytes = gate g path (os_write path bytes)"

definition MkdirAll :: "guard \<Rightarrow> string \<Rightarrow> fs \<Rightarrow> guard_error + fs" where
  "MkdirAll g path = gate g path (os_mkdir_all path)"

definition Remove :: "guard \<Rightarrow> string \<Rightarrow> fs \<Rightarrow> guard_error + fs" where
  "Remove g path = gate g path (os_remove path)"

definition CreateExcl :: "guard \<Rightarrow> string \<Rightarrow> fs \<Rightarrow> guard_error + fs" where
  "CreateExcl g path = gate g path (os_create_excl path)"

definition Chtimes :: "guard \<Rightarrow> string \<Rightarrow> int \<Rightarrow> fs \<Rightarrow> guard_error + fs" where
  "Chtimes g path t = gate g path (os_chtimes path t)"

text \<open>\<open>OpenRead\<close> yields the real path of the file it opened, and its entry.\<close>

definition OpenRead :: "guard \<Rightarrow> string \<Rightarrow> fs \<Rightarrow> guard_error + (string list \<times> entry)" where
  "OpenRead g path fs =
     (case resolveCanonical g fs path of
        Inl (ErrUnknownLocation p) \<Rightarrow> Inl (ErrUnknownLocation p)
      | Inl e \<Rightarrow> (case os_lstat path fs of Inl e' \<Rightarrow> Inl (SystemCall e') | Inr _ \<Rightarrow> Inl e)
      | Inr (l, cn) \<Rightarrow> if gl_virtual l then Inl (SystemCall NotExist) else lift_os (os_open cn fs))"

definition Link :: "guard \<Rightarrow> string \<Rightarrow> string \<Rightarrow> fs \<Rightarrow> guard_error + fs" where
  "Link g old new fs =
     rbind (CheckWrite g fs new) (\<lambda>_. rbind (OpenRead g old fs) (\<lambda>_. lift_os (os_link old new fs)))"

definition Rename :: "guard \<Rightarrow> string \<Rightarrow> string \<Rightarrow> fs \<Rightarrow> guard_error + fs" where
  "Rename g old new fs =
     rbind (CheckWrite g fs old) (\<lambda>_. gate g new (os_rename old new) fs)"

definition Exists :: "guard \<Rightarrow> string \<Rightarrow> fs \<Rightarrow> guard_error + bool" where
  "Exists g path fs =
     rbind (Resolve g fs path) (\<lambda>l.
       if gl_virtual l then Inr False
       else rbind (canonicalize fs path) (\<lambda>cn.
         case os_open cn fs of
           Inr _ \<Rightarrow> Inr True
         | Inl e \<Rightarrow> if e = NotExist then Inr False else Inl (SystemCall e)))"

section \<open>Locations and component lists\<close>

text \<open>What \<open>LoadGuard\<close> builds: clean absolute roots below \<open>/\<close>, and virtual locations read-only.\<close>

definition wf_location :: "location \<Rightarrow> bool" where
  "wf_location l \<longleftrightarrow> (\<exists>rs. gl_root l = abs_path rs \<and> list_all proper rs \<and> rs \<noteq> []) \<and> (gl_virtual l \<longrightarrow> gl_readonly l)"

definition guard_of :: "location list \<Rightarrow> guard \<Rightarrow> bool" where
  "guard_of locs g \<longleftrightarrow> mset g = mset locs \<and> sorted_wrt (\<lambda>a b. length (gl_root b) \<le> length (gl_root a)) g \<and>
     (\<forall>l \<in> set locs. wf_location l)"

lemma has_prefix_iff: "has_prefix s p \<longleftrightarrow> prefix p s"
  by (induction s p rule: has_prefix.induct) auto

lemma join_slash_append: "xs \<noteq> [] \<Longrightarrow> ys \<noteq> [] \<Longrightarrow> join_slash (xs @ ys) = join_slash xs @ CHR ''/'' # join_slash ys"
  by (induction xs rule: join_slash.induct) (auto simp: neq_Nil_conv)

lemma abs_path_append: "rs \<noteq> [] \<Longrightarrow> ys \<noteq> [] \<Longrightarrow> abs_path (rs @ ys) = abs_path rs @ CHR ''/'' # join_slash ys"
  by (simp add: abs_path_def join_slash_append)

text \<open>The string test is the prefix order on component lists.\<close>

lemma abs_path_prefix:
  assumes "list_all proper rs" "list_all proper cs" "rs \<noteq> []"
  shows "abs_path cs = abs_path rs \<or> prefix (abs_path rs @ ''/'') (abs_path cs) \<longleftrightarrow> prefix rs cs"
proof
  assume "prefix rs cs"
  then obtain ys where "cs = rs @ ys" by (auto simp: prefix_def)
  then show "abs_path cs = abs_path rs \<or> prefix (abs_path rs @ ''/'') (abs_path cs)"
    using abs_path_append [OF assms(3), of ys] by (cases "ys = []") auto
next
  have split: "split_slash (x @ CHR ''/'' # y) = split_slash x @ split_slash y" for x y
    by (induction x) (auto split: list.splits)
  have comps: "split_slash (abs_path ds) = [] # ds" if "list_all proper ds" "ds \<noteq> []" for ds
    using that split_join [of ds] by (simp add: abs_path_def proper_def list_all_iff)
  assume "abs_path cs = abs_path rs \<or> prefix (abs_path rs @ ''/'') (abs_path cs)"
  then show "prefix rs cs"
  proof
    assume "abs_path cs = abs_path rs"
    then show ?thesis using assms abs_path_inject by auto
  next
    assume "prefix (abs_path rs @ ''/'') (abs_path cs)"
    then obtain z where z: "abs_path cs = abs_path rs @ CHR ''/'' # z" by (auto simp: prefix_def)
    have "cs \<noteq> []"
    proof
      assume "cs = []"
      with z show False by (simp add: abs_path_def)
    qed
    then have "[] # cs = ([] # rs) @ split_slash z"
      using arg_cong [OF z, of split_slash] assms by (simp add: split comps)
    then show ?thesis by simp
  qed
qed

end
