(* ===== verification/GuardProps.thy ===== *)
theory GuardProps
  imports Guard
begin

text \<open>
  What the guard guarantees. The path a check resolves is the path the system call acts on unless
  the last name is a symbolic link; so guarded writes stay in writable locations, for every
  sequence of operations. The two exceptions (a dangling link as target of a write, a link that is
  itself removed) are shown on concrete trees.
\<close>

section \<open>The canonical path is the path acted on\<close>

definition leaf_link :: "fs \<Rightarrow> string list \<Rightarrow> bool" where
  "leaf_link fs cs \<longleftrightarrow> cs \<noteq> [] \<and>
     (case EvalSymlinks fs (butlast cs) of Inl _ \<Rightarrow> False | Inr e \<Rightarrow> is_symlink (look fs (e @ [last cs])))"

lemma namei_walk: "namei m fs cs = Inr q \<Longrightarrow> \<exists>k. walk m fs 255 [] cs = Inr (q, k)"
  using walk_more_links [of m fs 40 "[]" cs 215]
  by (cases "walk m fs 40 [] cs"; cases "walk m fs 255 [] cs") (auto simp: namei_def)

lemma EvalSymlinks_walk: "EvalSymlinks fs cs = Inr e \<longleftrightarrow> (\<exists>k. walk Must fs 255 [] cs = Inr (e, k))"
  by (cases "walk Must fs 255 [] cs") (auto simp: EvalSymlinks_def)

lemma EvalSymlinks_fail: "EvalSymlinks fs cs = Inl x \<longleftrightarrow> walk Must fs 255 [] cs = Inl x"
  by (cases "walk Must fs 255 [] cs") (auto simp: EvalSymlinks_def)

lemma EvalSymlinks_Nil [simp]: "EvalSymlinks fs [] = Inr []"
  by (simp add: EvalSymlinks_def)

text \<open>One step into a real directory.\<close>

lemma walk_last:
  assumes "proper c" "\<not> is_symlink (look fs (e @ [c]))" "walk m fs k e [c] = Inr (q, j)"
  shows "q = e @ [c]"
  using assms(2,3) proper_named [OF assms(1)]
  by (cases "look fs (e @ [c])" rule: is_symlink.cases) (auto simp: walk_eqs split: if_splits)

lemma walk_snoc:
  assumes "walk m fs n [] (xs @ [c]) = Inr (q, j)" "list_all proper xs"
  obtains e k where "walk Must fs n [] xs = Inr (e, k)" "is_directory (look fs e)" "walk m fs k e [c] = Inr (q, j)"
  using assms walk_append [of "[c]" fs "[]" xs m n] proper_no_slash [of xs]
  by (auto split: sum.splits if_splits)

lemma canon_snoc: "canon fs (xs @ [c]) rest =
    (case EvalSymlinks fs (xs @ [c]) of
       Inr full \<Rightarrow> Inr (full @ rest)
     | Inl e \<Rightarrow> if e \<noteq> NotExist then Inl (SystemCall e) else canon fs xs (c # rest))"
  by (simp add: canon.simps split: sum.splits)

lemma canon_found: "EvalSymlinks fs cs = Inr e \<Longrightarrow> canon fs cs rest = Inr (e @ rest)"
  by (simp add: canon.simps)

lemma canon_rest: "canon fs cs rest = map_sum id (\<lambda>f. f @ rest) (canon fs cs [])"
proof (induction cs arbitrary: rest rule: rev_induct)
  case Nil
  then show ?case by (simp add: canon_found)
next
  case (snoc c xs)
  show ?case
  proof (cases "EvalSymlinks fs (xs @ [c]) = Inl NotExist")
    case True
    then have "canon fs (xs @ [c]) r = map_sum id (\<lambda>f. f @ c # r) (canon fs xs [])" for r
      using snoc [of "c # r"] by (simp add: canon_snoc id_def)
    then show ?thesis by (cases "canon fs xs []") auto
  next
    case False
    then show ?thesis by (auto simp: canon_snoc split: sum.splits)
  qed
qed

lemma canon_leaf:
  assumes "list_all proper cs" "canon fs cs [] = Inr full" "namei m fs cs = Inr q" "\<not> leaf_link fs cs"
  shows "q = full"
proof (cases cs rule: rev_cases)
  case Nil
  then show ?thesis using assms by (simp add: canon_found namei_def)
next
  case (snoc xs c)
  then have c: "list_all proper xs" "proper c" using assms(1) by auto
  obtain j where "walk m fs 255 [] (xs @ [c]) = Inr (q, j)" using namei_walk [OF assms(3)] snoc by blast
  then obtain e k where e: "walk Must fs 255 [] xs = Inr (e, k)" "is_directory (look fs e)" "walk m fs k e [c] = Inr (q, j)"
    using walk_snoc c(1) by metis
  have xs: "EvalSymlinks fs xs = Inr e" using e(1) EvalSymlinks_walk by blast
  then have link: "\<not> is_symlink (look fs (e @ [c]))" using assms(4) snoc by (simp add: leaf_link_def)
  have q: "q = e @ [c]" by (rule walk_last [OF c(2) link e(3)])
  have "walk Must fs 255 [] (xs @ [c]) = walk Must fs k e [c]"
    using walk_append [of "[c]" fs "[]" xs Must 255] e(1,2) proper_no_slash [OF c(1)] by simp
  moreover have "walk Must fs k e [c] = (if look fs (e @ [c]) = None then Inl NotExist else Inr (e @ [c], k))"
    using link proper_named [OF c(2)]
    by (cases "look fs (e @ [c])" rule: is_symlink.cases) (auto simp: walk_eqs)
  ultimately have "EvalSymlinks fs (xs @ [c]) = (if look fs (e @ [c]) = None then Inl NotExist else Inr (e @ [c]))"
    by (simp add: EvalSymlinks_def)
  then have "canon fs cs [] = Inr (e @ [c])"
    using canon_found [OF xs, of "[c]"] snoc by (simp add: canon_snoc)
  then show ?thesis using assms(2) q by simp
qed

text \<open>A path that has to exist needs no condition on its last name.\<close>

lemma canon_must: "canon fs cs [] = Inr full \<Longrightarrow> namei Must fs cs = Inr q \<Longrightarrow> q = full"
  using namei_walk [of Must fs cs q] canon_found [of fs cs q "[]"] by (auto simp: EvalSymlinks_walk)

lemma real_dir_proper: "real_dir fs d \<Longrightarrow> list_all proper d"
  by (simp add: real_dir_def)

lemma canon_proper: "list_all proper cs \<Longrightarrow> canon fs cs rest = Inr full \<Longrightarrow> list_all proper rest \<Longrightarrow> list_all proper full"
proof (induction cs arbitrary: rest rule: rev_induct)
  case Nil
  then show ?case by (simp add: canon_found)
next
  case (snoc c xs)
  have "list_all proper e" if e: "EvalSymlinks fs (xs @ [c]) = Inr e" for e
  proof -
    obtain k where "walk Must fs 255 [] (xs @ [c]) = Inr (e, k)" using e unfolding EvalSymlinks_walk by blast
    then show ?thesis
      using walk_real [OF _ real_dir_Nil proper_no_slash [OF snoc.prems(1)]] real_dir_proper by fastforce
  qed
  then show ?case using snoc by (auto simp: canon_snoc split: sum.splits if_splits)
qed

section \<open>Locations of a canonical path\<close>

definition zone :: "guard \<Rightarrow> string list \<Rightarrow> location option" where
  "zone g q = find (\<lambda>l. \<not> gl_virtual l \<and> under (abs_path q) l) g"

definition writable :: "guard \<Rightarrow> string list \<Rightarrow> bool" where
  "writable g q = (case zone g q of None \<Rightarrow> False | Some l \<Rightarrow> \<not> gl_readonly l)"

lemma writable_iff: "writable g q \<longleftrightarrow> (\<exists>l. zone g q = Some l \<and> \<not> gl_readonly l)"
  by (auto simp: writable_def split: option.splits)

lemma clean_resolve:
  assumes "list_all proper cs"
  shows "resolveCanonical g fs (abs_path cs) =
    (case find (\<lambda>l. gl_virtual l \<and> under (abs_path cs) l) g of
       Some l \<Rightarrow> Inr (l, [])
     | None \<Rightarrow> rbind (canon fs cs []) (\<lambda>full.
         case zone g full of
           Some l \<Rightarrow> Inr (l, abs_path full)
         | None \<Rightarrow> Inl (ErrUnknownLocation (abs_path cs))))"
  using assms
  by (cases "canon fs cs []")
    (auto simp: resolveCanonical_def canonicalize_def path_clean_abs clean_comps_abs_path zone_def split: option.splits)

definition virtual_readonly :: "guard \<Rightarrow> bool" where
  "virtual_readonly g \<longleftrightarrow> (\<forall>l \<in> set g. gl_virtual l \<longrightarrow> gl_readonly l)"

lemma CheckWrite_canon:
  assumes "CheckWrite g fs (abs_path cs) = Inr u" "list_all proper cs" "virtual_readonly g"
  obtains full where "canon fs cs [] = Inr full" "writable g full"
  using assms(1,3) find_Some_iff [of "\<lambda>l. gl_virtual l \<and> under (abs_path cs) l" g]
  unfolding CheckWrite_def Resolve_def clean_resolve [OF assms(2)] virtual_readonly_def
  by (cases "canon fs cs []") (auto simp: result_simps writable_iff split: option.splits if_splits)

section \<open>Operations change the paths they name\<close>

datatype write_op =
    OpCreate string
  | OpWrite string string
  | OpMkdirAll string
  | OpRemove string
  | OpExcl string
  | OpLink string string
  | OpRename string string
  | OpChtimes string int

fun run_op :: "guard \<Rightarrow> write_op \<Rightarrow> fs \<Rightarrow> guard_error + fs" where
  "run_op g (OpCreate p) fs = Create g p fs"
| "run_op g (OpWrite p b) fs = WriteFile g p b fs"
| "run_op g (OpMkdirAll p) fs = MkdirAll g p fs"
| "run_op g (OpRemove p) fs = Remove g p fs"
| "run_op g (OpExcl p) fs = CreateExcl g p fs"
| "run_op g (OpLink p q) fs = Link g p q fs"
| "run_op g (OpRename p q) fs = Rename g p q fs"
| "run_op g (OpChtimes p t) fs = Chtimes g p t fs"

text \<open>The paths an operation may change, as the caller names them.\<close>

fun written_paths :: "write_op \<Rightarrow> string list" where
  "written_paths (OpCreate p) = [p]"
| "written_paths (OpWrite p b) = [p]"
| "written_paths (OpMkdirAll p) = [p]"
| "written_paths (OpRemove p) = [p]"
| "written_paths (OpExcl p) = [p]"
| "written_paths (OpLink p q) = [q]"
| "written_paths (OpRename p q) = [p, q]"
| "written_paths (OpChtimes p t) = [p]"

text \<open>The condition of the containment theorem: paths are clean and their last name is not a link
  (which the two counterexamples below need), and a renamed source is not a directory, whose
  subtree may reach into another location.\<close>

definition plain :: "fs \<Rightarrow> string \<Rightarrow> bool" where
  "plain fs p \<longleftrightarrow> clean p \<and> \<not> leaf_link fs (clean_comps p)"

fun moves_directory :: "fs \<Rightarrow> write_op \<Rightarrow> bool" where
  "moves_directory fs (OpRename p q) =
     (case namei NoFollow fs (split_slash p) of Inl _ \<Rightarrow> False | Inr po \<Rightarrow> is_directory (look fs po))"
| "moves_directory fs op = False"

definition plain_op :: "fs \<Rightarrow> write_op \<Rightarrow> bool" where
  "plain_op fs op \<longleftrightarrow> list_all (plain fs) (written_paths op) \<and> \<not> moves_directory fs op"

definition changes_only :: "(string list \<Rightarrow> bool) \<Rightarrow> fs \<Rightarrow> fs \<Rightarrow> bool" where
  "changes_only P fs fs' \<longleftrightarrow> (\<forall>q. look fs' q \<noteq> look fs q \<longrightarrow> P q)"

lemma changes_only_refl [simp]: "changes_only P fs fs"
  by (simp add: changes_only_def)

lemma changes_only_put: "p \<noteq> [] \<Longrightarrow> P p \<Longrightarrow> changes_only P fs (put p e fs)"
  by (simp add: changes_only_def look_put)

lemma changes_only_cut: "p \<noteq> [] \<Longrightarrow> P p \<Longrightarrow> changes_only P fs (cut p fs)"
  by (simp add: changes_only_def look_cut)

lemma changes_only_trans: "changes_only P fs fs' \<Longrightarrow> changes_only P fs' fs'' \<Longrightarrow> changes_only P fs fs''"
  unfolding changes_only_def by metis

lemma namei_abs_path: "list_all proper cs \<Longrightarrow> namei m fs (split_slash (abs_path cs)) = namei m fs cs"
  by (simp add: namei_def walk_abs_path)

lemma plainE:
  assumes "plain fs p"
  obtains cs where "p = abs_path cs" "list_all proper cs" "\<not> leaf_link fs cs"
  using assms clean_comps_abs_path by (auto simp: plain_def elim!: cleanE)

text \<open>Where a checked plain path leads, the write is permitted.\<close>

lemma checked_target:
  assumes "CheckWrite g fs p = Inr u" "plain fs p" "virtual_readonly g" "namei m fs (split_slash p) = Inr q"
  shows "writable g q"
proof -
  obtain cs where cs: "p = abs_path cs" "list_all proper cs" "\<not> leaf_link fs cs" using assms(2) by (rule plainE)
  obtain full where full: "canon fs cs [] = Inr full" "writable g full"
    using CheckWrite_canon assms(1,3) cs(1,2) by metis
  have "q = full"
    using canon_leaf [OF cs(2) full(1) _ cs(3)] assms(4) unfolding cs(1) namei_abs_path [OF cs(2)] by blast
  then show ?thesis using full(2) by simp
qed

lemma look_root: "look fs [] = Some (Directory 0 0)"
  by (simp add: look_def)

lemma gate_Inr: "gate g p act fs = Inr fs' \<longleftrightarrow> CheckWrite g fs p = Inr () \<and> act fs = Inr fs'"
  by (cases "act fs") (auto simp: gate_def result_simps)

lemma lift_os_Inr: "lift_os r = Inr x \<longleftrightarrow> r = Inr x"
  by (cases r) auto

lemma os_write_changes:
  "os_write p b fs = Inr fs' \<Longrightarrow> \<exists>q. namei MayCreate fs (split_slash p) = Inr q \<and> changes_only ((=) q) fs fs'"
  by (cases "namei MayCreate fs (split_slash p)")
    (auto simp: os_write_def result_simps look_root intro!: changes_only_put split: if_splits)

lemma os_create_excl_changes:
  "os_create_excl p fs = Inr fs' \<Longrightarrow> \<exists>q. namei NoFollow fs (split_slash p) = Inr q \<and> changes_only ((=) q) fs fs'"
  by (cases "namei NoFollow fs (split_slash p)")
    (auto simp: os_create_excl_def result_simps look_root intro!: changes_only_put split: if_splits)

lemma os_remove_changes:
  "os_remove p fs = Inr fs' \<Longrightarrow> \<exists>q. namei NoFollow fs (split_slash p) = Inr q \<and> changes_only ((=) q) fs fs'"
  by (cases "namei NoFollow fs (split_slash p)")
    (auto simp: os_remove_def result_simps intro!: changes_only_cut split: if_splits)

lemma os_chtimes_changes:
  "os_chtimes p t fs = Inr fs' \<Longrightarrow> \<exists>q. namei Must fs (split_slash p) = Inr q \<and> changes_only ((=) q) fs fs'"
  by (cases "namei Must fs (split_slash p)")
    (auto simp: os_chtimes_def result_simps intro!: changes_only_put split: option.splits if_splits)

lemma os_link_changes:
  assumes "os_link p q fs = Inr fs'"
  shows "\<exists>r. namei NoFollow fs (split_slash q) = Inr r \<and> changes_only ((=) r) fs fs'"
proof -
  obtain po pn where n: "namei NoFollow fs (split_slash p) = Inr po" "namei NoFollow fs (split_slash q) = Inr pn"
    using assms by (auto simp: os_link_def result_simps)
  then obtain e where e: "look fs po = Some e" using assms by (cases "look fs po") (auto simp: os_link_def)
  with assms n have "look fs pn = None" "fs' = put pn e fs"
    by (cases e; auto simp: os_link_def split: if_splits)+
  moreover from this have "pn \<noteq> []" by (auto simp: look_root)
  ultimately show ?thesis using n(2) by (auto intro: changes_only_put)
qed

lemma os_rename_changes:
  assumes "os_rename p q fs = Inr fs'" "namei NoFollow fs (split_slash p) = Inr po" "\<not> is_directory (look fs po)"
  shows "\<exists>pn. namei NoFollow fs (split_slash q) = Inr pn \<and> changes_only (\<lambda>r. r = po \<or> r = pn) fs fs'"
proof -
  obtain pn where n: "namei NoFollow fs (split_slash q) = Inr pn" "\<not> is_directory (look fs pn)"
    using assms by (cases "namei NoFollow fs (split_slash q)") (auto simp: os_rename_def split: if_splits)
  then obtain e where e: "look fs po = Some e" using assms by (cases "look fs po") (auto simp: os_rename_def)
  with assms n have fs': "fs' = (if po = pn then fs else put pn e (cut po fs))"
    by (cases e) (auto simp: os_rename_def)
  have "po \<noteq> []" "pn \<noteq> []" using assms(3) n(2) by (auto simp: look_root)
  then have "changes_only (\<lambda>r. r = po \<or> r = pn) (cut po fs) (put pn e (cut po fs))"
    "changes_only (\<lambda>r. r = po \<or> r = pn) fs (cut po fs)"
    by (auto intro: changes_only_put changes_only_cut)
  then show ?thesis using n(1) fs' by (auto intro: changes_only_trans)
qed

section \<open>\<open>MkdirAll\<close>\<close>

text \<open>Creating an entry does not disturb a walk that succeeded without it.\<close>

lemma walk_put_new:
  "walk Must fs n d cs = Inr r \<Longrightarrow> p \<noteq> [] \<Longrightarrow> look fs p = None \<Longrightarrow> walk Must (put p e fs) n d cs = Inr r"
proof (induction n d cs rule: walk_cases [where m = Must and fs = fs])
  case (Dir n d c cs t z)
  moreover from this have "look (put p e fs) (d @ [c]) = Some (Directory t z)" by (auto simp: look_put)
  ultimately show ?case by (simp add: walk_directory)
next
  case (File n d c cs t b)
  moreover from this have "look (put p e fs) (d @ [c]) = Some (Regular t b)" by (auto simp: look_put)
  ultimately show ?case by (simp add: walk_regular)
next
  case (NoLinks d c cs t z)
  then show ?case by (simp add: walk_link)
next
  case (Link n d c cs t z)
  moreover from this have "look (put p e fs) (d @ [c]) = Some (Symlink z t)" by (auto simp: look_put)
  ultimately show ?case by (auto simp: walk_link)
qed (auto simp: walk_eqs)

lemma walk_exists:
  assumes "walk Must fs n [] cs = Inr (q, k)" "list_all proper cs"
  shows "look fs q \<noteq> None"
  using walk_real [OF assms(1) real_dir_Nil proper_no_slash [OF assms(2)]]
proof
  assume "real_dir fs q"
  then have "is_directory (look fs (take (length q) q))" unfolding real_dir_def by blast
  then show ?thesis by (cases "look fs q") auto
qed auto

text \<open>The canonical path of a name in a directory whose canonical path is known.\<close>

lemma canon_extend:
  assumes "canon fs xs [] = Inr full" "list_all proper xs" "proper c"
    and "look fs full \<noteq> None \<Longrightarrow> is_directory (look fs full)" "\<not> is_symlink (look fs (full @ [c]))"
  shows "canon fs (xs @ [c]) [] = Inr (full @ [c])"
proof (cases "EvalSymlinks fs xs")
  case (Inr e)
  then have e: "e = full" using assms(1) canon_found by force
  obtain k where k: "walk Must fs 255 [] xs = Inr (full, k)" using Inr unfolding e EvalSymlinks_walk by blast
  then have "is_directory (look fs full)" using walk_exists assms(2,4) by blast
  then have "walk Must fs 255 [] (xs @ [c]) = walk Must fs k full [c]"
    using walk_append [of "[c]" fs "[]" xs Must 255] k proper_no_slash [OF assms(2)] by simp
  moreover have "walk Must fs k full [c] = (if look fs (full @ [c]) = None then Inl NotExist else Inr (full @ [c], k))"
    using assms(5) proper_named [OF assms(3)]
    by (cases "look fs (full @ [c])" rule: is_symlink.cases) (auto simp: walk_eqs)
  ultimately have "EvalSymlinks fs (xs @ [c]) = (if look fs (full @ [c]) = None then Inl NotExist else Inr (full @ [c]))"
    by (simp add: EvalSymlinks_def)
  then show ?thesis using canon_found [OF Inr, of "[c]"] e by (simp add: canon_snoc)
next
  case (Inl err)
  then have "err = NotExist" using assms(1) canon.simps [of fs xs "[]"] by (auto split: if_splits)
  moreover have "walk Must fs 255 [] (xs @ [c]) = Inl err"
    using Inl walk_append [of "[c]" fs "[]" xs Must 255] proper_no_slash [OF assms(2)] by (simp add: EvalSymlinks_fail)
  ultimately have "EvalSymlinks fs (xs @ [c]) = Inl NotExist" by (simp add: EvalSymlinks_fail)
  then show ?thesis using canon_rest [of fs xs "[c]"] assms(1) by (simp add: canon_snoc)
qed

lemma namei_extend:
  assumes "namei Must fs xs = Inr full" "is_directory (look fs full)" "list_all proper xs" "proper c"
  shows "m = NoFollow \<or> is_directory (look fs (full @ [c])) \<Longrightarrow> m \<noteq> Must \<or> look fs (full @ [c]) \<noteq> None \<Longrightarrow>
    namei m fs (xs @ [c]) = Inr (full @ [c])"
proof -
  assume m: "m = NoFollow \<or> is_directory (look fs (full @ [c]))" "m \<noteq> Must \<or> look fs (full @ [c]) \<noteq> None"
  obtain k where k: "walk Must fs 40 [] xs = Inr (full, k)"
    using assms(1) by (cases "walk Must fs 40 [] xs") (auto simp: namei_def)
  then have "walk m fs 40 [] (xs @ [c]) = walk m fs k full [c]"
    using walk_append [of "[c]" fs "[]" xs m 40] assms(2) proper_no_slash [OF assms(3)] by simp
  moreover have "walk m fs k full [c] = Inr (full @ [c], k)"
  proof (cases "look fs (full @ [c])")
    case None
    then show ?thesis using m proper_named [OF assms(4)] by (simp add: walk_missing)
  next
    case (Some e)
    then show ?thesis using m proper_named [OF assms(4)] by (cases e) (auto simp: walk_eqs)
  qed
  ultimately show ?thesis by (simp add: namei_def)
qed

text \<open>Every directory it makes lies on the canonical path, which is a directory afterwards.\<close>

lemma mkdir_all_names_result:
  "mkdir_all_names cs fs = Inr fs' \<Longrightarrow> list_all proper cs \<Longrightarrow>
   \<exists>full. canon fs cs [] = Inr full \<and> namei Must fs' cs = Inr full \<and> is_directory (look fs' full) \<and>
     changes_only (\<lambda>p. prefix p full \<and> look fs p = None) fs fs'"
proof (induction cs arbitrary: fs' rule: rev_induct)
  case Nil
  then have "fs' = fs" by (simp add: mkdir_all_names.simps namei_def look_root)
  then show ?case by (simp add: canon_found namei_def look_root)
next
  case (snoc c xs)
  note prems = snoc.prems(1) [unfolded mkdir_all_names.simps [of "xs @ [c]"]]
  have c: "list_all proper xs" "proper c" using snoc.prems(2) by auto
  show ?case
  proof (cases "namei Must fs (xs @ [c])")
    case (Inr q)
    then have "fs' = fs" "is_directory (look fs q)" using prems by (auto split: if_splits)
    moreover obtain k where "walk Must fs 255 [] (xs @ [c]) = Inr (q, k)" using namei_walk [OF Inr] by blast
    then have "canon fs (xs @ [c]) [] = Inr q" using canon_found [of fs "xs @ [c]" q "[]"] EvalSymlinks_walk by auto
    ultimately show ?thesis using Inr by auto
  next
    case (Inl err)
    then obtain fs1 where fs1: "mkdir_all_names xs fs = Inr fs1"
      and step: "(case mkdir_names (xs @ [c]) fs1 of
        Inr fs'' \<Rightarrow> Inr fs''
      | Inl err \<Rightarrow> if is_directory (lstat_names (xs @ [c]) fs1) then Inr fs1 else Inl err) = Inr fs'"
      using prems unfolding result_simps by (auto simp: rbind_eq_Inr)
    have step: "mkdir_names (xs @ [c]) fs1 = Inr fs' \<or> fs' = fs1 \<and> is_directory (lstat_names (xs @ [c]) fs1)"
      using step by (cases "mkdir_names (xs @ [c]) fs1") (auto split: if_splits)
    obtain full where full: "canon fs xs [] = Inr full" "namei Must fs1 xs = Inr full" "is_directory (look fs1 full)"
      "changes_only (\<lambda>p. prefix p full \<and> look fs p = None) fs fs1"
      using snoc.IH [OF fs1 c(1)] by blast
    let ?q = "full @ [c]"
    have new: "namei NoFollow fs1 (xs @ [c]) = Inr ?q" using namei_extend [OF full(2,3) c] by simp
    then have fs': "fs' = put ?q (Directory (fs_now fs1) 0) fs1 \<and> look fs1 ?q = None \<or> fs' = fs1 \<and> is_directory (look fs1 ?q)"
      using step by (auto simp: mkdir_names_def lstat_names_def split: if_splits)
    have old: "look fs p = look fs1 p" if "look fs p \<noteq> None" for p
      using full(4) that unfolding changes_only_def by metis
    have "\<not> is_symlink (look fs1 ?q)"
      using fs' by (cases "look fs1 ?q" rule: is_symlink.cases) auto
    then have "\<not> is_symlink (look fs ?q)"
      using old [of ?q] by (cases "look fs ?q") auto
    moreover have "is_directory (look fs full)" if "look fs full \<noteq> None" using old [OF that] full(3) by simp
    ultimately have canon: "canon fs (xs @ [c]) [] = Inr ?q" using canon_extend [OF full(1) c] by blast
    have dir: "is_directory (look fs' ?q)" using fs' by (auto simp: look_put)
    have "namei Must fs' xs = Inr full" "is_directory (look fs' full)"
    proof -
      obtain k where "walk Must fs1 40 [] xs = Inr (full, k)"
        using full(2) by (cases "walk Must fs1 40 [] xs") (auto simp: namei_def)
      then have "walk Must fs' 40 [] xs = Inr (full, k)" using fs' walk_put_new by fastforce
      then show "namei Must fs' xs = Inr full" by (simp add: namei_def)
      show "is_directory (look fs' full)" using full(3) fs' by (auto simp: look_put)
    qed
    moreover have "look fs' ?q \<noteq> None" using dir by (cases "look fs' ?q") auto
    ultimately have "namei Must fs' (xs @ [c]) = Inr ?q"
      using namei_extend [of fs' xs full c Must] c dir by simp
    moreover have "changes_only (\<lambda>p. prefix p ?q \<and> look fs p = None) fs fs'"
    proof -
      have "changes_only (\<lambda>p. prefix p ?q \<and> look fs p = None) fs fs1"
        using full(4) unfolding changes_only_def by auto
      moreover have "look fs ?q = None" if "look fs1 ?q = None" using old [of ?q] that by metis
      ultimately show ?thesis
        using fs' unfolding changes_only_def by (auto simp: look_put split: if_splits)
    qed
    ultimately show ?thesis using canon dir by blast
  qed
qed

section \<open>Containment\<close>

text \<open>The roots of the physical locations are directories, as they were when the guard was loaded.\<close>

definition roots_present :: "guard \<Rightarrow> fs \<Rightarrow> bool" where
  "roots_present g fs \<longleftrightarrow> (\<forall>l \<in> set g. gl_virtual l \<or> real_dir fs (clean_comps (gl_root l)))"

definition wf_guard :: "guard \<Rightarrow> bool" where
  "wf_guard g \<longleftrightarrow> (\<forall>l \<in> set g. wf_location l)"

lemma wf_guard_virtual: "wf_guard g \<Longrightarrow> virtual_readonly g"
  by (auto simp: wf_guard_def wf_location_def virtual_readonly_def)

lemma under_prefix:
  assumes "wf_location l" "list_all proper q"
  shows "under (abs_path q) l \<longleftrightarrow> prefix (clean_comps (gl_root l)) q"
proof -
  obtain rs where rs: "gl_root l = abs_path rs" "list_all proper rs" "rs \<noteq> []" using assms(1) by (auto simp: wf_location_def)
  then show ?thesis
    using abs_path_prefix [OF rs(2) assms(2) rs(3)] by (simp add: under_def has_prefix_iff clean_comps_abs_path)
qed

text \<open>A path between a location's root and a path of the location belongs to the location.\<close>

lemma find_first_same:
  "find P xs = Some x \<Longrightarrow> Q x \<Longrightarrow> (\<And>y. y \<in> set xs \<Longrightarrow> Q y \<Longrightarrow> P y) \<Longrightarrow> find Q xs = Some x"
  by (induction xs) (auto split: if_splits)

lemma zone_between:
  assumes "wf_guard g" "zone g q = Some l" "list_all proper q" "prefix p q" "prefix (clean_comps (gl_root l)) p"
  shows "zone g p = Some l"
proof -
  have p: "list_all proper p" using assms(3,4) by (auto simp: prefix_def)
  have l: "l \<in> set g" "\<not> gl_virtual l"
    using assms(2) find_Some_iff [of "\<lambda>l. \<not> gl_virtual l \<and> under (abs_path q) l" g l] by (auto simp: zone_def)
  have wf: "wf_location y" if "y \<in> set g" for y using assms(1) that by (simp add: wf_guard_def)
  show ?thesis unfolding zone_def
  proof (rule find_first_same [OF assms(2) [unfolded zone_def]])
    show "\<not> gl_virtual l \<and> under (abs_path p) l" using l wf assms(5) under_prefix p by simp
  next
    fix y assume "y \<in> set g" "\<not> gl_virtual y \<and> under (abs_path p) y"
    then show "\<not> gl_virtual y \<and> under (abs_path q) y"
      using wf under_prefix p assms(3,4) by (auto intro: prefix_order.trans)
  qed
qed

lemma zone_Some:
  assumes "wf_guard g" "zone g q = Some l" "list_all proper q"
  shows "l \<in> set g" "\<not> gl_virtual l" "prefix (clean_comps (gl_root l)) q"
proof -
  show l: "l \<in> set g" "\<not> gl_virtual l"
    using assms(2) find_Some_iff [of "\<lambda>l. \<not> gl_virtual l \<and> under (abs_path q) l" g l] by (auto simp: zone_def)
  have "under (abs_path q) l"
    using assms(2) find_Some_iff [of "\<lambda>l. \<not> gl_virtual l \<and> under (abs_path q) l" g l] by (auto simp: zone_def)
  then show "prefix (clean_comps (gl_root l)) q"
    using under_prefix assms(1,3) l(1) by (simp add: wf_guard_def)
qed

lemma mkdir_all_contained:
  assumes "CheckWrite g fs p = Inr u" "clean p" "wf_guard g" "roots_present g fs" "os_mkdir_all p fs = Inr fs'"
  shows "changes_only (writable g) fs fs'"
proof -
  obtain cs where cs: "p = abs_path cs" "list_all proper cs" using assms(2) by (rule cleanE)
  obtain full where full: "canon fs cs [] = Inr full" "writable g full"
    using CheckWrite_canon assms(1) cs wf_guard_virtual [OF assms(3)] by metis
  have "filter (\<lambda>c. c \<noteq> []) (split_slash p) = cs"
  proof (cases "cs = []")
    case True
    then show ?thesis by (simp add: cs abs_path_def)
  next
    case False
    then have "split_slash p = [] # cs"
      using cs split_join [of cs] by (simp add: abs_path_def proper_def list_all_iff)
    moreover have "filter (\<lambda>c. c \<noteq> []) cs = cs"
      using cs(2) by (induction cs) (auto simp: proper_def)
    ultimately show ?thesis by simp
  qed
  then have "mkdir_all_names cs fs = Inr fs'" using assms(5) by (simp add: os_mkdir_all_def)
  then have ch: "changes_only (\<lambda>q. prefix q full \<and> look fs q = None) fs fs'"
    using mkdir_all_names_result [OF _ cs(2)] full(1) by fastforce
  obtain l where l: "zone g full = Some l" "\<not> gl_readonly l" using full(2) by (auto simp: writable_iff)
  have fp: "list_all proper full" using canon_proper [OF cs(2) full(1)] by simp
  note z = zone_Some [OF assms(3) l(1) fp]
  have "writable g q" if q: "prefix q full" "look fs q = None" for q
  proof -
    let ?r = "clean_comps (gl_root l)"
    have "real_dir fs ?r" using assms(4) z by (auto simp: roots_present_def)
    have "prefix ?r q"
    proof (rule ccontr)
      assume "\<not> prefix ?r q"
      then have "prefix q ?r" using prefix_same_cases [OF z(3) q(1)] by blast
      then have "q = take (length q) ?r" "length q \<le> length ?r" by (auto simp: prefix_def)
      then have "is_directory (look fs q)" using \<open>real_dir fs ?r\<close> unfolding real_dir_def by metis
      then show False using q(2) by simp
    qed
    then show ?thesis using zone_between [OF assms(3) l(1) fp q(1)] l(2) by (auto simp: writable_iff)
  qed
  then show ?thesis using ch unfolding changes_only_def by blast
qed

lemma changes_only_eq: "changes_only ((=) q) fs fs' \<Longrightarrow> P q \<Longrightarrow> changes_only P fs fs'"
  unfolding changes_only_def by metis

fun makes_directories :: "write_op \<Rightarrow> bool" where
  "makes_directories (OpMkdirAll p) = True"
| "makes_directories op = False"

lemma run_op_contained:
  assumes "run_op g op fs = Inr fs'" "plain_op fs op" "wf_guard g" "makes_directories op \<Longrightarrow> roots_present g fs"
  shows "changes_only (writable g) fs fs'"
proof -
  note virt = wf_guard_virtual [OF assms(3)]
  note ok = checked_target [OF _ _ virt]
  show ?thesis
  proof (cases op)
    case (OpCreate p)
    then have "CheckWrite g fs p = Inr ()" "os_write p [] fs = Inr fs'" "plain fs p"
      using assms by (simp_all add: Create_def gate_Inr plain_op_def)
    then show ?thesis using os_write_changes [of p "[]" fs fs'] ok changes_only_eq by metis
  next
    case (OpWrite p b)
    then have "CheckWrite g fs p = Inr ()" "os_write p b fs = Inr fs'" "plain fs p"
      using assms by (simp_all add: WriteFile_def gate_Inr plain_op_def)
    then show ?thesis using os_write_changes [of p b fs fs'] ok changes_only_eq by metis
  next
    case (OpMkdirAll p)
    then have "CheckWrite g fs p = Inr ()" "os_mkdir_all p fs = Inr fs'" "clean p"
      using assms by (simp_all add: MkdirAll_def gate_Inr plain_op_def plain_def)
    then show ?thesis using mkdir_all_contained assms(3) assms(4) OpMkdirAll by simp
  next
    case (OpRemove p)
    then have "CheckWrite g fs p = Inr ()" "os_remove p fs = Inr fs'" "plain fs p"
      using assms by (simp_all add: Remove_def gate_Inr plain_op_def)
    then show ?thesis using os_remove_changes [of p fs fs'] ok changes_only_eq by metis
  next
    case (OpExcl p)
    then have "CheckWrite g fs p = Inr ()" "os_create_excl p fs = Inr fs'" "plain fs p"
      using assms by (simp_all add: CreateExcl_def gate_Inr plain_op_def)
    then show ?thesis using os_create_excl_changes [of p fs fs'] ok changes_only_eq by metis
  next
    case (OpLink p q)
    then have "CheckWrite g fs q = Inr ()" "os_link p q fs = Inr fs'" "plain fs q"
      using assms by (auto simp: Link_def result_simps lift_os_Inr plain_op_def)
    then show ?thesis using os_link_changes [of p q fs fs'] ok changes_only_eq by metis
  next
    case (OpRename p q)
    then have c: "CheckWrite g fs p = Inr ()" "CheckWrite g fs q = Inr ()" "os_rename p q fs = Inr fs'"
      "plain fs p" "plain fs q" "\<not> moves_directory fs op"
      using assms by (auto simp: Rename_def result_simps gate_Inr plain_op_def)
    then obtain po where po: "namei NoFollow fs (split_slash p) = Inr po" by (auto simp: os_rename_def result_simps)
    then have "\<not> is_directory (look fs po)" using c(6) OpRename by simp
    then obtain pn where pn: "namei NoFollow fs (split_slash q) = Inr pn" "changes_only (\<lambda>r. r = po \<or> r = pn) fs fs'"
      using os_rename_changes [OF c(3) po] by blast
    then show ?thesis using ok [OF c(1,4) po] ok [OF c(2,5) pn(1)] unfolding changes_only_def by metis
  next
    case (OpChtimes p t)
    then have "CheckWrite g fs p = Inr ()" "os_chtimes p t fs = Inr fs'" "plain fs p"
      using assms by (simp_all add: Chtimes_def gate_Inr plain_op_def)
    then show ?thesis using os_chtimes_changes [of p t fs fs'] ok changes_only_eq by metis
  qed
qed

section \<open>Sequences of operations\<close>

text \<open>An operation that fails leaves the tree as it was; its caller may go on.\<close>

definition next_fs :: "guard \<Rightarrow> write_op \<Rightarrow> fs \<Rightarrow> fs" where
  "next_fs g op fs = (case run_op g op fs of Inl _ \<Rightarrow> fs | Inr fs' \<Rightarrow> fs')"

fun run_ops :: "guard \<Rightarrow> write_op list \<Rightarrow> fs \<Rightarrow> fs" where
  "run_ops g [] fs = fs"
| "run_ops g (op # ops) fs = run_ops g ops (next_fs g op fs)"

text \<open>
  The runs that stay contained. Every operation gets clean paths whose last name is not a symbolic link,
  none renames a directory (a location nested in it would move along), and directories are made only
  while the root of every location exists (\<open>MkdirAll\<close> would also make the missing directories above a
  missing root, which belong to no location or to another one).
\<close>

fun plain_run :: "guard \<Rightarrow> write_op list \<Rightarrow> fs \<Rightarrow> bool" where
  "plain_run g [] fs = True"
| "plain_run g (op # ops) fs \<longleftrightarrow> plain_op fs op \<and> (makes_directories op \<longrightarrow> roots_present g fs) \<and> plain_run g ops (next_fs g op fs)"

lemma run_ops_contained: "wf_guard g \<Longrightarrow> plain_run g ops fs \<Longrightarrow> changes_only (writable g) fs (run_ops g ops fs)"
proof (induction ops arbitrary: fs)
  case Nil
  then show ?case by simp
next
  case (Cons op ops)
  have "changes_only (writable g) fs (next_fs g op fs)"
    using run_op_contained [of g op fs] Cons.prems by (auto simp: next_fs_def split: sum.splits)
  then show ?case using Cons changes_only_trans by fastforce
qed

text \<open>C28. Guarded writes stay in writable locations: nothing changes at a path of a read-only location or of
  no location at all, however the directories on the way are linked, in any sequence of guarded
  operations that keeps to three conditions: the paths are clean and their last name is not a symbolic
  link; no directory is renamed (files may be); and directories are made only while the root directory
  of every location exists. Each condition is needed (\<open>guard_gaps\<close>, \<open>guard_directory_gaps\<close>).\<close>

theorem guarded_writes_contained:
  assumes "wf_guard g" "plain_run g ops fs" "\<not> writable g q"
  shows "look (run_ops g ops fs) q = look fs q"
  using run_ops_contained [OF assms(1,2)] assms(3) unfolding changes_only_def by blast

section \<open>The location a path resolves to\<close>

lemma find_longest:
  assumes "sorted_wrt (\<lambda>a b. length (gl_root b) \<le> length (gl_root a)) g" "find P g = Some l"
  shows "l \<in> set g \<and> P l \<and> (\<forall>y \<in> set g. P y \<longrightarrow> length (gl_root y) \<le> length (gl_root l))"
  using assms
proof (induction g)
  case Nil
  then show ?case by simp
next
  case (Cons x g)
  then show ?case by (cases "P x") auto
qed

lemma same_root_length: "under p l \<Longrightarrow> under p l' \<Longrightarrow> length (gl_root l) = length (gl_root l') \<Longrightarrow> gl_root l = gl_root l'"
proof -
  have take: "take (length (gl_root l)) p = gl_root l" if "under p l" for l :: location
    using that unfolding under_def has_prefix_iff by (auto simp: prefix_def)
  assume "under p l" "under p l'" "length (gl_root l) = length (gl_root l')"
  then show "gl_root l = gl_root l'" using take by metis
qed

lemma find_order_free:
  assumes "guard_of locs g" "guard_of locs g'" "inj_on gl_root (set locs)" "\<And>l. P l \<Longrightarrow> under p l"
  shows "find P g = find P g'"
proof -
  have sets: "set g = set locs" "set g' = set locs" using assms(1,2) by (auto simp: guard_of_def dest: mset_eq_setD)
  have srt: "sorted_wrt (\<lambda>a b. length (gl_root b) \<le> length (gl_root a)) g"
    "sorted_wrt (\<lambda>a b. length (gl_root b) \<le> length (gl_root a)) g'" using assms(1,2) by (simp_all add: guard_of_def)
  show ?thesis
  proof (cases "find P g")
    case None
    then show ?thesis using sets by (metis find_None_iff)
  next
    case (Some l)
    then obtain l' where l': "find P g' = Some l'" using sets by (metis find_None_iff option.exhaust)
    note a = find_longest [OF srt(1) Some] and b = find_longest [OF srt(2) l']
    then have "length (gl_root l) = length (gl_root l')" using sets by (simp add: eq_iff)
    then have "gl_root l = gl_root l'" using a b assms(4) same_root_length by blast
    then have "l = l'" using assms(3) a b sets by (auto dest: inj_onD)
    then show ?thesis using Some l' by simp
  qed
qed

text \<open>\<open>sort.Slice\<close> is not stable, but the location a path resolves to does not depend on the order it
  leaves equally long roots in: two guards over the same locations with different roots agree on
  every path, errors included.\<close>

theorem resolve_order_independent:
  assumes "guard_of locs g" "guard_of locs g'" "inj_on gl_root (set locs)"
  shows "resolveCanonical g fs p = resolveCanonical g' fs p"
proof -
  have same: "find (\<lambda>l. gl_virtual l \<and> under c l) g = find (\<lambda>l. gl_virtual l \<and> under c l) g'"
    "find (\<lambda>l. \<not> gl_virtual l \<and> under c l) g = find (\<lambda>l. \<not> gl_virtual l \<and> under c l) g'" for c
    by (rule find_order_free [OF assms, where p = c]; simp)+
  show ?thesis unfolding resolveCanonical_def same by (rule refl)
qed

text \<open>A path on disk resolves to the most specific location: the one its canonical path lies in whose
  root extends the root of every other physical location the canonical path lies in.\<close>

theorem resolve_most_specific:
  assumes "guard_of locs g" "resolveCanonical g fs p = Inr (l, cn)" "\<not> gl_virtual l"
  shows "l \<in> set locs \<and> under cn l \<and>
    (\<forall>l' \<in> set locs. \<not> gl_virtual l' \<and> under cn l' \<longrightarrow> prefix (gl_root l') (gl_root l))"
proof -
  have sets: "set g = set locs" and srt: "sorted_wrt (\<lambda>a b. length (gl_root b) \<le> length (gl_root a)) g"
    using assms(1) by (auto simp: guard_of_def dest: mset_eq_setD)
  have "find (\<lambda>l. gl_virtual l \<and> under (path_clean p) l) g = None"
    using assms(2,3) find_Some_iff [of "\<lambda>l. gl_virtual l \<and> under (path_clean p) l" g]
    by (auto simp: resolveCanonical_def Let_def split: if_splits option.splits)
  then have "find (\<lambda>l. \<not> gl_virtual l \<and> under cn l) g = Some l"
    using assms(2) by (auto simp: resolveCanonical_def Let_def result_simps split: if_splits option.splits)
  note f = find_longest [OF srt this]
  moreover have "prefix (gl_root l') (gl_root l)" if "l' \<in> set locs" "\<not> gl_virtual l' \<and> under cn l'" for l'
  proof -
    have "length (gl_root l') \<le> length (gl_root l)" using f that sets by simp
    moreover have "prefix (gl_root l') cn" "prefix (gl_root l) cn"
      using f that(2) unfolding under_def has_prefix_iff by (auto simp: prefix_def)
    ultimately show ?thesis by (metis prefix_length_prefix)
  qed
  ultimately show ?thesis using sets by auto
qed

section \<open>Reading\<close>

text \<open>A canonical path is its own real path as far as it exists.\<close>

lemma canon_split:
  "canon fs cs rest = Inr full \<Longrightarrow>
   \<exists>k e. full = e @ drop k cs @ rest \<and> k \<le> length cs \<and> EvalSymlinks fs (take k cs) = Inr e \<and>
     (k < length cs \<longrightarrow> EvalSymlinks fs (take (Suc k) cs) = Inl NotExist)"
proof (induction cs arbitrary: rest rule: rev_induct)
  case Nil
  then show ?case by (simp add: canon_found)
next
  case (snoc c xs)
  show ?case
  proof (cases "EvalSymlinks fs (xs @ [c])")
    case (Inr e)
    then show ?thesis using snoc.prems
      by (intro exI [of _ "length (xs @ [c])"] exI [of _ e]) (simp add: canon_found)
  next
    case (Inl err)
    then have ne: "err = NotExist" "canon fs xs (c # rest) = Inr full"
      using snoc.prems by (auto simp: canon_snoc split: if_splits)
    obtain k e where k: "full = e @ drop k xs @ c # rest" "k \<le> length xs" "EvalSymlinks fs (take k xs) = Inr e"
      "k < length xs \<longrightarrow> EvalSymlinks fs (take (Suc k) xs) = Inl NotExist"
      using snoc.IH [OF ne(2)] by blast
    have "EvalSymlinks fs (take (Suc k) (xs @ [c])) = Inl NotExist"
      using k(2,4) Inl ne(1) by (cases "k = length xs") auto
    then show ?thesis using k by (intro exI [of _ k] exI [of _ e]) auto
  qed
qed

lemma links_agree:
  "walk m fs i d cs = Inl NotExist \<Longrightarrow> walk m fs j d cs = Inr r \<Longrightarrow> False"
  using walk_more_links [of m fs i d cs "j - i"] walk_more_links [of m fs j d cs "i - j"]
  by (cases "i \<le> j") auto

lemma namei_canon:
  assumes "list_all proper cs" "canon fs cs [] = Inr full" "namei Must fs full = Inr q"
  shows "q = full"
proof -
  obtain k e where k: "full = e @ drop k cs" "k \<le> length cs" "EvalSymlinks fs (take k cs) = Inr e"
    "k < length cs \<longrightarrow> EvalSymlinks fs (take (Suc k) cs) = Inl NotExist"
    using canon_split [OF assms(2)] by auto
  have pk: "list_all proper (take k cs)" using assms(1) by (auto simp: list_all_iff dest: in_set_takeD)
  obtain n where n: "walk Must fs 255 [] (take k cs) = Inr (e, n)" using k(3) unfolding EvalSymlinks_walk by blast
  note real = walk_real [OF n real_dir_Nil proper_no_slash [OF pk]]
  show ?thesis
  proof (cases "k = length cs")
    case True
    then have e: "full = e" using k(1) by simp
    from real show ?thesis
    proof
      assume "real_dir fs e"
      then have "walk Must fs 40 [] (e @ []) = Inr (e, 40)" using walk_real_dir [of fs "[]" e Must 40 "[]"] by simp
      then show ?thesis using assms(3) e by (simp add: namei_def)
    next
      assume "\<exists>d c. e = d @ [c] \<and> real_dir fs d \<and> proper c \<and> \<not> is_directory (look fs e) \<and>
        (Must \<noteq> NoFollow \<longrightarrow> \<not> is_symlink (look fs e)) \<and> (Must = Must \<longrightarrow> look fs e \<noteq> None)"
      then obtain d c where d: "e = d @ [c]" "real_dir fs d" "proper c" "\<not> is_symlink (look fs e)" by auto
      have "walk Must fs 40 [] (d @ [c]) = walk Must fs 40 d [c]"
        using walk_real_dir [of fs "[]" d Must 40 "[c]"] d(2) by simp
      then obtain j where "walk Must fs 40 d [c] = Inr (q, j)"
        using assms(3) e d(1) by (cases "walk Must fs 40 d [c]") (auto simp: namei_def)
      then show ?thesis using walk_last d e by metis
    qed
  next
    case False
    then have c: "drop k cs = cs ! k # drop (Suc k) cs" "take (Suc k) cs = take k cs @ [cs ! k]" "proper (cs ! k)"
      using k(2) assms(1) by (auto simp: Cons_nth_drop_Suc take_Suc_conv_app_nth list_all_length)
    let ?c = "cs ! k" and ?r = "drop (Suc k) cs"
    have "walk Must fs 255 [] (take k cs @ [?c]) = Inl NotExist"
      using k(2,4) False c(2) by (simp add: EvalSymlinks_fail)
    then have step: "is_directory (look fs e)" "walk Must fs n e [?c] = Inl NotExist"
      using n walk_append [of "[?c]" fs "[]" "take k cs" Must 255] proper_no_slash [OF pk] by (auto split: if_splits)
    then have "real_dir fs e" using real by auto
    then have "walk Must fs 40 [] full = walk Must fs 40 e (?c # ?r)"
      using walk_real_dir [of fs "[]" e Must 40 "?c # ?r"] k(1) c(1) by simp
    then obtain j where full: "walk Must fs 40 e (?c # ?r) = Inr (q, j)"
      using assms(3) by (cases "walk Must fs 40 e (?c # ?r)") (auto simp: namei_def)
    have False
    proof (cases "?r = []")
      case True
      then show ?thesis using full step(2) links_agree by simp
    next
      case False
      have "walk Must fs 40 e ([?c] @ ?r) = Inr (q, j)" using full by simp
      then obtain x where "walk Must fs 40 e [?c] = Inr x"
        using walk_append [OF False \<open>real_dir fs e\<close>, of "[?c]" Must 40] c(3) by (auto simp: proper_def split: sum.splits)
      then show ?thesis using step(2) links_agree by blast
    qed
    then show ?thesis ..
  qed
qed

text \<open>A file opened for reading lies inside a configured physical location: the path \<open>OpenRead\<close> opens
  leads to an entry that is not a link, at a real path of the location the guard resolved, so a link
  planted in a library cannot be used to read outside of every library.\<close>

theorem open_read_contained:
  assumes "OpenRead g p fs = Inr (q, x)" "wf_guard g"
  shows "look fs q = Some x \<and> \<not> is_symlink (Some x) \<and>
    (\<exists>l \<in> set g. \<not> gl_virtual l \<and> prefix (clean_comps (gl_root l)) q)"
proof -
  obtain l cn where l: "resolveCanonical g fs p = Inr (l, cn)" "\<not> gl_virtual l" "os_open cn fs = Inr (q, x)"
    using assms(1) by (auto simp: OpenRead_def lift_os_Inr split: sum.splits guard_error.splits if_splits)
  have abs: "is_abs (path_clean p)" "is_abs p"
    using l(1) by (auto simp: resolveCanonical_def Let_def split: if_splits)
  let ?cs = "clean_comps p"
  have cs: "list_all proper ?cs" "path_clean p = abs_path ?cs" using clean_comps_proper abs by (auto simp: path_clean_def)
  have "resolveCanonical g fs (abs_path ?cs) = Inr (l, cn)"
    using l(1) cs path_clean_abs [OF cs(1)] by (auto simp: resolveCanonical_def Let_def result_simps split: option.splits if_splits)
  then obtain full where full: "canon fs ?cs [] = Inr full" "zone g full = Some l" "cn = abs_path full"
    using l(2) find_Some_iff [of "\<lambda>l. gl_virtual l \<and> under (abs_path ?cs) l" g]
    unfolding clean_resolve [OF cs(1)] by (auto simp: result_simps split: option.splits)
  have fp: "list_all proper full" using canon_proper [OF cs(1) full(1)] by simp
  have "namei Must fs full = Inr q" "look fs q = Some x"
    using l(3) unfolding os_open_def full(3) namei_abs_path [OF fp] by (auto simp: result_simps split: option.splits)
  moreover from this have q: "q = full" using namei_canon [OF cs(1) full(1)] by blast
  moreover have "\<not> is_symlink (look fs q)"
  proof -
    obtain k where "walk Must fs 255 [] full = Inr (q, k)" using namei_walk calculation(1) by blast
    then have "real_dir fs q \<or> \<not> is_symlink (look fs q)"
      using walk_real [OF _ real_dir_Nil proper_no_slash [OF fp]] by blast
    moreover have "is_directory (look fs q)" if "real_dir fs q"
      using that unfolding real_dir_def by (metis order_refl take_all)
    ultimately show ?thesis by (cases "look fs q" rule: is_directory.cases) auto
  qed
  ultimately show ?thesis using zone_Some [OF assms(2) full(2) fp] by auto
qed

section \<open>The interface of the deleting engines\<close>

text \<open>
  The prune engine and the trash purge use one operation of the guard, \<open>Remove\<close>. What they rely on
  is that a successful removal of a plain path leaves every protected path alone, and creates no
  links: a path that was plain stays plain.
\<close>

locale guarded_remove =
  fixes remove :: "'g \<Rightarrow> string \<Rightarrow> fs \<Rightarrow> 'e + fs" and sound :: "'g \<Rightarrow> bool"
    and protected :: "'g \<Rightarrow> string list \<Rightarrow> bool"
  assumes remove_protected: "sound g \<Longrightarrow> plain fs p \<Longrightarrow> remove g p fs = Inr fs' \<Longrightarrow> protected g q \<Longrightarrow>
      look fs' q = look fs q"
    and remove_plain: "remove g p fs = Inr fs' \<Longrightarrow> plain fs r \<Longrightarrow> plain fs' r"
begin

text \<open>One step of a client that removes \<open>p\<close> or leaves the tree as it is.\<close>

definition may_remove :: "'g \<Rightarrow> string \<Rightarrow> fs \<Rightarrow> fs \<Rightarrow> bool" where
  "may_remove g p fs fs' \<longleftrightarrow> fs' = fs \<or> remove g p fs = Inr fs'"

lemma may_remove_plain: "may_remove g p fs fs' \<Longrightarrow> plain fs r \<Longrightarrow> plain fs' r"
  using remove_plain by (auto simp: may_remove_def)

lemma may_remove_protected:
  "may_remove g p fs fs' \<Longrightarrow> sound g \<Longrightarrow> plain fs p \<Longrightarrow> protected g q \<Longrightarrow> look fs' q = look fs q"
  using remove_protected by (auto simp: may_remove_def)

lemma fold_protected:
  assumes "\<And>x w w'. x \<in> set xs \<Longrightarrow> w' = step x w \<Longrightarrow> may_remove g (path x) (tree w) (tree w')"
    and "sound g" "protected g q" "\<forall>x \<in> set xs. plain (tree w) (path x)"
  shows "look (tree (fold step xs w)) q = look (tree w) q"
  using assms(1,4)
proof (induction xs arbitrary: w)
  case Nil
  then show ?case by simp
next
  case (Cons x xs)
  have step: "may_remove g (path x) (tree w) (tree (step x w))" using Cons.prems(1) [of x "step x w" w] by simp
  have "look (tree (fold step xs (step x w))) q = look (tree (step x w)) q"
    by (rule Cons.IH) (use Cons.prems may_remove_plain [OF step] in auto)
  then show ?case using may_remove_protected [OF step assms(2) _ assms(3)] Cons.prems(2) by simp
qed

end

lemma walk_cut: "walk Must (cut p fs) n d cs = Inr r \<Longrightarrow> p \<noteq> [] \<Longrightarrow> walk Must fs n d cs = Inr r"
proof (induction n d cs rule: walk_cases [where m = Must and fs = "cut p fs"])
  case (Dir n d c cs t z)
  moreover from this have "look fs (d @ [c]) = Some (Directory t z)" by (auto simp: look_cut split: if_splits)
  ultimately show ?case by (simp add: walk_directory)
next
  case (File n d c cs t b)
  moreover from this have "look fs (d @ [c]) = Some (Regular t b)" by (auto simp: look_cut split: if_splits)
  ultimately show ?case by (simp add: walk_regular)
next
  case (Link n d c cs t z)
  moreover from this have "look fs (d @ [c]) = Some (Symlink z t)" by (auto simp: look_cut split: if_splits)
  ultimately show ?case by (auto simp: walk_link)
qed (auto simp: walk_eqs split: if_splits)

lemma leaf_link_cut: "leaf_link (cut p fs) cs \<Longrightarrow> p \<noteq> [] \<Longrightarrow> leaf_link fs cs"
proof -
  assume l: "leaf_link (cut p fs) cs" "p \<noteq> []"
  then obtain e where e: "cs \<noteq> []" "EvalSymlinks (cut p fs) (butlast cs) = Inr e" "is_symlink (look (cut p fs) (e @ [last cs]))"
    by (auto simp: leaf_link_def split: sum.splits)
  then have "EvalSymlinks fs (butlast cs) = Inr e" unfolding EvalSymlinks_walk using walk_cut l(2) by blast
  then show ?thesis using e l(2) by (auto simp: leaf_link_def look_cut split: if_splits)
qed

lemma Remove_cut:
  assumes "Remove g p fs = Inr fs'"
  obtains q where "q \<noteq> []" "fs' = cut q fs" "namei NoFollow fs (split_slash p) = Inr q"
  using assms by (auto simp: Remove_def gate_Inr os_remove_def result_simps split: if_splits)

lemma Remove_keeps_plain:
  assumes "Remove g p fs = Inr fs'" "plain fs r"
  shows "plain fs' r"
  using Remove_cut [OF assms(1)] assms(2) leaf_link_cut unfolding plain_def by metis

interpretation rm: guarded_remove Remove wf_guard "\<lambda>g q. \<not> writable g q"
proof
  fix g fs p fs' q
  assume *: "wf_guard g" "plain fs p" "Remove g p fs = Inr fs'" "\<not> writable g q"
  then have "CheckWrite g fs p = Inr ()" "os_remove p fs = Inr fs'" by (simp_all add: Remove_def gate_Inr)
  then have "changes_only (writable g) fs fs'"
    using os_remove_changes [of p fs fs'] checked_target [OF _ *(2) wf_guard_virtual [OF *(1)]] changes_only_eq by metis
  then show "look fs' q = look fs q" using *(4) unfolding changes_only_def by blast
qed (rule Remove_keeps_plain)

section \<open>The theorems at a concrete tree\<close>

definition tree :: fs where
  "tree = \<lparr>fs_tree = [([''archive''], Directory 1 0), ([''archive'', ''a.arw''], Regular 5 ''raw''),
       ([''archive'', ''sub''], Directory 1 0), ([''archive'', ''l''], Symlink 5 ''/rw/x''),
       ([''rw''], Directory 1 0), ([''rw'', ''x''], Regular 7 ''x''),
       ([''rw'', ''out''], Symlink 7 ''/archive/new''), ([''rw'', ''sub''], Symlink 7 ''/archive/sub'')],
     fs_now = 100\<rparr>"

definition archive_loc :: location where
  "archive_loc = \<lparr>gl_id = 1, gl_name = ''archive'', gl_root = ''/archive'', gl_tier = TIER3_MASTER_ARCHIVE,
     gl_readonly = True, gl_virtual = False\<rparr>"

definition rw_loc :: location where
  "rw_loc = \<lparr>gl_id = 2, gl_name = ''rw'', gl_root = ''/rw'', gl_tier = TIER1_LOCAL_SCRATCH,
     gl_readonly = False, gl_virtual = False\<rparr>"

definition two :: guard where
  "two = NewGuard [rw_loc, archive_loc]"

text \<open>The three conditions of the containment theorem are needed. A write through a dangling link in a
  writable location creates its target in the read-only one (the missing name can be a link); a link
  in the read-only location can be removed when its target is writable (\<open>Remove\<close> acts on the link,
  the check on its target); and a path with \<open>..\<close> after a link is checked lexically but opened by the
  kernel.\<close>

theorem guard_gaps:
  "(\<exists>fs'. Create two ''/rw/out'' tree = Inr fs' \<and> look fs' [''archive'', ''new''] \<noteq> look tree [''archive'', ''new'']) \<and>
   (\<exists>fs'. Remove two ''/archive/l'' tree = Inr fs' \<and> look fs' [''archive'', ''l''] \<noteq> look tree [''archive'', ''l'']) \<and>
   (\<exists>fs'. Create two ''/rw/sub/../y'' tree = Inr fs' \<and> look fs' [''archive'', ''y''] \<noteq> look tree [''archive'', ''y'']) \<and>
   \<not> writable two [''archive'', ''new''] \<and> \<not> writable two [''archive'', ''l''] \<and> \<not> writable two [''archive'', ''y'']"
proof -
  have found: "\<exists>y. r = Inr y \<and> P y" if "isl r = False" "P (projr r)" for r :: "guard_error + fs" and P
    using that by (cases r) auto
  show ?thesis
    by (intro conjI found) code_simp+
qed

text \<open>And so are the two about directories: making one below a missing root makes the root's parents, which
  belong to no location; and renaming one moves a read-only location nested in it.\<close>

definition nested :: guard where
  "nested = NewGuard [\<lparr>gl_id = 1, gl_name = ''rw'', gl_root = ''/a/rw'', gl_tier = TIER2_EXPORTS, gl_readonly = False, gl_virtual = False\<rparr>,
     \<lparr>gl_id = 2, gl_name = ''ro'', gl_root = ''/a/rw/d/ro'', gl_tier = TIER3_MASTER_ARCHIVE, gl_readonly = True, gl_virtual = False\<rparr>]"

definition nested_fs :: fs where
  "nested_fs = \<lparr>fs_tree = [([''a''], Directory 1 0), ([''a'', ''rw''], Directory 1 0), ([''a'', ''rw'', ''d''], Directory 1 0),
     ([''a'', ''rw'', ''d'', ''ro''], Directory 1 0), ([''a'', ''rw'', ''d'', ''ro'', ''m''], Regular 1 ''raw'')], fs_now = 5\<rparr>"

lemma guard_directory_gaps:
  "(\<exists>fs'. MkdirAll nested ''/a/rw/x'' \<lparr>fs_tree = [], fs_now = 5\<rparr> = Inr fs' \<and> look fs' [''a''] \<noteq> None) \<and>
   (\<exists>fs'. Rename nested ''/a/rw/d'' ''/a/rw/e'' nested_fs = Inr fs' \<and> look fs' [''a'', ''rw'', ''d'', ''ro'', ''m''] = None) \<and>
   \<not> writable nested [''a''] \<and> \<not> writable nested [''a'', ''rw'', ''d'', ''ro'', ''m'']"
proof -
  have found: "\<exists>y. r = Inr y \<and> P y" if "isl r = False" "P (projr r)" for r :: "guard_error + fs" and P
    using that by (cases r) auto
  show ?thesis
    by (intro conjI found) code_simp+
qed

lemma two_wf: "wf_guard two"
proof -
  have "gl_root rw_loc = abs_path [''rw'']" "gl_root archive_loc = abs_path [''archive'']"
    by (simp_all add: rw_loc_def archive_loc_def abs_path_def)
  moreover have "proper ''rw''" "proper ''archive''" by code_simp+
  ultimately have "wf_location rw_loc" "wf_location archive_loc"
    unfolding wf_location_def by (auto simp: rw_loc_def archive_loc_def intro: exI [of _ "[x]" for x])
  then show ?thesis by (simp add: wf_guard_def two_def NewGuard_def buildSortedLocations_def)
qed

lemma two_roots: "real_dir tree [''rw'']" "real_dir tree [''archive'']"
proof -
  have "proper ''rw''" "proper ''archive''" "is_directory (look tree [''rw''])" "is_directory (look tree [''archive''])"
    by code_simp+
  then show "real_dir tree [''rw'']" "real_dir tree [''archive'']"
    using real_dir_snoc [of tree "[]"] by auto
qed

lemma two_present: "roots_present two tree"
proof -
  have "clean_comps (gl_root rw_loc) = [''rw'']" "clean_comps (gl_root archive_loc) = [''archive'']" by code_simp+
  then show ?thesis using two_roots by (simp add: roots_present_def two_def NewGuard_def buildSortedLocations_def)
qed

text \<open>A write through a linked directory whose target the guard refuses, then a permitted one.\<close>

definition sample_ops :: "write_op list" where
  "sample_ops = [OpWrite ''/rw/sub/z'' ''b'', OpRemove ''/rw/x'']"

theorem guarded_writes_contained_witness:
  "look (run_ops two sample_ops tree) [''archive'', ''sub'', ''z''] = None \<and> look (run_ops two sample_ops tree) [''rw'', ''x''] = None"
proof
  have same: "next_fs two (OpWrite ''/rw/sub/z'' ''b'') tree = tree"
  proof -
    have "isl (run_op two (OpWrite ''/rw/sub/z'' ''b'') tree)" by code_simp
    then show ?thesis by (auto simp: next_fs_def split: sum.splits)
  qed
  have ok: "plain_op tree (OpWrite ''/rw/sub/z'' ''b'')" "plain_op tree (OpRemove ''/rw/x'')" by code_simp+
  have "plain_run two sample_ops tree" using same ok by (simp add: sample_ops_def)
  moreover have "\<not> writable two [''archive'', ''sub'', ''z'']" by code_simp
  ultimately have "look (run_ops two sample_ops tree) [''archive'', ''sub'', ''z''] = look tree [''archive'', ''sub'', ''z'']"
    using guarded_writes_contained [OF two_wf] by blast
  moreover have "look tree [''archive'', ''sub'', ''z''] = None" by code_simp
  ultimately show "look (run_ops two sample_ops tree) [''archive'', ''sub'', ''z''] = None" by simp
  show "look (run_ops two sample_ops tree) [''rw'', ''x''] = None" by code_simp
qed

lemma two_guard_of: "guard_of [rw_loc, archive_loc] two" "guard_of [rw_loc, archive_loc] [archive_loc, rw_loc]"
  using two_wf by (auto simp: guard_of_def two_def NewGuard_def buildSortedLocations_def wf_guard_def rw_loc_def archive_loc_def)

theorem resolve_order_independent_witness:
  "resolveCanonical two tree ''/rw/sub'' = resolveCanonical [archive_loc, rw_loc] tree ''/rw/sub''"
  by (rule resolve_order_independent [OF two_guard_of]) (simp add: rw_loc_def archive_loc_def)

theorem resolve_most_specific_witness:
  "archive_loc \<in> set [rw_loc, archive_loc] \<and> under ''/archive/sub'' archive_loc"
proof -
  have "resolveCanonical two tree ''/rw/sub'' = Inr (archive_loc, ''/archive/sub'')" by code_simp
  from resolve_most_specific [OF two_guard_of(1) this] show ?thesis by (simp add: archive_loc_def)
qed

theorem open_read_contained_witness:
  "look tree [''rw'', ''x''] = Some (Regular 7 ''x'') \<and> \<not> is_symlink (Some (Regular 7 ''x'')) \<and>
   (\<exists>l \<in> set two. \<not> gl_virtual l \<and> prefix (clean_comps (gl_root l)) [''rw'', ''x''])"
proof (rule open_read_contained [OF _ two_wf])
  show "OpenRead two ''/archive/l'' tree = Inr ([''rw'', ''x''], Regular 7 ''x'')" by code_simp
qed

end
