(* ===== verification/Prune.thy ===== *)
theory Prune
  imports GuardProps Samples
begin

text \<open>
  \<open>internal/prune/engine.go\<close>: purging expired cache files whose master is verified on the archive.
  The world is the file system and the database; \<open>after\<close> is the seam \<open>afterVerify\<close>, what other
  writers do between the checks on disk and the second read (nothing, in \<open>Execute\<close>). A failure of a
  database read is not modelled.
\<close>

type_synonym world = "fs \<times> db"

record prune_candidate =
  pc_node :: int
  pc_uuid :: string
  pc_path :: string
  pc_name :: string
  pc_size :: int
  pc_mtime :: int
  pc_loc :: int

datatype prune_error =
    ErrNoLongerEligible
  | ErrAncestorUnreachable
  | ErrFileChangedSincePlan
  | StatFailed fs_error
  | GuardRefused guard_error
  | DatabaseFailed db_error

text \<open>\<open>Result\<close>: the candidate, and \<open>None\<close> when it was purged or the reason otherwise.\<close>

type_synonym prune_result = "prune_candidate \<times> prune_error option"

section \<open>Planning\<close>

definition plan_row :: "media_node \<Rightarrow> prune_candidate" where
  "plan_row n = \<lparr>pc_node = n_id n, pc_uuid = n_uuid n, pc_path = n_path n, pc_name = n_name n,
     pc_size = n_size n, pc_mtime = n_mtime n, pc_loc = n_loc n\<rparr>"

definition Plan :: "int \<Rightarrow> int \<Rightarrow> db \<Rightarrow> prune_candidate list" where
  "Plan loc cutoff d = map plan_row (ListPrunableNodes loc cutoff d)"

section \<open>Re-verification\<close>

record ancestor =
  a_id :: int
  a_path :: string
  a_loc :: int
  a_mtime :: int
  a_size :: int

definition ancestor_row :: "media_node \<Rightarrow> ancestor" where
  "ancestor_row m = \<lparr>a_id = n_id m, a_path = n_path m, a_loc = n_loc m, a_mtime = n_mtime m, a_size = n_size m\<rparr>"

definition ancestors_of :: "int \<Rightarrow> db \<Rightarrow> ancestor list" where
  "ancestors_of i d = map ancestor_row (ListVerifiedTier3Ancestors i d)"

text \<open>\<open>ModTime().Unix()\<close> and \<open>Size()\<close> against the recorded columns.\<close>

definition matches_row :: "entry \<Rightarrow> int \<Rightarrow> int \<Rightarrow> bool" where
  "matches_row e mt sz \<longleftrightarrow> entry_mtime e div 1000000000 = mt \<and> entry_size e = sz"

fun ancestors_reachable :: "fs \<Rightarrow> ancestor list \<Rightarrow> bool" where
  "ancestors_reachable fs [] = True"
| "ancestors_reachable fs (a # as) =
     (case os_lstat (a_path a) fs of
        Inl _ \<Rightarrow> False
      | Inr e \<Rightarrow> if \<not> matches_row e (a_mtime a) (a_size a) then False else ancestors_reachable fs as)"

definition verifyOnDisk :: "fs \<Rightarrow> prune_candidate \<Rightarrow> ancestor list \<Rightarrow> prune_error + bool" where
  "verifyOnDisk fs c as =
     (if as = [] then Inl ErrNoLongerEligible
      else if \<not> ancestors_reachable fs as then Inl ErrAncestorUnreachable
      else case os_lstat (pc_path c) fs of
        Inl e \<Rightarrow> if e = NotExist then Inr True else Inl (StatFailed e)
      | Inr e \<Rightarrow> if \<not> matches_row e (pc_mtime c) (pc_size c) then Inl ErrFileChangedSincePlan else Inr False)"

definition sameAncestors :: "ancestor list \<Rightarrow> ancestor list \<Rightarrow> bool" where
  "sameAncestors verified again \<longleftrightarrow>
     length verified = length again \<and>
     list_all (\<lambda>row. map_of (rev (map (\<lambda>r. (a_id r, r)) verified)) (a_id row) = Some row) again"

section \<open>Executing\<close>

definition purge_one ::
  "guard \<Rightarrow> int set \<Rightarrow> (world \<Rightarrow> world) \<Rightarrow> prune_candidate \<Rightarrow> world \<Rightarrow> prune_error option \<times> world" where
  "purge_one g eligible after c = (\<lambda>(fs, d).
     if pc_node c \<notin> eligible then (Some ErrNoLongerEligible, fs, d)
     else case verifyOnDisk fs c (ancestors_of (pc_node c) d) of
       Inl err \<Rightarrow> (Some err, fs, d)
     | Inr _ \<Rightarrow>
         let ancestors = ancestors_of (pc_node c) d
         in case verifyOnDisk fs c ancestors of
           Inl err \<Rightarrow> (Some err, fs, d)
         | Inr gone \<Rightarrow>
             let (fs, d) = after (fs, d); again = ancestors_of (pc_node c) d
             in if \<not> sameAncestors ancestors again then (Some ErrNoLongerEligible, fs, d)
                else case (if gone then Inr fs else Remove g (pc_path c) fs) of
                  Inl err \<Rightarrow> (Some (GuardRefused err), fs, d)
                | Inr fs' \<Rightarrow>
                    (case in_tx (\<lambda>d. rbind (MarkNodeMissing (pc_node c) d) (\<lambda>d'. Inr ((), d'))) d of
                       (Inl err, d') \<Rightarrow> (Some (DatabaseFailed err), fs', d')
                     | (Inr _, d') \<Rightarrow> (None, fs', d')))"

fun purge_all ::
  "guard \<Rightarrow> int set \<Rightarrow> (world \<Rightarrow> world) \<Rightarrow> prune_candidate list \<Rightarrow> world \<Rightarrow> prune_result list \<times> world" where
  "purge_all g eligible after [] w = ([], w)"
| "purge_all g eligible after (c # cs) w =
     (let (r, w') = purge_one g eligible after c w; (rs, w'') = purge_all g eligible after cs w'
      in ((c, r) # rs, w''))"

text \<open>The eligibility snapshot, taken once per location of the batch.\<close>

definition eligible_nodes :: "prune_candidate list \<Rightarrow> int \<Rightarrow> db \<Rightarrow> int set" where
  "eligible_nodes cs cutoff d = (\<Union>loc \<in> pc_loc ` set cs. pc_node ` set (Plan loc cutoff d))"

definition execute ::
  "guard \<Rightarrow> prune_candidate list \<Rightarrow> int \<Rightarrow> (world \<Rightarrow> world) \<Rightarrow> world \<Rightarrow> prune_result list \<times> world" where
  "execute g cs cutoff after w = purge_all g (eligible_nodes cs cutoff (snd w)) after cs w"

definition undisturbed :: "world \<Rightarrow> world" where
  "undisturbed w = w"

definition Execute :: "guard \<Rightarrow> prune_candidate list \<Rightarrow> int \<Rightarrow> world \<Rightarrow> prune_result list \<times> world" where
  "Execute g cs cutoff w = execute g cs cutoff undisturbed w"

section \<open>What planning means\<close>

text \<open>A file is planned for pruning exactly when it is an active, expired node of the location, is not
  a project file, and the ancestor query that re-verifies it before the unlink finds a verified
  master: the two recursive queries describe the same lineage.\<close>

theorem plan_iff_verified:
  "c \<in> set (Plan loc cutoff d) \<longleftrightarrow>
   (\<exists>n \<in> set (db_nodes d). c = plan_row n \<and> n_loc n = loc \<and> n_life n = ACTIVE \<and> n_mtime n < cutoff \<and>
      list_all (\<lambda>x. \<not> has_suffix (to_lower (n_name n)) x) sidecar_exts \<and> ancestors_of (n_id n) d \<noteq> [])"
  by (auto simp: Plan_def ListPrunableNodes_def nodes_where_def ancestors_of_def
      ListVerifiedTier3Ancestors_def filter_empty_conv image_iff)

section \<open>What a purge has checked\<close>

definition on_disk :: "fs \<Rightarrow> ancestor \<Rightarrow> bool" where
  "on_disk fs a \<longleftrightarrow> (case os_lstat (a_path a) fs of Inl _ \<Rightarrow> False | Inr e \<Rightarrow> matches_row e (a_mtime a) (a_size a))"

lemma ancestors_reachable_iff: "ancestors_reachable fs as \<longleftrightarrow> (\<forall>a \<in> set as. on_disk fs a)"
  by (induction as) (auto simp: on_disk_def split: sum.splits)

text \<open>The candidate's file is gone, or is the file that was planned.\<close>

definition unchanged_or_gone :: "fs \<Rightarrow> prune_candidate \<Rightarrow> bool \<Rightarrow> bool" where
  "unchanged_or_gone fs c gone =
     (case os_lstat (pc_path c) fs of
        Inl e \<Rightarrow> gone \<and> e = NotExist
      | Inr e \<Rightarrow> \<not> gone \<and> matches_row e (pc_mtime c) (pc_size c))"

lemma verifyOnDisk_Inr:
  "verifyOnDisk fs c as = Inr gone \<longleftrightarrow> as \<noteq> [] \<and> (\<forall>a \<in> set as. on_disk fs a) \<and> unchanged_or_gone fs c gone"
  by (auto simp: verifyOnDisk_def ancestors_reachable_iff unchanged_or_gone_def split: sum.splits)

lemma map_of_ids: "map_of (rev (map (\<lambda>r. (a_id r, r)) rs)) i = Some r \<Longrightarrow> r \<in> set rs"
  by (auto dest: map_of_SomeD)

lemma sameAncestors_subset: "sameAncestors as bs \<Longrightarrow> set bs \<subseteq> set as"
  using map_of_ids by (fastforce simp: sameAncestors_def list_all_iff)

text \<open>Two reads of rows with distinct ids are the same set, in whatever order they come.\<close>

lemma sameAncestors_set:
  assumes "sameAncestors as bs" "distinct (map a_id bs)"
  shows "set bs = set as"
proof -
  have sub: "set bs \<subseteq> set as" by (rule sameAncestors_subset [OF assms(1)])
  have "card (set bs) = length bs" using assms(2) by (simp add: distinct_card distinct_map)
  moreover have "card (set as) \<le> length as" by (rule card_length)
  ultimately have "card (set as) = card (set bs)"
    using card_mono [OF finite_set sub] assms(1) by (simp add: sameAncestors_def)
  then show ?thesis using sub by (intro card_subset_eq) simp_all
qed

text \<open>
  Why a candidate could be purged: when its turn came, in the world \<open>w\<close>, it was in the snapshot, it had
  verified masters, each on disk with the recorded size and time; its own file was gone or as planned;
  and after the checks on disk every verified master was still the row that had been checked.
\<close>

definition authorised :: "int set \<Rightarrow> (world \<Rightarrow> world) \<Rightarrow> prune_candidate \<Rightarrow> world \<Rightarrow> bool \<Rightarrow> bool" where
  "authorised eligible after c w gone \<longleftrightarrow>
     pc_node c \<in> eligible \<and> ancestors_of (pc_node c) (snd w) \<noteq> [] \<and>
     (\<forall>a \<in> set (ancestors_of (pc_node c) (snd w)). on_disk (fst w) a) \<and>
     unchanged_or_gone (fst w) c gone \<and>
     ancestors_of (pc_node c) (snd (after w)) \<noteq> [] \<and>
     set (ancestors_of (pc_node c) (snd (after w))) \<subseteq> set (ancestors_of (pc_node c) (snd w))"

lemma purge_one_outcome:
  assumes "purge_one g eligible after c w = (r, w')"
  shows "w' = w \<and> r \<noteq> None \<or> w' = after w \<and> r \<noteq> None \<or>
    (\<exists>gone. authorised eligible after c w gone \<and>
      (if gone then fst w' = fst (after w) else Remove g (pc_path c) (fst (after w)) = Inr (fst w')) \<and>
      (if r = None then MarkNodeMissing (pc_node c) (snd (after w)) = Inr (snd w')
       else (\<exists>e. r = Some (DatabaseFailed e) \<and> MarkNodeMissing (pc_node c) (snd (after w)) = Inl e) \<and> snd w' = snd (after w)))"
proof -
  obtain fs d where w: "w = (fs, d)" by (cases w)
  obtain fs2 d2 where w2: "after (fs, d) = (fs2, d2)" by (cases "after (fs, d)")
  let ?as = "ancestors_of (pc_node c) d" and ?bs = "ancestors_of (pc_node c) d2"
  show ?thesis
  proof (cases "pc_node c \<in> eligible \<and> sameAncestors ?as ?bs")
    case False
    then show ?thesis using assms w w2
      by (cases "verifyOnDisk fs c ?as") (auto simp: purge_one_def Let_def split: if_splits)
  next
    case True
    show ?thesis
    proof (cases "verifyOnDisk fs c ?as")
      case (Inl e)
      then show ?thesis using assms w True by (auto simp: purge_one_def)
    next
      case (Inr gone)
      have "?bs \<noteq> []" "set ?bs \<subseteq> set ?as"
        using Inr True sameAncestors_subset by (auto simp: verifyOnDisk_Inr sameAncestors_def)
      then have auth: "authorised eligible after c w gone"
        using Inr True w w2 by (auto simp: authorised_def verifyOnDisk_Inr)
      show ?thesis
      proof (cases "if gone then Inr fs2 else Remove g (pc_path c) fs2")
        case (Inl e)
        then show ?thesis using assms w w2 Inr True by (auto simp: purge_one_def Let_def)
      next
        case rm: (Inr fs3)
        have "(if r = None then MarkNodeMissing (pc_node c) d2 = Inr (snd w')
            else (\<exists>e. r = Some (DatabaseFailed e) \<and> MarkNodeMissing (pc_node c) d2 = Inl e) \<and> snd w' = d2) \<and> fst w' = fs3"
          using assms w w2 Inr True rm
          by (cases "MarkNodeMissing (pc_node c) d2") (auto simp: purge_one_def Let_def in_tx_def)
        then show ?thesis using auth rm w w2 by (intro disjI2 exI [of _ gone]) (auto split: if_splits)
      qed
    qed
  qed
qed

lemma purge_all_Cons:
  "purge_all g el after (c # cs) w =
   ((c, fst (purge_one g el after c w)) # fst (purge_all g el after cs (snd (purge_one g el after c w))),
    snd (purge_all g el after cs (snd (purge_one g el after c w))))"
  by (simp add: Let_def case_prod_beta)

declare purge_all.simps(2) [simp del]
declare purge_all_Cons [simp]

lemma purge_all_length: "length (fst (purge_all g el after cs w)) = length cs"
  by (induction cs arbitrary: w) simp_all

lemma purge_all_append:
  "purge_all g el after (xs @ ys) w =
   (fst (purge_all g el after xs w) @ fst (purge_all g el after ys (snd (purge_all g el after xs w))),
    snd (purge_all g el after ys (snd (purge_all g el after xs w))))"
  by (induction xs arbitrary: w) simp_all

lemma purge_all_world: "snd (purge_all g el after cs w) = fold (\<lambda>c w. snd (purge_one g el after c w)) cs w"
  by (induction cs arbitrary: w) simp_all

text \<open>C29. Nothing is purged on a stale promise: a candidate reported as purged had, when its turn came, a
  verified master on the archive, present on disk with the size and time its hash was verified for,
  and was itself unchanged since it was planned (or already gone); and after the checks on disk
  the database still vouched for the masters that were checked, whatever ran in between.\<close>

theorem purge_needs_verified_master:
  assumes "execute g (pre @ c # post) cutoff after w = (rs, w')" "snd (rs ! length pre) = None"
  shows "\<exists>gone. authorised (eligible_nodes (pre @ c # post) cutoff (snd w)) after c
      (snd (purge_all g (eligible_nodes (pre @ c # post) cutoff (snd w)) after pre w)) gone"
proof -
  let ?el = "eligible_nodes (pre @ c # post) cutoff (snd w)"
  let ?w1 = "snd (purge_all g ?el after pre w)"
  have "rs ! length pre = (c, fst (purge_one g ?el after c ?w1))"
    using assms(1) purge_all_length [of g ?el after pre w] by (auto simp: execute_def purge_all_append nth_append)
  then have "fst (purge_one g ?el after c ?w1) = None" using assms(2) by simp
  then show ?thesis using purge_one_outcome [of g ?el after c ?w1] by (metis prod.collapse)
qed

lemma purge_all_order: "map fst (fst (purge_all g el after cs w)) = cs"
  by (induction cs arbitrary: w) simp_all

text \<open>The results come back in the order of the candidates, one each.\<close>

theorem execute_in_order: "map fst (fst (Execute g cs cutoff w)) = cs"
  by (simp add: Execute_def execute_def purge_all_order)

section \<open>What a batch leaves alone\<close>

lemma purge_one_removes:
  "rm.may_remove g (pc_path c) (fst w) (fst (snd (purge_one g el undisturbed c w)))"
  using purge_one_outcome [of g el undisturbed c w "fst (purge_one g el undisturbed c w)" "snd (purge_one g el undisturbed c w)"]
  unfolding rm.may_remove_def undisturbed_def by (auto split: if_splits)

text \<open>Pruning deletes from writable locations only: over candidates whose last name is not a link,
  nothing changes at a path of a read-only location, the archive with the masters included.\<close>

theorem prune_keeps_readonly:
  assumes "wf_guard g" "\<forall>c \<in> set cs. plain (fst w) (pc_path c)" "\<not> writable g q"
  shows "look (fst (snd (Execute g cs cutoff w))) q = look (fst w) q"
proof -
  let ?step = "\<lambda>c w. snd (purge_one g (eligible_nodes cs cutoff (snd (w :: world))) id c w)"
  have "look (fst (fold (\<lambda>c w. snd (purge_one g el undisturbed c w)) cs w)) q = look (fst w) q" for el
    by (rule rm.fold_protected [where path = pc_path and tree = fst and g = g])
      (use assms purge_one_removes in auto)
  then show ?thesis by (simp add: Execute_def execute_def purge_all_world)
qed

lemma MarkNodeMissing_rows:
  assumes "MarkNodeMissing i d = Inr d'" "n' \<in> set (db_nodes d')"
  shows "n' \<in> set (db_nodes d) \<or> n_life n' = MISSING \<and> n_id n' = i"
  using assms unfolding MarkNodeMissing_def update_nodes_Inr by auto

text \<open>In the database a batch touches nothing but the purged candidates: every other node row is the
  row it was, and a changed row is now \<open>MISSING\<close> and belongs to a candidate reported as purged.\<close>

theorem execute_marks_only_purged:
  assumes "Execute g cs cutoff w = (rs, w')" "n' \<in> set (db_nodes (snd w'))"
  shows "n' \<in> set (db_nodes (snd w)) \<or>
    n_life n' = MISSING \<and> (\<exists>c. (c, None) \<in> set rs \<and> pc_node c = n_id n')"
proof -
  have main: "n' \<in> set (db_nodes (snd w)) \<or>
      n_life n' = MISSING \<and> (\<exists>c. (c, None) \<in> set (fst (purge_all g el undisturbed cs w)) \<and> pc_node c = n_id n')"
    if "n' \<in> set (db_nodes (snd (snd (purge_all g el undisturbed cs w))))" for el
    using that
  proof (induction cs arbitrary: w)
    case Nil
    then show ?case by simp
  next
    case (Cons c cs)
    let ?w1 = "snd (purge_one g el undisturbed c w)" and ?r = "fst (purge_one g el undisturbed c w)"
    have "n' \<in> set (db_nodes (snd ?w1)) \<or>
        n_life n' = MISSING \<and> (\<exists>c. (c, None) \<in> set (fst (purge_all g el undisturbed cs ?w1)) \<and> pc_node c = n_id n')"
      using Cons.IH [of ?w1] Cons.prems by simp
    moreover have "n' \<in> set (db_nodes (snd w)) \<or> n_life n' = MISSING \<and> n_id n' = pc_node c \<and> ?r = None"
      if "n' \<in> set (db_nodes (snd ?w1))"
      using purge_one_outcome [of g el undisturbed c w ?r ?w1] that MarkNodeMissing_rows
      unfolding undisturbed_def by (auto split: if_splits)
    ultimately show ?case by auto
  qed
  from main [of "eligible_nodes cs cutoff (snd w)"] show ?thesis using assms by (simp add: Execute_def execute_def)
qed

text \<open>A refusal costs nothing: in a consistent database, a batch in which no candidate was purged leaves
  the disk and the database exactly as they were, whatever the reasons were.\<close>

theorem execute_refusal_harmless:
  assumes "Execute g cs cutoff w = (rs, w')" "node_violation (snd w) = None" "\<forall>x \<in> set rs. snd x \<noteq> None"
  shows "w' = w"
proof -
  have main: "snd (purge_all g el undisturbed cs w) = w" if "\<forall>x \<in> set (fst (purge_all g el undisturbed cs w)). snd x \<noteq> None" for el
    using that
  proof (induction cs)
    case Nil
    then show ?case by simp
  next
    case (Cons c cs)
    have r: "fst (purge_one g el undisturbed c w) \<noteq> None" using Cons.prems by simp
    have "snd (purge_one g el undisturbed c w) = w"
      using purge_one_outcome [of g el undisturbed c w "fst (purge_one g el undisturbed c w)" "snd (purge_one g el undisturbed c w)"] r
        MarkNodeMissing_total [OF assms(2), of "pc_node c"] unfolding undisturbed_def by auto
    then show ?case using Cons by simp
  qed
  from main [of "eligible_nodes cs cutoff (snd w)"] show ?thesis using assms(1,3) by (simp add: Execute_def execute_def)
qed

section \<open>The theorems at a concrete batch\<close>

definition master_hash :: string where
  "master_hash = ''0123456789abcdef0123456789abcdef0123456789abcdef0123456789abcdef''"

definition cache_db :: db where
  "cache_db = studio\<lparr>db_nodes := [original\<lparr>n_full := Some master_hash, n_size := 3, n_mtime := 5\<rparr>,
       (sample_node 2 ''u2'' 2 ''/rw/x'' ''x'' [])\<lparr>n_size := 1, n_mtime := 7\<rparr>],
     db_edges := [sample_edge 1 1 2 ''PROXY_OF'' AUTO_ACCEPTED],
     db_provs := [\<lparr>p_node = 1, p_full = master_hash, p_source = SERVER, p_recorded = 0, p_rehash_state = None,
       p_rehash_checked = None, p_rehash_attempts = 0, p_rehash_computed = None, p_rehash_mismatches = 0,
       p_rehash_retry = None\<rparr>]\<rparr>"

definition cache_fs :: fs where
  "cache_fs = \<lparr>fs_tree = [([''archive''], Directory 1 0), ([''archive'', ''a.arw''], Regular 5000000000 ''raw''),
       ([''rw''], Directory 1 0), ([''rw'', ''x''], Regular 7000000000 ''x'')], fs_now = 100\<rparr>"

definition cached :: prune_candidate where
  "cached = \<lparr>pc_node = 2, pc_uuid = ''u2'', pc_path = ''/rw/x'', pc_name = ''x'', pc_size = 1, pc_mtime = 7, pc_loc = 2\<rparr>"

definition cache_after :: world where
  "cache_after = snd (Execute two [cached] 100 (cache_fs, cache_db))"

lemma cache_purged: "Execute two [cached] 100 (cache_fs, cache_db) = ([(cached, None)], cache_after)"
proof -
  have "map snd (fst (Execute two [cached] 100 (cache_fs, cache_db))) = [None]" by code_simp
  moreover have "map fst (fst (Execute two [cached] 100 (cache_fs, cache_db))) = [cached]"
    by (simp add: Execute_def execute_def purge_all_order)
  ultimately have "fst (Execute two [cached] 100 (cache_fs, cache_db)) = [(cached, None)]"
    by (auto simp: map_eq_Cons_conv)
  then show ?thesis by (simp add: cache_after_def prod_eq_iff)
qed

theorem purge_needs_verified_master_witness:
  "\<exists>gone. authorised (eligible_nodes [cached] 100 cache_db) undisturbed cached (cache_fs, cache_db) gone"
proof -
  have "execute two ([] @ cached # []) 100 undisturbed (cache_fs, cache_db) = ([(cached, None)], cache_after)"
    using cache_purged by (simp add: Execute_def)
  from purge_needs_verified_master [OF this] show ?thesis by simp
qed

theorem prune_keeps_readonly_witness:
  "look (fst cache_after) [''archive'', ''a.arw''] = Some (Regular 5000000000 ''raw'')"
proof -
  have "plain cache_fs (pc_path cached)" "\<not> writable two [''archive'', ''a.arw'']" by code_simp+
  then have "look (fst (snd (Execute two [cached] 100 (cache_fs, cache_db)))) [''archive'', ''a.arw'']
      = look (fst (cache_fs, cache_db)) [''archive'', ''a.arw'']"
    by (intro prune_keeps_readonly two_wf) simp_all
  moreover have "look cache_fs [''archive'', ''a.arw''] = Some (Regular 5000000000 ''raw'')" by code_simp
  ultimately show ?thesis by (simp add: cache_purged)
qed

definition purged_row :: media_node where
  "purged_row = last (db_nodes (snd cache_after))"

theorem execute_marks_only_purged_witness:
  "purged_row \<in> set (db_nodes cache_db) \<or>
   n_life purged_row = MISSING \<and> (\<exists>c. (c, None) \<in> set [(cached, None :: prune_error option)] \<and> pc_node c = n_id purged_row)"
proof -
  have "db_nodes (snd cache_after) \<noteq> []" by code_simp
  then have "purged_row \<in> set (db_nodes (snd cache_after))" unfolding purged_row_def by (rule last_in_set)
  from execute_marks_only_purged [OF cache_purged this] show ?thesis by simp
qed

definition stale :: prune_candidate where
  "stale = cached\<lparr>pc_mtime := 6\<rparr>"

theorem execute_refusal_harmless_witness:
  "snd (Execute two [stale] 100 (cache_fs, studio)) = (cache_fs, studio)"
proof -
  have "map snd (fst (Execute two [stale] 100 (cache_fs, studio))) = [Some ErrNoLongerEligible]" by code_simp
  then have "\<forall>x \<in> set (fst (Execute two [stale] 100 (cache_fs, studio))). snd x \<noteq> None"
    by (auto simp: map_eq_Cons_conv)
  moreover have "node_violation (snd (cache_fs, studio)) = None" using studio_ok by (simp add: db_ok_def)
  ultimately show ?thesis using execute_refusal_harmless [of two "[stale]" 100 "(cache_fs, studio)"] by (metis prod.collapse)
qed

end
