(* ===== verification/TrashPurge.thy ===== *)
theory TrashPurge
  imports GuardProps
begin

text \<open>
  \<open>internal/prune/trash.go\<close>: the retention purge of the \<open>.trash\<close> directories. Times are nanoseconds
  since the epoch; the retention is a Go \<open>time.Duration\<close>, a 64-bit word. \<open>trashTimes\<close> is the lookup
  of the recorded trash time (\<open>None\<close> for the nil function), its failure a string. Cancellation of the
  context and the ticker of \<open>TrashWorker\<close> are not modelled.
\<close>

datatype trash_error = LookupFailed string | PurgeRefused guard_error

record trash_result =
  t_purged :: nat
  t_freed :: int
  t_errors :: "trash_error list"

definition nothing_purged :: trash_result where
  "nothing_purged = \<lparr>t_purged = 0, t_freed = 0, t_errors = []\<rparr>"

type_synonym trash_times = "(string \<Rightarrow> string \<Rightarrow> string + int option) option"

section \<open>The cutoff\<close>

text \<open>\<open>now.Add(-time.Duration(retentionDays) * 24 * time.Hour)\<close>\<close>

definition trash_cutoff :: "int \<Rightarrow> int \<Rightarrow> int" where
  "trash_cutoff retentionDays now =
     now + sint (- (word_of_int retentionDays :: 64 word) * 24 * 3600000000000)"

section \<open>Walking the trash\<close>

definition in_directories :: "fs \<Rightarrow> string list \<Rightarrow> bool" where
  "in_directories fs p = list_all (\<lambda>k. is_directory (look fs (take k p))) [0..<length p]"

text \<open>The real paths \<open>WalkDir\<close> visits below a directory, in its order.\<close>

definition paths_below :: "fs \<Rightarrow> string list \<Rightarrow> string list list" where
  "paths_below fs q = sort (remdups (filter (\<lambda>p. prefix q p \<and> p \<noteq> q \<and> in_directories fs p) (map fst (fs_tree fs))))"

definition path_below :: "string \<Rightarrow> string list \<Rightarrow> string list \<Rightarrow> string" where
  "path_below trashRoot q p = trashRoot @ CHR ''/'' # join_slash (drop (length q) p)"

text \<open>Each visited path with the entry \<open>Info\<close> reports; a root that is no directory is visited itself.\<close>

definition walk_dir :: "fs \<Rightarrow> string \<Rightarrow> (string \<times> entry) list" where
  "walk_dir fs trashRoot =
     (case namei NoFollow fs (split_slash trashRoot) of
        Inl _ \<Rightarrow> []
      | Inr q \<Rightarrow>
          (case look fs q of
             None \<Rightarrow> []
           | Some e \<Rightarrow> (trashRoot, e) #
               (if is_directory (Some e)
                then List.map_filter (\<lambda>p. map_option (\<lambda>e. (path_below trashRoot q p, e)) (look fs p)) (paths_below fs q)
                else [])))"

section \<open>Purging\<close>

text \<open>When a file was trashed: recorded, else its modification time; \<open>Inl\<close> when the lookup failed.\<close>

definition trashed_at :: "trash_times \<Rightarrow> string \<Rightarrow> string \<Rightarrow> entry \<Rightarrow> string + int" where
  "trashed_at trashTimes locRoot path e =
     (case trashTimes of
        None \<Rightarrow> Inr (entry_mtime e)
      | Some f \<Rightarrow>
          (case f locRoot path of
             Inl err \<Rightarrow> Inl err
           | Inr None \<Rightarrow> Inr (entry_mtime e)
           | Inr (Some t) \<Rightarrow> Inr t))"

definition purge_entry ::
  "guard \<Rightarrow> string \<Rightarrow> int \<Rightarrow> trash_times \<Rightarrow> string \<times> entry \<Rightarrow> trash_result \<times> fs \<Rightarrow> trash_result \<times> fs" where
  "purge_entry g locRoot cutoff trashTimes = (\<lambda>(path, e) (res, fs).
     if is_directory (Some e) then (res, fs)
     else case trashed_at trashTimes locRoot path e of
       Inl err \<Rightarrow> (res\<lparr>t_errors := t_errors res @ [LookupFailed err]\<rparr>, fs)
     | Inr t \<Rightarrow>
         if t < cutoff then
           (case Remove g path fs of
              Inl err \<Rightarrow> (res\<lparr>t_errors := t_errors res @ [PurgeRefused err]\<rparr>, fs)
            | Inr fs' \<Rightarrow> (res\<lparr>t_purged := t_purged res + 1, t_freed := t_freed res + entry_size e\<rparr>, fs'))
         else (res, fs))"

definition remove_quietly :: "guard \<Rightarrow> string \<Rightarrow> fs \<Rightarrow> fs" where
  "remove_quietly g path fs = (case Remove g path fs of Inl _ \<Rightarrow> fs | Inr fs' \<Rightarrow> fs')"

definition cleanEmptyDirs :: "guard \<Rightarrow> string \<Rightarrow> fs \<Rightarrow> fs" where
  "cleanEmptyDirs g dir fs =
     fold (remove_quietly g)
       (rev (map fst (filter (\<lambda>(path, e). path \<noteq> dir \<and> is_directory (Some e)) (walk_dir fs dir)))) fs"

definition trash_root :: "string \<Rightarrow> string" where
  "trash_root locRootPath = path_clean (locRootPath @ ''/.trash'')"

definition PurgeTrash ::
  "guard \<Rightarrow> string \<Rightarrow> int \<Rightarrow> int \<Rightarrow> trash_times \<Rightarrow> fs \<Rightarrow> trash_result \<times> fs" where
  "PurgeTrash g locRootPath retentionDays now trashTimes fs =
     (if retentionDays \<le> 0 then (nothing_purged, fs)
      else let cutoff = trash_cutoff retentionDays now; trashRoot = trash_root locRootPath
           in if os_open trashRoot fs = Inl NotExist then (nothing_purged, fs)
              else let (res, fs') = fold (purge_entry g locRootPath cutoff trashTimes) (walk_dir fs trashRoot)
                                      (nothing_purged, fs)
                   in (res, cleanEmptyDirs g trashRoot fs'))"

definition add_results :: "trash_result \<Rightarrow> trash_result \<Rightarrow> trash_result" where
  "add_results a b = \<lparr>t_purged = t_purged a + t_purged b, t_freed = t_freed a + t_freed b,
     t_errors = t_errors a @ t_errors b\<rparr>"

fun purge_locations ::
  "guard \<Rightarrow> location list \<Rightarrow> int \<Rightarrow> int \<Rightarrow> trash_times \<Rightarrow> trash_result \<times> fs \<Rightarrow> trash_result \<times> fs" where
  "purge_locations g [] days now tt s = s"
| "purge_locations g (l # ls) days now tt (acc, fs) =
     (if gl_readonly l \<or> gl_virtual l then purge_locations g ls days now tt (acc, fs)
      else let (res, fs') = PurgeTrash g (gl_root l) days now tt fs
           in purge_locations g ls days now tt (add_results acc res, fs'))"

definition PurgeAllTrash :: "guard \<Rightarrow> int \<Rightarrow> int \<Rightarrow> trash_times \<Rightarrow> fs \<Rightarrow> trash_result \<times> fs" where
  "PurgeAllTrash g days now tt fs =
     (if days \<le> 0 then (nothing_purged, fs) else purge_locations g g days now tt (nothing_purged, fs))"

section \<open>The cutoff is exact for retentions below 292 years\<close>

text \<open>C39. The cutoff is \<open>retentionDays\<close> before now exactly when the retention fits a \<open>time.Duration\<close>: up to
  106751 days. A larger setting, which the settings validation admits, wraps around.\<close>

theorem trash_cutoff_exact:
  assumes "0 \<le> days"
  shows "trash_cutoff days now = now - days * 86400000000000 \<longleftrightarrow> days \<le> 106751"
proof -
  have w: "- (word_of_int days :: 64 word) * 24 * 3600000000000 = word_of_int (- days * 86400000000000)"
    by (simp add: wi_hom_syms)
  have cut: "trash_cutoff days now = now + signed_take_bit 63 (- days * 86400000000000)"
    unfolding trash_cutoff_def w sint_sbintrunc' by simp
  show ?thesis
  proof
    assume "days \<le> 106751"
    then have "signed_take_bit 63 (- days * 86400000000000) = - days * 86400000000000"
      using assms by (intro signed_take_bit_int_eq_self) auto
    then show "trash_cutoff days now = now - days * 86400000000000" unfolding cut by simp
  next
    assume "trash_cutoff days now = now - days * 86400000000000"
    then have "signed_take_bit 63 (- days * 86400000000000) = - days * 86400000000000" unfolding cut by simp
    then have "- (2 ^ 63) \<le> - days * 86400000000000" using signed_take_bit_int_greater_eq_minus_exp by metis
    then show "days \<le> 106751" by simp
  qed
qed

section \<open>What a purge deletes\<close>

definition wf_tree :: "fs \<Rightarrow> bool" where
  "wf_tree fs \<longleftrightarrow> list_all (\<lambda>(p, e). list_all proper p) (fs_tree fs)"

lemma look_proper: "wf_tree fs \<Longrightarrow> look fs p \<noteq> None \<Longrightarrow> list_all proper p"
  by (cases "p = []") (auto simp: wf_tree_def look_def list_all_iff dest: map_of_SomeD)

lemma directory_not_symlink: "is_directory x \<Longrightarrow> \<not> is_symlink x"
  by (cases x rule: is_directory.cases) auto

lemma walk_through:
  "list_all proper cs \<Longrightarrow> (\<And>k. 0 < k \<Longrightarrow> k < length cs \<Longrightarrow> \<not> is_symlink (look fs (d @ take k cs))) \<Longrightarrow>
   walk NoFollow fs n d cs = Inr (r, j) \<Longrightarrow> r = d @ cs"
proof (induction cs arbitrary: d n)
  case Nil
  then show ?case by simp
next
  case (Cons c cs)
  have c: "named c" using Cons.prems(1) proper_named by simp
  show ?case
  proof (cases "look fs (d @ [c])")
    case None
    then show ?thesis using Cons.prems(3) c by (simp add: walk_missing split: if_splits)
  next
    case (Some e)
    show ?thesis
    proof (cases e)
      case (Directory t z)
      have "r = (d @ [c]) @ cs"
      proof (rule Cons.IH)
        show "walk NoFollow fs n (d @ [c]) cs = Inr (r, j)" using Cons.prems(3) c Some Directory by (simp add: walk_directory)
        show "\<not> is_symlink (look fs ((d @ [c]) @ take k cs))" if "0 < k" "k < length cs" for k
          using Cons.prems(2) [of "Suc k"] that by simp
      qed (use Cons.prems(1) in simp)
      then show ?thesis by simp
    next
      case (Regular t b)
      then show ?thesis using Cons.prems(3) c Some by (simp add: walk_regular split: if_splits)
    next
      case (Symlink z t)
      then have "cs = []" using Cons.prems(2) [of 1] Some by (cases cs) auto
      then show ?thesis using Cons.prems(3) c Some Symlink by (simp add: walk_final_link)
    qed
  qed
qed

text \<open>\<open>fs'\<close> is \<open>fs\<close> without some of the entries at paths that satisfy \<open>S\<close>.\<close>

definition pruned_at :: "(string list \<Rightarrow> bool) \<Rightarrow> fs \<Rightarrow> fs \<Rightarrow> bool" where
  "pruned_at S fs fs' \<longleftrightarrow> (\<forall>q. look fs' q \<noteq> look fs q \<longrightarrow> look fs' q = None \<and> S q)"

lemma in_directories_iff: "in_directories fs p \<longleftrightarrow> (\<forall>k < length p. is_directory (look fs (take k p)))"
  by (auto simp: in_directories_def list_all_iff)

lemma pruned_in_directories: "pruned_at S fs fs' \<Longrightarrow> in_directories fs' p \<Longrightarrow> in_directories fs p"
  unfolding in_directories_iff pruned_at_def by (metis entry_kinds(1))

lemma Remove_real:
  assumes "pruned_at S fs fs'" "in_directories fs p" "list_all proper p" "Remove g (abs_path p) fs' = Inr fs''" "S p"
  shows "pruned_at S fs fs''"
proof -
  obtain q where q: "q \<noteq> []" "fs'' = cut q fs'" "namei NoFollow fs' (split_slash (abs_path p)) = Inr q"
    using assms(4) by (rule Remove_cut)
  then obtain j where j: "walk NoFollow fs' 40 [] p = Inr (q, j)"
    unfolding namei_abs_path [OF assms(3)] by (cases "walk NoFollow fs' 40 [] p") (auto simp: namei_def)
  have "\<not> is_symlink (look fs' ([] @ take k p))" if "0 < k" "k < length p" for k
  proof -
    have "is_directory (look fs (take k p))" using assms(2) that(2) by (simp add: in_directories_iff)
    then show ?thesis using assms(1) directory_not_symlink unfolding pruned_at_def
      by (metis append_Nil entry_kinds(2))
  qed
  then have "q = p" using walk_through [OF assms(3) _ j] by simp
  then show ?thesis using assms(1,5) q by (auto simp: pruned_at_def look_cut)
qed

text \<open>A visited path is the real path of the entry that is visited.\<close>

lemma walk_dir_real:
  assumes "(path, e) \<in> set (walk_dir fs (abs_path tr))" "list_all proper tr" "tr \<noteq> []" "in_directories fs tr" "wf_tree fs"
  obtains p where "path = abs_path p" "prefix tr p" "look fs p = Some e" "in_directories fs p" "list_all proper p"
proof -
  obtain q j where j: "namei NoFollow fs (split_slash (abs_path tr)) = Inr q" "walk NoFollow fs 40 [] tr = Inr (q, j)"
    using assms(1) unfolding walk_dir_def namei_abs_path [OF assms(2)]
    by (cases "walk NoFollow fs 40 [] tr") (auto simp: namei_def)
  have "q = tr"
    using walk_through [OF assms(2) _ j(2)] assms(4) directory_not_symlink by (simp add: in_directories_iff)
  then consider "path = abs_path tr" "look fs tr = Some e"
    | p where "p \<in> set (paths_below fs tr)" "look fs p = Some e" "path = path_below (abs_path tr) tr p"
    using assms(1) j(1) by (auto simp: walk_dir_def in_map_filter split: option.splits if_splits)
  then show thesis
  proof cases
    case 1
    then show ?thesis using that [of tr] assms(2,4) by simp
  next
    case 2
    then have p: "prefix tr p" "p \<noteq> tr" "in_directories fs p" by (auto simp: paths_below_def)
    then obtain ys where ys: "p = tr @ ys" "ys \<noteq> []" by (auto simp: prefix_def)
    then have "path = abs_path p" using 2(3) abs_path_append [OF assms(3) ys(2)] by (simp add: path_below_def)
    then show ?thesis using that [of p] p 2(2) look_proper [OF assms(5)] by simp
  qed
qed

lemma fold_inv: "P s \<Longrightarrow> (\<And>x s. x \<in> set xs \<Longrightarrow> P s \<Longrightarrow> P (f x s)) \<Longrightarrow> P (fold f xs s)"
  by (induction xs arbitrary: s) auto

lemma wf_tree_pruned: "wf_tree fs \<Longrightarrow> Remove g p fs = Inr fs' \<Longrightarrow> wf_tree fs'"
  by (elim Remove_cut) (auto simp: wf_tree_def cut_def list_all_iff AList.delete_eq)

definition expired_at :: "int \<Rightarrow> int \<Rightarrow> trash_times \<Rightarrow> string \<Rightarrow> fs \<Rightarrow> string list \<Rightarrow> bool" where
  "expired_at days now tt locRoot fs q \<longleftrightarrow>
     (\<exists>e. look fs q = Some e \<and> (is_directory (Some e) \<or>
        (\<exists>t. trashed_at tt locRoot (abs_path q) e = Inr t \<and> t < now - days * 86400000000000)))"

lemma PurgeTrash_expired:
  assumes "0 < days" "days \<le> 106751" "list_all proper rs" "rs \<noteq> []" "real_dir fs rs" "wf_tree fs"
    and "look (snd (PurgeTrash g (abs_path rs) days now tt fs)) q \<noteq> look fs q"
  shows "look (snd (PurgeTrash g (abs_path rs) days now tt fs)) q = None \<and> prefix (rs @ [''.trash'']) q \<and>
    expired_at days now tt (abs_path rs) fs q"
proof -
  let ?tr = "rs @ [''.trash'']"
  let ?S = "\<lambda>q. prefix ?tr q \<and> expired_at days now tt (abs_path rs) fs q"
  let ?cut = "trash_cutoff days now"
  have tr: "list_all proper ?tr" using assms(3) by (simp add: proper_def dot_def dotdot_def)
  have root: "trash_root (abs_path rs) = abs_path ?tr"
    using abs_path_append [OF assms(4), of "[''.trash'']"] path_clean_abs [OF tr] by (simp add: trash_root_def)
  have cut: "?cut = now - days * 86400000000000" using trash_cutoff_exact assms(1,2) by simp
  have dirs: "in_directories fs ?tr"
    using assms(5) by (auto simp: in_directories_iff real_dir_def)
  define I where "I = (\<lambda>s :: trash_result \<times> fs. pruned_at ?S fs (snd s) \<and> wf_tree (snd s))"
  obtain res fs1 where fs1: "fold (purge_entry g (abs_path rs) ?cut tt) (walk_dir fs (abs_path ?tr)) (nothing_purged, fs) = (res, fs1)"
    by (cases "fold (purge_entry g (abs_path rs) ?cut tt) (walk_dir fs (abs_path ?tr)) (nothing_purged, fs)")
  have "I (res, fs1)"
    unfolding fs1 [symmetric]
  proof (rule fold_inv)
    show "I (nothing_purged, fs)" using assms(6) by (simp add: I_def pruned_at_def)
  next
    fix x s assume x: "x \<in> set (walk_dir fs (abs_path ?tr))" and s: "I s"
    obtain path e where pe: "x = (path, e)" by (cases x)
    obtain p where p: "path = abs_path p" "prefix ?tr p" "look fs p = Some e" "in_directories fs p" "list_all proper p"
      using walk_dir_real x pe tr dirs assms(6) by blast
    show "I (purge_entry g (abs_path rs) ?cut tt x s)"
    proof (cases "\<exists>t fs''. \<not> is_directory (Some e) \<and> trashed_at tt (abs_path rs) path e = Inr t \<and> t < ?cut \<and>
        Remove g path (snd s) = Inr fs''")
      case True
      then obtain t fs'' where t: "\<not> is_directory (Some e)" "trashed_at tt (abs_path rs) path e = Inr t" "t < ?cut"
        "Remove g path (snd s) = Inr fs''" by blast
      have "?S p" using p t cut by (auto simp: expired_at_def)
      then have "pruned_at ?S fs fs''"
        using Remove_real [of ?S fs "snd s" p g fs''] s p t(4) by (simp add: I_def)
      moreover have "wf_tree fs''" using wf_tree_pruned t(4) s by (auto simp: I_def)
      ultimately show ?thesis using t pe by (cases s) (simp add: I_def purge_entry_def)
    next
      case False
      then have "snd (purge_entry g (abs_path rs) ?cut tt x s) = snd s"
        using pe by (cases s) (auto simp: purge_entry_def split: sum.splits if_splits)
      then show ?thesis using s by (simp add: I_def)
    qed
  qed
  then have f1: "pruned_at ?S fs fs1" "wf_tree fs1" by (simp_all add: I_def)
  have "pruned_at ?S fs (cleanEmptyDirs g (abs_path ?tr) fs1)"
    unfolding cleanEmptyDirs_def
  proof (rule fold_inv [where P = "pruned_at ?S fs", OF f1(1)])
    fix x s assume x: "x \<in> set (rev (map fst (filter (\<lambda>(path, e). path \<noteq> abs_path ?tr \<and> is_directory (Some e)) (walk_dir fs1 (abs_path ?tr)))))"
      and s: "pruned_at ?S fs s"
    then obtain e where e: "(x, e) \<in> set (walk_dir fs1 (abs_path ?tr))" "is_directory (Some e)" by auto
    have "in_directories fs1 ?tr"
      unfolding in_directories_iff
    proof (intro allI impI)
      fix k assume k: "k < length ?tr"
      then have "\<not> prefix ?tr (take k ?tr)" by (auto dest: prefix_length_le)
      then show "is_directory (look fs1 (take k ?tr))"
        using f1(1) dirs k unfolding in_directories_iff pruned_at_def by metis
    qed
    then obtain p where p: "x = abs_path p" "prefix ?tr p" "look fs1 p = Some e" "in_directories fs1 p" "list_all proper p"
      using walk_dir_real e(1) tr f1(2) by blast
    have "look fs p = Some e" using f1(1) p(3) unfolding pruned_at_def by (metis option.distinct(1))
    then have "?S p" using p(2) e(2) by (auto simp: expired_at_def)
    then show "pruned_at ?S fs (remove_quietly g x s)"
      using Remove_real [OF s pruned_in_directories [OF f1(1) p(4)] p(5), of g] p(1) s
      by (auto simp: remove_quietly_def split: sum.splits)
  qed
  then have "pruned_at ?S fs (snd (PurgeTrash g (abs_path rs) days now tt fs))"
    using assms(1) fs1 by (auto simp: PurgeTrash_def root pruned_at_def Let_def)
  then show ?thesis using assms(7) unfolding pruned_at_def by blast
qed

text \<open>A purge deletes only what is expired: with a retention that fits a duration, every path that is
  gone after it lies in the \<open>.trash\<close> of the location, and was a directory or a file that was
  trashed (by its record, or its modification time if it has none) more than \<open>days\<close> days ago. A
  file whose record could not be read is kept.\<close>

theorem purge_deletes_only_expired:
  assumes "0 < days" "days \<le> 106751" "list_all proper rs" "rs \<noteq> []" "real_dir fs rs" "wf_tree fs"
    and "look (snd (PurgeTrash g (abs_path rs) days now tt fs)) q \<noteq> look fs q"
  shows "look (snd (PurgeTrash g (abs_path rs) days now tt fs)) q = None \<and> prefix (rs @ [''.trash'']) q \<and>
    expired_at days now tt (abs_path rs) fs q"
  by (rule PurgeTrash_expired [OF assms])

section \<open>The theorems at a concrete trash\<close>

definition day :: int where "day = 86400000000000"

definition bin :: fs where
  "bin = \<lparr>fs_tree = [([''rw''], Directory 1 0), ([''rw'', ''.trash''], Directory 1 0),
       ([''rw'', ''.trash'', ''a''], Regular (9 * day) ''old''), ([''rw'', ''.trash'', ''b''], Regular (39 * day) ''new'')],
     fs_now = 100\<rparr>"

lemma bin_root: "real_dir bin [''rw'']"
proof -
  have "proper ''rw''" "is_directory (look bin [''rw''])" by code_simp+
  then show ?thesis using real_dir_snoc [of bin "[]"] by auto
qed

theorem trash_cutoff_exact_witness: "trash_cutoff 200000 0 \<noteq> - 200000 * 86400000000000 \<and> 0 < trash_cutoff 200000 0"
proof
  show "trash_cutoff 200000 0 \<noteq> - 200000 * 86400000000000" using trash_cutoff_exact [of 200000 0] by simp
  show "0 < trash_cutoff 200000 0" by code_simp
qed

theorem purge_deletes_only_expired_witness:
  "expired_at 30 (40 * day) None (abs_path [''rw'']) bin [''rw'', ''.trash'', ''a'']"
proof -
  let ?fs = "snd (PurgeTrash two (abs_path [''rw'']) 30 (40 * day) None bin)"
  have "(look ?fs [''rw'', ''.trash'', ''a''] = look bin [''rw'', ''.trash'', ''a'']) = False" by code_simp
  moreover have "list_all proper [''rw'']" "wf_tree bin" by code_simp+
  ultimately show ?thesis using purge_deletes_only_expired [OF _ _ _ _ bin_root] by simp
qed

end
