(* ===== verification/Secrets.thy ===== *)
theory Secrets
  imports Prelude
begin

text \<open>
  \<open>internal/secrets/secrets.go\<close>: the box that seals credentials at rest, with the standard
  library's hexadecimal and base64 codecs it and its callers use. Bytes are characters. AES-256-GCM
  is a parameter, \<open>aead\<close>: what the code relies on is that it opens what it sealed (\<open>gcm_correct\<close>).
  The random nonce of a call to \<open>Seal\<close> is an argument.
\<close>

section \<open>Hexadecimal\<close>

definition hex_digit :: "nat \<Rightarrow> char" where
  "hex_digit n = ''0123456789abcdef'' ! n"

definition hex_byte :: "char \<Rightarrow> string" where
  "hex_byte c = (let n = of_char c :: nat in [hex_digit (n div 16), hex_digit (n mod 16)])"

definition hex_encode :: "string \<Rightarrow> string" where
  "hex_encode s = concat (map hex_byte s)"

lemma length_hex_encode [simp]: "length (hex_encode s) = 2 * length s"
  by (induction s) (simp_all add: hex_encode_def hex_byte_def Let_def)

section \<open>Base64\<close>

definition b64_std :: string where
  "b64_std = ''ABCDEFGHIJKLMNOPQRSTUVWXYZabcdefghijklmnopqrstuvwxyz0123456789+/''"

definition b64_url :: string where
  "b64_url = ''ABCDEFGHIJKLMNOPQRSTUVWXYZabcdefghijklmnopqrstuvwxyz0123456789-_''"

abbreviation (input) pad_char :: char where
  "pad_char \<equiv> CHR ''=''"

fun b64_encode :: "string \<Rightarrow> string \<Rightarrow> string" where
  "b64_encode al [] = []"
| "b64_encode al [a] =
     (let x = of_char a :: nat in [al ! (x div 4), al ! (x mod 4 * 16), pad_char, pad_char])"
| "b64_encode al [a, b] =
     (let x = of_char a :: nat; y = of_char b
      in [al ! (x div 4), al ! (x mod 4 * 16 + y div 16), al ! (y mod 16 * 4), pad_char])"
| "b64_encode al (a # b # c # s) =
     (let x = of_char a :: nat; y = of_char b; z = of_char c
      in [al ! (x div 4), al ! (x mod 4 * 16 + y div 16), al ! (y mod 16 * 4 + z div 64), al ! (z mod 64)]
         @ b64_encode al s)"

fun index_of :: "string \<Rightarrow> char \<Rightarrow> nat option" where
  "index_of [] c = None"
| "index_of (x # xs) c = (if x = c then Some 0 else map_option Suc (index_of xs c))"

definition b64_two :: "nat \<Rightarrow> nat \<Rightarrow> char" where
  "b64_two i j = char_of (i * 4 + j div 16)"

definition b64_three :: "nat \<Rightarrow> nat \<Rightarrow> char" where
  "b64_three j k = char_of (j mod 16 * 16 + k div 4)"

definition b64_four :: "nat \<Rightarrow> nat \<Rightarrow> char" where
  "b64_four k l = char_of (k mod 4 * 64 + l)"

text \<open>Groups of four; padding ends the input; the unused bits of a padded group are ignored.\<close>

fun b64_groups :: "string \<Rightarrow> string \<Rightarrow> string option" where
  "b64_groups al [] = Some []"
| "b64_groups al (a # b # c # d # s) =
     (case (index_of al a, index_of al b) of
        (Some i, Some j) \<Rightarrow>
          (if d = pad_char \<and> s = [] then
             (if c = pad_char then Some [b64_two i j]
              else map_option (\<lambda>k. [b64_two i j, b64_three j k]) (index_of al c))
           else
             (case (index_of al c, index_of al d) of
                (Some k, Some l) \<Rightarrow>
                  map_option (\<lambda>r. [b64_two i j, b64_three j k, b64_four k l] @ r) (b64_groups al s)
              | _ \<Rightarrow> None))
      | _ \<Rightarrow> None)"
| "b64_groups al _ = None"

text \<open>\<open>DecodeString\<close> skips line breaks.\<close>

definition b64_decode :: "string \<Rightarrow> string \<Rightarrow> string option" where
  "b64_decode al s = b64_groups al (filter (\<lambda>c. c \<noteq> CHR 0x0A \<and> c \<noteq> CHR 0x0D) s)"

section \<open>The box\<close>

datatype secrets_error = ErrUnavailable | ErrInvalidKey | ErrDecryptFailed

record aead =
  gcm_seal :: "string \<Rightarrow> string \<Rightarrow> string \<Rightarrow> string"
  gcm_open :: "string \<Rightarrow> string \<Rightarrow> string \<Rightarrow> string option"

text \<open>\<open>None\<close> is the nil \<open>*Box\<close>, \<open>Some\<close> its AES key.\<close>

type_synonym box = "string option"

definition version1Prefix :: string where
  "version1Prefix = ''v1:''"

definition NewBox :: "string \<Rightarrow> secrets_error + box" where
  "NewBox base64Key =
     (if base64Key = [] then Inr None
      else case b64_decode b64_std base64Key of
        None \<Rightarrow> Inl ErrInvalidKey
      | Some key \<Rightarrow> if length key \<noteq> 32 then Inl ErrInvalidKey else Inr (Some key))"

definition Seal :: "aead \<Rightarrow> box \<Rightarrow> string \<Rightarrow> string \<Rightarrow> secrets_error + string" where
  "Seal A b nonce plaintext =
     (case b of
        None \<Rightarrow> Inl ErrUnavailable
      | Some key \<Rightarrow> Inr (version1Prefix @ b64_encode b64_std (nonce @ gcm_seal A key nonce plaintext)))"

definition Open :: "aead \<Rightarrow> box \<Rightarrow> string \<Rightarrow> secrets_error + string" where
  "Open A b stored =
     (case b of
        None \<Rightarrow> Inl ErrUnavailable
      | Some key \<Rightarrow>
          if \<not> has_prefix stored version1Prefix then Inl ErrDecryptFailed
          else case b64_decode b64_std (trim_prefix stored version1Prefix) of
            None \<Rightarrow> Inl ErrDecryptFailed
          | Some raw \<Rightarrow>
              if length raw < 12 then Inl ErrDecryptFailed
              else case gcm_open A key (take 12 raw) (drop 12 raw) of
                None \<Rightarrow> Inl ErrDecryptFailed
              | Some plaintext \<Rightarrow> Inr plaintext)"

definition IsSealed :: "string \<Rightarrow> bool" where
  "IsSealed stored = has_prefix stored version1Prefix"

definition SealBytes :: "aead \<Rightarrow> box \<Rightarrow> string \<Rightarrow> string \<Rightarrow> secrets_error + string" where
  "SealBytes A b nonce plaintext = rbind (Seal A b nonce plaintext) Inr"

definition OpenBytes :: "aead \<Rightarrow> box \<Rightarrow> string \<Rightarrow> secrets_error + string" where
  "OpenBytes A b stored = rbind (Open A b stored) Inr"

text \<open>AES-256-GCM opens what it sealed, under the same key and a 12-byte nonce.\<close>

definition gcm_correct :: "aead \<Rightarrow> bool" where
  "gcm_correct A \<longleftrightarrow> (\<forall>k n p. length k = 32 \<longrightarrow> length n = 12 \<longrightarrow> gcm_open A k n (gcm_seal A k n p) = Some p)"

section \<open>Decoding what was encoded\<close>

lemma of_char_less: "of_char c < (256 :: nat)"
  by (simp add: of_char_of nat_of_char_less_256)

text \<open>An alphabet of 64 different characters, none of them the padding or a line break.\<close>

definition b64_alphabet :: "string \<Rightarrow> bool" where
  "b64_alphabet al \<longleftrightarrow> length al = 64 \<and> distinct al \<and> pad_char \<notin> set al \<and> CHR 0x0A \<notin> set al \<and> CHR 0x0D \<notin> set al"

lemma b64_std_alphabet: "b64_alphabet b64_std"
  by (simp add: b64_alphabet_def b64_std_def)

lemma index_of_nth:
  assumes "distinct al" "i < length al"
  shows "index_of al (al ! i) = Some i"
  using assms by (induction al arbitrary: i) (auto simp: nth_Cons' less_Suc_eq_0_disj)

lemma index_of_alphabet [simp]: "b64_alphabet al \<Longrightarrow> i < 64 \<Longrightarrow> index_of al (al ! i) = Some i"
  by (simp add: b64_alphabet_def index_of_nth)

lemma nth_alphabet [simp]: "b64_alphabet al \<Longrightarrow> i < 64 \<Longrightarrow> al ! i \<noteq> pad_char"
  unfolding b64_alphabet_def by (metis nth_mem)

lemma quotients:
  "(of_char c :: nat) div 4 < 64" "(of_char c :: nat) div 16 < 16" "(of_char c :: nat) div 64 < 4"
  using of_char_less [of c] by (simp_all add: less_mult_imp_div_less)

lemma sextets:
  "(of_char a :: nat) div 4 < 64" "(of_char a :: nat) mod 4 * 16 < 64"
  "(of_char a :: nat) mod 4 * 16 + of_char b div 16 < 64" "(of_char b :: nat) mod 16 * 4 < 64"
  "(of_char b :: nat) mod 16 * 4 + of_char c div 64 < 64" "(of_char c :: nat) mod 64 < 64"
proof -
  have "(of_char a :: nat) mod 4 < 4" "(of_char b :: nat) mod 16 < 16" by simp_all
  then show "(of_char a :: nat) mod 4 * 16 < 64" "(of_char a :: nat) mod 4 * 16 + of_char b div 16 < 64"
    "(of_char b :: nat) mod 16 * 4 < 64" "(of_char b :: nat) mod 16 * 4 + of_char c div 64 < 64"
    using quotients [of b] quotients [of c] by linarith+
qed (simp_all add: quotients)

lemma octets:
  "b64_two (of_char a div 4) (of_char a mod 4 * 16) = a"
  "b64_two (of_char a div 4) (of_char a mod 4 * 16 + of_char b div 16) = a"
  "b64_three (of_char a mod 4 * 16 + of_char b div 16) (of_char b mod 16 * 4) = b"
  "b64_three (of_char a mod 4 * 16 + of_char b div 16) (of_char b mod 16 * 4 + of_char c div 64) = b"
  "b64_four (of_char b mod 16 * 4 + of_char c div 64) (of_char c mod 64) = c"
  using quotients [of b] quotients [of c]
  by (simp_all add: b64_two_def b64_three_def b64_four_def)

lemma b64_groups_encode:
  assumes "b64_alphabet al"
  shows "b64_groups al (b64_encode al s) = Some s"
  using assms
  by (induction al s rule: b64_encode.induct)
    (simp_all add: Let_def sextets octets)

lemma b64_encode_chars: "b64_alphabet al \<Longrightarrow> c \<in> set (b64_encode al s) \<Longrightarrow> c \<in> set al \<or> c = pad_char"
proof (induction al s rule: b64_encode.induct)
  case (2 al a)
  then show ?case by (auto simp: Let_def sextets b64_alphabet_def)
next
  case (3 al a b)
  then show ?case by (auto simp: Let_def sextets b64_alphabet_def)
next
  case (4 al a b c s)
  then show ?case by (auto simp: Let_def sextets b64_alphabet_def)
qed auto

lemma b64_decode_encode: "b64_alphabet al \<Longrightarrow> b64_decode al (b64_encode al s) = Some s"
proof -
  assume al: "b64_alphabet al"
  have "filter (\<lambda>c. c \<noteq> CHR 0x0A \<and> c \<noteq> CHR 0x0D) (b64_encode al s) = b64_encode al s"
    using b64_encode_chars [OF al] al by (intro filter_True) (auto simp: b64_alphabet_def)
  then show ?thesis using b64_groups_encode [OF al] by (simp add: b64_decode_def)
qed

section \<open>Opening what was sealed\<close>

lemma IsSealed_Seal: "Seal A b nonce p = Inr s \<Longrightarrow> IsSealed s"
  by (auto simp: Seal_def IsSealed_def has_prefix_append split: option.splits)

lemma Seal_Inr: "Seal A b nonce p = Inr s \<Longrightarrow> b \<noteq> None"
  by (auto simp: Seal_def split: option.splits)

lemma NewBox_key: "NewBox k = Inr (Some key) \<Longrightarrow> length key = 32"
  by (auto simp: NewBox_def split: if_splits option.splits)

text \<open>C40. What a box has sealed it opens again, for every plaintext: through AES-GCM, the nonce in front
  of the ciphertext, base64 and the version prefix.\<close>

theorem open_seal:
  assumes "gcm_correct A" "NewBox k = Inr b" "length nonce = 12" "Seal A b nonce p = Inr s"
  shows "Open A b s = Inr p"
proof -
  from assms(4) obtain key where b: "b = Some key"
    and s: "s = version1Prefix @ b64_encode b64_std (nonce @ gcm_seal A key nonce p)"
    by (auto simp: Seal_def split: option.splits)
  have "length key = 32" using NewBox_key assms(2) b by simp
  then have "gcm_open A key nonce (gcm_seal A key nonce p) = Some p"
    using assms(1,3) by (simp add: gcm_correct_def)
  moreover have "trim_prefix s version1Prefix = b64_encode b64_std (nonce @ gcm_seal A key nonce p)"
    "has_prefix s version1Prefix"
    by (auto simp: s trim_prefix_def has_prefix_append)
  ultimately show ?thesis
    using assms(3) by (simp add: Open_def b b64_decode_encode b64_std_alphabet)
qed

end
