(* ===== verification/PairingTables.thy ===== *)
theory PairingTables
  imports Schema Secrets "HOL-Library.Product_Lexorder"
begin

text \<open>
  The tables of device pairing (\<open>db/migrations/00017\<close>, \<open>00020\<close>, \<open>00034\<close>, \<open>00043\<close>) and the statements of
  \<open>db/sqlcgen/companion_pairing.sql.go\<close> with \<open>InsertActorAudit\<close>. A statement that breaks a
  constraint fails and changes nothing. \<open>t\<close> is what \<open>unixepoch()\<close> returns to a statement. The JSON
  text of an audit row is its \<open>evidence\<close> value.
\<close>

record device_pairing =
  dp_id :: int
  dp_agent :: string
  dp_label :: string
  dp_created :: int
  dp_by :: string
  dp_revoked :: "int option"
  dp_qr :: "string option"
  dp_user :: "int option"
  dp_url :: "string option"

record pairing_key =
  pk_id :: int
  pk_pairing :: int
  pk_hash :: string
  pk_preview :: string
  pk_created :: int
  pk_expires :: "int option"
  pk_revoked :: "int option"
  pk_sealed :: "string option"
  pk_awaiting :: bool
  pk_adopted :: "int option"

record pairing_audit =
  pa_id :: int
  pa_pairing :: int
  pa_actor :: string
  pa_event :: string
  pa_details :: evidence
  pa_created :: int

record actor_entry =
  ac_kind :: string
  ac_name :: string
  ac_event :: string
  ac_resource :: string
  ac_resource_id :: string

record pairing_db =
  pd_pairings :: "device_pairing list"
  pd_keys :: "pairing_key list"
  pd_audit :: "pairing_audit list"
  pd_actors :: "actor_entry list"
  pd_users :: "int list"

datatype pairing_db_error =
  PairingUnique | PairingCheck | PairingUserMissing | KeyUnique | KeyCheck | KeyPairingMissing
  | AuditPairingMissing | ActorKindCheck

section \<open>Constraints\<close>

definition opt_le :: "int option \<Rightarrow> int option \<Rightarrow> bool" where
  "opt_le a b = (case (a, b) of (Some x, Some y) \<Rightarrow> x \<le> y | _ \<Rightarrow> True)"

definition pairing_check :: "device_pairing \<Rightarrow> bool" where
  "pairing_check p = opt_le (Some (dp_created p)) (dp_revoked p)"

definition key_check :: "pairing_key \<Rightarrow> bool" where
  "key_check k \<longleftrightarrow> length (pk_hash k) = 64 \<and> opt_le (pk_revoked k) (pk_expires k)"

definition pairing_violation :: "pairing_db \<Rightarrow> pairing_db_error option" where
  "pairing_violation d =
     (let ps = pd_pairings d; ks = pd_keys d; ids = map dp_id ps
      in if \<not> distinct ids \<or> \<not> distinct (map dp_agent ps) then Some PairingUnique
         else if \<not> list_all pairing_check ps then Some PairingCheck
         else if \<not> list_all (\<lambda>p. case dp_user p of None \<Rightarrow> True | Some u \<Rightarrow> u \<in> set (pd_users d)) ps then Some PairingUserMissing
         else if \<not> distinct (map pk_id ks) \<or> \<not> distinct (map pk_hash ks) then Some KeyUnique
         else if \<not> list_all key_check ks then Some KeyCheck
         else if \<not> list_all (\<lambda>k. pk_pairing k \<in> set ids) ks then Some KeyPairingMissing
         else if \<not> list_all (\<lambda>a. pa_pairing a \<in> set ids) (pd_audit d) then Some AuditPairingMissing
         else if \<not> list_all (\<lambda>a. ac_kind a \<in> {''user'', ''machine'', ''system'', ''anonymous''}) (pd_actors d) then Some ActorKindCheck
         else None)"

definition pairing_db_ok :: "pairing_db \<Rightarrow> bool" where
  "pairing_db_ok d \<longleftrightarrow> pairing_violation d = None"

definition pchecked :: "pairing_db \<Rightarrow> pairing_db_error + pairing_db" where
  "pchecked d = (case pairing_violation d of None \<Rightarrow> Inr d | Some e \<Rightarrow> Inl e)"

definition update_keys ::
  "(pairing_key \<Rightarrow> bool) \<Rightarrow> (pairing_key \<Rightarrow> pairing_key) \<Rightarrow> pairing_db \<Rightarrow> pairing_db_error + pairing_db" where
  "update_keys P f d = pchecked (d\<lparr>pd_keys := map (\<lambda>k. if P k then f k else k) (pd_keys d)\<rparr>)"

definition update_pairings ::
  "(device_pairing \<Rightarrow> bool) \<Rightarrow> (device_pairing \<Rightarrow> device_pairing) \<Rightarrow> pairing_db \<Rightarrow> pairing_db_error + pairing_db" where
  "update_pairings P f d = pchecked (d\<lparr>pd_pairings := map (\<lambda>p. if P p then f p else p) (pd_pairings d)\<rparr>)"

section \<open>Reads\<close>

definition GetDevicePairingByID :: "int \<Rightarrow> pairing_db \<Rightarrow> device_pairing option" where
  "GetDevicePairingByID i d = find (\<lambda>p. dp_id p = i) (pd_pairings d)"

definition GetDevicePairingByAgentID :: "string \<Rightarrow> pairing_db \<Rightarrow> device_pairing option" where
  "GetDevicePairingByAgentID a d = find (\<lambda>p. dp_agent p = a) (pd_pairings d)"

text \<open>\<open>expires_at IS NULL OR expires_at > t\<close>\<close>

definition not_expired :: "int \<Rightarrow> pairing_key \<Rightarrow> bool" where
  "not_expired t k = (case pk_expires k of None \<Rightarrow> True | Some e \<Rightarrow> t < e)"

definition active_key :: "int \<Rightarrow> pairing_key \<Rightarrow> bool" where
  "active_key t k \<longleftrightarrow> pk_revoked k = None \<and> not_expired t k"

definition GetDevicePairingKeyByHash :: "int \<Rightarrow> string \<Rightarrow> pairing_db \<Rightarrow> pairing_key option" where
  "GetDevicePairingKeyByHash t h d =
     find (\<lambda>k. pk_hash k = h \<and> active_key t k \<and>
        (\<exists>p \<in> set (pd_pairings d). dp_id p = pk_pairing k \<and> dp_revoked p = None)) (pd_keys d)"

definition GetDevicePairingKeyByID :: "int \<Rightarrow> pairing_db \<Rightarrow> pairing_key option" where
  "GetDevicePairingKeyByID i d = find (\<lambda>k. pk_id k = i) (pd_keys d)"

text \<open>\<open>ORDER BY created_at DESC, id DESC\<close>\<close>

definition newest_first :: "pairing_key list \<Rightarrow> pairing_key list" where
  "newest_first ks = rev (sort_key (\<lambda>k. (pk_created k, pk_id k)) ks)"

definition NewestActiveKeyForPairing :: "int \<Rightarrow> int \<Rightarrow> int \<Rightarrow> pairing_db \<Rightarrow> pairing_key option" where
  "NewestActiveKeyForPairing t pairing current d =
     (case GetDevicePairingKeyByID current d of
        None \<Rightarrow> None
      | Some c \<Rightarrow>
          find (\<lambda>_. True) (newest_first (filter (\<lambda>k. pk_pairing k = pairing \<and> active_key t k \<and> pk_id k \<noteq> current \<and>
            (pk_created c < pk_created k \<or> pk_created k = pk_created c \<and> current < pk_id k)) (pd_keys d))))"

definition ActiveKeyPreviewForPairing :: "int \<Rightarrow> int \<Rightarrow> pairing_db \<Rightarrow> string option" where
  "ActiveKeyPreviewForPairing t pairing d =
     map_option pk_preview (find (\<lambda>_. True)
       (newest_first (filter (\<lambda>k. pk_pairing k = pairing \<and> active_key t k) (pd_keys d))))"

definition ListKeysByPairing :: "int \<Rightarrow> pairing_db \<Rightarrow> pairing_key list" where
  "ListKeysByPairing pairing d = newest_first (filter (\<lambda>k. pk_pairing k = pairing) (pd_keys d))"

definition ListPairingSecrets :: "pairing_db \<Rightarrow> (int \<times> string \<times> string option) list" where
  "ListPairingSecrets d = List.map_filter (\<lambda>p. map_option (\<lambda>qr. (dp_id p, qr, dp_url p)) (dp_qr p)) (pd_pairings d)"

section \<open>Writes\<close>

definition CreateDevicePairing ::
  "string \<Rightarrow> string \<Rightarrow> int \<Rightarrow> string \<Rightarrow> string option \<Rightarrow> int option \<Rightarrow> string option \<Rightarrow> pairing_db
   \<Rightarrow> pairing_db_error + (device_pairing \<times> pairing_db)" where
  "CreateDevicePairing agent label now created_by qr user url d =
     (let p = \<lparr>dp_id = next_rowid (map dp_id (pd_pairings d)), dp_agent = agent, dp_label = label, dp_created = now,
        dp_by = created_by, dp_revoked = None, dp_qr = qr, dp_user = user, dp_url = url\<rparr>
      in rbind (pchecked (d\<lparr>pd_pairings := pd_pairings d @ [p]\<rparr>)) (\<lambda>d'. Inr (p, d')))"

definition CreateDevicePairingKey ::
  "int \<Rightarrow> string \<Rightarrow> string \<Rightarrow> int \<Rightarrow> pairing_db \<Rightarrow> pairing_db_error + (pairing_key \<times> pairing_db)" where
  "CreateDevicePairingKey pairing h preview now d =
     (let k = \<lparr>pk_id = next_rowid (map pk_id (pd_keys d)), pk_pairing = pairing, pk_hash = h, pk_preview = preview,
        pk_created = now, pk_expires = None, pk_revoked = None, pk_sealed = None, pk_awaiting = False, pk_adopted = None\<rparr>
      in rbind (pchecked (d\<lparr>pd_keys := pd_keys d @ [k]\<rparr>)) (\<lambda>d'. Inr (k, d')))"

definition InsertPairingAudit ::
  "int \<Rightarrow> string \<Rightarrow> string \<Rightarrow> evidence \<Rightarrow> int \<Rightarrow> pairing_db \<Rightarrow> pairing_db_error + pairing_db" where
  "InsertPairingAudit pairing actor event details now d =
     pchecked (d\<lparr>pd_audit := pd_audit d @ [\<lparr>pa_id = next_rowid (map pa_id (pd_audit d)), pa_pairing = pairing,
       pa_actor = actor, pa_event = event, pa_details = details, pa_created = now\<rparr>]\<rparr>)"

definition InsertActorAudit ::
  "string \<Rightarrow> string \<Rightarrow> string \<Rightarrow> string \<Rightarrow> string \<Rightarrow> pairing_db \<Rightarrow> pairing_db_error + pairing_db" where
  "InsertActorAudit akind aname event resource rid d =
     pchecked (d\<lparr>pd_actors := pd_actors d @ [\<lparr>ac_kind = akind, ac_name = aname, ac_event = event,
       ac_resource = resource, ac_resource_id = rid\<rparr>]\<rparr>)"

text \<open>The number of affected rows with the new state.\<close>

definition AdoptRotatedKey :: "int \<Rightarrow> int \<Rightarrow> pairing_db \<Rightarrow> pairing_db_error + (nat \<times> pairing_db)" where
  "AdoptRotatedKey i now d =
     (let P = (\<lambda>k. pk_id k = i \<and> pk_awaiting k)
      in rbind (update_keys P (\<lambda>k. k\<lparr>pk_awaiting := False, pk_adopted := Some now, pk_sealed := None\<rparr>) d)
           (\<lambda>d'. Inr (length (filter P (pd_keys d)), d')))"

definition ClearSupersededRotationSecrets :: "int \<Rightarrow> int \<Rightarrow> pairing_db \<Rightarrow> pairing_db_error + pairing_db" where
  "ClearSupersededRotationSecrets pairing i =
     update_keys (\<lambda>k. pk_pairing k = pairing \<and> pk_id k \<noteq> i \<and> pk_sealed k \<noteq> None) (\<lambda>k. k\<lparr>pk_sealed := None\<rparr>)"

definition MarkKeyAwaitingAdoption :: "int \<Rightarrow> string option \<Rightarrow> pairing_db \<Rightarrow> pairing_db_error + pairing_db" where
  "MarkKeyAwaitingAdoption i s = update_keys (\<lambda>k. pk_id k = i) (\<lambda>k. k\<lparr>pk_awaiting := True, pk_sealed := s\<rparr>)"

definition RetireKeysOlderThan :: "int \<Rightarrow> int \<Rightarrow> int \<Rightarrow> pairing_db \<Rightarrow> pairing_db_error + (nat \<times> pairing_db)" where
  "RetireKeysOlderThan pairing i now d =
     (let P = (\<lambda>k. pk_pairing k = pairing \<and> pk_id k < i \<and> active_key now k)
      in rbind (update_keys P (\<lambda>k. k\<lparr>pk_revoked := Some now, pk_sealed := None, pk_awaiting := False\<rparr>) d)
           (\<lambda>d'. Inr (length (filter P (pd_keys d)), d')))"

definition RevokeAllKeysForPairing :: "int \<Rightarrow> int \<Rightarrow> pairing_db \<Rightarrow> pairing_db_error + pairing_db" where
  "RevokeAllKeysForPairing pairing now =
     update_keys (\<lambda>k. pk_pairing k = pairing \<and> active_key now k)
       (\<lambda>k. k\<lparr>pk_revoked := Some now, pk_sealed := None, pk_awaiting := False\<rparr>)"

definition RevokeDevicePairing :: "int \<Rightarrow> int \<Rightarrow> pairing_db \<Rightarrow> pairing_db_error + pairing_db" where
  "RevokeDevicePairing i now =
     update_pairings (\<lambda>p. dp_id p = i \<and> dp_revoked p = None) (\<lambda>p. p\<lparr>dp_revoked := Some now\<rparr>)"

definition SetActiveKeyExpirations :: "int \<Rightarrow> int \<Rightarrow> pairing_db \<Rightarrow> pairing_db_error + pairing_db" where
  "SetActiveKeyExpirations pairing expires =
     update_keys (\<lambda>k. pk_pairing k = pairing \<and> pk_revoked k = None \<and> pk_expires k = None)
       (\<lambda>k. k\<lparr>pk_expires := Some expires\<rparr>)"

definition UpdateDevicePairingCredentials :: "int \<Rightarrow> string option \<Rightarrow> string option \<Rightarrow> pairing_db \<Rightarrow> pairing_db_error + pairing_db" where
  "UpdateDevicePairingCredentials i qr url =
     update_pairings (\<lambda>p. dp_id p = i) (\<lambda>p. p\<lparr>dp_qr := qr, dp_url := url\<rparr>)"

definition UpdateDevicePairingFriendlyLabel :: "int \<Rightarrow> string \<Rightarrow> pairing_db \<Rightarrow> pairing_db_error + pairing_db" where
  "UpdateDevicePairingFriendlyLabel i label = update_pairings (\<lambda>p. dp_id p = i) (\<lambda>p. p\<lparr>dp_label := label\<rparr>)"

definition DeletePairingAuditForPairing :: "int \<Rightarrow> pairing_db \<Rightarrow> pairing_db_error + pairing_db" where
  "DeletePairingAuditForPairing i d = pchecked (d\<lparr>pd_audit := filter (\<lambda>a. pa_pairing a \<noteq> i) (pd_audit d)\<rparr>)"

definition DeletePairingKeysForPairing :: "int \<Rightarrow> pairing_db \<Rightarrow> pairing_db_error + pairing_db" where
  "DeletePairingKeysForPairing i d = pchecked (d\<lparr>pd_keys := filter (\<lambda>k. pk_pairing k \<noteq> i) (pd_keys d)\<rparr>)"

definition DeleteDevicePairing :: "int \<Rightarrow> pairing_db \<Rightarrow> pairing_db_error + pairing_db" where
  "DeleteDevicePairing i d = pchecked (d\<lparr>pd_pairings := filter (\<lambda>p. dp_id p \<noteq> i) (pd_pairings d)\<rparr>)"

section \<open>Reading the constraints back\<close>

lemma pairing_db_ok_iff:
  "pairing_db_ok d \<longleftrightarrow>
     distinct (map dp_id (pd_pairings d)) \<and> distinct (map dp_agent (pd_pairings d)) \<and>
     (\<forall>p \<in> set (pd_pairings d). pairing_check p) \<and>
     (\<forall>p \<in> set (pd_pairings d). \<forall>u. dp_user p = Some u \<longrightarrow> u \<in> set (pd_users d)) \<and>
     distinct (map pk_id (pd_keys d)) \<and> distinct (map pk_hash (pd_keys d)) \<and>
     (\<forall>k \<in> set (pd_keys d). key_check k) \<and> (\<forall>k \<in> set (pd_keys d). pk_pairing k \<in> dp_id ` set (pd_pairings d)) \<and>
     (\<forall>a \<in> set (pd_audit d). pa_pairing a \<in> dp_id ` set (pd_pairings d)) \<and>
     (\<forall>a \<in> set (pd_actors d). ac_kind a \<in> {''user'', ''machine'', ''system'', ''anonymous''})"
  by (auto simp: pairing_db_ok_def pairing_violation_def Let_def list_all_iff split: option.splits)

lemma pchecked_Inr [result_simps]: "pchecked d = Inr d' \<longleftrightarrow> d' = d \<and> pairing_db_ok d"
  by (auto simp: pchecked_def pairing_db_ok_def split: option.splits)

lemma pchecked_ok: "pairing_db_ok d \<Longrightarrow> pchecked d = Inr d"
  by (simp add: result_simps)

lemma key_same_id:
  "pairing_db_ok d \<Longrightarrow> j \<in> set (pd_keys d) \<Longrightarrow> k \<in> set (pd_keys d) \<Longrightarrow> pk_id j = pk_id k \<Longrightarrow> j = k"
  unfolding pairing_db_ok_iff by (elim conjE) (rule distinct_map_eqD)

lemma key_same_hash:
  "pairing_db_ok d \<Longrightarrow> j \<in> set (pd_keys d) \<Longrightarrow> k \<in> set (pd_keys d) \<Longrightarrow> pk_hash j = pk_hash k \<Longrightarrow> j = k"
  unfolding pairing_db_ok_iff by (elim conjE) (rule distinct_map_eqD)

lemma pairing_same_id:
  "pairing_db_ok d \<Longrightarrow> p \<in> set (pd_pairings d) \<Longrightarrow> q \<in> set (pd_pairings d) \<Longrightarrow> dp_id p = dp_id q \<Longrightarrow> p = q"
  unfolding pairing_db_ok_iff by (elim conjE) (rule distinct_map_eqD)

lemma GetDevicePairingByID_Some:
  "GetDevicePairingByID i d = Some p \<Longrightarrow> p \<in> set (pd_pairings d) \<and> dp_id p = i"
  unfolding GetDevicePairingByID_def by (rule find_SomeD)

lemma GetDevicePairingByID_ok:
  "pairing_db_ok d \<Longrightarrow> p \<in> set (pd_pairings d) \<Longrightarrow> GetDevicePairingByID (dp_id p) d = Some p"
  unfolding GetDevicePairingByID_def by (rule find_unique) (auto intro: pairing_same_id)

end
