(* ===== verification/Pairing.thy ===== *)
theory Pairing
  imports PairingTables
begin

text \<open>
  \<open>internal/pairing/service.go\<close>: the API keys of paired devices. The service record holds what
  \<open>NewService\<close> is given: HMAC-SHA256 and AES-GCM, which are parameters, the pepper, the box and the
  QR encoder. \<open>now\<close> is what \<open>nowFn\<close> returns to a call, \<open>t\<close> what SQLite's \<open>unixepoch()\<close> returns; the
  random bytes a call draws are arguments. Failures of the connection are not modelled.
\<close>

record pairing_service =
  sv_hmac :: "string \<Rightarrow> string \<Rightarrow> string"
  sv_gcm :: aead
  sv_pepper :: string
  sv_box :: box
  sv_encode :: "string \<Rightarrow> string + string"

record draws =
  dr_agent :: string
  dr_key :: string
  dr_nonce1 :: string
  dr_nonce2 :: string
  dr_nonce3 :: string

datatype pairing_error =
    ErrPairingNotFound
  | ErrNoActiveKey
  | ErrPairingRevoked
  | ErrPairingNotRevoked
  | ErrEmptyLabel
  | Sealing secrets_error
  | Rendering string
  | Database pairing_db_error

fun lift_db :: "pairing_db_error + 'a \<Rightarrow> pairing_error + 'a" where
  "lift_db (Inl e) = Inl (Database e)"
| "lift_db (Inr x) = Inr x"

fun lift_seal :: "secrets_error + 'a \<Rightarrow> pairing_error + 'a" where
  "lift_seal (Inl e) = Inl (Sealing e)"
| "lift_seal (Inr x) = Inr x"

text \<open>\<open>Key\<close>: the stored row with what is shown once.\<close>

record minted_key =
  mk_row :: pairing_key
  mk_plain :: string
  mk_svg :: string
  mk_url :: string

section \<open>Minting\<close>

definition trim_right :: "char \<Rightarrow> string \<Rightarrow> string" where
  "trim_right c s = rev (dropWhile (\<lambda>x. x = c) (rev s))"

definition mintAPIKey :: "string \<Rightarrow> string" where
  "mintAPIKey buf = trim_right pad_char (b64_encode b64_url buf)"

definition mintAgentID :: "string \<Rightarrow> string" where
  "mintAgentID buf = ''dev-'' @ hex_encode buf"

definition hashKey :: "pairing_service \<Rightarrow> string \<Rightarrow> string" where
  "hashKey sv plaintext = hex_encode (sv_hmac sv (sv_pepper sv) plaintext)"

definition last_four :: "string \<Rightarrow> string" where
  "last_four s = drop (length s - 4) s"

definition RenderSVG :: "pairing_service \<Rightarrow> string \<Rightarrow> pairing_error + string" where
  "RenderSVG sv payload =
     (if payload = [] then Inl (Rendering ''qr: empty payload'')
      else case sv_encode sv payload of Inl e \<Rightarrow> Inl (Rendering e) | Inr svg \<Rightarrow> Inr svg)"

definition sealCredential ::
  "pairing_service \<Rightarrow> string \<Rightarrow> string \<Rightarrow> string \<Rightarrow> string \<Rightarrow> pairing_error + (string \<times> string option)" where
  "sealCredential sv nonce1 nonce2 svg payloadURL =
     (if sv_box sv = None then Inr (svg, None)
      else rbind (lift_seal (SealBytes (sv_gcm sv) (sv_box sv) nonce1 svg)) (\<lambda>sealedSVG.
           rbind (lift_seal (Seal (sv_gcm sv) (sv_box sv) nonce2 payloadURL)) (\<lambda>sealedURL.
           Inr (sealedSVG, Some sealedURL))))"

definition openStored :: "pairing_service \<Rightarrow> string \<Rightarrow> pairing_error + string" where
  "openStored sv stored =
     (if \<not> IsSealed stored then Inr stored else lift_seal (OpenBytes (sv_gcm sv) (sv_box sv) stored))"

definition credentials_for ::
  "pairing_service \<Rightarrow> draws \<Rightarrow> string \<Rightarrow> pairing_error + (string \<times> string \<times> string option)" where
  "credentials_for sv dr payload =
     rbind (RenderSVG sv payload) (\<lambda>svg.
     rbind (sealCredential sv (dr_nonce1 dr) (dr_nonce2 dr) svg payload) (\<lambda>(storedSVG, storedURL).
     Inr (svg, storedSVG, storedURL)))"

section \<open>Creating a pairing\<close>

definition create_tx ::
  "string \<Rightarrow> string \<Rightarrow> string \<Rightarrow> string \<Rightarrow> string \<Rightarrow> int option \<Rightarrow> string \<Rightarrow> string option \<Rightarrow> int \<Rightarrow> pairing_db
   \<Rightarrow> pairing_error + ((device_pairing \<times> pairing_key) \<times> pairing_db)" where
  "create_tx agentID plaintext h label actor user storedSVG storedURL now d =
     rbind (lift_db (CreateDevicePairing agentID label now actor (Some storedSVG) user storedURL d)) (\<lambda>(p, d).
     rbind (lift_db (CreateDevicePairingKey (dp_id p) h (last_four plaintext) now d)) (\<lambda>(k, d).
     rbind (lift_db (InsertPairingAudit (dp_id p) actor ''PAIR_CREATED''
       (EvObject [(''agent_id'', EvString agentID), (''friendly_label'', EvString label)]) now d)) (\<lambda>d.
     rbind (lift_db (InsertPairingAudit (dp_id p) actor ''KEY_MINTED''
       (EvObject [(''key_id'', EvInt (pk_id k)), (''key_preview'', EvString (last_four plaintext))]) now d)) (\<lambda>d.
     Inr ((p, k), d)))))"

definition CreatePairing ::
  "pairing_service \<Rightarrow> draws \<Rightarrow> int \<Rightarrow> string \<Rightarrow> string \<Rightarrow> int \<Rightarrow> (string \<Rightarrow> string \<Rightarrow> string) \<Rightarrow> pairing_db
   \<Rightarrow> (pairing_error + (device_pairing \<times> minted_key)) \<times> pairing_db" where
  "CreatePairing sv dr now label actor userID qrPayloadFor d =
     (let agentID = mintAgentID (dr_agent dr); plaintext = mintAPIKey (dr_key dr);
          payload = qrPayloadFor agentID plaintext;
          user = (if userID \<noteq> 0 then Some userID else None)
      in case credentials_for sv dr payload of
           Inl e \<Rightarrow> (Inl e, d)
         | Inr (svg, storedSVG, storedURL) \<Rightarrow>
             (case in_tx (create_tx agentID plaintext (hashKey sv plaintext) label actor user storedSVG storedURL now) d of
                (Inl e, d) \<Rightarrow> (Inl e, d)
              | (Inr (p, k), d) \<Rightarrow> (Inr (p, \<lparr>mk_row = k, mk_plain = plaintext, mk_svg = svg, mk_url = payload\<rparr>), d)))"

section \<open>Looking up a key\<close>

definition adoptKey :: "int \<Rightarrow> pairing_key \<Rightarrow> string \<Rightarrow> pairing_db \<Rightarrow> (pairing_error + unit) \<times> pairing_db" where
  "adoptKey now row agentID = in_tx (\<lambda>d.
     rbind (lift_db (AdoptRotatedKey (pk_id row) now d)) (\<lambda>(n, d).
     if n = 0 then Inr ((), d)
     else rbind (lift_db (RetireKeysOlderThan (pk_pairing row) (pk_id row) now d)) (\<lambda>(retired, d).
          rbind (lift_db (InsertPairingAudit (pk_pairing row) agentID ''KEY_ADOPTED''
            (EvObject [(''key_id'', EvInt (pk_id row)), (''key_preview'', EvString (pk_preview row)),
               (''retired_keys'', EvInt (int retired))]) now d)) (\<lambda>d.
          Inr ((), d)))))"

text \<open>\<open>auth.KeyLookupResult\<close>; the zero value is a miss.\<close>

record key_lookup_result =
  lr_agent :: string
  lr_signing :: "string option"

definition no_key :: key_lookup_result where
  "no_key = \<lparr>lr_agent = [], lr_signing = None\<rparr>"

definition SigningKeyForAPIKey :: "string \<Rightarrow> string" where
  "SigningKeyForAPIKey presented = presented"

datatype lookup_error = PairingRowMissing

definition KeyLookup ::
  "pairing_service \<Rightarrow> int \<Rightarrow> int \<Rightarrow> string \<Rightarrow> pairing_db \<Rightarrow> (lookup_error + key_lookup_result) \<times> pairing_db" where
  "KeyLookup sv t now presented d =
     (case GetDevicePairingKeyByHash t (hashKey sv presented) d of
        None \<Rightarrow> (Inr no_key, d)
      | Some row \<Rightarrow>
          (case GetDevicePairingByID (pk_pairing row) d of
             None \<Rightarrow> (Inl PairingRowMissing, d)
           | Some p \<Rightarrow>
               (Inr \<lparr>lr_agent = dp_agent p, lr_signing = Some (SigningKeyForAPIKey presented)\<rparr>,
                if pk_awaiting row then snd (adoptKey now row (dp_agent p) d) else d)))"

section \<open>Rotating a key\<close>

definition grace_minutes :: "int \<Rightarrow> int" where
  "grace_minutes m = (if m \<le> 0 then 24 * 60 else m)"

definition rotate_tx ::
  "int \<Rightarrow> string \<Rightarrow> string \<Rightarrow> string option \<Rightarrow> string \<Rightarrow> int \<Rightarrow> int \<Rightarrow> pairing_db
   \<Rightarrow> pairing_error + ((device_pairing \<times> pairing_key) \<times> pairing_db)" where
  "rotate_tx pairing plaintext h sealed actor grace now d =
     (case GetDevicePairingByID pairing d of
        None \<Rightarrow> Inl ErrPairingNotFound
      | Some existing \<Rightarrow>
          if dp_revoked existing \<noteq> None then Inl ErrPairingRevoked
          else
            rbind (lift_db (SetActiveKeyExpirations pairing (now + grace * 60) d)) (\<lambda>d.
            rbind (lift_db (CreateDevicePairingKey pairing h (last_four plaintext) now d)) (\<lambda>(row, d).
            rbind (lift_db (MarkKeyAwaitingAdoption (pk_id row) sealed d)) (\<lambda>d.
            rbind (lift_db (ClearSupersededRotationSecrets pairing (pk_id row) d)) (\<lambda>d.
            rbind (lift_db (InsertPairingAudit pairing actor ''KEY_ROTATED''
              (EvObject [(''grace_minutes'', EvInt grace), (''new_key_id'', EvInt (pk_id row)),
                 (''new_key_preview'', EvString (last_four plaintext)),
                 (''previous_expires_at'', EvInt (now + grace * 60))]) now d)) (\<lambda>d.
            Inr ((existing, row), d)))))))"

text \<open>The rotation itself, and the second transaction that stores the new credentials.\<close>

definition rotate_key ::
  "pairing_service \<Rightarrow> draws \<Rightarrow> int \<Rightarrow> int \<Rightarrow> string \<Rightarrow> int \<Rightarrow> pairing_db
   \<Rightarrow> (pairing_error + (device_pairing \<times> pairing_key)) \<times> pairing_db" where
  "rotate_key sv dr now pairing actor graceMinutes d =
     (let plaintext = mintAPIKey (dr_key dr)
      in case (if sv_box sv = None then Inr None
               else rbind (lift_seal (Seal (sv_gcm sv) (sv_box sv) (dr_nonce3 dr) plaintext)) (\<lambda>s. Inr (Some s))) of
           Inl e \<Rightarrow> (Inl e, d)
         | Inr sealed \<Rightarrow>
             in_tx (rotate_tx pairing plaintext (hashKey sv plaintext) sealed actor (grace_minutes graceMinutes) now) d)"

definition store_credentials ::
  "pairing_service \<Rightarrow> draws \<Rightarrow> int \<Rightarrow> string \<Rightarrow> pairing_db \<Rightarrow> (pairing_error + string) \<times> pairing_db" where
  "store_credentials sv dr pairing payload d =
     (case credentials_for sv dr payload of
        Inl e \<Rightarrow> (Inl e, d)
      | Inr (svg, storedSVG, storedURL) \<Rightarrow>
          in_tx (\<lambda>d. rbind (lift_db (UpdateDevicePairingCredentials pairing (Some storedSVG) storedURL d)) (\<lambda>d.
            Inr (svg, d))) d)"

definition RotateKey ::
  "pairing_service \<Rightarrow> draws \<Rightarrow> int \<Rightarrow> int \<Rightarrow> string \<Rightarrow> int \<Rightarrow> (string \<Rightarrow> string \<Rightarrow> string) \<Rightarrow> pairing_db
   \<Rightarrow> (pairing_error + (minted_key \<times> int)) \<times> pairing_db" where
  "RotateKey sv dr now pairing actor graceMinutes qrPayloadFor d =
     (case rotate_key sv dr now pairing actor graceMinutes d of
        (Inl e, d) \<Rightarrow> (Inl e, d)
      | (Inr (p, row), d) \<Rightarrow>
          let plaintext = mintAPIKey (dr_key dr); payload = qrPayloadFor (dp_agent p) plaintext
          in case store_credentials sv dr pairing payload d of
               (Inl e, d) \<Rightarrow> (Inl e, d)
             | (Inr svg, d) \<Rightarrow>
                 (Inr (\<lparr>mk_row = row, mk_plain = plaintext, mk_svg = svg, mk_url = payload\<rparr>,
                    now + grace_minutes graceMinutes * 60), d))"

section \<open>Delivering a rotated key\<close>

definition RotationSealInfo :: string where
  "RotationSealInfo = ''branchdam-key-rotation-v1''"

definition rotationBox :: "pairing_service \<Rightarrow> string \<Rightarrow> secrets_error + box" where
  "rotationBox sv currentKey = NewBox (b64_encode b64_std (sv_hmac sv currentKey RotationSealInfo))"

definition SealForDevice :: "pairing_service \<Rightarrow> string \<Rightarrow> string \<Rightarrow> string \<Rightarrow> secrets_error + string" where
  "SealForDevice sv nonce currentKey newKey =
     rbind (rotationBox sv currentKey) (\<lambda>b. Seal (sv_gcm sv) b nonce newKey)"

definition OpenRotatedKey :: "pairing_service \<Rightarrow> string \<Rightarrow> string \<Rightarrow> secrets_error + string" where
  "OpenRotatedKey sv currentKey sealed = rbind (rotationBox sv currentKey) (\<lambda>b. Open (sv_gcm sv) b sealed)"

record pending_rotation =
  pr_current :: int
  pr_key :: int
  pr_sealed :: string
  pr_expires :: int

definition PendingRotationFor ::
  "pairing_service \<Rightarrow> int \<Rightarrow> string \<Rightarrow> string \<Rightarrow> string \<Rightarrow> pairing_db
   \<Rightarrow> (lookup_error + secrets_error) + pending_rotation option" where
  "PendingRotationFor sv t nonce agentID presented d =
     (case GetDevicePairingKeyByHash t (hashKey sv presented) d of
        None \<Rightarrow> Inr None
      | Some row \<Rightarrow>
          (case GetDevicePairingByID (pk_pairing row) d of
             None \<Rightarrow> Inl (Inl PairingRowMissing)
           | Some p \<Rightarrow>
               if dp_agent p \<noteq> agentID then Inr None
               else let out = \<lparr>pr_current = pk_id row, pr_key = 0, pr_sealed = [], pr_expires = 0\<rparr>
               in case NewestActiveKeyForPairing t (pk_pairing row) (pk_id row) d of
                    None \<Rightarrow> Inr (Some out)
                  | Some newer \<Rightarrow>
                      let out = out\<lparr>pr_key := pk_id newer, pr_expires := (case pk_expires row of None \<Rightarrow> 0 | Some e \<Rightarrow> e)\<rparr>
                      in case (pk_sealed newer, sv_box sv) of
                           (Some stored, Some _) \<Rightarrow>
                             (case Open (sv_gcm sv) (sv_box sv) stored of
                                Inl _ \<Rightarrow> Inr (Some out)
                              | Inr plaintext \<Rightarrow>
                                  (case SealForDevice sv nonce presented plaintext of
                                     Inl e \<Rightarrow> Inl (Inr e)
                                   | Inr s \<Rightarrow> Inr (Some (out\<lparr>pr_sealed := s\<rparr>))))
                         | _ \<Rightarrow> Inr (Some out)))"

section \<open>Revoking and deleting\<close>

definition RevokePairing :: "int \<Rightarrow> int \<Rightarrow> string \<Rightarrow> pairing_db \<Rightarrow> (pairing_error + unit) \<times> pairing_db" where
  "RevokePairing now pairing actor = in_tx (\<lambda>d.
     if GetDevicePairingByID pairing d = None then Inl ErrPairingNotFound
     else rbind (lift_db (RevokeAllKeysForPairing pairing now d)) (\<lambda>d.
          rbind (lift_db (RevokeDevicePairing pairing now d)) (\<lambda>d.
          rbind (lift_db (InsertPairingAudit pairing actor ''PAIR_REVOKED'' (EvObject []) now d)) (\<lambda>d.
          Inr ((), d)))))"

definition parseActorString :: "string \<Rightarrow> string \<times> string" where
  "parseActorString actor =
     (if has_prefix actor ''user:'' then (''user'', trim_prefix actor ''user:'')
      else if actor = ''system'' \<or> actor = [] then (''system'', actor)
      else (''user'', actor))"

definition DeletePairing :: "int \<Rightarrow> string \<Rightarrow> pairing_db \<Rightarrow> (pairing_error + unit) \<times> pairing_db" where
  "DeletePairing pairing actor = in_tx (\<lambda>d.
     case GetDevicePairingByID pairing d of
       None \<Rightarrow> Inl ErrPairingNotFound
     | Some p \<Rightarrow>
         if dp_revoked p = None then Inl ErrPairingNotRevoked
         else let (akind, aname) = parseActorString actor
              in rbind (lift_db (InsertActorAudit akind aname ''pairing.deleted'' ''companion_pairing''
                          (itoa pairing) d)) (\<lambda>d.
                 rbind (lift_db (DeletePairingAuditForPairing pairing d)) (\<lambda>d.
                 rbind (lift_db (DeletePairingKeysForPairing pairing d)) (\<lambda>d.
                 rbind (lift_db (DeleteDevicePairing pairing d)) (\<lambda>d. Inr ((), d))))))"

section \<open>Renaming, revealing and reading\<close>

definition RenamePairing ::
  "int \<Rightarrow> int \<Rightarrow> string \<Rightarrow> string \<Rightarrow> pairing_db \<Rightarrow> (pairing_error + device_pairing) \<times> pairing_db" where
  "RenamePairing now pairing label actor d =
     (let label = trim_space label
      in if label = [] then (Inl ErrEmptyLabel, d)
         else in_tx (\<lambda>d.
           case GetDevicePairingByID pairing d of
             None \<Rightarrow> Inl ErrPairingNotFound
           | Some existing \<Rightarrow>
               rbind (lift_db (UpdateDevicePairingFriendlyLabel pairing label d)) (\<lambda>d.
               rbind (lift_db (InsertPairingAudit pairing actor ''LABEL_RENAMED''
                 (EvObject [(''new'', EvString label), (''old'', EvString (dp_label existing))]) now d)) (\<lambda>d.
               Inr (existing\<lparr>dp_label := label\<rparr>, d)))) d)"

definition RecordCredentialReveal ::
  "int \<Rightarrow> int \<Rightarrow> string \<Rightarrow> string \<Rightarrow> pairing_db \<Rightarrow> (pairing_error + unit) \<times> pairing_db" where
  "RecordCredentialReveal now pairing actor channel = in_tx (\<lambda>d.
     rbind (lift_db (InsertPairingAudit pairing actor ''CREDENTIALS_REVEALED''
       (EvObject [(''channel'', EvString channel)]) now d)) (\<lambda>d. Inr ((), d)))"

record credentials =
  cr_agent :: string
  cr_label :: string
  cr_svg :: string
  cr_url :: string
  cr_preview :: string
  cr_sealing :: bool

definition ActiveCredentials :: "pairing_service \<Rightarrow> int \<Rightarrow> int \<Rightarrow> pairing_db \<Rightarrow> pairing_error + credentials" where
  "ActiveCredentials sv t pairing d =
     (case GetDevicePairingByID pairing d of
        None \<Rightarrow> Inl ErrPairingNotFound
      | Some row \<Rightarrow>
          if dp_revoked row \<noteq> None then Inl ErrNoActiveKey
          else if or_empty (dp_qr row) = [] then Inl ErrNoActiveKey
          else rbind (openStored sv (or_empty (dp_qr row))) (\<lambda>svg.
            let creds = \<lparr>cr_agent = dp_agent row, cr_label = dp_label row, cr_svg = svg, cr_url = [],
                  cr_preview = or_empty (ActiveKeyPreviewForPairing t pairing d), cr_sealing = (sv_box sv \<noteq> None)\<rparr>
            in if or_empty (dp_url row) = [] then Inr creds
               else rbind (lift_seal (Open (sv_gcm sv) (sv_box sv) (or_empty (dp_url row)))) (\<lambda>url.
                    Inr (creds\<lparr>cr_url := url\<rparr>))))"

definition ActiveQRSVG :: "pairing_service \<Rightarrow> int \<Rightarrow> int \<Rightarrow> pairing_db \<Rightarrow> pairing_error + string" where
  "ActiveQRSVG sv t pairing d = rbind (ActiveCredentials sv t pairing d) (\<lambda>c. Inr (cr_svg c))"

text \<open>The loop of the backfill, one transaction per row; the number sealed, and the error it stopped at.\<close>

fun backfill_rows ::
  "pairing_service \<Rightarrow> (int \<Rightarrow> string) \<Rightarrow> (int \<times> string \<times> string option) list \<Rightarrow> nat \<Rightarrow> pairing_db
   \<Rightarrow> (nat \<times> pairing_error option) \<times> pairing_db" where
  "backfill_rows sv nonce [] sealed d = ((sealed, None), d)"
| "backfill_rows sv nonce ((i, qr, url) # rows) sealed d =
     (if IsSealed qr then backfill_rows sv nonce rows sealed d
      else case SealBytes (sv_gcm sv) (sv_box sv) (nonce i) qr of
        Inl e \<Rightarrow> ((sealed, Some (Sealing e)), d)
      | Inr stored \<Rightarrow>
          (case in_tx (\<lambda>d. rbind (lift_db (UpdateDevicePairingCredentials i (Some stored) url d)) (\<lambda>d. Inr ((), d))) d of
             (Inl e, d) \<Rightarrow> ((sealed, Some e), d)
           | (Inr _, d) \<Rightarrow> backfill_rows sv nonce rows (sealed + 1) d))"

definition BackfillSealedCredentials ::
  "pairing_service \<Rightarrow> (int \<Rightarrow> string) \<Rightarrow> pairing_db \<Rightarrow> (nat \<times> pairing_error option) \<times> pairing_db" where
  "BackfillSealedCredentials sv nonce d =
     (if sv_box sv = None then ((0, None), d) else backfill_rows sv nonce (ListPairingSecrets d) 0 d)"

definition LatestActiveKey :: "int \<Rightarrow> string \<Rightarrow> int \<Rightarrow> pairing_db \<Rightarrow> pairing_key option" where
  "LatestActiveKey t agentID currentKeyID d =
     (case GetDevicePairingByAgentID agentID d of
        None \<Rightarrow> None
      | Some p \<Rightarrow> if dp_revoked p \<noteq> None then None else NewestActiveKeyForPairing t (dp_id p) currentKeyID d)"

definition IsAgentRevoked :: "string \<Rightarrow> pairing_db \<Rightarrow> bool" where
  "IsAgentRevoked agentID d =
     (case GetDevicePairingByAgentID agentID d of None \<Rightarrow> True | Some p \<Rightarrow> dp_revoked p \<noteq> None)"

end
