(* ===== verification/PairingProps.thy ===== *)
theory PairingProps
  imports Pairing
begin

text \<open>
  What the pairing service keeps: every run of its operations, in any order and under any clock,
  keeps the constraints of its tables and the life cycle of a rotated key.
\<close>

section \<open>Statements and transactions, inverted\<close>

lemma lift_db_Inr [result_simps]: "lift_db m = Inr x \<longleftrightarrow> m = Inr x"
  by (cases m) auto

lemma lift_seal_Inr [result_simps]: "lift_seal m = Inr x \<longleftrightarrow> m = Inr x"
  by (cases m) auto

lemma service_tx_cases:
  assumes "in_tx f d = (r, d')"
  obtains e where "r = Inl e" "d' = d" | x where "r = Inr x" "f d = Inr (x, d')"
  using assms by (auto simp: in_tx_def split: sum.splits)

lemma update_keys_Inr [result_simps]:
  "update_keys P f d = Inr d' \<longleftrightarrow> d' = d\<lparr>pd_keys := map (\<lambda>k. if P k then f k else k) (pd_keys d)\<rparr> \<and> pairing_db_ok d'"
  by (auto simp: update_keys_def result_simps)

lemma update_pairings_Inr [result_simps]:
  "update_pairings P f d = Inr d' \<longleftrightarrow>
     d' = d\<lparr>pd_pairings := map (\<lambda>p. if P p then f p else p) (pd_pairings d)\<rparr> \<and> pairing_db_ok d'"
  by (auto simp: update_pairings_def result_simps)

text \<open>What a rotation does to the keys of the pairing, and the key it adds.\<close>

definition superseded :: "int \<Rightarrow> int \<Rightarrow> pairing_key \<Rightarrow> pairing_key" where
  "superseded i e k =
     (if pk_pairing k = i then
        k\<lparr>pk_expires := if pk_revoked k = None \<and> pk_expires k = None then Some e else pk_expires k, pk_sealed := None\<rparr>
      else k)"

definition rotated_key :: "int \<Rightarrow> int \<Rightarrow> string \<Rightarrow> string \<Rightarrow> int \<Rightarrow> string option \<Rightarrow> pairing_key" where
  "rotated_key kid i h preview now sealed =
     \<lparr>pk_id = kid, pk_pairing = i, pk_hash = h, pk_preview = preview, pk_created = now, pk_expires = None,
      pk_revoked = None, pk_sealed = sealed, pk_awaiting = True, pk_adopted = None\<rparr>"

lemma superseded_fields [simp]:
  "pk_id (superseded i e k) = pk_id k" "pk_pairing (superseded i e k) = pk_pairing k"
  "pk_hash (superseded i e k) = pk_hash k" "pk_revoked (superseded i e k) = pk_revoked k"
  "pk_created (superseded i e k) = pk_created k" "pk_awaiting (superseded i e k) = pk_awaiting k"
  by (simp_all add: superseded_def)

lemma rotated_key_fields [simp]:
  "pk_id (rotated_key kid i h v now s) = kid" "pk_pairing (rotated_key kid i h v now s) = i"
  "pk_hash (rotated_key kid i h v now s) = h" "pk_revoked (rotated_key kid i h v now s) = None"
  "pk_created (rotated_key kid i h v now s) = now" "pk_awaiting (rotated_key kid i h v now s)"
  "pk_expires (rotated_key kid i h v now s) = None" "pk_sealed (rotated_key kid i h v now s) = s"
  by (simp_all add: rotated_key_def)

definition next_key_id :: "pairing_db \<Rightarrow> int" where
  "next_key_id d = next_rowid (map pk_id (pd_keys d))"

lemma next_key_id_fresh: "k \<in> set (pd_keys d) \<Longrightarrow> pk_id k < next_key_id d"
  by (simp add: next_key_id_def next_rowid_fresh)

lemma rotate_tx_Inr:
  assumes "rotate_tx i plain h sealed actor g now d = Inr ((p, row), d')"
  shows "GetDevicePairingByID i d = Some p \<and> dp_revoked p = None \<and>
    pd_pairings d' = pd_pairings d \<and> pd_users d' = pd_users d \<and> pairing_db_ok d' \<and> pk_id row = next_key_id d \<and>
    pd_keys d' = map (superseded i (now + g * 60)) (pd_keys d)
      @ [rotated_key (next_key_id d) i h (last_four plain) now sealed]"
proof -
  let ?f = "\<lambda>k. if pk_pairing k = i \<and> pk_revoked k = None \<and> pk_expires k = None
    then k\<lparr>pk_expires := Some (now + g * 60)\<rparr> else k"
  have ids: "next_rowid (map pk_id (map ?f (pd_keys d))) = next_key_id d"
    unfolding next_key_id_def by (rule arg_cong [of _ _ next_rowid]) simp
  have new: "pk_id k \<noteq> next_key_id d" if "k \<in> set (pd_keys d)" for k
    using next_key_id_fresh [OF that] by simp
  from assms have p: "GetDevicePairingByID i d = Some p" "dp_revoked p = None"
    by (auto simp: rotate_tx_def result_simps split: option.splits if_splits)
  let ?row = "rotated_key (next_key_id d) i h (last_four plain) now None\<lparr>pk_awaiting := False\<rparr>"
  let ?mark = "\<lambda>k. if pk_id k = next_key_id d then k\<lparr>pk_awaiting := True, pk_sealed := sealed\<rparr> else k"
  let ?clear = "\<lambda>k. if pk_pairing k = i \<and> pk_id k \<noteq> next_key_id d \<and> pk_sealed k \<noteq> None
    then k\<lparr>pk_sealed := None\<rparr> else k"
  from assms p have "row = ?row \<and> pd_pairings d' = pd_pairings d \<and> pd_users d' = pd_users d \<and> pairing_db_ok d' \<and>
    pd_keys d' = map ?clear (map ?mark (map ?f (pd_keys d) @ [?row]))"
    by (auto simp: rotate_tx_def result_simps SetActiveKeyExpirations_def CreateDevicePairingKey_def
        MarkKeyAwaitingAdoption_def ClearSupersededRotationSecrets_def InsertPairingAudit_def Let_def ids
        rotated_key_def simp del: map_map)
  moreover have "map ?clear (map ?mark (map ?f (pd_keys d) @ [?row])) =
    map (superseded i (now + g * 60)) (pd_keys d) @ [rotated_key (next_key_id d) i h (last_four plain) now sealed]"
    using new by (auto simp: superseded_def rotated_key_def)
  ultimately show ?thesis using p by simp
qed

text \<open>What an adoption and a revocation do to a key.\<close>

definition retired_key :: "int \<Rightarrow> pairing_key \<Rightarrow> pairing_key" where
  "retired_key now k = k\<lparr>pk_revoked := Some now, pk_sealed := None, pk_awaiting := False\<rparr>"

definition adopted :: "pairing_key \<Rightarrow> int \<Rightarrow> pairing_key \<Rightarrow> pairing_key" where
  "adopted row now k =
     (if pk_id k = pk_id row \<and> pk_awaiting k then k\<lparr>pk_awaiting := False, pk_adopted := Some now, pk_sealed := None\<rparr>
      else if pk_pairing k = pk_pairing row \<and> pk_id k < pk_id row \<and> active_key now k then retired_key now k
      else k)"

definition revoked_key :: "int \<Rightarrow> int \<Rightarrow> pairing_key \<Rightarrow> pairing_key" where
  "revoked_key i now k = (if pk_pairing k = i \<and> active_key now k then retired_key now k else k)"

lemma retired_key_fields [simp]:
  "pk_id (retired_key now k) = pk_id k" "pk_pairing (retired_key now k) = pk_pairing k"
  "pk_hash (retired_key now k) = pk_hash k" "pk_revoked (retired_key now k) = Some now"
  "pk_created (retired_key now k) = pk_created k" "\<not> pk_awaiting (retired_key now k)"
  "pk_expires (retired_key now k) = pk_expires k" "pk_sealed (retired_key now k) = None"
  by (simp_all add: retired_key_def)

lemma adopted_fields [simp]:
  "pk_id (adopted row now k) = pk_id k" "pk_pairing (adopted row now k) = pk_pairing k"
  "pk_hash (adopted row now k) = pk_hash k" "pk_expires (adopted row now k) = pk_expires k"
  "pk_created (adopted row now k) = pk_created k"
  by (simp_all add: adopted_def)

lemma revoked_key_fields [simp]:
  "pk_id (revoked_key i now k) = pk_id k" "pk_pairing (revoked_key i now k) = pk_pairing k"
  "pk_hash (revoked_key i now k) = pk_hash k" "pk_expires (revoked_key i now k) = pk_expires k"
  "pk_created (revoked_key i now k) = pk_created k"
  by (simp_all add: revoked_key_def)

lemma adoptKey_outcome:
  assumes "adoptKey now row a d = (r, d')"
  shows "d' = d \<or> pd_keys d' = map (adopted row now) (pd_keys d) \<and> pd_pairings d' = pd_pairings d \<and>
    pd_users d' = pd_users d \<and> pairing_db_ok d'"
  using assms unfolding adoptKey_def
proof (cases rule: service_tx_cases)
  case (2 x)
  have "map (\<lambda>k. if pk_pairing k = pk_pairing row \<and> pk_id k < pk_id row \<and> active_key now k
        then k\<lparr>pk_revoked := Some now, pk_sealed := None, pk_awaiting := False\<rparr> else k)
      (map (\<lambda>k. if pk_id k = pk_id row \<and> pk_awaiting k
        then k\<lparr>pk_awaiting := False, pk_adopted := Some now, pk_sealed := None\<rparr> else k) (pd_keys d))
    = map (adopted row now) (pd_keys d)"
    by (auto simp: adopted_def retired_key_def)
  moreover have "map (\<lambda>k. if pk_id k = pk_id row \<and> pk_awaiting k
        then k\<lparr>pk_awaiting := False, pk_adopted := Some now, pk_sealed := None\<rparr> else k) (pd_keys d) = pd_keys d"
    if "filter (\<lambda>k. pk_id k = pk_id row \<and> pk_awaiting k) (pd_keys d) = []"
    using that by (intro map_cond_id) (auto simp: filter_empty_conv)
  ultimately show ?thesis using 2(2)
    by (auto simp: result_simps AdoptRotatedKey_def RetireKeysOlderThan_def InsertPairingAudit_def Let_def
        split: if_splits simp del: map_map)
qed simp

text \<open>An adoption that takes place: a transaction over a key that awaits it never fails.\<close>

lemma active_update_check:
  assumes "key_check k" "active_key now k"
  shows "key_check (retired_key now k)"
  using assms by (auto simp: key_check_def retired_key_def active_key_def not_expired_def opt_le_def split: option.splits)

lemma pairing_db_ok_keys:
  assumes "pairing_db_ok d" "\<And>k. k \<in> set (pd_keys d) \<Longrightarrow> pk_id (f k) = pk_id k \<and> pk_hash (f k) = pk_hash k
    \<and> pk_pairing (f k) = pk_pairing k \<and> key_check (f k)"
  shows "pairing_db_ok (d\<lparr>pd_keys := map f (pd_keys d)\<rparr>)"
proof -
  have "map pk_id (map f (pd_keys d)) = map pk_id (pd_keys d)" "map pk_hash (map f (pd_keys d)) = map pk_hash (pd_keys d)"
    using assms(2) by auto
  then show ?thesis using assms unfolding pairing_db_ok_iff by (simp del: map_map)
qed

lemma pairing_db_ok_audit:
  "pairing_db_ok d \<Longrightarrow> i \<in> dp_id ` set (pd_pairings d) \<Longrightarrow> pa_pairing a = i \<Longrightarrow>
   pairing_db_ok (d\<lparr>pd_audit := pd_audit d @ [a]\<rparr>)"
  unfolding pairing_db_ok_iff by auto

lemma adoptKey_total:
  assumes "pairing_db_ok d" "row \<in> set (pd_keys d)" "pk_awaiting row"
  shows "pd_keys (snd (adoptKey now row a d)) = map (adopted row now) (pd_keys d) \<and>
    pd_pairings (snd (adoptKey now row a d)) = pd_pairings d"
proof -
  let ?P = "\<lambda>k. pk_id k = pk_id row \<and> pk_awaiting k"
  let ?f = "\<lambda>k. if ?P k then k\<lparr>pk_awaiting := False, pk_adopted := Some now, pk_sealed := None\<rparr> else k"
  let ?Q = "\<lambda>k. pk_pairing k = pk_pairing row \<and> pk_id k < pk_id row \<and> active_key now k"
  let ?g = "\<lambda>k. if ?Q k then k\<lparr>pk_revoked := Some now, pk_sealed := None, pk_awaiting := False\<rparr> else k"
  let ?d1 = "d\<lparr>pd_keys := map ?f (pd_keys d)\<rparr>" and ?d2 = "d\<lparr>pd_keys := map ?g (map ?f (pd_keys d))\<rparr>"
  have chk: "\<And>k. k \<in> set (pd_keys d) \<Longrightarrow> key_check k" using assms(1) by (simp add: pairing_db_ok_iff)
  have ok1: "pairing_db_ok ?d1"
    by (rule pairing_db_ok_keys [OF assms(1)]) (use chk in \<open>auto simp: key_check_def\<close>)
  have "pairing_db_ok (?d1\<lparr>pd_keys := map ?g (pd_keys ?d1)\<rparr>)"
  proof (rule pairing_db_ok_keys [OF ok1])
    fix k assume "k \<in> set (pd_keys ?d1)"
    then have "key_check k" using ok1 by (simp add: pairing_db_ok_iff)
    then show "pk_id (?g k) = pk_id k \<and> pk_hash (?g k) = pk_hash k \<and> pk_pairing (?g k) = pk_pairing k \<and> key_check (?g k)"
      using active_update_check [of k now] by (auto simp: retired_key_def)
  qed
  then have ok2: "pairing_db_ok ?d2" by simp
  have row: "pk_pairing row \<in> dp_id ` set (pd_pairings ?d2)" using assms(1,2) by (simp add: pairing_db_ok_iff)
  have some: "filter ?P (pd_keys d) \<noteq> []" using assms(2,3) by (auto simp: filter_empty_conv)
  have "map ?g (map ?f (pd_keys d)) = map (adopted row now) (pd_keys d)"
    by (auto simp: adopted_def retired_key_def)
  then show ?thesis
    using ok1 ok2 some pairing_db_ok_audit [OF ok2 row, of "\<lparr>pa_id = _, pa_pairing = pk_pairing row, pa_actor = _,
        pa_event = _, pa_details = _, pa_created = _\<rparr>"]
    by (auto simp: adoptKey_def in_tx_def AdoptRotatedKey_def RetireKeysOlderThan_def InsertPairingAudit_def
        update_keys_def pchecked_ok Let_def simp del: map_map)
qed

lemma RevokePairing_outcome:
  assumes "RevokePairing now i actor d = (Inr (), d')"
  shows "pd_keys d' = map (revoked_key i now) (pd_keys d) \<and>
    pd_pairings d' = map (\<lambda>p. if dp_id p = i \<and> dp_revoked p = None then p\<lparr>dp_revoked := Some now\<rparr> else p) (pd_pairings d) \<and>
    pd_users d' = pd_users d \<and> pairing_db_ok d' \<and> GetDevicePairingByID i d \<noteq> None"
proof -
  have "map (\<lambda>k. if pk_pairing k = i \<and> active_key now k
      then k\<lparr>pk_revoked := Some now, pk_sealed := None, pk_awaiting := False\<rparr> else k) (pd_keys d)
    = map (revoked_key i now) (pd_keys d)"
    by (auto simp: revoked_key_def retired_key_def)
  then show ?thesis using assms
    by (auto simp: RevokePairing_def in_tx_def result_simps RevokeAllKeysForPairing_def RevokeDevicePairing_def
        InsertPairingAudit_def split: sum.splits if_splits)
qed

lemma CreatePairing_outcome:
  assumes "CreatePairing sv dr now label actor uid pf d = (r, d')"
  shows "d' = d \<or> (\<exists>p k svg url qr. r = Inr (p, \<lparr>mk_row = k, mk_plain = mintAPIKey (dr_key dr), mk_svg = svg, mk_url = url\<rparr>) \<and>
    pd_pairings d' = pd_pairings d @ [p] \<and> pd_keys d' = pd_keys d @ [k] \<and> pd_users d' = pd_users d \<and> pairing_db_ok d' \<and>
    dp_revoked p = None \<and> dp_qr p = Some qr \<and> sealCredential sv (dr_nonce1 dr) (dr_nonce2 dr) svg url = Inr (qr, dp_url p) \<and>
    pk_pairing k = dp_id p \<and> pk_hash k = hashKey sv (mintAPIKey (dr_key dr)) \<and> pk_sealed k = None \<and>
    pk_revoked k = None \<and> pk_expires k = None \<and> \<not> pk_awaiting k)"
  using assms
  by (auto simp: CreatePairing_def Let_def credentials_for_def in_tx_def create_tx_def result_simps
      CreateDevicePairing_def CreateDevicePairingKey_def InsertPairingAudit_def split: sum.splits prod.splits)

lemma credentials_for_sealed:
  assumes "sealCredential sv n1 n2 svg url = Inr (qr, u)"
  shows "(\<forall>x. u = Some x \<longrightarrow> IsSealed x) \<and> (sv_box sv \<noteq> None \<longrightarrow> IsSealed qr)"
  using assms
  by (auto simp: sealCredential_def result_simps SealBytes_def intro: IsSealed_Seal split: if_splits)

section \<open>The invariant\<close>

text \<open>
  A sealed copy of a key waits for delivery only while the key is the newest of a live pairing, has not
  been used, and is neither revoked nor expiring.
\<close>

definition deliverable :: "pairing_db \<Rightarrow> pairing_key \<Rightarrow> bool" where
  "deliverable d k \<longleftrightarrow> pk_awaiting k \<and> pk_revoked k = None \<and> pk_expires k = None \<and>
     (\<forall>p \<in> set (pd_pairings d). dp_id p = pk_pairing k \<longrightarrow> dp_revoked p = None) \<and>
     (\<forall>j \<in> set (pd_keys d). pk_pairing j = pk_pairing k \<longrightarrow> pk_id j \<le> pk_id k)"

text \<open>A key of a revoked pairing is revoked itself, or had expired when the pairing was revoked.\<close>

definition stopped :: "device_pairing \<Rightarrow> pairing_key \<Rightarrow> bool" where
  "stopped p k \<longleftrightarrow> pk_revoked k \<noteq> None \<or> (\<exists>e r. pk_expires k = Some e \<and> dp_revoked p = Some r \<and> e \<le> r)"

text \<open>
  The pairing URL, which carries the key, is only ever stored sealed; the QR code is stored sealed by a
  server that has a box, and in the clear by one that has none.
\<close>

definition pairing_inv :: "pairing_service \<Rightarrow> pairing_db \<Rightarrow> bool" where
  "pairing_inv sv d \<longleftrightarrow>
     pairing_db_ok d \<and>
     (\<forall>k \<in> set (pd_keys d). \<forall>s. pk_sealed k = Some s \<longrightarrow> IsSealed s \<and> deliverable d k) \<and>
     (\<forall>p \<in> set (pd_pairings d). dp_revoked p \<noteq> None \<longrightarrow>
        (\<forall>k \<in> set (pd_keys d). pk_pairing k = dp_id p \<longrightarrow> stopped p k)) \<and>
     (\<forall>p \<in> set (pd_pairings d). \<forall>u. dp_url p = Some u \<longrightarrow> IsSealed u) \<and>
     (sv_box sv \<noteq> None \<longrightarrow> (\<forall>p \<in> set (pd_pairings d). \<forall>q. dp_qr p = Some q \<longrightarrow> IsSealed q))"

lemma pairing_invD:
  assumes "pairing_inv sv d"
  shows "pairing_db_ok d" "k \<in> set (pd_keys d) \<Longrightarrow> pk_sealed k = Some s \<Longrightarrow> IsSealed s"
    "k \<in> set (pd_keys d) \<Longrightarrow> pk_sealed k = Some s \<Longrightarrow> deliverable d k"
    "p \<in> set (pd_pairings d) \<Longrightarrow> dp_revoked p \<noteq> None \<Longrightarrow> k \<in> set (pd_keys d) \<Longrightarrow> pk_pairing k = dp_id p \<Longrightarrow> stopped p k"
    "p \<in> set (pd_pairings d) \<Longrightarrow> dp_url p = Some u \<Longrightarrow> IsSealed u"
    "sv_box sv \<noteq> None \<Longrightarrow> p \<in> set (pd_pairings d) \<Longrightarrow> dp_qr p = Some q \<Longrightarrow> IsSealed q"
  using assms unfolding pairing_inv_def by blast+

text \<open>Key updates that give no key a sealed copy and reactivate none.\<close>

definition only_stops :: "(pairing_key \<Rightarrow> pairing_key) \<Rightarrow> bool" where
  "only_stops f \<longleftrightarrow> (\<forall>k. pk_id (f k) = pk_id k \<and> pk_pairing (f k) = pk_pairing k \<and> pk_expires (f k) = pk_expires k \<and>
     (pk_revoked k \<noteq> None \<longrightarrow> pk_revoked (f k) \<noteq> None) \<and>
     (f k = k \<or> pk_sealed (f k) = None))"

lemma only_stops_adopted: "only_stops (adopted row now)"
  by (auto simp: only_stops_def adopted_def)

lemma only_stops_revoked: "only_stops (revoked_key i now)"
  by (auto simp: only_stops_def revoked_key_def)

lemma inv_only_stops:
  assumes inv: "pairing_inv sv d" and f: "only_stops f" and ok: "pairing_db_ok d'"
    and d': "pd_keys d' = map f (pd_keys d)" "pd_pairings d' = pd_pairings d"
  shows "pairing_inv sv d'"
  unfolding pairing_inv_def
proof (intro conjI ballI allI impI)
  fix k' s assume "k' \<in> set (pd_keys d')" and s: "pk_sealed k' = Some s"
  then obtain k where k: "k \<in> set (pd_keys d)" "k' = f k" by (auto simp: d')
  then have eq: "k' = k" using f s unfolding only_stops_def by (metis option.distinct(1))
  then show "IsSealed s" using pairing_invD(2) [OF inv k(1)] s by simp
  have "deliverable d k" using pairing_invD(3) [OF inv k(1)] s eq by simp
  then show "deliverable d' k'" using f unfolding eq deliverable_def d' only_stops_def by auto
next
  fix p k' assume p: "p \<in> set (pd_pairings d')" "dp_revoked p \<noteq> None" "k' \<in> set (pd_keys d')" "pk_pairing k' = dp_id p"
  then obtain k where k: "k \<in> set (pd_keys d)" "k' = f k" by (auto simp: d')
  then have "stopped p k"
    using pairing_invD(4) [OF inv, of p k] p f by (auto simp: d' only_stops_def)
  then show "stopped p k'" using f k by (auto simp: only_stops_def stopped_def)
qed (use inv ok d' in \<open>auto dest: pairing_invD\<close>)

lemma inv_rotate:
  assumes inv: "pairing_inv sv d" and seal: "\<forall>s. sealed = Some s \<longrightarrow> IsSealed s"
    and tx: "rotate_tx i plain h sealed actor g now d = Inr ((p, row), d')"
  shows "pairing_inv sv d'"
proof -
  note o = rotate_tx_Inr [OF tx]
  let ?new = "rotated_key (next_key_id d) i h (last_four plain) now sealed"
  have p: "p \<in> set (pd_pairings d)" "dp_id p = i" "dp_revoked p = None"
    using o GetDevicePairingByID_Some [of i d p] by simp_all
  have live: "dp_revoked q = None" if "q \<in> set (pd_pairings d)" "dp_id q = i" for q
    using pairing_same_id [OF pairing_invD(1) [OF inv] that(1) p(1)] that(2) p(2,3) by simp
  have stale: "pk_sealed (superseded i e k) = Some s \<Longrightarrow> superseded i e k = k \<and> pk_pairing k \<noteq> i" for e k s
    by (auto simp: superseded_def split: if_splits)
  show ?thesis
    unfolding pairing_inv_def
  proof (intro conjI ballI allI impI)
    fix k' s assume k': "k' \<in> set (pd_keys d')" "pk_sealed k' = Some s"
    then consider "k' = ?new" | k where "k \<in> set (pd_keys d)" "k' = superseded i (now + g * 60) k" using o by auto
    then have cases: "k' = ?new \<or> k' \<in> set (pd_keys d) \<and> pk_pairing k' \<noteq> i"
      by cases (use k'(2) stale in \<open>metis+\<close>)
    then show "IsSealed s" using seal k' pairing_invD(2) [OF inv] by auto
    show "deliverable d' k'"
    proof (cases "k' = ?new")
      case True
      then show ?thesis using o live next_key_id_fresh [of _ d] by (fastforce simp: deliverable_def)
    next
      case False
      then have k: "k' \<in> set (pd_keys d)" "pk_pairing k' \<noteq> i" using cases by auto
      then have "deliverable d k'" using pairing_invD(3) [OF inv] k' by blast
      then show ?thesis using k(2) o by (auto simp: deliverable_def)
    qed
  next
    fix q k' assume q: "q \<in> set (pd_pairings d')" "dp_revoked q \<noteq> None" "k' \<in> set (pd_keys d')" "pk_pairing k' = dp_id q"
    then have "dp_id q \<noteq> i" using live o by auto
    then have "k' \<in> set (pd_keys d)" using q o by (auto simp: superseded_def)
    then show "stopped q k'" using pairing_invD(4) [OF inv] q o by auto
  qed (use inv o in \<open>auto dest: pairing_invD\<close>)
qed

text \<open>A new pairing brings one key, with no sealed copy; its id is new.\<close>

lemma inv_create:
  assumes inv: "pairing_inv sv d" and ok: "pairing_db_ok d'"
    and d': "pd_pairings d' = pd_pairings d @ [p]" "pd_keys d' = pd_keys d @ [k]"
    and k: "pk_pairing k = dp_id p" "pk_sealed k = None"
    and p: "dp_revoked p = None" "\<forall>u. dp_url p = Some u \<longrightarrow> IsSealed u" "sv_box sv \<noteq> None \<longrightarrow> IsSealed (or_empty (dp_qr p))"
  shows "pairing_inv sv d'"
proof -
  have new: "dp_id q \<noteq> dp_id p" if "q \<in> set (pd_pairings d)" for q
  proof -
    have "dp_id p \<notin> dp_id ` set (pd_pairings d)" using ok unfolding pairing_db_ok_iff d' by simp
    then show ?thesis using that by (metis imageI)
  qed
  have keys: "pk_pairing j \<noteq> dp_id p" if j: "j \<in> set (pd_keys d)" for j
  proof -
    have "pk_pairing j \<in> dp_id ` set (pd_pairings d)"
      using pairing_invD(1) [OF inv] j unfolding pairing_db_ok_iff by blast
    then obtain q where "q \<in> set (pd_pairings d)" "dp_id q = pk_pairing j" by auto
    then show ?thesis using new [of q] by simp
  qed
  show ?thesis
    unfolding pairing_inv_def
  proof (intro conjI ballI allI impI)
    fix j s assume "j \<in> set (pd_keys d')" "pk_sealed j = Some s"
    then have j: "j \<in> set (pd_keys d)" "pk_sealed j = Some s" using d' k by auto
    show "IsSealed s" by (rule pairing_invD(2) [OF inv j])
    have "deliverable d j" by (rule pairing_invD(3) [OF inv j])
    then show "deliverable d' j" using keys [OF j(1)] k by (auto simp: deliverable_def d')
  next
    fix q j assume "q \<in> set (pd_pairings d')" "dp_revoked q \<noteq> None" "j \<in> set (pd_keys d')" "pk_pairing j = dp_id q"
    then show "stopped q j"
      using pairing_invD(4) [OF inv, of q j] p k new [of q] by (auto simp: d')
  qed (use inv ok p in \<open>auto simp: d' dest: pairing_invD\<close>)
qed

lemma inv_revoke:
  assumes inv: "pairing_inv sv d" and rev: "RevokePairing now i actor d = (Inr (), d')"
  shows "pairing_inv sv d'"
proof -
  note o = RevokePairing_outcome [OF rev]
  have inactive: "pk_revoked (revoked_key i now k) \<noteq> None \<or> (\<exists>e. pk_expires (revoked_key i now k) = Some e \<and> e \<le> now)"
    if "pk_pairing k = i" for k
    using that by (auto simp: revoked_key_def active_key_def not_expired_def split: option.splits)
  have only: "only_stops (revoked_key i now)" by (rule only_stops_revoked)
  have undelivered: "pk_pairing k \<noteq> i" if k: "k \<in> set (pd_keys d)" "pk_sealed (revoked_key i now k) = Some s" for k s
  proof
    assume i: "pk_pairing k = i"
    have "revoked_key i now k = k" using only k(2) unfolding only_stops_def by (metis option.distinct(1))
    then have "deliverable d k" using pairing_invD(3) [OF inv k(1)] k(2) by simp
    then have "pk_revoked (revoked_key i now k) \<noteq> None"
      using i by (simp add: deliverable_def revoked_key_def active_key_def not_expired_def)
    then show False using \<open>deliverable d k\<close> \<open>revoked_key i now k = k\<close> by (simp add: deliverable_def)
  qed
  show ?thesis
    unfolding pairing_inv_def
  proof (intro conjI ballI allI impI)
    fix k' s assume "k' \<in> set (pd_keys d')" and s: "pk_sealed k' = Some s"
    then obtain k where k: "k \<in> set (pd_keys d)" "k' = revoked_key i now k" using o by auto
    have i: "pk_pairing k \<noteq> i" by (rule undelivered) (use k s in auto)
    then have eq: "k' = k" using k by (simp add: revoked_key_def)
    show "IsSealed s" using pairing_invD(2) [OF inv k(1)] s eq by simp
    have "deliverable d k" using pairing_invD(3) [OF inv k(1)] s eq by simp
    then show "deliverable d' k'" using o i unfolding eq deliverable_def by auto
  next
    fix q k' assume q: "q \<in> set (pd_pairings d')" "dp_revoked q \<noteq> None" "k' \<in> set (pd_keys d')" "pk_pairing k' = dp_id q"
    then obtain k q0 where k: "k \<in> set (pd_keys d)" "k' = revoked_key i now k" "q0 \<in> set (pd_pairings d)"
      "q = (if dp_id q0 = i \<and> dp_revoked q0 = None then q0\<lparr>dp_revoked := Some now\<rparr> else q0)" using o by auto
    show "stopped q k'"
    proof (cases "dp_id q0 = i \<and> dp_revoked q0 = None")
      case True
      then show ?thesis using inactive [of k] q k by (auto simp: stopped_def)
    next
      case False
      then have "stopped q0 k" "q = q0" using pairing_invD(4) [OF inv k(3) _ k(1)] q k by auto
      then show ?thesis using k by (auto simp: stopped_def revoked_key_def)
    qed
  qed (use inv o in \<open>auto dest: pairing_invD\<close>)
qed

text \<open>Changes of the pairing rows that keep ids and revocations, and store sealed credentials only.\<close>

lemma inv_pairing_update:
  assumes inv: "pairing_inv sv d" and ok: "pairing_db_ok d'"
    and d': "pd_pairings d' = map f (pd_pairings d)" "pd_keys d' = pd_keys d"
    and f: "\<And>p. dp_id (f p) = dp_id p \<and> dp_revoked (f p) = dp_revoked p"
      "\<And>p u. p \<in> set (pd_pairings d) \<Longrightarrow> dp_url (f p) = Some u \<Longrightarrow> IsSealed u"
      "\<And>p q. p \<in> set (pd_pairings d) \<Longrightarrow> sv_box sv \<noteq> None \<Longrightarrow> dp_qr (f p) = Some q \<Longrightarrow> IsSealed q"
  shows "pairing_inv sv d'"
  unfolding pairing_inv_def
proof (intro conjI ballI allI impI)
  fix k s assume k: "k \<in> set (pd_keys d')" "pk_sealed k = Some s"
  then show "IsSealed s" using pairing_invD(2) [OF inv] by (simp add: d')
  have "deliverable d k" using pairing_invD(3) [OF inv] k by (simp add: d')
  then show "deliverable d' k" using f(1) by (auto simp: deliverable_def d')
next
  fix p k assume p: "p \<in> set (pd_pairings d')" "dp_revoked p \<noteq> None" "k \<in> set (pd_keys d')" "pk_pairing k = dp_id p"
  then obtain p0 where "p0 \<in> set (pd_pairings d)" "p = f p0" by (auto simp: d')
  then show "stopped p k"
    using pairing_invD(4) [OF inv, of p0 k] f(1) [of p0] p by (simp add: d' stopped_def)
qed (use ok f d' in auto)

lemma inv_credentials:
  assumes "pairing_inv sv d" "UpdateDevicePairingCredentials i (Some qr) url d = Inr d'"
    and "\<forall>u. url = Some u \<longrightarrow> IsSealed u" "sv_box sv \<noteq> None \<longrightarrow> IsSealed qr"
  shows "pairing_inv sv d'"
proof (rule inv_pairing_update [OF assms(1)])
  let ?f = "\<lambda>p. if dp_id p = i then p\<lparr>dp_qr := Some qr, dp_url := url\<rparr> else p"
  show "pairing_db_ok d'" "pd_pairings d' = map ?f (pd_pairings d)" "pd_keys d' = pd_keys d"
    using assms(2) by (auto simp: UpdateDevicePairingCredentials_def result_simps)
  show "dp_id (?f p) = dp_id p \<and> dp_revoked (?f p) = dp_revoked p" for p by simp
  show "p \<in> set (pd_pairings d) \<Longrightarrow> dp_url (?f p) = Some u \<Longrightarrow> IsSealed u" for p u
    using assms(3) pairing_invD(5) [OF assms(1)] by (auto split: if_splits)
  show "p \<in> set (pd_pairings d) \<Longrightarrow> sv_box sv \<noteq> None \<Longrightarrow> dp_qr (?f p) = Some q \<Longrightarrow> IsSealed q" for p q
    using assms(4) pairing_invD(6) [OF assms(1)] by (auto split: if_splits)
qed

lemma inv_store_credentials:
  assumes inv: "pairing_inv sv d" and "store_credentials sv dr i payload d = (r, d')"
  shows "pairing_inv sv d'"
proof (cases "credentials_for sv dr payload")
  case (Inl e)
  then show ?thesis using assms by (simp add: store_credentials_def)
next
  case (Inr c)
  obtain svg qr url where c: "c = (svg, qr, url)" by (cases c)
  have "sealCredential sv (dr_nonce1 dr) (dr_nonce2 dr) svg payload = Inr (qr, url)"
    using Inr unfolding c by (auto simp: credentials_for_def result_simps)
  note sealed = credentials_for_sealed [OF this]
  have tx: "in_tx (\<lambda>d. rbind (lift_db (UpdateDevicePairingCredentials i (Some qr) url d)) (\<lambda>d. Inr (svg, d))) d = (r, d')"
    using assms(2) Inr unfolding c by (simp add: store_credentials_def)
  from tx show ?thesis
  proof (cases rule: service_tx_cases)
    case (2 x)
    then show ?thesis using inv_credentials [OF inv] sealed by (auto simp: result_simps)
  qed (use inv in simp)
qed

lemma backfill_row:
  assumes "backfill_rows sv nonce ((i, qr, url) # rows) n d = (r, d')"
  obtains "d' = d"
    | stored n1 d1 where "d1 = d \<or> UpdateDevicePairingCredentials i (Some stored) url d = Inr d1 \<and> IsSealed stored"
      "backfill_rows sv nonce rows n1 d1 = (r, d')"
proof (cases "IsSealed qr")
  case True
  then show ?thesis using that(2) [of d] assms by simp
next
  case False
  show ?thesis
  proof (cases "SealBytes (sv_gcm sv) (sv_box sv) (nonce i) qr")
    case (Inl e)
    then show ?thesis using that(1) assms False by simp
  next
    case (Inr stored)
    have sealed: "IsSealed stored" using Inr by (auto simp: SealBytes_def result_simps intro: IsSealed_Seal)
    show ?thesis
    proof (cases "UpdateDevicePairingCredentials i (Some stored) url d")
      case (Inl e)
      then show ?thesis using that(1) assms False \<open>SealBytes _ _ _ _ = _\<close> by (simp add: in_tx_def)
    next
      case (Inr d1)
      then show ?thesis using that(2) [of d1 stored "n + 1"] assms False \<open>SealBytes _ _ _ _ = _\<close> sealed
        by (simp add: in_tx_def)
    qed
  qed
qed

lemma inv_backfill:
  assumes "pairing_inv sv0 d" "\<forall>(i, qr, url) \<in> set rows. \<forall>u. url = Some u \<longrightarrow> IsSealed u"
    and "backfill_rows sv nonce rows n d = (r, d')"
  shows "pairing_inv sv0 d'"
  using assms
proof (induction rows arbitrary: n d)
  case (Cons row rows)
  obtain i qr url where row: "row = (i, qr, url)" by (cases row)
  from Cons.prems(3) [unfolded row] show ?case
  proof (cases rule: backfill_row)
    case (2 stored n1 d1)
    have "pairing_inv sv0 d1"
      using 2(1) inv_credentials [OF Cons.prems(1)] Cons.prems(1,2) row by auto
    then show ?thesis using Cons.IH [OF _ _ 2(2)] Cons.prems(2) by simp
  qed (use Cons.prems in simp)
qed simp

text \<open>A backfill that ends without an error leaves no QR code in the clear.\<close>

lemma backfill_seals:
  assumes "backfill_rows sv nonce rows n d = ((m, None), d')"
    and "\<forall>p \<in> set (pd_pairings d). \<forall>q. dp_qr p = Some q \<longrightarrow> IsSealed q \<or> (\<exists>url. (dp_id p, q, url) \<in> set rows)"
  shows "\<forall>p \<in> set (pd_pairings d'). \<forall>q. dp_qr p = Some q \<longrightarrow> IsSealed q"
  using assms
proof (induction rows arbitrary: n d)
  case (Cons row rows)
  obtain i qr url where row: "row = (i, qr, url)" by (cases row)
  show ?case
  proof (cases "IsSealed qr")
    case True
    then show ?thesis using Cons.IH [of n d] Cons.prems unfolding row by auto
  next
    case False
    obtain stored where stored: "SealBytes (sv_gcm sv) (sv_box sv) (nonce i) qr = Inr stored"
      using Cons.prems(1) False unfolding row by (auto split: sum.splits)
    then have sealed: "IsSealed stored" by (auto simp: SealBytes_def result_simps intro: IsSealed_Seal)
    obtain d1 where d1: "UpdateDevicePairingCredentials i (Some stored) url d = Inr d1"
        "backfill_rows sv nonce rows (n + 1) d1 = ((m, None), d')"
      using Cons.prems(1) False stored unfolding row by (auto simp: in_tx_def result_simps split: sum.splits)
    have "pd_pairings d1 = map (\<lambda>p. if dp_id p = i then p\<lparr>dp_qr := Some stored, dp_url := url\<rparr> else p) (pd_pairings d)"
      using d1(1) by (auto simp: UpdateDevicePairingCredentials_def result_simps)
    then have "\<forall>p \<in> set (pd_pairings d1). \<forall>q. dp_qr p = Some q \<longrightarrow> IsSealed q \<or> (\<exists>url. (dp_id p, q, url) \<in> set rows)"
      using Cons.prems(2) sealed unfolding row by auto
    with Cons.IH [OF d1(2)] show ?thesis .
  qed
qed simp

lemma secrets_sealed:
  assumes "pairing_inv sv0 d"
  shows "\<forall>(i, qr, url) \<in> set (ListPairingSecrets d). \<forall>u. url = Some u \<longrightarrow> IsSealed u"
  using pairing_invD(5) [OF assms] by (auto simp: ListPairingSecrets_def in_map_filter)

lemma inv_upgrade:
  assumes "pairing_inv sv0 d" "BackfillSealedCredentials sv nonce d = ((n, None), d')"
  shows "pairing_inv sv d'"
proof -
  let ?weak = "sv\<lparr>sv_box := None\<rparr>"
  have weak: "pairing_inv ?weak d" using assms(1) by (simp add: pairing_inv_def)
  show ?thesis
  proof (cases "sv_box sv")
    case None
    then show ?thesis using weak assms(2) by (simp add: BackfillSealedCredentials_def pairing_inv_def)
  next
    case (Some b)
    then have run: "backfill_rows sv nonce (ListPairingSecrets d) 0 d = ((n, None), d')"
      using assms(2) by (simp add: BackfillSealedCredentials_def)
    have "\<forall>p \<in> set (pd_pairings d'). \<forall>q. dp_qr p = Some q \<longrightarrow> IsSealed q"
      by (rule backfill_seals [OF run]) (force simp: ListPairingSecrets_def in_map_filter)
    moreover have "pairing_inv ?weak d'" by (rule inv_backfill [OF weak secrets_sealed [OF weak] run])
    ultimately show ?thesis by (simp add: pairing_inv_def)
  qed
qed

section \<open>Runs of the service\<close>

text \<open>
  A step is an operation of the service with any arguments, clock and random bytes; the label is the
  key it mints. The two transactions of a rotation are steps of their own, so others may come in
  between, and an adoption may act on a row that was read earlier (\<open>adopt\<close>).
\<close>

inductive pairing_step :: "pairing_service \<Rightarrow> pairing_db \<Rightarrow> string option \<Rightarrow> pairing_db \<Rightarrow> bool" for sv where
  create: "CreatePairing sv dr now label actor uid pf d = (r, d') \<Longrightarrow> pairing_step sv d (Some (mintAPIKey (dr_key dr))) d'"
| rotate: "rotate_key sv dr now i actor g d = (r, d') \<Longrightarrow> pairing_step sv d (Some (mintAPIKey (dr_key dr))) d'"
| credentials: "store_credentials sv dr i payload d = (r, d') \<Longrightarrow> pairing_step sv d None d'"
| lookup: "KeyLookup sv t now presented d = (r, d') \<Longrightarrow> pairing_step sv d None d'"
| adopt: "adoptKey now row agent d = (r, d') \<Longrightarrow> pairing_step sv d None d'"
| revoke: "RevokePairing now i actor d = (r, d') \<Longrightarrow> pairing_step sv d None d'"
| delete: "DeletePairing i actor d = (r, d') \<Longrightarrow> pairing_step sv d None d'"
| rename: "RenamePairing now i label actor d = (r, d') \<Longrightarrow> pairing_step sv d None d'"
| reveal: "RecordCredentialReveal now i actor channel d = (r, d') \<Longrightarrow> pairing_step sv d None d'"
| backfill: "BackfillSealedCredentials sv nonce d = (r, d') \<Longrightarrow> pairing_step sv d None d'"
| users: "set (pd_users d) \<subseteq> set us \<Longrightarrow> pairing_step sv d None (d\<lparr>pd_users := us\<rparr>)"

inductive pairing_run :: "pairing_service \<Rightarrow> pairing_db \<Rightarrow> string set \<Rightarrow> pairing_db \<Rightarrow> bool" for sv where
  start: "pairing_run sv d {} d"
| more: "pairing_run sv d minted d' \<Longrightarrow> pairing_step sv d' m d'' \<Longrightarrow> pairing_run sv d (minted \<union> set_option m) d''"

definition no_pairings :: pairing_db where
  "no_pairings = \<lparr>pd_pairings = [], pd_keys = [], pd_audit = [], pd_actors = [], pd_users = []\<rparr>"

lemma pairing_inv_start: "pairing_inv sv no_pairings"
  by (simp add: pairing_inv_def pairing_db_ok_iff no_pairings_def)

lemma KeyLookup_db:
  assumes "KeyLookup sv t now presented d = (r, d')"
  obtains "d' = d" | row a r' where "adoptKey now row a d = (r', d')"
proof -
  have "d' = d \<or> (\<exists>row a. d' = snd (adoptKey now row a d))"
    using assms by (auto simp: KeyLookup_def split: option.splits if_splits)
  then show ?thesis using that by (metis prod.collapse)
qed

lemma rotate_key_db:
  assumes "rotate_key sv dr now i actor g d = (r, d')"
  obtains "d' = d" | sealed p row where "\<forall>s. sealed = Some s \<longrightarrow> IsSealed s"
    "rotate_tx i (mintAPIKey (dr_key dr)) (hashKey sv (mintAPIKey (dr_key dr))) sealed actor (grace_minutes g) now d
      = Inr ((p, row), d')" "r = Inr (p, row)"
proof -
  have "d' = d \<or> (\<exists>sealed p row. (\<forall>s. sealed = Some s \<longrightarrow> IsSealed s) \<and>
    rotate_tx i (mintAPIKey (dr_key dr)) (hashKey sv (mintAPIKey (dr_key dr))) sealed actor (grace_minutes g) now d
      = Inr ((p, row), d') \<and> r = Inr (p, row))"
  proof (cases "sv_box sv")
    case None
    then show ?thesis using assms by (auto simp: rotate_key_def Let_def in_tx_def split: sum.splits)
  next
    case (Some key)
    then obtain s where "Seal (sv_gcm sv) (sv_box sv) (dr_nonce3 dr) (mintAPIKey (dr_key dr)) = Inr s"
      by (simp add: Seal_def)
    moreover have "IsSealed s" by (rule IsSealed_Seal) fact
    ultimately show ?thesis using assms Some by (auto simp: rotate_key_def Let_def in_tx_def split: sum.splits)
  qed
  then show ?thesis using that by metis
qed

lemma DeletePairing_outcome:
  assumes "DeletePairing i actor d = (Inr (), d')"
  shows "pd_keys d' = filter (\<lambda>k. pk_pairing k \<noteq> i) (pd_keys d) \<and>
    pd_pairings d' = filter (\<lambda>p. dp_id p \<noteq> i) (pd_pairings d) \<and> pairing_db_ok d' \<and>
    (\<exists>p. GetDevicePairingByID i d = Some p \<and> dp_revoked p \<noteq> None)"
  using assms
  by (auto simp: DeletePairing_def in_tx_def result_simps InsertActorAudit_def DeletePairingAuditForPairing_def
      DeletePairingKeysForPairing_def DeleteDevicePairing_def split: sum.splits option.splits if_splits prod.splits)

lemma inv_delete:
  assumes inv: "pairing_inv sv d" and del: "DeletePairing i actor d = (Inr (), d')"
  shows "pairing_inv sv d'"
  using inv DeletePairing_outcome [OF del] unfolding pairing_inv_def deliverable_def by auto

lemma inv_same_rows:
  assumes "pairing_inv sv d" "pairing_db_ok d'" "pd_pairings d' = pd_pairings d" "pd_keys d' = pd_keys d"
  shows "pairing_inv sv d'"
  using assms unfolding pairing_inv_def deliverable_def by simp

lemma inv_tx:
  assumes "pairing_inv sv d" "in_tx f d = (r, d')" "\<And>x. f d = Inr (x, d') \<Longrightarrow> pairing_inv sv d'"
  shows "pairing_inv sv d'"
  using assms(2) by (cases rule: service_tx_cases) (use assms in auto)

lemma inv_step:
  assumes "pairing_step sv d m d'" "pairing_inv sv d"
  shows "pairing_inv sv d'"
  using assms
proof (cases rule: pairing_step.cases)
  case (create dr now label actor uid pf r)
  from CreatePairing_outcome [OF create(2)] show ?thesis
    using inv_create [OF assms(2)] credentials_for_sealed assms(2) by fastforce
next
  case (rotate dr now i actor g r)
  from rotate(2) show ?thesis
    by (cases rule: rotate_key_db) (use assms(2) inv_rotate [OF assms(2)] in auto)
next
  case (credentials dr i payload r)
  then show ?thesis using inv_store_credentials [OF assms(2)] by simp
next
  case (lookup t now presented r)
  from lookup(2) show ?thesis
  proof (cases rule: KeyLookup_db)
    case (2 row a r')
    then show ?thesis
      using adoptKey_outcome [OF 2] inv_only_stops [OF assms(2) only_stops_adopted] assms(2) by blast
  qed (use assms(2) in simp)
next
  case (adopt now row agent r)
  then show ?thesis
    using adoptKey_outcome [OF adopt(2)] inv_only_stops [OF assms(2) only_stops_adopted] assms(2) by blast
next
  case (revoke now i actor r)
  show ?thesis
  proof (cases r)
    case (Inl e)
    then show ?thesis using revoke(2) assms(2) by (auto simp: RevokePairing_def elim: service_tx_cases)
  next
    case (Inr u)
    then show ?thesis using inv_revoke [OF assms(2)] revoke(2) by simp
  qed
next
  case (delete i actor r)
  show ?thesis
  proof (cases r)
    case (Inl e)
    then show ?thesis using delete(2) assms(2) by (auto simp: DeletePairing_def elim: service_tx_cases)
  next
    case (Inr u)
    then show ?thesis using inv_delete [OF assms(2)] delete(2) by simp
  qed
next
  case (rename now i label actor r)
  let ?f = "\<lambda>p. if dp_id p = i then p\<lparr>dp_label := trim_space label\<rparr> else p"
  have "d' = d \<or> pairing_db_ok d' \<and> pd_keys d' = pd_keys d \<and> pd_pairings d' = map ?f (pd_pairings d)"
    using rename(2)
    by (auto simp: RenamePairing_def Let_def in_tx_def result_simps UpdateDevicePairingFriendlyLabel_def
        InsertPairingAudit_def split: if_splits sum.splits option.splits)
  moreover have f: "dp_id (?f p) = dp_id p \<and> dp_revoked (?f p) = dp_revoked p" "dp_url (?f p) = dp_url p" "dp_qr (?f p) = dp_qr p" for p
    by simp_all
  ultimately show ?thesis
    using assms(2) inv_pairing_update [OF assms(2), of d' ?f] pairing_invD(5,6) [OF assms(2)] unfolding f by blast
next
  case (reveal now i actor channel r)
  then show ?thesis unfolding RecordCredentialReveal_def
    by (elim inv_tx [OF assms(2)])
      (use inv_same_rows [OF assms(2), of d'] in \<open>auto simp: result_simps InsertPairingAudit_def\<close>)
next
  case (backfill nonce r)
  show ?thesis using backfill(2) assms(2) inv_backfill [OF assms(2) secrets_sealed [OF assms(2)]]
    by (auto simp: BackfillSealedCredentials_def split: if_splits)
next
  case (users us)
  have "pairing_db_ok d'"
    using pairing_invD(1) [OF assms(2)] users unfolding pairing_db_ok_iff by auto
  then show ?thesis using inv_same_rows [OF assms(2)] users by simp
qed

lemma pairing_run_inv: "pairing_run sv d minted d' \<Longrightarrow> pairing_inv sv d \<Longrightarrow> pairing_inv sv d'"
  by (induction rule: pairing_run.induct) (auto intro: inv_step)

text \<open>C32. The life of pairings, from a server with any configuration through its restart with another: the
  new one backfills, without an error, and serves. In every state it can reach, under any clock, any
  interleaving and any failure, the sealed copy of a key belongs to the newest key of a live pairing
  that awaits its first use; every key of a revoked pairing is revoked itself or had expired by the
  time of the revocation; the pairing URLs at rest are sealed; and if the server has a box, so are the
  QR codes, those included that an earlier server without a box stored in the clear (a server without
  one stores them so).\<close>

theorem pairing_life_cycle:
  assumes "pairing_run sv0 no_pairings minted0 d0" "BackfillSealedCredentials sv nonce d0 = ((n, None), d1)"
    and "pairing_run sv d1 minted d"
  shows "pairing_inv sv d"
  by (rule pairing_run_inv [OF assms(3) inv_upgrade [OF pairing_run_inv [OF assms(1) pairing_inv_start] assms(2)]])

section \<open>A revoked pairing stays revoked\<close>

text \<open>What every step keeps: keys are only ever minted, and revocations are only undone by deletion.\<close>

definition evolves :: "pairing_service \<Rightarrow> pairing_db \<Rightarrow> string option \<Rightarrow> pairing_db \<Rightarrow> bool" where
  "evolves sv d m d' \<longleftrightarrow>
     (\<forall>k' \<in> set (pd_keys d'). (\<exists>k \<in> set (pd_keys d). pk_hash k = pk_hash k' \<and> pk_pairing k = pk_pairing k') \<or>
        (\<exists>p. m = Some p \<and> pk_hash k' = hashKey sv p)) \<and>
     (\<forall>p \<in> set (pd_pairings d). dp_revoked p \<noteq> None \<longrightarrow>
        (\<exists>p' \<in> set (pd_pairings d'). dp_id p' = dp_id p \<and> dp_revoked p' \<noteq> None) \<or>
        (\<forall>k \<in> set (pd_keys d'). pk_pairing k \<noteq> dp_id p))"

lemma evolves_refl: "evolves sv d m d"
  unfolding evolves_def by blast

text \<open>Keys and pairing rows mapped one to one.\<close>

lemma evolves_map:
  assumes "pd_keys d' = map f (pd_keys d)" "\<And>k. pk_hash (f k) = pk_hash k \<and> pk_pairing (f k) = pk_pairing k"
    and "pd_pairings d' = map g (pd_pairings d)" "\<And>p. dp_id (g p) = dp_id p \<and> (dp_revoked p \<noteq> None \<longrightarrow> dp_revoked (g p) \<noteq> None)"
  shows "evolves sv d m d'"
  unfolding evolves_def
proof (intro conjI ballI impI disjI1)
  fix k' assume "k' \<in> set (pd_keys d')"
  then show "\<exists>k \<in> set (pd_keys d). pk_hash k = pk_hash k' \<and> pk_pairing k = pk_pairing k'"
    using assms(1,2) by auto
next
  fix p assume "p \<in> set (pd_pairings d)" "dp_revoked p \<noteq> None"
  then show "\<exists>p' \<in> set (pd_pairings d'). dp_id p' = dp_id p \<and> dp_revoked p' \<noteq> None"
    using assms(3,4) by auto
qed

lemma evolves_credentials:
  assumes "UpdateDevicePairingCredentials i qr url d = Inr d'"
  shows "evolves sv d m d'"
proof (rule evolves_map [where f = "\<lambda>k. k"])
  let ?g = "\<lambda>p. if dp_id p = i then p\<lparr>dp_qr := qr, dp_url := url\<rparr> else p"
  show "pd_pairings d' = map ?g (pd_pairings d)" "pd_keys d' = map (\<lambda>k. k) (pd_keys d)"
    using assms by (auto simp: UpdateDevicePairingCredentials_def result_simps)
  show "dp_id (?g p) = dp_id p \<and> (dp_revoked p \<noteq> None \<longrightarrow> dp_revoked (?g p) \<noteq> None)" for p by simp
qed simp

definition skeleton :: "pairing_db \<Rightarrow> pairing_key list \<times> (int \<times> int option) list" where
  "skeleton d = (pd_keys d, map (\<lambda>p. (dp_id p, dp_revoked p)) (pd_pairings d))"

lemma skeleton_credentials:
  "UpdateDevicePairingCredentials i qr url d = Inr d' \<Longrightarrow> skeleton d' = skeleton d"
  by (auto simp: UpdateDevicePairingCredentials_def result_simps skeleton_def)

lemma skeleton_backfill:
  "backfill_rows sv nonce rows n d = (r, d') \<Longrightarrow> skeleton d' = skeleton d"
proof (induction rows arbitrary: n d)
  case (Cons row rows)
  obtain i qr url where row: "row = (i, qr, url)" by (cases row)
  from Cons.prems [unfolded row] show ?case
    by (cases rule: backfill_row) (use Cons.IH skeleton_credentials in auto)
qed simp

lemma evolves_skeleton:
  assumes "skeleton d' = skeleton d"
  shows "evolves sv d m d'"
proof -
  have ps: "(\<lambda>p. (dp_id p, dp_revoked p)) ` set (pd_pairings d') = (\<lambda>p. (dp_id p, dp_revoked p)) ` set (pd_pairings d)"
    using assms unfolding skeleton_def by (metis (no_types, lifting) list.set_map prod.inject)
  have "\<exists>p' \<in> set (pd_pairings d'). dp_id p' = dp_id p \<and> dp_revoked p' \<noteq> None"
    if "p \<in> set (pd_pairings d)" "dp_revoked p \<noteq> None" for p
  proof -
    have "(dp_id p, dp_revoked p) \<in> (\<lambda>p. (dp_id p, dp_revoked p)) ` set (pd_pairings d')"
      using that(1) unfolding ps by blast
    then show ?thesis using that(2) by force
  qed
  then show ?thesis using assms unfolding evolves_def skeleton_def by auto
qed

lemma evolves_step:
  assumes "pairing_step sv d m d'"
  shows "evolves sv d m d'"
  using assms
proof (cases rule: pairing_step.cases)
  case (create dr now label actor uid pf r)
  from CreatePairing_outcome [OF create(2)] show ?thesis
    unfolding create(1) by (auto simp: evolves_refl) (auto simp: evolves_def)
next
  case (rotate dr now i actor g r)
  from rotate(2) show ?thesis
  proof (cases rule: rotate_key_db)
    case (2 sealed p row)
    then show ?thesis using rotate_tx_Inr [OF 2(2)] unfolding rotate(1) by (auto simp: evolves_def)
  qed (simp add: evolves_refl)
next
  case (credentials dr i payload r)
  then show ?thesis
    by (auto simp: store_credentials_def in_tx_def result_simps evolves_refl intro: evolves_credentials
        split: sum.splits prod.splits)
next
  case (lookup t now presented r)
  from lookup(2) show ?thesis
  proof (cases rule: KeyLookup_db)
    case (2 row a r')
    from adoptKey_outcome [OF 2] show ?thesis
      using evolves_map [of d' "adopted row now" d "\<lambda>p. p"] by (auto simp: evolves_refl)
  qed (simp add: evolves_refl)
next
  case (adopt now row agent r)
  from adoptKey_outcome [OF adopt(2)] show ?thesis
    using evolves_map [of d' "adopted row now" d "\<lambda>p. p"] by (auto simp: evolves_refl)
next
  case (revoke now i actor r)
  let ?g = "\<lambda>p. if dp_id p = i \<and> dp_revoked p = None then p\<lparr>dp_revoked := Some now\<rparr> else p"
  show ?thesis
  proof (cases r)
    case (Inl e)
    then show ?thesis using revoke(2) by (auto simp: RevokePairing_def evolves_refl elim: service_tx_cases)
  next
    case (Inr u)
    then show ?thesis
      using RevokePairing_outcome [of now i actor d d'] revoke(2) evolves_map [of d' "revoked_key i now" d ?g] by auto
  qed
next
  case (delete i actor r)
  show ?thesis
  proof (cases r)
    case (Inl e)
    then show ?thesis using delete(2) by (auto simp: DeletePairing_def evolves_refl elim: service_tx_cases)
  next
    case (Inr u)
    then show ?thesis using DeletePairing_outcome [of i actor d d'] delete(2) by (auto simp: evolves_def)
  qed
next
  case (rename now i label actor r)
  have "d' = d \<or> skeleton d' = skeleton d"
    using rename(2)
    by (auto simp: RenamePairing_def Let_def in_tx_def result_simps UpdateDevicePairingFriendlyLabel_def
        InsertPairingAudit_def skeleton_def split: if_splits sum.splits option.splits)
  then show ?thesis using evolves_refl evolves_skeleton by blast
next
  case (reveal now i actor channel r)
  have "skeleton d' = skeleton d"
    using reveal(2) by (auto simp: RecordCredentialReveal_def in_tx_def result_simps InsertPairingAudit_def skeleton_def
        split: sum.splits)
  then show ?thesis by (rule evolves_skeleton)
next
  case (backfill nonce r)
  have "skeleton d' = skeleton d"
    using backfill(2) by (auto simp: BackfillSealedCredentials_def intro: skeleton_backfill split: if_splits)
  then show ?thesis by (rule evolves_skeleton)
next
  case (users us)
  then show ?thesis by (simp add: evolves_skeleton skeleton_def)
qed

text \<open>No key with this hash belongs to a live pairing.\<close>

definition dead_hash :: "string \<Rightarrow> pairing_db \<Rightarrow> bool" where
  "dead_hash h d \<longleftrightarrow> (\<forall>k \<in> set (pd_keys d). pk_hash k = h \<longrightarrow>
     (\<exists>p \<in> set (pd_pairings d). dp_id p = pk_pairing k \<and> dp_revoked p \<noteq> None))"

lemma dead_hash_step:
  assumes "evolves sv d m d'" "dead_hash h d" "\<forall>p. m = Some p \<longrightarrow> hashKey sv p \<noteq> h"
  shows "dead_hash h d'"
  unfolding dead_hash_def
proof (intro ballI impI)
  fix k' assume k': "k' \<in> set (pd_keys d')" "pk_hash k' = h"
  then obtain k where k: "k \<in> set (pd_keys d)" "pk_hash k = h" "pk_pairing k = pk_pairing k'"
    using assms(1,3) unfolding evolves_def by metis
  then obtain p where "p \<in> set (pd_pairings d)" "dp_id p = pk_pairing k'" "dp_revoked p \<noteq> None"
    using assms(2) unfolding dead_hash_def by metis
  then show "\<exists>p \<in> set (pd_pairings d'). dp_id p = pk_pairing k' \<and> dp_revoked p \<noteq> None"
    using assms(1) k'(1) unfolding evolves_def by metis
qed

lemma dead_hash_lookup:
  assumes "pairing_db_ok d" "dead_hash (hashKey sv presented) d"
  shows "KeyLookup sv t now presented d = (Inr no_key, d)"
proof -
  have "GetDevicePairingKeyByHash t (hashKey sv presented) d = None"
  proof (rule ccontr)
    assume "GetDevicePairingKeyByHash t (hashKey sv presented) d \<noteq> None"
    then obtain k p where k: "k \<in> set (pd_keys d)" "pk_hash k = hashKey sv presented"
      and p: "p \<in> set (pd_pairings d)" "dp_id p = pk_pairing k" "dp_revoked p = None"
      unfolding GetDevicePairingKeyByHash_def by (auto dest!: find_SomeD)
    obtain q where "q \<in> set (pd_pairings d)" "dp_id q = pk_pairing k" "dp_revoked q \<noteq> None"
      using assms(2) k unfolding dead_hash_def by blast
    then show False using pairing_same_id [OF assms(1), of q p] p by simp
  qed
  then show ?thesis by (simp add: KeyLookup_def)
qed

text \<open>C31. Once a pairing is revoked, none of its keys authenticates again, whatever the service does
  afterwards and whatever its clock shows; unless a key with the same hash is minted.\<close>

theorem revoked_keys_stay_dead:
  assumes "pairing_run sv no_pairings before d" "RevokePairing now i actor d = (Inr (), d1)"
    and "pairing_run sv d1 after d2"
    and "k \<in> set (pd_keys d)" "pk_pairing k = i" "pk_hash k = hashKey sv presented"
    and "\<forall>p \<in> after. hashKey sv p \<noteq> hashKey sv presented"
  shows "KeyLookup sv t now' presented d2 = (Inr no_key, d2)"
proof -
  have inv: "pairing_inv sv d" using pairing_run_inv [OF assms(1) pairing_inv_start] .
  note o = RevokePairing_outcome [OF assms(2)]
  obtain p where p: "p \<in> set (pd_pairings d)" "dp_id p = i"
    using o GetDevicePairingByID_Some by (metis option.exhaust_sel)
  have "dead_hash (hashKey sv presented) d1"
    unfolding dead_hash_def
  proof (intro ballI impI)
    fix j assume j: "j \<in> set (pd_keys d1)" "pk_hash j = hashKey sv presented"
    then obtain j0 where j0: "j0 \<in> set (pd_keys d)" "j = revoked_key i now j0" using o by auto
    then have "j0 = k" using key_same_hash [OF pairing_invD(1) [OF inv], of j0 k] assms(4,6) j by simp
    then have "pk_pairing j = i" using j0 assms(5) by simp
    let ?q = "if dp_id p = i \<and> dp_revoked p = None then p\<lparr>dp_revoked := Some now\<rparr> else p"
    have "?q \<in> set (pd_pairings d1)" using o p(1) by auto
    moreover have "dp_id ?q = pk_pairing j \<and> dp_revoked ?q \<noteq> None" using p(2) \<open>pk_pairing j = i\<close> by simp
    ultimately show "\<exists>q \<in> set (pd_pairings d1). dp_id q = pk_pairing j \<and> dp_revoked q \<noteq> None" by blast
  qed
  with assms(3,7) have "dead_hash (hashKey sv presented) d2"
  proof (induction rule: pairing_run.induct)
    case (more minted d' m d'')
    then show ?case using dead_hash_step [OF evolves_step [OF more(2)]] by auto
  qed
  moreover have "pairing_inv sv d2" using pairing_run_inv [OF assms(3) inv_revoke [OF inv assms(2)]] .
  ultimately show ?thesis using dead_hash_lookup pairing_invD(1) by blast
qed

end
