(* ===== verification/AgentAuth.thy ===== *)
theory AgentAuth
  imports PairingProps
begin

text \<open>
  The agent authentication chain (\<open>internal/auth/agent.go\<close>, \<open>replay.go\<close>) and the authorisation gate
  (\<open>authz.go\<close>, \<open>principal.go\<close>). Times are nanoseconds since the epoch; Go's saturating time difference
  is the exact one, which agrees with it in every comparison with a window. HMAC-SHA256 is a parameter,
  and so is the lookup of a key, which threads its own state. Logging is not modelled.
\<close>

section \<open>Principals and the write gate\<close>

datatype principal_kind = KindUser | KindMachine | KindSystem

record principal =
  pn_kind :: principal_kind
  pn_name :: string
  pn_email :: string
  pn_groups :: "string list"
  pn_external :: string
  pn_provider :: string
  pn_user :: int
  pn_authenticated :: bool

record local_user_view =
  lv_user :: int
  lv_admin :: bool
  lv_mfa :: bool

definition AuthProviderLocal :: string where
  "AuthProviderLocal = ''local''"

definition no_local_view :: local_user_view where
  "no_local_view = \<lparr>lv_user = 0, lv_admin = False, lv_mfa = False\<rparr>"

definition IsAdmin :: "principal \<Rightarrow> string list \<Rightarrow> local_user_view \<Rightarrow> bool" where
  "IsAdmin p allowedGroups localView =
     (if pn_kind p \<noteq> KindUser \<or> \<not> pn_authenticated p then False
      else if lv_admin localView then True
      else if pn_provider p = AuthProviderLocal then False
      else if allowedGroups = [] then True
      else list_ex (\<lambda>g. g \<in> set (pn_groups p)) allowedGroups)"

text \<open>\<open>None\<close> when the request is passed on, otherwise the detail of the 403.\<close>

definition RequireAdmin :: "string list \<Rightarrow> principal option \<Rightarrow> local_user_view option \<Rightarrow> string \<Rightarrow> string option" where
  "RequireAdmin allowedGroups who localView rmethod =
     (case who of
        None \<Rightarrow> Some ''authentication required''
      | Some p \<Rightarrow>
          if pn_kind p = KindMachine then None
          else if rmethod = ''GET'' \<or> rmethod = ''HEAD'' \<or> rmethod = ''OPTIONS'' then None
          else if \<not> pn_authenticated p then Some ''authentication required''
          else if IsAdmin p allowedGroups (case localView of None \<Rightarrow> no_local_view | Some v \<Rightarrow> v) then None
          else Some ''admin authorization required'')"

section \<open>The replay cache\<close>

definition replaySweepInterval :: int where
  "replaySweepInterval = 1000000000"

record replay_cache =
  rc_entries :: "(string \<times> int) list"
  rc_last :: "int option"

definition NewReplayCache :: replay_cache where
  "NewReplayCache = \<lparr>rc_entries = [], rc_last = None\<rparr>"

definition sweep_entries :: "int \<Rightarrow> replay_cache \<Rightarrow> replay_cache" where
  "sweep_entries now c =
     (if (case rc_last c of None \<Rightarrow> True | Some l \<Rightarrow> replaySweepInterval \<le> now - l)
      then c\<lparr>rc_entries := filter (\<lambda>(n, e). now < e) (rc_entries c), rc_last := Some now\<rparr>
      else c)"

definition CheckAndRecord :: "string \<Rightarrow> int \<Rightarrow> int \<Rightarrow> replay_cache \<Rightarrow> bool \<times> replay_cache" where
  "CheckAndRecord nonce expiresAt now c =
     (let c = sweep_entries now c
      in if (case map_of (rc_entries c) nonce of None \<Rightarrow> False | Some e \<Rightarrow> now < e) then (False, c)
         else (True, c\<lparr>rc_entries := AList.update nonce expiresAt (rc_entries c)\<rparr>))"

section \<open>Requests\<close>

datatype request_body = NoBody | Body string | Unreadable

text \<open>Header names as on the wire; \<open>Get\<close> ignores their case, and so does the stripping.\<close>

record request =
  rq_method :: string
  rq_path :: string
  rq_uri :: string
  rq_headers :: "(string \<times> string) list"
  rq_body :: request_body

definition header :: "string \<Rightarrow> request \<Rightarrow> string" where
  "header name r = (case find (\<lambda>(n, v). equal_fold n name) (rq_headers r) of None \<Rightarrow> [] | Some (_, v) \<Rightarrow> v)"

definition stripAuthentikHeaders :: "request \<Rightarrow> request" where
  "stripAuthentikHeaders r =
     r\<lparr>rq_headers := filter (\<lambda>(n, v). \<not> has_prefix (to_lower n) ''x-authentik-'') (rq_headers r)\<rparr>"

text \<open>\<open>strconv.ParseInt(s, 10, 64)\<close>\<close>

definition digits_value :: "string \<Rightarrow> int" where
  "digits_value s = foldl (\<lambda>n c. 10 * n + (int (of_char c) - 48)) 0 s"

definition parse_int64 :: "string \<Rightarrow> int option" where
  "parse_int64 s =
     (let (neg, ds) = (case s of c # cs \<Rightarrow> if c = CHR ''-'' then (True, cs) else if c = CHR ''+'' then (False, cs) else (False, s)
                                | [] \<Rightarrow> (False, []));
          v = if neg then - digits_value ds else digits_value ds
      in if ds = [] \<or> \<not> list_all is_digit ds then None
         else if - (2 ^ 63) \<le> v \<and> v < 2 ^ 63 then Some v else None)"

section \<open>The chain\<close>

record 's agent_config =
  ag_signed :: bool
  ag_window :: int
  ag_max_body :: int
  ag_skip :: "string list option"
  ag_lookup :: "(string \<Rightarrow> 's \<Rightarrow> (lookup_error + key_lookup_result) \<times> 's) option"

definition matchesAnyPath :: "string \<Rightarrow> string list \<Rightarrow> bool" where
  "matchesAnyPath path patterns =
     list_ex (\<lambda>p. p \<noteq> [] \<and> (if has_suffix p ''/'' then has_prefix path p else path = p)) patterns"

definition replay_window :: "'s agent_config \<Rightarrow> int" where
  "replay_window cfg = (if ag_window cfg \<le> 0 then 5 * 60 * 1000000000 else ag_window cfg)"

definition max_body :: "'s agent_config \<Rightarrow> int" where
  "max_body cfg = (if ag_max_body cfg \<le> 0 then 16 * 1024 * 1024 else ag_max_body cfg)"

definition skip_paths :: "'s agent_config \<Rightarrow> string list" where
  "skip_paths cfg = (case ag_skip cfg of None \<Rightarrow> [''/api/v1/agent/upload''] | Some ps \<Rightarrow> ps)"

datatype refusal =
  AuthNotConfigured | InvalidKey | LookupFailed | MissingHeader | BadTimestamp | ClockSkew | BodyTooLarge
  | BodyReadError | NoSigningKey | SignatureMismatch | ReplayedNonce

fun refusal_status :: "refusal \<Rightarrow> int" where
  "refusal_status AuthNotConfigured = 503"
| "refusal_status LookupFailed = 500"
| "refusal_status BodyTooLarge = 413"
| "refusal_status BodyReadError = 400"
| "refusal_status _ = 401"

fun body_bytes :: "request_body \<Rightarrow> string" where
  "body_bytes (Body b) = b"
| "body_bytes _ = []"

definition signed_message :: "request \<Rightarrow> string" where
  "signed_message r = rq_method r @ [CHR 0x0A] @ rq_uri r @ [CHR 0x0A] @ header ''X-Nonce'' r @ [CHR 0x0A]
     @ header ''X-Timestamp'' r @ [CHR 0x0A] @ body_bytes (rq_body r)"

text \<open>The checks before the body is read: the time the request is stamped with, or why it is refused.\<close>

definition check_stamp :: "'s agent_config \<Rightarrow> int \<Rightarrow> request \<Rightarrow> refusal + int" where
  "check_stamp cfg now r =
     (if header ''X-Timestamp'' r = [] \<or> header ''X-Nonce'' r = [] \<or> header ''X-Signature'' r = [] then Inl MissingHeader
      else case parse_int64 (header ''X-Timestamp'' r) of
        None \<Rightarrow> Inl BadTimestamp
      | Some reqTime \<Rightarrow>
          if replay_window cfg < now - reqTime \<or> now - reqTime < - replay_window cfg then Inl ClockSkew else Inr reqTime)"

text \<open>Those that need the body.\<close>

definition check_body :: "(string \<Rightarrow> string \<Rightarrow> string) \<Rightarrow> 's agent_config \<Rightarrow> string option \<Rightarrow> request \<Rightarrow> refusal + unit" where
  "check_body hmac cfg signingKey r =
     (if max_body cfg < int (length (body_bytes (rq_body r))) then Inl BodyTooLarge
      else if rq_body r = Unreadable then Inl BodyReadError
      else case signingKey of
        None \<Rightarrow> Inl NoSigningKey
      | Some key \<Rightarrow>
          if header ''X-Signature'' r \<noteq> hex_encode (hmac key (signed_message r)) then Inl SignatureMismatch else Inr ())"

definition check_signature ::
  "(string \<Rightarrow> string \<Rightarrow> string) \<Rightarrow> 's agent_config \<Rightarrow> int \<Rightarrow> string option \<Rightarrow> request \<Rightarrow> refusal + int" where
  "check_signature hmac cfg now signingKey r =
     rbind (check_stamp cfg now r) (\<lambda>reqTime. rbind (check_body hmac cfg signingKey r) (\<lambda>_. Inr reqTime))"

definition requires_signature :: "'s agent_config \<Rightarrow> request \<Rightarrow> bool" where
  "requires_signature cfg r \<longleftrightarrow> ag_signed cfg \<and> \<not> matchesAnyPath (rq_path r) (skip_paths cfg)"

definition machine :: "string \<Rightarrow> principal" where
  "machine agentID = \<lparr>pn_kind = KindMachine, pn_name = agentID, pn_email = [], pn_groups = [], pn_external = [],
     pn_provider = [], pn_user = 0, pn_authenticated = False\<rparr>"

text \<open>
  The handler reads the clock before it reads the body, and asks the replay cache after, with the time it
  read. \<open>AgentBegin\<close> is the part up to the body: the request is denied, passed on, or its body is
  awaited, with everything the rest of the handler uses. \<open>AgentFinish\<close> is the rest.
\<close>

record flight =
  fl_now :: int
  fl_principal :: principal
  fl_request :: request
  fl_key :: "string option"
  fl_stamp :: int

datatype arrival = Denied refusal | PassedOn principal request | BodyPending flight

definition AgentBegin :: "'s agent_config \<Rightarrow> int \<Rightarrow> request \<Rightarrow> 's \<Rightarrow> arrival \<times> 's" where
  "AgentBegin cfg now r0 s =
     (let r = stripAuthentikHeaders r0; provided = header ''X-API-Key'' r
      in case ag_lookup cfg of
           None \<Rightarrow> (Denied AuthNotConfigured, s)
         | Some lookup \<Rightarrow>
             if provided = [] then (Denied InvalidKey, s)
             else case lookup provided s of
               (Inl _, s) \<Rightarrow> (Denied LookupFailed, s)
             | (Inr result, s) \<Rightarrow>
                 if lr_agent result = [] then (Denied InvalidKey, s)
                 else if \<not> requires_signature cfg r then (PassedOn (machine (lr_agent result)) r, s)
                 else case check_stamp cfg now r of
                   Inl e \<Rightarrow> (Denied e, s)
                 | Inr reqTime \<Rightarrow>
                     (BodyPending \<lparr>fl_now = now, fl_principal = machine (lr_agent result), fl_request = r,
                        fl_key = lr_signing result, fl_stamp = reqTime\<rparr>, s))"

definition AgentFinish ::
  "(string \<Rightarrow> string \<Rightarrow> string) \<Rightarrow> 's agent_config \<Rightarrow> flight \<Rightarrow> replay_cache
   \<Rightarrow> (refusal + (principal \<times> request)) \<times> replay_cache" where
  "AgentFinish hmac cfg f cache =
     (case check_body hmac cfg (fl_key f) (fl_request f) of
        Inl e \<Rightarrow> (Inl e, cache)
      | Inr _ \<Rightarrow>
          let (accepted, cache) = CheckAndRecord (header ''X-Nonce'' (fl_request f))
                (fl_stamp f + replay_window cfg) (fl_now f) cache
          in if accepted then (Inr (fl_principal f, fl_request f), cache) else (Inl ReplayedNonce, cache))"

text \<open>One request through the whole chain: what the next handler is given, or the refusal.\<close>

definition AgentChain ::
  "(string \<Rightarrow> string \<Rightarrow> string) \<Rightarrow> 's agent_config \<Rightarrow> int \<Rightarrow> request \<Rightarrow> replay_cache \<times> 's
   \<Rightarrow> (refusal + (principal \<times> request)) \<times> replay_cache \<times> 's" where
  "AgentChain hmac cfg now r0 = (\<lambda>(cache, s).
     case AgentBegin cfg now r0 s of
       (Denied e, s) \<Rightarrow> (Inl e, cache, s)
     | (PassedOn p r, s) \<Rightarrow> (Inr (p, r), cache, s)
     | (BodyPending f, s) \<Rightarrow> (case AgentFinish hmac cfg f cache of (out, cache) \<Rightarrow> (out, cache, s)))"

section \<open>A nonce is used once in its window\<close>

lemma map_of_filter_keeps: "map_of xs k = Some v \<Longrightarrow> P (k, v) \<Longrightarrow> map_of (filter P xs) k = Some v"
  by (induction xs) (auto split: if_splits)

lemma sweep_keeps:
  "map_of (rc_entries c) n = Some e \<Longrightarrow> now < e \<Longrightarrow> map_of (rc_entries (sweep_entries now c)) n = Some e"
  by (simp add: sweep_entries_def map_of_filter_keeps)

lemma CheckAndRecord_keeps:
  assumes "map_of (rc_entries c) n = Some e" "now < e"
  shows "map_of (rc_entries (snd (CheckAndRecord n' x now c))) n = Some e \<and> (n' = n \<longrightarrow> \<not> fst (CheckAndRecord n' x now c))"
  using sweep_keeps [OF assms] assms(2) by (auto simp: CheckAndRecord_def Let_def update_conv' split: option.splits)

lemma CheckAndRecord_records:
  "fst (CheckAndRecord n e now c) \<Longrightarrow> map_of (rc_entries (snd (CheckAndRecord n e now c))) n = Some e"
  by (auto simp: CheckAndRecord_def Let_def update_conv' split: option.splits if_splits)

text \<open>What a pending body and an admission tell.\<close>

lemma check_stamp_Inr:
  "check_stamp cfg now r = Inr ts \<Longrightarrow>
   header ''X-Nonce'' r \<noteq> [] \<and> parse_int64 (header ''X-Timestamp'' r) = Some ts \<and> \<bar>now - ts\<bar> \<le> replay_window cfg"
  unfolding check_stamp_def by (auto split: if_splits option.splits)

lemma check_body_Inr:
  "check_body hmac cfg signingKey r = Inr u \<Longrightarrow> int (length (body_bytes (rq_body r))) \<le> max_body cfg \<and>
   (\<exists>key. signingKey = Some key \<and> header ''X-Signature'' r = hex_encode (hmac key (signed_message r)))"
  unfolding check_body_def by (auto split: if_splits option.splits)

lemma AgentBegin_pending:
  assumes "AgentBegin cfg now r0 s = (BodyPending f, s')"
  shows "fl_now f = now \<and> fl_request f = stripAuthentikHeaders r0 \<and> check_stamp cfg now (fl_request f) = Inr (fl_stamp f)"
  using assms unfolding AgentBegin_def by (auto simp: Let_def split: option.splits if_splits sum.splits prod.splits)

lemma AgentFinish_admitted:
  assumes "AgentFinish hmac cfg f c = (Inr out, c')"
  shows "out = (fl_principal f, fl_request f) \<and> (\<exists>u. check_body hmac cfg (fl_key f) (fl_request f) = Inr u) \<and>
    CheckAndRecord (header ''X-Nonce'' (fl_request f)) (fl_stamp f + replay_window cfg) (fl_now f) c = (True, c')"
  using assms unfolding AgentFinish_def by (auto simp: Let_def split: if_splits sum.splits prod.splits)

lemma AgentFinish_unsigned: "AgentFinish hmac cfg f c = (Inl NoSigningKey, c') \<Longrightarrow> fl_key f = None"
  unfolding AgentFinish_def check_body_def
  by (auto simp: Let_def split: option.splits if_splits sum.splits prod.splits)

lemma AgentFinish_cache:
  assumes "AgentFinish hmac cfg f c = (out, c')"
  shows "c' = c \<or> (\<exists>x. c' = snd (CheckAndRecord (header ''X-Nonce'' (fl_request f)) x (fl_now f) c))"
  using assms unfolding AgentFinish_def by (auto simp: Let_def split: if_splits sum.splits prod.splits) (metis snd_conv)+

lemma AgentChain_admitted:
  assumes "AgentChain hmac cfg now r0 (c, s) = (Inr (p, r), c', s')"
  shows "r = stripAuthentikHeaders r0 \<and> header ''X-API-Key'' r \<noteq> [] \<and>
    (\<exists>lookup result. ag_lookup cfg = Some lookup \<and> lookup (header ''X-API-Key'' r) s = (Inr result, s') \<and>
      lr_agent result \<noteq> [] \<and> p = machine (lr_agent result) \<and>
      (requires_signature cfg r \<longrightarrow> (\<exists>reqTime. check_signature hmac cfg now (lr_signing result) r = Inr reqTime)))"
  using assms unfolding AgentChain_def AgentBegin_def check_signature_def
  by (auto simp: Let_def dest!: AgentFinish_admitted split: option.splits if_splits sum.splits prod.splits arrival.splits)

lemma check_signature_Inr:
  assumes "check_signature hmac cfg now signingKey r = Inr reqTime"
  shows "header ''X-Nonce'' r \<noteq> [] \<and> parse_int64 (header ''X-Timestamp'' r) = Some reqTime \<and>
    \<bar>now - reqTime\<bar> \<le> replay_window cfg \<and> int (length (body_bytes (rq_body r))) \<le> max_body cfg \<and>
    (\<exists>key. signingKey = Some key \<and> header ''X-Signature'' r = hex_encode (hmac key (signed_message r)))"
  using assms unfolding check_signature_def by (auto simp: result_simps dest: check_stamp_Inr check_body_Inr)

section \<open>Requests served side by side\<close>

text \<open>
  The server: the cache, what the key lookup works on, the clock, the requests whose body is being read,
  and the log of the signed requests it admitted, oldest first, with the times at which each arrived
  and was admitted. Requests arrive and finish in any order, the clock only goes forward, and the rest
  of the server changes its tables as it likes.
\<close>

record admission =
  adm_request :: request
  adm_stamp :: int
  adm_arrived :: int
  adm_ended :: int

record 's agent_server =
  av_cache :: replay_cache
  av_tables :: 's
  av_clock :: int
  av_pending :: "flight list"
  av_log :: "admission list"

definition admission_of :: "int \<Rightarrow> flight \<Rightarrow> admission" where
  "admission_of t f = \<lparr>adm_request = fl_request f, adm_stamp = fl_stamp f, adm_arrived = fl_now f, adm_ended = t\<rparr>"

definition arrive :: "'s agent_config \<Rightarrow> int \<Rightarrow> request \<Rightarrow> 's agent_server \<Rightarrow> 's agent_server" where
  "arrive cfg t r A =
     (case AgentBegin cfg t r (av_tables A) of
        (BodyPending f, s) \<Rightarrow> A\<lparr>av_tables := s, av_clock := t, av_pending := f # av_pending A\<rparr>
      | (_, s) \<Rightarrow> A\<lparr>av_tables := s, av_clock := t\<rparr>)"

definition body_read ::
  "(string \<Rightarrow> string \<Rightarrow> string) \<Rightarrow> 's agent_config \<Rightarrow> int \<Rightarrow> flight \<Rightarrow> 's agent_server \<Rightarrow> 's agent_server" where
  "body_read hmac cfg t f A =
     (case AgentFinish hmac cfg f (av_cache A) of (out, c) \<Rightarrow>
        A\<lparr>av_cache := c, av_clock := t, av_pending := remove1 f (av_pending A),
          av_log := (if isl out then av_log A else av_log A @ [admission_of t f])\<rparr>)"

inductive agent_run :: "(string \<Rightarrow> string \<Rightarrow> string) \<Rightarrow> 's agent_config \<Rightarrow> 's agent_server \<Rightarrow> bool" for hmac cfg where
  start: "agent_run hmac cfg \<lparr>av_cache = NewReplayCache, av_tables = s, av_clock = t, av_pending = [], av_log = []\<rparr>"
| arrival: "agent_run hmac cfg A \<Longrightarrow> av_clock A \<le> t \<Longrightarrow> agent_run hmac cfg (arrive cfg t r A)"
| body: "agent_run hmac cfg A \<Longrightarrow> av_clock A \<le> t \<Longrightarrow> f \<in> set (av_pending A) \<Longrightarrow> agent_run hmac cfg (body_read hmac cfg t f A)"
| others: "agent_run hmac cfg A \<Longrightarrow> agent_run hmac cfg (A\<lparr>av_tables := s\<rparr>)"

section \<open>A nonce is used once in its window\<close>

definition adm_nonce :: "admission \<Rightarrow> string" where
  "adm_nonce a = header ''X-Nonce'' (adm_request a)"

definition adm_end :: "'s agent_config \<Rightarrow> admission \<Rightarrow> int" where
  "adm_end cfg a = adm_stamp a + replay_window cfg"

text \<open>Every request arrived before now and inside its window, and the nonces of the admitted requests
  whose window has not ended are in the cache.\<close>

definition flight_ok :: "'s agent_config \<Rightarrow> int \<Rightarrow> flight \<Rightarrow> bool" where
  "flight_ok cfg t f \<longleftrightarrow> fl_now f \<le> t \<and> \<bar>fl_now f - fl_stamp f\<bar> \<le> replay_window cfg"

definition agent_inv :: "'s agent_config \<Rightarrow> 's agent_server \<Rightarrow> bool" where
  "agent_inv cfg A \<longleftrightarrow>
     (\<forall>f \<in> set (av_pending A). flight_ok cfg (av_clock A) f) \<and>
     (\<forall>a \<in> set (av_log A). av_clock A < adm_end cfg a \<longrightarrow> map_of (rc_entries (av_cache A)) (adm_nonce a) = Some (adm_end cfg a)) \<and>
     (\<forall>a \<in> set (av_log A). \<bar>adm_arrived a - adm_stamp a\<bar> \<le> replay_window cfg) \<and>
     sorted_wrt (\<lambda>a b. adm_nonce b = adm_nonce a \<longrightarrow> adm_end cfg a \<le> adm_ended b) (av_log A)"

lemma flight_ok_later: "flight_ok cfg t f \<Longrightarrow> t \<le> t' \<Longrightarrow> flight_ok cfg t' f"
  by (simp add: flight_ok_def)

lemma inv_arrive:
  assumes "agent_inv cfg A" "av_clock A \<le> t"
  shows "agent_inv cfg (arrive cfg t r A)"
proof -
  have later: "agent_inv cfg (A\<lparr>av_tables := s, av_clock := t\<rparr>)" for s
    using assms by (auto simp: agent_inv_def intro: flight_ok_later)
  obtain x s where x: "AgentBegin cfg t r (av_tables A) = (x, s)" by (cases "AgentBegin cfg t r (av_tables A)")
  show ?thesis
  proof (cases x)
    case (BodyPending f)
    then have "flight_ok cfg t f" using AgentBegin_pending check_stamp_Inr x by (fastforce simp: flight_ok_def)
    then show ?thesis using later [of s] x BodyPending by (simp add: arrive_def agent_inv_def)
  qed (use later x in \<open>simp_all add: arrive_def\<close>)
qed

lemma inv_body_read:
  assumes inv: "agent_inv cfg A" and t: "av_clock A \<le> t" and f: "f \<in> set (av_pending A)"
  shows "agent_inv cfg (body_read hmac cfg t f A)"
proof -
  obtain out c where run: "AgentFinish hmac cfg f (av_cache A) = (out, c)" by (cases "AgentFinish hmac cfg f (av_cache A)")
  have fo: "fl_now f \<le> t" "\<bar>fl_now f - fl_stamp f\<bar> \<le> replay_window cfg"
    using inv t f by (auto simp: agent_inv_def flight_ok_def)
  have alive: "map_of (rc_entries (av_cache A)) (adm_nonce a) = Some (adm_end cfg a)" "fl_now f < adm_end cfg a"
    if "a \<in> set (av_log A)" "t < adm_end cfg a" for a
    using inv t fo(1) that by (auto simp: agent_inv_def)
  have kept: "map_of (rc_entries c) (adm_nonce a) = Some (adm_end cfg a)" if a: "a \<in> set (av_log A)" "t < adm_end cfg a" for a
    using AgentFinish_cache [OF run] alive [OF a] CheckAndRecord_keeps [OF alive [OF a]] by auto
  have pending: "flight_ok cfg t g" if "g \<in> set (remove1 f (av_pending A))" for g
    using inv t notin_set_remove1 that unfolding agent_inv_def by (metis flight_ok_later)
  show ?thesis
  proof (cases out)
    case (Inl e)
    then show ?thesis using inv run kept pending by (simp add: body_read_def agent_inv_def)
  next
    case (Inr o1)
    let ?new = "admission_of t f"
    note adm = AgentFinish_admitted [OF run [unfolded Inr]]
    have new: "adm_nonce ?new = header ''X-Nonce'' (fl_request f)" "adm_end cfg ?new = fl_stamp f + replay_window cfg"
      "adm_ended ?new = t" "\<bar>adm_arrived ?new - adm_stamp ?new\<bar> \<le> replay_window cfg"
      using fo(2) by (simp_all add: admission_of_def adm_nonce_def adm_end_def)
    have recorded: "map_of (rc_entries c) (adm_nonce ?new) = Some (adm_end cfg ?new)"
      using adm CheckAndRecord_records [of "adm_nonce ?new" "adm_end cfg ?new" "fl_now f" "av_cache A"] unfolding new by simp
    have once: "adm_end cfg a \<le> t" if a: "a \<in> set (av_log A)" "adm_nonce ?new = adm_nonce a" for a
    proof (rule ccontr)
      assume "\<not> adm_end cfg a \<le> t"
      then have live: "map_of (rc_entries (av_cache A)) (adm_nonce a) = Some (adm_end cfg a)" "fl_now f < adm_end cfg a"
        using alive a(1) by auto
      show False using CheckAndRecord_keeps [OF live, of "adm_nonce ?new" "adm_end cfg ?new"] adm a(2) unfolding new by simp
    qed
    show ?thesis
      using inv run Inr kept pending recorded once new
      by (auto simp: body_read_def agent_inv_def sorted_wrt_append)
  qed
qed

lemma agent_run_inv: "agent_run hmac cfg A \<Longrightarrow> agent_inv cfg A"
proof (induction rule: agent_run.induct)
  case (others A s)
  then show ?case by (simp add: agent_inv_def)
qed (simp_all add: inv_arrive inv_body_read, simp add: agent_inv_def)

text \<open>C34. A nonce is used once in its window, however the requests overlap: of two signed requests with the
  same nonce that the server admits, the second is admitted no earlier than the end of the window of
  the first, and each of them arrived inside its own. So a request that is captured and sent again
  unchanged is only ever admitted a second time when it arrives before or at the last nanosecond of the
  window and its body is read until then or beyond; while the window is open it never is. (One that
  arrives earlier and sends its body slowly enough can be: \<open>slow_replay_admitted\<close>.)\<close>

theorem nonce_admitted_once:
  assumes "agent_run hmac cfg A" "i < j" "j < length (av_log A)"
    and "header ''X-Nonce'' (adm_request (av_log A ! j)) = header ''X-Nonce'' (adm_request (av_log A ! i))"
  shows "adm_stamp (av_log A ! i) + replay_window cfg \<le> adm_ended (av_log A ! j) \<and>
    \<bar>adm_arrived (av_log A ! j) - adm_stamp (av_log A ! j)\<bar> \<le> replay_window cfg"
proof -
  have inv: "agent_inv cfg A" by (rule agent_run_inv [OF assms(1)])
  then have "adm_nonce (av_log A ! j) = adm_nonce (av_log A ! i) \<longrightarrow> adm_end cfg (av_log A ! i) \<le> adm_ended (av_log A ! j)"
    using sorted_wrt_nth_less assms(2,3) unfolding agent_inv_def by blast
  moreover have "av_log A ! j \<in> set (av_log A)" using assms(3) by simp
  ultimately show ?thesis using inv assms(4) by (auto simp: agent_inv_def adm_nonce_def adm_end_def)
qed

section \<open>What the chain asks of a key lookup\<close>

text \<open>
  The contract of \<open>AgentConfig.LookupKey\<close>: a hit carries the presented key as its signing key, and what
  the provider vouches for (\<open>holds\<close>) when it names an agent.
\<close>

locale key_lookup =
  fixes lookup :: "string \<Rightarrow> 's \<Rightarrow> (lookup_error + key_lookup_result) \<times> 's"
    and holds :: "'s \<Rightarrow> string \<Rightarrow> string \<Rightarrow> bool"
  assumes hit_signing: "lookup presented s = (Inr r, s') \<Longrightarrow> lr_agent r \<noteq> [] \<Longrightarrow> lr_signing r = Some presented"
    and hit_holds: "lookup presented s = (Inr r, s') \<Longrightarrow> lr_agent r \<noteq> [] \<Longrightarrow> holds s presented (lr_agent r)"
begin

text \<open>The chain never meets a hit without a signing key, so it never refuses a request for that.\<close>

lemma pending_signed:
  assumes "ag_lookup cfg = Some lookup" "AgentBegin cfg now r0 s = (BodyPending f, s')"
  shows "fl_key f \<noteq> None"
  using assms hit_signing unfolding AgentBegin_def
  by (auto simp: Let_def split: option.splits if_splits sum.splits prod.splits)

lemma never_unsigned:
  assumes "ag_lookup cfg = Some lookup" "AgentChain hmac cfg now r0 (c, s) = (Inl e, c', s')"
  shows "e \<noteq> NoSigningKey"
proof (cases "AgentBegin cfg now r0 s")
  case (Pair x s1)
  show ?thesis
  proof (cases x)
    case (Denied e1)
    then have "e1 \<noteq> NoSigningKey"
      using Pair unfolding AgentBegin_def check_stamp_def
      by (auto simp: Let_def split: option.splits if_splits sum.splits prod.splits)
    then show ?thesis using assms(2) Pair Denied by (auto simp: AgentChain_def)
  next
    case (PassedOn p r)
    then show ?thesis using assms(2) Pair by (simp add: AgentChain_def)
  next
    case (BodyPending f)
    then have "AgentFinish hmac cfg f c = (Inl e, c')" using assms(2) Pair by (simp add: AgentChain_def split: prod.splits)
    then show ?thesis using AgentFinish_unsigned pending_signed [OF assms(1)] Pair BodyPending by blast
  qed
qed

lemma admitted:
  assumes "ag_lookup cfg = Some lookup" "AgentChain hmac cfg now r0 (c, s) = (Inr (p, r), c', s')"
  shows "r = stripAuthentikHeaders r0 \<and> pn_kind p = KindMachine \<and> pn_name p \<noteq> [] \<and>
    holds s (header ''X-API-Key'' r) (pn_name p) \<and>
    (requires_signature cfg r \<longrightarrow> (\<exists>ts. parse_int64 (header ''X-Timestamp'' r) = Some ts \<and> \<bar>now - ts\<bar> \<le> replay_window cfg \<and>
       header ''X-Signature'' r = hex_encode (hmac (header ''X-API-Key'' r) (signed_message r))))"
proof -
  from AgentChain_admitted [OF assms(2)] assms(1) obtain result where r: "r = stripAuthentikHeaders r0"
    and hit: "lookup (header ''X-API-Key'' r) s = (Inr result, s')" "lr_agent result \<noteq> []" "p = machine (lr_agent result)"
    and sig: "requires_signature cfg r \<longrightarrow> (\<exists>reqTime. check_signature hmac cfg now (lr_signing result) r = Inr reqTime)"
    by auto
  have "lr_signing result = Some (header ''X-API-Key'' r)" by (rule hit_signing [OF hit(1,2)])
  then have "requires_signature cfg r \<longrightarrow> (\<exists>ts. parse_int64 (header ''X-Timestamp'' r) = Some ts \<and> \<bar>now - ts\<bar> \<le> replay_window cfg \<and>
       header ''X-Signature'' r = hex_encode (hmac (header ''X-API-Key'' r) (signed_message r)))"
    using sig check_signature_Inr [of hmac cfg now "lr_signing result" r] by auto
  then show ?thesis using r hit hit_holds [OF hit(1,2)] by (simp add: machine_def)
qed

end

text \<open>The pairing service keeps the contract: it vouches that the key is an active one of the live pairing
  of that agent.\<close>

definition active_device :: "pairing_service \<Rightarrow> int \<Rightarrow> pairing_db \<Rightarrow> string \<Rightarrow> string \<Rightarrow> bool" where
  "active_device sv t d presented agent \<longleftrightarrow>
     (\<exists>k \<in> set (pd_keys d). \<exists>p \<in> set (pd_pairings d). pk_hash k = hashKey sv presented \<and> active_key t k \<and>
        dp_id p = pk_pairing k \<and> dp_agent p = agent \<and> (\<exists>q \<in> set (pd_pairings d). dp_id q = dp_id p \<and> dp_revoked q = None))"

interpretation pairing_keys: key_lookup "\<lambda>presented d. KeyLookup sv t now presented d" "active_device sv t" for sv t now
proof
  fix presented d r d'
  assume hit: "KeyLookup sv t now presented d = (Inr r, d')" "lr_agent r \<noteq> []"
  then obtain k p where k: "GetDevicePairingKeyByHash t (hashKey sv presented) d = Some k"
    and p: "GetDevicePairingByID (pk_pairing k) d = Some p"
    and r: "r = \<lparr>lr_agent = dp_agent p, lr_signing = Some (SigningKeyForAPIKey presented)\<rparr>"
    by (auto simp: KeyLookup_def no_key_def split: option.splits)
  show "lr_signing r = Some presented" by (simp add: r SigningKeyForAPIKey_def)
  have "k \<in> set (pd_keys d) \<and> pk_hash k = hashKey sv presented \<and> active_key t k \<and>
      (\<exists>q \<in> set (pd_pairings d). dp_id q = pk_pairing k \<and> dp_revoked q = None)"
    using find_SomeD [OF k [unfolded GetDevicePairingKeyByHash_def]] by blast
  then show "active_device sv t d presented (lr_agent r)"
    using GetDevicePairingByID_Some [OF p] unfolding active_device_def r key_lookup_result.simps by metis
qed

text \<open>C33. A request that the chain admits comes from a paired device: its key is active and belongs to the
  live pairing of the agent it is admitted as; no identity header reaches the handler; and, where a
  signature is required, the whole request was signed with that key within the window.\<close>

theorem admitted_requests_are_authentic:
  assumes "ag_lookup cfg = Some (\<lambda>presented d. KeyLookup sv t now presented d)"
    and "AgentChain hmac cfg now1 r0 (c, d) = (Inr (p, r), c', d')"
  shows "r = stripAuthentikHeaders r0 \<and> pn_kind p = KindMachine \<and> pn_name p \<noteq> [] \<and>
    active_device sv t d (header ''X-API-Key'' r) (pn_name p) \<and>
    (requires_signature cfg r \<longrightarrow> (\<exists>ts. parse_int64 (header ''X-Timestamp'' r) = Some ts \<and> \<bar>now1 - ts\<bar> \<le> replay_window cfg \<and>
       header ''X-Signature'' r = hex_encode (hmac (header ''X-API-Key'' r) (signed_message r))))"
  by (rule pairing_keys.admitted [OF assms])

section \<open>Requests of a device\<close>

text \<open>A request of the device holding \<open>key\<close>, with its stamp and nonce, signed under a sample digest.\<close>

definition sample_digest :: "string \<Rightarrow> string \<Rightarrow> string" where
  "sample_digest k m = take 32 (k @ m)"

definition unsigned_request :: "string \<Rightarrow> string \<Rightarrow> string \<Rightarrow> request" where
  "unsigned_request key ts nonce =
     \<lparr>rq_method = ''POST'', rq_path = ''/api/v1/agent/handshake'', rq_uri = ''/api/v1/agent/handshake'',
     rq_headers = [(''X-Authentik-Username'', ''admin''), (''X-Api-Key'', key), (''X-Timestamp'', ts), (''X-Nonce'', nonce)],
     rq_body = Body ''{}''\<rparr>"

definition signed_request :: "string \<Rightarrow> string \<Rightarrow> string \<Rightarrow> request" where
  "signed_request key ts nonce =
     (unsigned_request key ts nonce)\<lparr>rq_headers := rq_headers (unsigned_request key ts nonce)
        @ [(''X-Signature'', hex_encode (sample_digest key (signed_message (unsigned_request key ts nonce))))]\<rparr>"

definition signing_config :: "(string \<Rightarrow> 's \<Rightarrow> (lookup_error + key_lookup_result) \<times> 's) \<Rightarrow> 's agent_config" where
  "signing_config lookup = \<lparr>ag_signed = True, ag_window = 10, ag_max_body = 0, ag_skip = None, ag_lookup = Some lookup\<rparr>"

definition sample_lookup :: "string \<Rightarrow> unit \<Rightarrow> (lookup_error + key_lookup_result) \<times> unit" where
  "sample_lookup presented s = (Inr \<lparr>lr_agent = ''dev-1'', lr_signing = Some presented\<rparr>, s)"

definition presented_request :: "string \<Rightarrow> string \<Rightarrow> request" where
  "presented_request ts nonce = stripAuthentikHeaders (signed_request ''k'' ts nonce)"

lemma small_letters: "char_of (120 :: nat) = CHR ''x''" "char_of (97 :: nat) = CHR ''a''" "char_of (112 :: nat) = CHR ''p''"
    "char_of (105 :: nat) = CHR ''i''"
  by code_simp+

lemma header_names:
  "\<not> has_prefix (to_lower ''X-Api-Key'') ''x-authentik-''" "\<not> has_prefix (to_lower ''X-Timestamp'') ''x-authentik-''"
  "\<not> has_prefix (to_lower ''X-Nonce'') ''x-authentik-''" "\<not> has_prefix (to_lower ''X-Signature'') ''x-authentik-''"
  "has_prefix (to_lower ''X-Authentik-Username'') ''x-authentik-''"
  "equal_fold ''X-Api-Key'' ''X-API-Key''" "equal_fold ''X-Timestamp'' ''X-Timestamp''" "equal_fold ''X-Nonce'' ''X-Nonce''"
  "equal_fold ''X-Signature'' ''X-Signature''" "\<not> equal_fold ''X-Api-Key'' ''X-Timestamp''" "\<not> equal_fold ''X-Api-Key'' ''X-Nonce''"
  "\<not> equal_fold ''X-Api-Key'' ''X-Signature''" "\<not> equal_fold ''X-Timestamp'' ''X-Nonce''" "\<not> equal_fold ''X-Timestamp'' ''X-Signature''"
  "\<not> equal_fold ''X-Nonce'' ''X-Signature''" "\<not> equal_fold ''X-Authentik-Username'' ''X-Timestamp''"
  "\<not> equal_fold ''X-Authentik-Username'' ''X-Nonce''" "\<not> equal_fold ''X-Authentik-Username'' ''X-Signature''"
  by (simp_all add: equal_fold_def to_lower_def lower_char_def Let_def small_letters)

lemma presented_headers:
  "header ''X-API-Key'' (presented_request ts nonce) = ''k''"
  "header ''X-Timestamp'' (presented_request ts nonce) = ts"
  "header ''X-Nonce'' (presented_request ts nonce) = nonce"
  "header ''X-Signature'' (presented_request ts nonce) = hex_encode (sample_digest ''k'' (signed_message (presented_request ts nonce)))"
  "header ''X-Signature'' (presented_request ts nonce) \<noteq> []"
proof -
  note defs = header_def presented_request_def stripAuthentikHeaders_def signed_request_def unsigned_request_def
  show "header ''X-API-Key'' (presented_request ts nonce) = ''k''" "header ''X-Timestamp'' (presented_request ts nonce) = ts"
    "header ''X-Nonce'' (presented_request ts nonce) = nonce"
    by (simp_all add: defs header_names)
  have msg: "signed_message (presented_request ts nonce) = signed_message (unsigned_request ''k'' ts nonce)"
    by (simp add: signed_message_def defs header_names)
  have sig: "header ''X-Signature'' (presented_request ts nonce) = hex_encode (sample_digest ''k'' (signed_message (unsigned_request ''k'' ts nonce)))"
    unfolding header_def presented_request_def stripAuthentikHeaders_def signed_request_def
    by (simp add: header_names) (simp add: unsigned_request_def header_names)
  then show "header ''X-Signature'' (presented_request ts nonce) = hex_encode (sample_digest ''k'' (signed_message (presented_request ts nonce)))"
    unfolding msg .
  have "sample_digest ''k'' m \<noteq> []" for m by (simp add: sample_digest_def)
  then show "header ''X-Signature'' (presented_request ts nonce) \<noteq> []"
    unfolding sig by (metis length_0_conv length_hex_encode mult_is_0 zero_neq_numeral)
qed

lemma presented_config:
  "requires_signature (signing_config lookup) (presented_request ts nonce)" "rq_body (presented_request ts nonce) = Body ''{}''"
  "replay_window (signing_config lookup) = 10" "max_body (signing_config lookup) = 16777216"
  "ag_lookup (signing_config lookup) = Some lookup"
proof -
  have "\<not> matchesAnyPath (rq_path (presented_request ts nonce)) [''/api/v1/agent/upload'']"
    by (simp add: presented_request_def stripAuthentikHeaders_def signed_request_def unsigned_request_def matchesAnyPath_def
        has_suffix_def)
  then show "requires_signature (signing_config lookup) (presented_request ts nonce)"
    by (simp add: requires_signature_def signing_config_def skip_paths_def)
qed (simp_all add: presented_request_def stripAuthentikHeaders_def signed_request_def unsigned_request_def replay_window_def
    max_body_def signing_config_def)

text \<open>The request is pending after its arrival inside its window, and its body passes.\<close>

definition presented_flight :: "string \<Rightarrow> int \<Rightarrow> string \<Rightarrow> string \<Rightarrow> int \<Rightarrow> flight" where
  "presented_flight agent now ts nonce stamped = \<lparr>fl_now = now, fl_principal = machine agent,
     fl_request = presented_request ts nonce, fl_key = Some ''k'', fl_stamp = stamped\<rparr>"

lemma presented_begin:
  assumes "parse_int64 ts = Some x" "ts \<noteq> []" "nonce \<noteq> []" "\<bar>now - x\<bar> \<le> 10"
    and "lookup ''k'' s = (Inr \<lparr>lr_agent = a, lr_signing = Some ''k''\<rparr>, s')" "a \<noteq> []"
  shows "AgentBegin (signing_config lookup) now (signed_request ''k'' ts nonce) s = (BodyPending (presented_flight a now ts nonce x), s')"
proof -
  have "check_stamp (signing_config lookup) now (presented_request ts nonce) = Inr x"
    unfolding check_stamp_def presented_headers(1-3) presented_config using assms presented_headers(5) by (simp add: abs_le_iff)
  then show ?thesis
    unfolding AgentBegin_def presented_config Let_def presented_request_def [symmetric] option.case presented_headers(1)
    by (simp add: assms presented_config presented_flight_def)
qed

lemma presented_finish:
  "AgentFinish sample_digest (signing_config lookup) (presented_flight a now ts nonce x) c =
    (let (accepted, c') = CheckAndRecord nonce (x + 10) now c
     in (if accepted then Inr (machine a, presented_request ts nonce) else Inl ReplayedNonce, c'))"
proof -
  have "check_body sample_digest (signing_config lookup) (Some ''k'') (presented_request ts nonce) = Inr ()"
    unfolding check_body_def presented_config using presented_headers(4) by simp
  then show ?thesis
    by (simp add: AgentFinish_def presented_flight_def presented_headers presented_config Let_def split: prod.splits)
qed

text \<open>
  A request stamped 1000 is admitted at 1000, in a window of ten nanoseconds. It is captured and sent
  again at 1009, with a body that does not end. A second later another request is admitted, whose
  sweep drops the nonce; then the body of the replay ends.
\<close>

abbreviation (input) one_device :: "unit agent_config" where
  "one_device \<equiv> signing_config sample_lookup"

definition first_flight :: flight where "first_flight = presented_flight ''dev-1'' 1000 ''1000'' ''n1'' 1000"

definition replay_flight :: flight where "replay_flight = presented_flight ''dev-1'' 1009 ''1000'' ''n1'' 1000"

definition later_flight :: flight where
  "later_flight = presented_flight ''dev-1'' 1000001000 ''1000001000'' ''n2'' 1000001000"

definition replayed_server :: "unit agent_server" where
  "replayed_server = \<lparr>av_cache = \<lparr>rc_entries = [(''n2'', 1000001010), (''n1'', 1010)], rc_last = Some 1000001000\<rparr>,
     av_tables = (), av_clock = 1000001001, av_pending = [],
     av_log = [admission_of 1000 first_flight, admission_of 1000001000 later_flight, admission_of 1000001001 replay_flight]\<rparr>"

lemma stamps: "parse_int64 ''1000'' = Some 1000" "parse_int64 ''1000001000'' = Some 1000001000"
  by code_simp+

lemma replayed_run: "agent_run sample_digest one_device replayed_server"
proof -
  let ?s0 = "\<lparr>av_cache = NewReplayCache, av_tables = (), av_clock = 0, av_pending = [], av_log = []\<rparr> :: unit agent_server"
  let ?c1 = "\<lparr>rc_entries = [(''n1'', 1010)], rc_last = Some 1000\<rparr>"
  let ?c2 = "\<lparr>rc_entries = [(''n2'', 1000001010)], rc_last = Some 1000001000\<rparr>"
  let ?c3 = "\<lparr>rc_entries = [(''n2'', 1000001010), (''n1'', 1010)], rc_last = Some 1000001000\<rparr>"
  have begins: "AgentBegin one_device 1000 (signed_request ''k'' ''1000'' ''n1'') () = (BodyPending first_flight, ())"
    "AgentBegin one_device 1009 (signed_request ''k'' ''1000'' ''n1'') () = (BodyPending replay_flight, ())"
    "AgentBegin one_device 1000001000 (signed_request ''k'' ''1000001000'' ''n2'') () = (BodyPending later_flight, ())"
    unfolding first_flight_def replay_flight_def later_flight_def
    by (rule presented_begin; simp add: stamps sample_lookup_def)+
  have ends: "AgentFinish sample_digest one_device first_flight NewReplayCache = (Inr (machine ''dev-1'', presented_request ''1000'' ''n1''), ?c1)"
    "AgentFinish sample_digest one_device later_flight ?c1 = (Inr (machine ''dev-1'', presented_request ''1000001000'' ''n2''), ?c2)"
    "AgentFinish sample_digest one_device replay_flight ?c2 = (Inr (machine ''dev-1'', presented_request ''1000'' ''n1''), ?c3)"
    unfolding first_flight_def replay_flight_def later_flight_def presented_finish
    by (simp_all add: CheckAndRecord_def sweep_entries_def NewReplayCache_def replaySweepInterval_def Let_def)
  have ne: "later_flight \<noteq> replay_flight" by (simp add: later_flight_def replay_flight_def presented_flight_def)
  let ?s1 = "arrive one_device 1000 (signed_request ''k'' ''1000'' ''n1'') ?s0"
  let ?s2 = "body_read sample_digest one_device 1000 first_flight ?s1"
  let ?s3 = "arrive one_device 1009 (signed_request ''k'' ''1000'' ''n1'') ?s2"
  let ?s4 = "arrive one_device 1000001000 (signed_request ''k'' ''1000001000'' ''n2'') ?s3"
  let ?s5 = "body_read sample_digest one_device 1000001000 later_flight ?s4"
  let ?s6 = "body_read sample_digest one_device 1000001001 replay_flight ?s5"
  have s1: "?s1 = ?s0\<lparr>av_clock := 1000, av_pending := [first_flight]\<rparr>" by (simp add: arrive_def begins)
  have s2: "?s2 = ?s0\<lparr>av_clock := 1000, av_cache := ?c1, av_log := [admission_of 1000 first_flight]\<rparr>"
    unfolding s1 by (simp add: body_read_def ends)
  have s3: "?s3 = ?s2\<lparr>av_clock := 1009, av_pending := [replay_flight]\<rparr>" unfolding s2 by (simp add: arrive_def begins)
  have s4: "?s4 = ?s2\<lparr>av_clock := 1000001000, av_pending := [later_flight, replay_flight]\<rparr>"
    unfolding s3 unfolding s2 by (simp add: arrive_def begins)
  have s5: "?s5 = ?s2\<lparr>av_clock := 1000001000, av_pending := [replay_flight], av_cache := ?c2,
      av_log := [admission_of 1000 first_flight, admission_of 1000001000 later_flight]\<rparr>"
    unfolding s4 unfolding s2 by (simp add: body_read_def ends)
  have s6: "?s6 = replayed_server" unfolding s5 unfolding s2 by (simp add: body_read_def ends replayed_server_def)
  have "agent_run sample_digest one_device ?s1" by (rule agent_run.arrival [OF agent_run.start]) simp
  then have "agent_run sample_digest one_device ?s2" by (rule agent_run.body) (simp_all add: s1)
  then have "agent_run sample_digest one_device ?s3" by (rule agent_run.arrival) (simp add: s2)
  then have "agent_run sample_digest one_device ?s4" by (rule agent_run.arrival) (simp add: s3)
  then have "agent_run sample_digest one_device ?s5" by (rule agent_run.body) (simp_all add: s4)
  then have "agent_run sample_digest one_device ?s6" by (rule agent_run.body) (simp_all add: s5)
  then show ?thesis unfolding s6 .
qed

text \<open>C7. A captured request can be replayed inside its window. The replay cache is asked with the time the
  request arrived, but only once its body is read; by then the sweep of a later request, whose own time
  lies past the window, may have dropped the nonce. Here one signed request is admitted twice: the
  replay arrives inside the window, unchanged, with a slow body.\<close>

theorem slow_replay_admitted:
  "\<exists>A. agent_run sample_digest one_device A \<and>
     map adm_request (av_log A) = [presented_request ''1000'' ''n1'', presented_request ''1000001000'' ''n2'', presented_request ''1000'' ''n1''] \<and>
     map adm_arrived (av_log A) = [1000, 1000001000, 1009] \<and> map adm_stamp (av_log A) = [1000, 1000001000, 1000] \<and>
     replay_window one_device = 10"
  by (intro exI [of _ replayed_server] conjI replayed_run)
    (simp_all add: replayed_server_def admission_of_def first_flight_def later_flight_def replay_flight_def presented_flight_def
      presented_config)

theorem nonce_admitted_once_witness:
  "adm_request (av_log replayed_server ! 2) = adm_request (av_log replayed_server ! 0) \<and>
   adm_stamp (av_log replayed_server ! 0) + replay_window one_device \<le> adm_ended (av_log replayed_server ! 2)"
proof -
  have same: "adm_request (av_log replayed_server ! 2) = adm_request (av_log replayed_server ! 0)"
    by (simp add: replayed_server_def admission_of_def first_flight_def replay_flight_def presented_flight_def)
  have "2 < length (av_log replayed_server)" by (simp add: replayed_server_def)
  from nonce_admitted_once [OF replayed_run _ this] same show ?thesis by simp
qed

text \<open>The request against the tables of a paired device.\<close>

definition digest_service :: pairing_service where
  "digest_service = \<lparr>sv_hmac = sample_digest, sv_gcm = \<lparr>gcm_seal = \<lambda>k n p. p, gcm_open = \<lambda>k n c. Some c\<rparr>,
     sv_pepper = ''pepper'', sv_box = None, sv_encode = \<lambda>p. Inr p\<rparr>"

definition device_db :: pairing_db where
  "device_db = \<lparr>pd_pairings = [\<lparr>dp_id = 1, dp_agent = ''dev-1'', dp_label = ''cam'', dp_created = 1, dp_by = ''user:a'',
       dp_revoked = None, dp_qr = None, dp_user = None, dp_url = None\<rparr>],
     pd_keys = [\<lparr>pk_id = 1, pk_pairing = 1, pk_hash = hashKey digest_service ''k'', pk_preview = ''k'', pk_created = 1,
       pk_expires = None, pk_revoked = None, pk_sealed = None, pk_awaiting = False, pk_adopted = None\<rparr>],
     pd_audit = [], pd_actors = [], pd_users = []\<rparr>"

lemma device_lookup:
  "KeyLookup digest_service t now ''k'' device_db = (Inr \<lparr>lr_agent = ''dev-1'', lr_signing = Some ''k''\<rparr>, device_db)"
  by (simp add: KeyLookup_def GetDevicePairingKeyByHash_def GetDevicePairingByID_def device_db_def active_key_def
      not_expired_def SigningKeyForAPIKey_def)

theorem admitted_requests_are_authentic_witness:
  "\<exists>(p :: principal) (r :: request). r = presented_request ''1000'' ''n1'' \<and> pn_kind p = KindMachine \<and> pn_name p = ''dev-1'' \<and>
    active_device digest_service 5 device_db (header ''X-API-Key'' r) (pn_name p)"
proof -
  let ?lookup = "\<lambda>presented d. KeyLookup digest_service 5 5 presented d"
  have "AgentBegin (signing_config ?lookup) 1000 (signed_request ''k'' ''1000'' ''n1'') device_db =
      (BodyPending (presented_flight ''dev-1'' 1000 ''1000'' ''n1'' 1000), device_db)"
    by (rule presented_begin) (simp_all add: stamps device_lookup)
  then obtain c' where adm: "AgentChain sample_digest (signing_config ?lookup) 1000 (signed_request ''k'' ''1000'' ''n1'')
      (NewReplayCache, device_db) = (Inr (machine ''dev-1'', presented_request ''1000'' ''n1''), c', device_db)"
    by (auto simp: AgentChain_def presented_finish CheckAndRecord_def sweep_entries_def NewReplayCache_def Let_def)
  from admitted_requests_are_authentic [OF presented_config(5) adm]
  have "active_device digest_service 5 device_db (header ''X-API-Key'' (presented_request ''1000'' ''n1'')) (pn_name (machine ''dev-1''))"
    by blast
  then show ?thesis
    by (intro exI [of _ "machine ''dev-1''"] exI [of _ "presented_request ''1000'' ''n1''"] conjI refl) (simp_all add: machine_def)
qed

end
