(* ===== verification/PairingDelivery.thy ===== *)
theory PairingDelivery
  imports PairingProps
begin

text \<open>
  The rotation handshake from end to end: rotation, delivery of the sealed key to the device, adoption;
  when a revocation succeeds; and what two concurrent rotations leave behind.
\<close>

section \<open>Reading the tables\<close>

lemma GetDevicePairingKeyByHash_ok:
  assumes "pairing_db_ok d" "k \<in> set (pd_keys d)" "pk_hash k = h" "active_key t k"
    "p \<in> set (pd_pairings d)" "dp_id p = pk_pairing k" "dp_revoked p = None"
  shows "GetDevicePairingKeyByHash t h d = Some k"
  unfolding GetDevicePairingKeyByHash_def
proof (rule find_unique)
  show "k \<in> set (pd_keys d)" by fact
  show "pk_hash k = h \<and> active_key t k \<and> (\<exists>p \<in> set (pd_pairings d). dp_id p = pk_pairing k \<and> dp_revoked p = None)"
    using assms(3-7) by blast
next
  fix j assume "j \<in> set (pd_keys d)"
    "pk_hash j = h \<and> active_key t j \<and> (\<exists>p \<in> set (pd_pairings d). dp_id p = pk_pairing j \<and> dp_revoked p = None)"
  then show "j = k" using key_same_hash [OF assms(1) _ assms(2)] assms(3) by simp
qed

lemma newest_first_unique:
  assumes "m \<in> set ks" "\<And>k. k \<in> set ks \<Longrightarrow> k \<noteq> m \<Longrightarrow> (pk_created k, pk_id k) < (pk_created m, pk_id m)"
  shows "find (\<lambda>_. True) (newest_first ks) = Some m"
proof -
  let ?f = "\<lambda>k. (pk_created k, pk_id k)" and ?s = "sort_key (\<lambda>k. (pk_created k, pk_id k)) ks"
  have ne: "?s \<noteq> []" using assms(1) by (metis empty_iff list.set(1) set_sort)
  then obtain ys y where s: "?s = ys @ [y]" by (metis rev_exhaust)
  have "sorted (map ?f ?s)" by simp
  then have "\<forall>x \<in> set ?s. ?f x \<le> ?f y" unfolding s by (auto simp: sorted_append)
  then have "?f m \<le> ?f y" using assms(1) by simp
  moreover have "y \<in> set ks" using s by (metis in_set_conv_decomp set_sort)
  ultimately have "y = m" using assms(2) [of y] by fastforce
  then show ?thesis unfolding newest_first_def s by simp
qed

section \<open>The effect of a rotation\<close>

lemma store_credentials_effect:
  assumes "store_credentials sv dr i payload d = (Inr svg, d')" "pairing_db_ok d"
  shows "pd_keys d' = pd_keys d \<and> pairing_db_ok d' \<and>
    (\<exists>qr url. sealCredential sv (dr_nonce1 dr) (dr_nonce2 dr) svg payload = Inr (qr, url) \<and>
      RenderSVG sv payload = Inr svg \<and>
      pd_pairings d' = map (\<lambda>p. if dp_id p = i then p\<lparr>dp_qr := Some qr, dp_url := url\<rparr> else p) (pd_pairings d))"
  using assms
  by (auto simp: store_credentials_def credentials_for_def in_tx_def result_simps UpdateDevicePairingCredentials_def
      split: sum.splits prod.splits)

text \<open>The copy of the new key that waits for delivery: sealed, or none without a box.\<close>

definition delivery_copy :: "pairing_service \<Rightarrow> string \<Rightarrow> string \<Rightarrow> string option \<Rightarrow> bool" where
  "delivery_copy sv nonce plaintext sealed =
     (case sealed of None \<Rightarrow> sv_box sv = None | Some s \<Rightarrow> Seal (sv_gcm sv) (sv_box sv) nonce plaintext = Inr s)"

lemma rotate_key_effect:
  assumes "rotate_key sv dr now i actor g d = (Inr (p, row), d')"
  shows "\<exists>sealed. delivery_copy sv (dr_nonce3 dr) (mintAPIKey (dr_key dr)) sealed \<and>
    rotate_tx i (mintAPIKey (dr_key dr)) (hashKey sv (mintAPIKey (dr_key dr))) sealed actor (grace_minutes g) now d
      = Inr ((p, row), d')"
proof (cases "sv_box sv")
  case None
  then have "delivery_copy sv (dr_nonce3 dr) (mintAPIKey (dr_key dr)) None" by (simp add: delivery_copy_def)
  then show ?thesis using assms None
    by (intro exI [of _ None]) (auto simp: rotate_key_def Let_def in_tx_def split: sum.splits)
next
  case (Some key)
  then obtain s where s: "Seal (sv_gcm sv) (sv_box sv) (dr_nonce3 dr) (mintAPIKey (dr_key dr)) = Inr s"
    by (simp add: Seal_def)
  then have "delivery_copy sv (dr_nonce3 dr) (mintAPIKey (dr_key dr)) (Some s)" by (simp add: delivery_copy_def)
  then show ?thesis using assms Some s
    by (intro exI [of _ "Some s"]) (auto simp: rotate_key_def Let_def in_tx_def split: sum.splits)
qed

lemma RotateKey_effect:
  assumes "RotateKey sv dr now i actor g pf d = (Inr (mk, expires), d')" "pairing_db_ok d"
  obtains p d1 where "rotate_key sv dr now i actor g d = (Inr (p, mk_row mk), d1)"
    "store_credentials sv dr i (pf (dp_agent p) (mintAPIKey (dr_key dr))) d1 = (Inr (mk_svg mk), d')"
    "mk_plain mk = mintAPIKey (dr_key dr)" "expires = now + grace_minutes g * 60" "pairing_db_ok d1"
proof -
  from assms(1) obtain p row d1 where rk: "rotate_key sv dr now i actor g d = (Inr (p, row), d1)"
    and rest: "store_credentials sv dr i (pf (dp_agent p) (mintAPIKey (dr_key dr))) d1 = (Inr (mk_svg mk), d')"
      "mk_row mk = row" "mk_plain mk = mintAPIKey (dr_key dr)" "expires = now + grace_minutes g * 60"
    by (auto simp: RotateKey_def Let_def split: prod.splits sum.splits)
  have "pairing_db_ok d1" using rotate_key_effect [OF rk] rotate_tx_Inr by blast
  then show ?thesis using that rk rest by blast
qed

text \<open>The keys and the pairing after a rotation.\<close>

lemma RotateKey_keys:
  assumes "RotateKey sv dr now i actor g pf d = (Inr (mk, expires), d')" "pairing_db_ok d"
  obtains p q sealed where
    "pairing_db_ok d'" "expires = now + grace_minutes g * 60" "mk_plain mk = mintAPIKey (dr_key dr)"
    "GetDevicePairingByID i d = Some p" "dp_revoked p = None" "delivery_copy sv (dr_nonce3 dr) (mk_plain mk) sealed"
    "pd_keys d' = map (superseded i expires) (pd_keys d)
        @ [rotated_key (next_key_id d) i (hashKey sv (mk_plain mk)) (last_four (mk_plain mk)) now sealed]"
    "q \<in> set (pd_pairings d')" "dp_id q = i" "dp_agent q = dp_agent p" "dp_revoked q = None"
proof -
  obtain p d1 where rk: "rotate_key sv dr now i actor g d = (Inr (p, mk_row mk), d1)"
    and st: "store_credentials sv dr i (pf (dp_agent p) (mintAPIKey (dr_key dr))) d1 = (Inr (mk_svg mk), d')"
    and mk: "mk_plain mk = mintAPIKey (dr_key dr)" "expires = now + grace_minutes g * 60" and ok: "pairing_db_ok d1"
    by (rule RotateKey_effect [OF assms])
  from rotate_key_effect [OF rk] obtain sealed where seal: "delivery_copy sv (dr_nonce3 dr) (mk_plain mk) sealed"
    and tx: "rotate_tx i (mk_plain mk) (hashKey sv (mk_plain mk)) sealed actor (grace_minutes g) now d = Inr ((p, mk_row mk), d1)"
    unfolding mk by blast
  note o = rotate_tx_Inr [OF tx] and c = store_credentials_effect [OF st ok]
  have p: "p \<in> set (pd_pairings d1)" "dp_id p = i" "dp_revoked p = None"
    using o GetDevicePairingByID_Some [of i d p] by simp_all
  from c obtain qr url where ps:
    "pd_pairings d' = map (\<lambda>p. if dp_id p = i then p\<lparr>dp_qr := Some qr, dp_url := url\<rparr> else p) (pd_pairings d1)" by blast
  show ?thesis
  proof (rule that)
    show "p\<lparr>dp_qr := Some qr, dp_url := url\<rparr> \<in> set (pd_pairings d')"
      unfolding ps set_map using p(1,2) by (intro image_eqI [of _ _ p]) simp_all
  qed (use o c mk seal p in simp_all)
qed

section \<open>Delivery\<close>

text \<open>What HMAC-SHA256 is relied on for: 32-byte digests.\<close>

definition hmac_sized :: "pairing_service \<Rightarrow> bool" where
  "hmac_sized sv \<longleftrightarrow> (\<forall>k m. length (sv_hmac sv k m) = 32)"

lemma b64_encode_empty: "b64_encode al s = [] \<longleftrightarrow> s = []"
  by (induction al s rule: b64_encode.induct) (simp_all add: Let_def)

lemma rotationBox_ok:
  assumes "hmac_sized sv"
  shows "rotationBox sv key = Inr (Some (sv_hmac sv key RotationSealInfo))"
proof -
  have "sv_hmac sv key RotationSealInfo \<noteq> []" using assms unfolding hmac_sized_def
    by (metis list.size(3) zero_neq_numeral)
  then show ?thesis
    using assms by (simp add: rotationBox_def NewBox_def b64_encode_empty b64_decode_encode b64_std_alphabet hmac_sized_def)
qed

lemma SealForDevice_opens:
  assumes "hmac_sized sv" "gcm_correct (sv_gcm sv)" "length nonce = 12"
  shows "\<exists>s. SealForDevice sv nonce current new = Inr s \<and> OpenRotatedKey sv current s = Inr new"
proof -
  let ?b = "Some (sv_hmac sv current RotationSealInfo)"
  obtain s where s: "Seal (sv_gcm sv) ?b nonce new = Inr s" by (simp add: Seal_def)
  have "Open (sv_gcm sv) ?b s = Inr new"
    using open_seal [OF assms(2) rotationBox_ok [OF assms(1), unfolded rotationBox_def] assms(3) s] .
  then show ?thesis using s by (simp add: SealForDevice_def OpenRotatedKey_def rotationBox_ok [OF assms(1)])
qed

lemma lookup_awaiting_key:
  assumes ok: "pairing_db_ok d" and k: "k \<in> set (pd_keys d)" "pk_hash k = hashKey sv presented" "active_key t k" "pk_awaiting k"
    and q: "q \<in> set (pd_pairings d)" "dp_id q = pk_pairing k" "dp_revoked q = None"
  obtains d' where "KeyLookup sv t now presented d = (Inr \<lparr>lr_agent = dp_agent q, lr_signing = Some presented\<rparr>, d')"
    "pd_keys d' = map (adopted k now) (pd_keys d)" "pairing_db_ok d'"
proof -
  have hit: "GetDevicePairingKeyByHash t (hashKey sv presented) d = Some k"
    by (rule GetDevicePairingKeyByHash_ok [OF ok k(1,2,3) q])
  have row: "GetDevicePairingByID (pk_pairing k) d = Some q" using GetDevicePairingByID_ok [OF ok q(1)] q(2) by simp
  let ?d = "snd (adoptKey now k (dp_agent q) d)"
  note total = adoptKey_total [OF ok k(1) k(4), of now "dp_agent q"]
  have "pairing_db_ok ?d"
    using adoptKey_outcome [of now k "dp_agent q" d "fst (adoptKey now k (dp_agent q) d)" ?d] ok by auto
  then show ?thesis using that [of ?d] hit row total k(4) by (simp add: KeyLookup_def SigningKeyForAPIKey_def)
qed

text \<open>A key that no longer authenticates at \<open>t\<close>.\<close>

lemma lookup_stopped_key:
  assumes "pairing_db_ok d" "k \<in> set (pd_keys d)" "pk_hash k = hashKey sv presented" "\<not> active_key t k"
  shows "KeyLookup sv t now presented d = (Inr no_key, d)"
proof -
  have "GetDevicePairingKeyByHash t (hashKey sv presented) d = None"
  proof (rule ccontr)
    assume "GetDevicePairingKeyByHash t (hashKey sv presented) d \<noteq> None"
    then obtain j where "j \<in> set (pd_keys d)" "pk_hash j = hashKey sv presented" "active_key t j"
      unfolding GetDevicePairingKeyByHash_def by (auto dest!: find_SomeD)
    then show False using key_same_hash [OF assms(1), of j k] assms(2-4) by simp
  qed
  then show ?thesis by (simp add: KeyLookup_def)
qed

lemma newest_after_rotation:
  assumes ok: "pairing_db_ok d'"
    and keys: "pd_keys d' = map (superseded i expires) (pd_keys d) @ [rotated_key (next_key_id d) i h v now sealed]"
    and k: "k \<in> set (pd_keys d)" "pk_pairing k = i"
    and clock: "\<forall>j \<in> set (pd_keys d). pk_pairing j = i \<longrightarrow> pk_created j \<le> now"
  shows "NewestActiveKeyForPairing t i (pk_id k) d' = Some (rotated_key (next_key_id d) i h v now sealed)"
proof -
  let ?k = "superseded i expires k" and ?new = "rotated_key (next_key_id d) i h v now sealed"
  have kin: "?k \<in> set (pd_keys d')" and new: "?new \<in> set (pd_keys d')" using keys k(1) by auto
  have byid: "GetDevicePairingKeyByID (pk_id k) d' = Some ?k"
    unfolding GetDevicePairingKeyByID_def by (rule find_unique [OF kin]) (auto intro: key_same_id [OF ok _ kin])
  let ?cand = "filter (\<lambda>j. pk_pairing j = i \<and> active_key t j \<and> pk_id j \<noteq> pk_id k \<and>
      (pk_created ?k < pk_created j \<or> pk_created j = pk_created ?k \<and> pk_id k < pk_id j)) (pd_keys d')"
  have "find (\<lambda>_. True) (newest_first ?cand) = Some ?new"
  proof (rule newest_first_unique)
    have "active_key t ?new" by (simp add: active_key_def not_expired_def)
    then show "?new \<in> set ?cand" using new next_key_id_fresh [OF k(1)] clock k by (auto simp: less_le)
  next
    fix j assume "j \<in> set ?cand" "j \<noteq> ?new"
    then have "j \<in> set (pd_keys d')" "pk_pairing j = i" "j \<noteq> ?new" by simp_all
    then obtain j0 where j0: "j0 \<in> set (pd_keys d)" "j = superseded i expires j0"
      unfolding keys by auto
    then have "pk_pairing j0 = i" using \<open>pk_pairing j = i\<close> by simp
    with j0 show "(pk_created j, pk_id j) < (pk_created ?new, pk_id ?new)"
      using clock next_key_id_fresh [of j0 d] by (auto simp: less_prod_def' less_le)
  qed
  then show ?thesis by (simp add: NewestActiveKeyForPairing_def byid)
qed

text \<open>C30. A rotated key reaches its device: until the old key expires, the handshake made with it yields
  the new key in a form that only its holder can open; the first request with the new key succeeds, and
  from then on the old key does not. The clock must not have gone back behind the keys of the pairing.\<close>

theorem rotation_delivered:
  assumes run: "pairing_run sv no_pairings minted d"
    and crypto: "gcm_correct (sv_gcm sv)" "hmac_sized sv" "NewBox secret = Inr (sv_box sv)" "sv_box sv \<noteq> None"
    and nonces: "length (dr_nonce3 dr) = 12" "length nonce = 12"
    and rot: "RotateKey sv dr now i actor g pf d = (Inr (mk, expires), d')"
    and old: "k \<in> set (pd_keys d)" "pk_pairing k = i" "pk_hash k = hashKey sv old" "active_key t (superseded i expires k)"
    and clock: "\<forall>j \<in> set (pd_keys d). pk_pairing j = i \<longrightarrow> pk_created j \<le> now" "now1 \<le> t2"
    and agent: "GetDevicePairingByID i d = Some p"
  shows "\<exists>out d2. PendingRotationFor sv t nonce (dp_agent p) old d' = Inr (Some out) \<and>
    OpenRotatedKey sv old (pr_sealed out) = Inr (mk_plain mk) \<and>
    KeyLookup sv t1 now1 (mk_plain mk) d' = (Inr \<lparr>lr_agent = dp_agent p, lr_signing = Some (mk_plain mk)\<rparr>, d2) \<and>
    KeyLookup sv t2 now2 old d2 = (Inr no_key, d2)"
proof -
  have inv: "pairing_inv sv d" using pairing_run_inv [OF run pairing_inv_start] .
  obtain p' q sealed where ok: "pairing_db_ok d'" and p': "GetDevicePairingByID i d = Some p'"
    and copy: "delivery_copy sv (dr_nonce3 dr) (mk_plain mk) sealed"
    and keys: "pd_keys d' = map (superseded i expires) (pd_keys d)
        @ [rotated_key (next_key_id d) i (hashKey sv (mk_plain mk)) (last_four (mk_plain mk)) now sealed]"
    and q: "q \<in> set (pd_pairings d')" "dp_id q = i" "dp_agent q = dp_agent p'" "dp_revoked q = None"
    by (rule RotateKey_keys [OF rot pairing_invD(1) [OF inv]])
  let ?new = "rotated_key (next_key_id d) i (hashKey sv (mk_plain mk)) (last_four (mk_plain mk)) now sealed"
  let ?k = "superseded i expires k"
  obtain s where s: "sealed = Some s" "Seal (sv_gcm sv) (sv_box sv) (dr_nonce3 dr) (mk_plain mk) = Inr s"
    using copy crypto(4) by (auto simp: delivery_copy_def split: option.splits)
  have open_copy: "Open (sv_gcm sv) (sv_box sv) s = Inr (mk_plain mk)"
    by (rule open_seal [OF crypto(1,3) nonces(1) s(2)])
  have agent': "dp_agent q = dp_agent p" using q(3) p' agent by simp
  have kin: "?k \<in> set (pd_keys d')" and new: "?new \<in> set (pd_keys d')" using keys old(1) by auto
  have kid: "pk_id k < next_key_id d" by (rule next_key_id_fresh [OF old(1)])
  have act: "active_key x ?new" for x by (simp add: active_key_def not_expired_def)
  \<comment> \<open>the handshake\<close>
  have hit: "GetDevicePairingKeyByHash t (hashKey sv old) d' = Some ?k"
    by (rule GetDevicePairingKeyByHash_ok [OF ok kin _ old(4) q(1) _ q(4)]) (use old q in simp_all)
  have row: "GetDevicePairingByID i d' = Some q" using GetDevicePairingByID_ok [OF ok q(1)] q(2) by simp
  have newest: "NewestActiveKeyForPairing t i (pk_id k) d' = Some ?new"
    by (rule newest_after_rotation [OF ok keys old(1,2) clock(1)])
  obtain s2 where s2: "SealForDevice sv nonce old (mk_plain mk) = Inr s2" "OpenRotatedKey sv old s2 = Inr (mk_plain mk)"
    using SealForDevice_opens [OF crypto(2,1) nonces(2)] by blast
  obtain out where out: "PendingRotationFor sv t nonce (dp_agent p) old d' = Inr (Some out)" "pr_sealed out = s2"
    using hit row newest s s2 open_copy agent' old(2) crypto(4)
    by (auto simp: PendingRotationFor_def Let_def)
  \<comment> \<open>the first request with the new key\<close>
  obtain d2 where d2: "KeyLookup sv t1 now1 (mk_plain mk) d' = (Inr \<lparr>lr_agent = dp_agent q, lr_signing = Some (mk_plain mk)\<rparr>, d2)"
    "pd_keys d2 = map (adopted ?new now1) (pd_keys d')" "pairing_db_ok d2"
    by (rule lookup_awaiting_key [OF ok new _ act _ q(1) _ q(4), of sv "mk_plain mk" t1 now1]) (use q in simp_all)
  \<comment> \<open>the old key afterwards\<close>
  have "\<not> active_key t2 (adopted ?new now1 ?k)"
    using old(2) kid clock(2) by (auto simp: adopted_def active_key_def not_expired_def split: option.splits)
  then have "KeyLookup sv t2 now2 old d2 = (Inr no_key, d2)"
    by (rule lookup_stopped_key [OF d2(3), rotated 2]) (use d2(2) kin old(3) in auto)
  then show ?thesis using out s2 d2(1) agent' by metis
qed

section \<open>When a revocation succeeds\<close>

lemma pairing_db_ok_pairings:
  assumes "pairing_db_ok d" "\<And>p. p \<in> set (pd_pairings d) \<Longrightarrow> dp_id (f p) = dp_id p \<and> dp_agent (f p) = dp_agent p
    \<and> dp_user (f p) = dp_user p \<and> pairing_check (f p)"
  shows "pairing_db_ok (d\<lparr>pd_pairings := map f (pd_pairings d)\<rparr>)"
proof -
  have "map dp_id (map f (pd_pairings d)) = map dp_id (pd_pairings d)"
    "map dp_agent (map f (pd_pairings d)) = map dp_agent (pd_pairings d)"
    "dp_id ` set (map f (pd_pairings d)) = dp_id ` set (pd_pairings d)"
    using assms(2) by (auto simp: image_image intro!: image_cong)
  moreover have "\<forall>p \<in> set (map f (pd_pairings d)). pairing_check p \<and> (\<forall>u. dp_user p = Some u \<longrightarrow> u \<in> set (pd_users d))"
    using assms unfolding pairing_db_ok_iff by auto
  ultimately show ?thesis using assms(1) unfolding pairing_db_ok_iff by (simp del: map_map set_map)
qed

lemma updated_in:
  "p \<in> set ps \<Longrightarrow> P p \<Longrightarrow> f p \<in> set (map (\<lambda>p. if P p then f p else p) ps)"
  by (auto intro: rev_image_eqI)

text \<open>Revoking an existing pairing succeeds, except while the clock is behind the creation of the
  pairing: the table's CHECK then refuses the revocation and nothing is revoked.\<close>

theorem revoke_succeeds_iff:
  assumes "pairing_db_ok d"
  shows "fst (RevokePairing now i actor d) = Inr () \<longleftrightarrow>
    (\<exists>p. GetDevicePairingByID i d = Some p \<and> (dp_revoked p \<noteq> None \<or> dp_created p \<le> now))"
proof
  assume "fst (RevokePairing now i actor d) = Inr ()"
  then have rev: "RevokePairing now i actor d = (Inr (), snd (RevokePairing now i actor d))" by (metis prod.collapse)
  note o = RevokePairing_outcome [OF rev]
  then obtain p where p: "GetDevicePairingByID i d = Some p" by auto
  have "dp_revoked p \<noteq> None \<or> dp_created p \<le> now"
  proof (rule ccontr)
    assume neg: "\<not> (dp_revoked p \<noteq> None \<or> dp_created p \<le> now)"
    then have "p\<lparr>dp_revoked := Some now\<rparr> \<in> set (pd_pairings (snd (RevokePairing now i actor d)))"
      using o GetDevicePairingByID_Some [OF p]
        updated_in [of p "pd_pairings d" "\<lambda>p. dp_id p = i \<and> dp_revoked p = None" "\<lambda>p. p\<lparr>dp_revoked := Some now\<rparr>"] by simp
    then have "pairing_check (p\<lparr>dp_revoked := Some now\<rparr>)" using o by (simp add: pairing_db_ok_iff)
    then show False using neg by (simp add: pairing_check_def opt_le_def)
  qed
  with p show "\<exists>p. GetDevicePairingByID i d = Some p \<and> (dp_revoked p \<noteq> None \<or> dp_created p \<le> now)" by blast
next
  assume "\<exists>p. GetDevicePairingByID i d = Some p \<and> (dp_revoked p \<noteq> None \<or> dp_created p \<le> now)"
  then obtain p where p: "GetDevicePairingByID i d = Some p" "dp_revoked p \<noteq> None \<or> dp_created p \<le> now" by blast
  note pin = GetDevicePairingByID_Some [OF p(1)]
  let ?g = "\<lambda>k. if pk_pairing k = i \<and> active_key now k
    then k\<lparr>pk_revoked := Some now, pk_sealed := None, pk_awaiting := False\<rparr> else k"
  have ok1: "pairing_db_ok (d\<lparr>pd_keys := map ?g (pd_keys d)\<rparr>)"
  proof (rule pairing_db_ok_keys [OF assms])
    fix k assume "k \<in> set (pd_keys d)"
    then have "key_check k" using assms by (simp add: pairing_db_ok_iff)
    then show "pk_id (?g k) = pk_id k \<and> pk_hash (?g k) = pk_hash k \<and> pk_pairing (?g k) = pk_pairing k \<and> key_check (?g k)"
      using active_update_check [of k now] by (auto simp: retired_key_def)
  qed
  let ?f = "\<lambda>p. if dp_id p = i \<and> dp_revoked p = None then p\<lparr>dp_revoked := Some now\<rparr> else p"
  let ?d2 = "d\<lparr>pd_keys := map ?g (pd_keys d), pd_pairings := map ?f (pd_pairings d)\<rparr>"
  have "pairing_db_ok ((d\<lparr>pd_keys := map ?g (pd_keys d)\<rparr>)\<lparr>pd_pairings := map ?f (pd_pairings (d\<lparr>pd_keys := map ?g (pd_keys d)\<rparr>))\<rparr>)"
  proof (rule pairing_db_ok_pairings [OF ok1])
    fix q assume q: "q \<in> set (pd_pairings (d\<lparr>pd_keys := map ?g (pd_keys d)\<rparr>))"
    then have "pairing_check q" using assms by (simp add: pairing_db_ok_iff)
    moreover have "dp_id q = i \<Longrightarrow> q = p" using pairing_same_id [OF assms, of q p] q pin by simp
    ultimately show "dp_id (?f q) = dp_id q \<and> dp_agent (?f q) = dp_agent q \<and> dp_user (?f q) = dp_user q \<and> pairing_check (?f q)"
      using p(2) by (auto simp: pairing_check_def opt_le_def)
  qed
  then have ok2: "pairing_db_ok ?d2" by simp
  have "?f p \<in> set (map ?f (pd_pairings d))" unfolding set_map using pin by (intro imageI) simp
  then have "dp_id (?f p) \<in> dp_id ` set (map ?f (pd_pairings d))" by (rule imageI)
  moreover have "dp_id (?f p) = i" "pd_pairings ?d2 = map ?f (pd_pairings d)" using pin by simp_all
  ultimately have "i \<in> dp_id ` set (pd_pairings ?d2)" by (simp only:)
  then have ok3: "pairing_db_ok (?d2\<lparr>pd_audit := pd_audit ?d2 @ [a]\<rparr>)" if "pa_pairing a = i" for a
    using pairing_db_ok_audit [OF ok2] that by blast
  show "fst (RevokePairing now i actor d) = Inr ()"
    using p(1) ok1 ok2 ok3
    by (simp add: RevokePairing_def in_tx_def RevokeAllKeysForPairing_def RevokeDevicePairing_def update_keys_def
        update_pairings_def InsertPairingAudit_def pchecked_ok)
qed

section \<open>Two rotations at once\<close>

lemma sealed_credential_opens:
  assumes "gcm_correct (sv_gcm sv)" "NewBox secret = Inr (sv_box sv)" "sv_box sv \<noteq> None"
    and "length n1 = 12" "length n2 = 12" "sealCredential sv n1 n2 svg url = Inr (qr, stored)"
  shows "openStored sv qr = Inr svg \<and> qr \<noteq> [] \<and> (\<exists>u. stored = Some u \<and> u \<noteq> [] \<and> Open (sv_gcm sv) (sv_box sv) u = Inr url)"
proof -
  obtain u where seal: "Seal (sv_gcm sv) (sv_box sv) n1 svg = Inr qr" "Seal (sv_gcm sv) (sv_box sv) n2 url = Inr u" "stored = Some u"
    using assms(3,6) by (auto simp: sealCredential_def SealBytes_def result_simps split: if_splits)
  have ne: "x \<noteq> []" if "IsSealed x" for x using that by (auto simp: IsSealed_def version1Prefix_def)
  have "IsSealed qr" "IsSealed u" using seal IsSealed_Seal by blast+
  then show ?thesis
    using open_seal [OF assms(1,2,4) seal(1)] open_seal [OF assms(1,2,5) seal(2)] ne seal(3)
    by (simp add: openStored_def OpenBytes_def)
qed

text \<open>When two rotations of a pairing overlap and the first to rotate is the last to store its
  credentials, the credentials shown afterwards are those of the older key, which is already set to
  expire and is no longer delivered.\<close>

theorem overlapping_rotations_show_old_key:
  assumes ok: "pairing_db_ok d"
    and crypto: "gcm_correct (sv_gcm sv)" "NewBox secret = Inr (sv_box sv)" "sv_box sv \<noteq> None"
    and nonces: "length (dr_nonce1 dr1) = 12" "length (dr_nonce2 dr1) = 12"
    and first: "rotate_key sv dr1 now1 i actor1 g1 d = (Inr (p1, row1), d1)"
    and second: "rotate_key sv dr2 now2 i actor2 g2 d1 = (Inr (p2, row2), d2)"
    and stored: "store_credentials sv dr2 i payload2 d2 = (Inr svg2, d3)" "store_credentials sv dr1 i payload1 d3 = (Inr svg1, d4)"
  shows "\<exists>c k. ActiveCredentials sv t i d4 = Inr c \<and> cr_url c = payload1 \<and> cr_svg c = svg1 \<and>
    k \<in> set (pd_keys d4) \<and> pk_hash k = hashKey sv (mintAPIKey (dr_key dr1)) \<and>
    pk_expires k = Some (now2 + grace_minutes g2 * 60) \<and> pk_sealed k = None"
proof -
  obtain s1 where t1: "rotate_tx i (mintAPIKey (dr_key dr1)) (hashKey sv (mintAPIKey (dr_key dr1))) s1 actor1 (grace_minutes g1) now1 d
      = Inr ((p1, row1), d1)" using rotate_key_effect [OF first] by blast
  obtain s2 where t2: "rotate_tx i (mintAPIKey (dr_key dr2)) (hashKey sv (mintAPIKey (dr_key dr2))) s2 actor2 (grace_minutes g2) now2 d1
      = Inr ((p2, row2), d2)" using rotate_key_effect [OF second] by blast
  note o1 = rotate_tx_Inr [OF t1] and o2 = rotate_tx_Inr [OF t2]
  have ok2: "pairing_db_ok d2" using o2 by simp
  note e2 = store_credentials_effect [OF stored(1) ok2]
  then have ok3: "pairing_db_ok d3" by simp
  note e3 = store_credentials_effect [OF stored(2) ok3]
  let ?new1 = "rotated_key (next_key_id d) i (hashKey sv (mintAPIKey (dr_key dr1))) (last_four (mintAPIKey (dr_key dr1))) now1 s1"
  let ?k = "superseded i (now2 + grace_minutes g2 * 60) ?new1"
  have k: "?k \<in> set (pd_keys d4)" using o1 o2 e2 e3 by auto
  have kf: "pk_expires ?k = Some (now2 + grace_minutes g2 * 60)" "pk_sealed ?k = None"
    by (simp_all add: superseded_def)
  have p2: "p2 \<in> set (pd_pairings d2)" "dp_id p2 = i" "dp_revoked p2 = None"
    using o2 GetDevicePairingByID_Some [of i d1 p2] by simp_all
  from e2 obtain qr2 url2 where ps2:
    "pd_pairings d3 = map (\<lambda>p. if dp_id p = i then p\<lparr>dp_qr := Some qr2, dp_url := url2\<rparr> else p) (pd_pairings d2)" by blast
  let ?p3 = "p2\<lparr>dp_qr := Some qr2, dp_url := url2\<rparr>"
  have p3: "?p3 \<in> set (pd_pairings d3)" "dp_id ?p3 = i" "dp_revoked ?p3 = None"
    unfolding ps2 using updated_in [of p2 "pd_pairings d2" "\<lambda>p. dp_id p = i" "\<lambda>p. p\<lparr>dp_qr := Some qr2, dp_url := url2\<rparr>"] p2 by simp_all
  from e3 obtain qr url where seal: "sealCredential sv (dr_nonce1 dr1) (dr_nonce2 dr1) svg1 payload1 = Inr (qr, url)"
    and ps: "pd_pairings d4 = map (\<lambda>p. if dp_id p = i then p\<lparr>dp_qr := Some qr, dp_url := url\<rparr> else p) (pd_pairings d3)" by blast
  let ?q = "?p3\<lparr>dp_qr := Some qr, dp_url := url\<rparr>"
  have q: "?q \<in> set (pd_pairings d4)"
    unfolding ps using updated_in [of ?p3 "pd_pairings d3" "\<lambda>p. dp_id p = i" "\<lambda>p. p\<lparr>dp_qr := Some qr, dp_url := url\<rparr>"] p3 by simp
  have row: "GetDevicePairingByID i d4 = Some ?q" using GetDevicePairingByID_ok [OF _ q] e3 p3(2) by simp
  note opens = sealed_credential_opens [OF crypto nonces seal]
  obtain c where "ActiveCredentials sv t i d4 = Inr c" "cr_url c = payload1" "cr_svg c = svg1"
    using opens row p3(3) by (auto simp: ActiveCredentials_def Let_def)
  moreover have "pk_hash ?k = hashKey sv (mintAPIKey (dr_key dr1))" by simp
  ultimately show ?thesis using k kf by blast
qed

section \<open>A device\<close>

text \<open>A service with a transparent cipher, and a device it has paired.\<close>

definition some_draws :: "char \<Rightarrow> draws" where
  "some_draws c = \<lparr>dr_agent = [c, c, c, c], dr_key = [c, c, c], dr_nonce1 = replicate 12 c,
     dr_nonce2 = replicate 12 c, dr_nonce3 = replicate 12 c\<rparr>"

definition plain_gcm :: aead where
  "plain_gcm = \<lparr>gcm_seal = \<lambda>k n p. p, gcm_open = \<lambda>k n c. Some c\<rparr>"

definition some_service :: pairing_service where
  "some_service = \<lparr>sv_hmac = \<lambda>k m. take 32 (m @ replicate 32 (CHR ''.'')), sv_gcm = plain_gcm, sv_pepper = ''pepper'',
     sv_box = Some (replicate 32 (CHR ''k'')), sv_encode = \<lambda>p. Inr (''<?xml'' @ p)\<rparr>"

definition some_payload :: "string \<Rightarrow> string \<Rightarrow> string" where
  "some_payload a k = ''branchdam://'' @ a @ k"

definition one_paired :: pairing_db where
  "one_paired = snd (CreatePairing some_service (some_draws (CHR ''a'')) 100 ''cam'' ''user:a'' 0 some_payload no_pairings)"

definition key_of :: "char \<Rightarrow> string" where
  "key_of c = mintAPIKey [c, c, c]"

lemma some_crypto: "gcm_correct (sv_gcm some_service)" "hmac_sized some_service"
  by (auto simp: gcm_correct_def hmac_sized_def some_service_def plain_gcm_def)

lemma some_box: "NewBox (b64_encode b64_std (replicate 32 (CHR ''k''))) = Inr (sv_box some_service)" "sv_box some_service \<noteq> None"
  by code_simp+

lemma one_paired_run: "pairing_run some_service no_pairings {key_of (CHR ''a'')} one_paired"
proof -
  obtain r where "CreatePairing some_service (some_draws (CHR ''a'')) 100 ''cam'' ''user:a'' 0 some_payload no_pairings = (r, one_paired)"
    unfolding one_paired_def by (metis prod.collapse)
  from pairing_run.more [OF pairing_run.start pairing_step.create [OF this]]
  show ?thesis by (simp add: key_of_def some_draws_def)
qed

lemma one_paired_keys:
  "hd (pd_keys one_paired) \<in> set (pd_keys one_paired)" "pk_pairing (hd (pd_keys one_paired)) = 1"
  "pk_hash (hd (pd_keys one_paired)) = hashKey some_service (key_of (CHR ''a''))"
proof -
  have "pd_keys one_paired \<noteq> []" by code_simp
  then show "hd (pd_keys one_paired) \<in> set (pd_keys one_paired)" by simp
  show "pk_pairing (hd (pd_keys one_paired)) = 1" by code_simp
  show "pk_hash (hd (pd_keys one_paired)) = hashKey some_service (key_of (CHR ''a''))" by code_simp
qed

lemma some_nonces: "length (dr_nonce1 (some_draws c)) = 12" "length (dr_nonce2 (some_draws c)) = 12"
  "length (dr_nonce3 (some_draws c)) = 12"
  by (simp_all add: some_draws_def)

text \<open>A pairing that a server without a box made, and its backfill by one with a box.\<close>

definition keyless_service :: pairing_service where
  "keyless_service = some_service\<lparr>sv_box := None\<rparr>"

definition legacy_paired :: pairing_db where
  "legacy_paired = snd (CreatePairing keyless_service (some_draws (CHR ''a'')) 100 ''cam'' ''user:a'' 0 some_payload no_pairings)"

definition backfilled :: pairing_db where
  "backfilled = snd (BackfillSealedCredentials some_service (\<lambda>_. replicate 12 (CHR ''n'')) legacy_paired)"

lemma legacy_run: "pairing_run keyless_service no_pairings {key_of (CHR ''a'')} legacy_paired"
proof -
  obtain r where "CreatePairing keyless_service (some_draws (CHR ''a'')) 100 ''cam'' ''user:a'' 0 some_payload no_pairings = (r, legacy_paired)"
    unfolding legacy_paired_def by (metis prod.collapse)
  from pairing_run.more [OF pairing_run.start pairing_step.create [OF this]]
  show ?thesis by (simp add: key_of_def some_draws_def)
qed

theorem pairing_life_cycle_witness:
  "pairing_inv some_service backfilled \<and>
   map (map_option IsSealed \<circ> dp_qr) (pd_pairings legacy_paired) = [Some False] \<and>
   map (map_option IsSealed \<circ> dp_qr) (pd_pairings backfilled) = [Some True]"
proof (intro conjI)
  have "fst (BackfillSealedCredentials some_service (\<lambda>_. replicate 12 (CHR ''n'')) legacy_paired) = (1, None)" by code_simp
  then have "BackfillSealedCredentials some_service (\<lambda>_. replicate 12 (CHR ''n'')) legacy_paired = ((1, None), backfilled)"
    unfolding backfilled_def by (metis prod.collapse)
  from pairing_life_cycle [OF legacy_run this pairing_run.start] show "pairing_inv some_service backfilled" .
  show "map (map_option IsSealed \<circ> dp_qr) (pd_pairings legacy_paired) = [Some False]"
    "map (map_option IsSealed \<circ> dp_qr) (pd_pairings backfilled) = [Some True]"
    by code_simp+
qed

theorem revoked_keys_stay_dead_witness:
  "KeyLookup some_service 300 300 (key_of (CHR ''a'')) (snd (RevokePairing 200 1 ''user:a'' one_paired))
    = (Inr no_key, snd (RevokePairing 200 1 ''user:a'' one_paired))"
proof -
  have "fst (RevokePairing 200 1 ''user:a'' one_paired) = Inr ()" by code_simp
  then have "RevokePairing 200 1 ''user:a'' one_paired = (Inr (), snd (RevokePairing 200 1 ''user:a'' one_paired))"
    by (metis prod.collapse)
  from revoked_keys_stay_dead [OF one_paired_run this pairing_run.start one_paired_keys] show ?thesis by simp
qed

theorem rotation_delivered_witness:
  "\<exists>(mk :: minted_key) d' out d2. PendingRotationFor some_service 200 (replicate 12 (CHR ''n'')) (mintAgentID ''aaaa'') (key_of (CHR ''a'')) d' = Inr (Some out) \<and>
    OpenRotatedKey some_service (key_of (CHR ''a'')) (pr_sealed out) = Inr (mk_plain mk) \<and>
    KeyLookup some_service 210 210 (mk_plain mk) d' = (Inr \<lparr>lr_agent = mintAgentID ''aaaa'', lr_signing = Some (mk_plain mk)\<rparr>, d2) \<and>
    KeyLookup some_service 220 220 (key_of (CHR ''a'')) d2 = (Inr no_key, d2)"
proof -
  let ?rot = "RotateKey some_service (some_draws (CHR ''b'')) 150 1 ''user:a'' 10 some_payload one_paired"
  have "map_sum (\<lambda>_. 0 :: nat) snd (fst ?rot) = Inr 750" by code_simp
  then obtain mk where "fst ?rot = Inr (mk, 750)" by (cases "fst ?rot") auto
  then obtain d' where rot: "?rot = (Inr (mk, 750), d')" by (metis prod.collapse)
  have act: "active_key 200 (superseded 1 750 (hd (pd_keys one_paired)))" by code_simp
  have clock: "\<forall>j \<in> set (pd_keys one_paired). pk_pairing j = 1 \<longrightarrow> pk_created j \<le> 150"
    unfolding list_all_iff [symmetric] by code_simp
  have "map_option dp_agent (GetDevicePairingByID 1 one_paired) = Some (mintAgentID ''aaaa'')" by code_simp
  then obtain p where p: "GetDevicePairingByID 1 one_paired = Some p" "dp_agent p = mintAgentID ''aaaa''" by auto
  from rotation_delivered [OF one_paired_run some_crypto some_box some_nonces(3) _ rot one_paired_keys act clock _ p(1),
      of "replicate 12 (CHR ''n'')" 210 220 210 220]
  have "\<exists>out d2. PendingRotationFor some_service 200 (replicate 12 (CHR ''n'')) (mintAgentID ''aaaa'') (key_of (CHR ''a'')) d' = Inr (Some out) \<and>
    OpenRotatedKey some_service (key_of (CHR ''a'')) (pr_sealed out) = Inr (mk_plain mk) \<and>
    KeyLookup some_service 210 210 (mk_plain mk) d' = (Inr \<lparr>lr_agent = mintAgentID ''aaaa'', lr_signing = Some (mk_plain mk)\<rparr>, d2) \<and>
    KeyLookup some_service 220 220 (key_of (CHR ''a'')) d2 = (Inr no_key, d2)"
    by (simp add: p(2))
  then show ?thesis by blast
qed

theorem revoke_succeeds_iff_witness: "fst (RevokePairing 200 1 ''user:a'' one_paired) = Inr ()"
proof -
  have ok: "pairing_db_ok one_paired" using pairing_invD(1) [OF pairing_run_inv [OF one_paired_run pairing_inv_start]] .
  have "map_option dp_created (GetDevicePairingByID 1 one_paired) = Some 100" by code_simp
  then show ?thesis unfolding revoke_succeeds_iff [OF ok] by auto
qed

theorem open_seal_witness:
  "\<exists>s. Seal plain_gcm (Some (replicate 32 (CHR ''k''))) (replicate 12 (CHR ''n'')) ''secret'' = Inr s \<and>
    Open plain_gcm (Some (replicate 32 (CHR ''k''))) s = Inr ''secret''"
proof -
  obtain s where s: "Seal plain_gcm (Some (replicate 32 (CHR ''k''))) (replicate 12 (CHR ''n'')) ''secret'' = Inr s"
    by (simp add: Seal_def)
  have box: "NewBox (b64_encode b64_std (replicate 32 (CHR ''k''))) = Inr (Some (replicate 32 (CHR ''k'')))" by code_simp
  have "Open plain_gcm (Some (replicate 32 (CHR ''k''))) s = Inr ''secret''"
    by (rule open_seal [OF _ box _ s]) (simp_all add: gcm_correct_def plain_gcm_def)
  with s show ?thesis by blast
qed

text \<open>The two rotations of \<open>overlapping_rotations_show_old_key\<close>, at 150 and 151.\<close>

definition once_rotated :: pairing_db where
  "once_rotated = snd (rotate_key some_service (some_draws (CHR ''b'')) 150 1 ''user:a'' 10 one_paired)"

definition twice_rotated :: pairing_db where
  "twice_rotated = snd (rotate_key some_service (some_draws (CHR ''c'')) 151 1 ''user:a'' 10 once_rotated)"

definition second_stored :: pairing_db where
  "second_stored = snd (store_credentials some_service (some_draws (CHR ''c'')) 1 ''new'' twice_rotated)"

lemma Inr_pair: "\<not> isl (fst x) \<Longrightarrow> \<exists>y. x = (Inr y, snd x)"
  by (cases x) (auto simp: isl_def split: sum.splits, metis sum.exhaust)

theorem overlapping_rotations_show_old_key_witness:
  "\<exists>d4 c k. ActiveCredentials some_service 160 1 d4 = Inr c \<and> cr_url c = ''old'' \<and>
    k \<in> set (pd_keys d4) \<and> pk_hash k = hashKey some_service (key_of (CHR ''b'')) \<and> pk_expires k = Some 751"
proof -
  have ok: "pairing_db_ok one_paired" using pairing_invD(1) [OF pairing_run_inv [OF one_paired_run pairing_inv_start]] .
  have "\<not> isl (fst (rotate_key some_service (some_draws (CHR ''b'')) 150 1 ''user:a'' 10 one_paired))" by code_simp
  then obtain p1 r1 where 1: "rotate_key some_service (some_draws (CHR ''b'')) 150 1 ''user:a'' 10 one_paired = (Inr (p1, r1), once_rotated)"
    unfolding once_rotated_def using Inr_pair by (metis prod.collapse)
  have "\<not> isl (fst (rotate_key some_service (some_draws (CHR ''c'')) 151 1 ''user:a'' 10 once_rotated))" by code_simp
  then obtain p2 r2 where 2: "rotate_key some_service (some_draws (CHR ''c'')) 151 1 ''user:a'' 10 once_rotated = (Inr (p2, r2), twice_rotated)"
    unfolding twice_rotated_def using Inr_pair by (metis prod.collapse)
  have "\<not> isl (fst (store_credentials some_service (some_draws (CHR ''c'')) 1 ''new'' twice_rotated))" by code_simp
  then obtain v2 where 3: "store_credentials some_service (some_draws (CHR ''c'')) 1 ''new'' twice_rotated = (Inr v2, second_stored)"
    unfolding second_stored_def using Inr_pair by metis
  have "\<not> isl (fst (store_credentials some_service (some_draws (CHR ''b'')) 1 ''old'' second_stored))" by code_simp
  then obtain v1 where 4: "store_credentials some_service (some_draws (CHR ''b'')) 1 ''old'' second_stored
      = (Inr v1, snd (store_credentials some_service (some_draws (CHR ''b'')) 1 ''old'' second_stored))"
    using Inr_pair by metis
  have g: "151 + grace_minutes 10 * 60 = (751 :: int)" "mintAPIKey (dr_key (some_draws (CHR ''b''))) = key_of (CHR ''b'')"
    by (simp_all add: grace_minutes_def some_draws_def key_of_def)
  from overlapping_rotations_show_old_key [OF ok some_crypto(1) some_box some_nonces(1,2) 1 2 3 4, of 160]
  show ?thesis unfolding g by blast
qed

end
