(* ===== verification/RateLimit.thy ===== *)
theory RateLimit
  imports Prelude
begin

text \<open>
  \<open>internal/auth/ratelimit/ratelimit.go\<close>: the per-address limiter of failed logins. Times and durations
  are nanoseconds, the zero \<open>time.Time\<close> is \<open>None\<close>, and every operation is given the clock reading \<open>now\<close>
  it takes under the mutex. The release function of \<open>Begin\<close> is \<open>release\<close>; that it runs once is part of
  the protocol of the callers, modelled at the end.
\<close>

record limits =
  mx_fast :: int
  wd_fast :: int
  co_fast :: int
  mx_slow :: int
  wd_slow :: int
  co_slow :: int

definition or_default :: "int \<Rightarrow> int \<Rightarrow> int" where
  "or_default v d = (if v \<le> 0 then d else v)"

definition second :: int where
  "second = 1000000000"

definition NewFromConfig :: "limits \<Rightarrow> limits" where
  "NewFromConfig cfg =
     (let fast = or_default (wd_fast cfg) (5 * 60 * second)
      in \<lparr>mx_fast = or_default (mx_fast cfg) 5, wd_fast = fast, co_fast = or_default (co_fast cfg) (60 * second),
          mx_slow = or_default (mx_slow cfg) 10,
          wd_slow = (if wd_slow cfg \<le> 0 \<or> wd_slow cfg < fast then fast else wd_slow cfg),
          co_slow = or_default (co_slow cfg) (5 * 60 * second)\<rparr>)"

record ip_state =
  ip_inflight :: int
  ip_failures :: "int list"
  ip_until :: "int option"
  ip_kind :: string

definition no_state :: ip_state where
  "no_state = \<lparr>ip_inflight = 0, ip_failures = [], ip_until = None, ip_kind = []\<rparr>"

record limiter =
  lm_ips :: "string \<rightharpoonup> ip_state"
  lm_last :: "int option"

definition new_limiter :: limiter where
  "new_limiter = \<lparr>lm_ips = \<lambda>_. None, lm_last = None\<rparr>"

record decision =
  dc_allowed :: bool
  dc_retry :: int
  dc_kind :: string

definition allowed :: decision where
  "allowed = \<lparr>dc_allowed = True, dc_retry = 0, dc_kind = []\<rparr>"

definition sweepInterval :: int where
  "sweepInterval = 30 * second"

definition evictOlderThan :: "int list \<Rightarrow> int \<Rightarrow> int \<Rightarrow> int list" where
  "evictOlderThan failures now window = filter (\<lambda>t. now - window < t) failures"

definition countWithin :: "int list \<Rightarrow> int \<Rightarrow> int \<Rightarrow> int" where
  "countWithin failures now window = int (length (filter (\<lambda>t. now - window < t) failures))"

text \<open>\<open>now.Before(state.coolOffUntil)\<close>\<close>

definition cooling :: "int \<Rightarrow> ip_state \<Rightarrow> bool" where
  "cooling now st = (case ip_until st of None \<Rightarrow> False | Some u \<Rightarrow> now < u)"

definition coolOffKindOf :: "ip_state \<Rightarrow> string" where
  "coolOffKindOf st = (if ip_until st = None then [] else ip_kind st)"

definition refused_cooling :: "int \<Rightarrow> ip_state \<Rightarrow> decision" where
  "refused_cooling now st =
     \<lparr>dc_allowed = False, dc_retry = (case ip_until st of None \<Rightarrow> 0 | Some u \<Rightarrow> u - now), dc_kind = coolOffKindOf st\<rparr>"

definition swept :: "limits \<Rightarrow> int \<Rightarrow> ip_state \<Rightarrow> ip_state option" where
  "swept L now st =
     (if cooling now st \<or> 0 < ip_inflight st then Some st
      else let fs = evictOlderThan (ip_failures st) now (wd_slow L)
           in if fs = [] then None else Some (st\<lparr>ip_failures := fs\<rparr>))"

definition maybeSweep :: "limits \<Rightarrow> int \<Rightarrow> limiter \<Rightarrow> limiter" where
  "maybeSweep L now l =
     (if (case lm_last l of None \<Rightarrow> False | Some u \<Rightarrow> now - u < sweepInterval) then l
      else l\<lparr>lm_last := Some now, lm_ips := \<lambda>ip. case lm_ips l ip of None \<Rightarrow> None | Some st \<Rightarrow> swept L now st\<rparr>)"

definition Check :: "limits \<Rightarrow> int \<Rightarrow> string \<Rightarrow> limiter \<Rightarrow> decision \<times> limiter" where
  "Check L now ip l =
     (let l = maybeSweep L now l
      in case lm_ips l ip of
           None \<Rightarrow> (allowed, l)
         | Some st \<Rightarrow> if cooling now st then (refused_cooling now st, l) else (allowed, l))"

definition state_of :: "limiter \<Rightarrow> string \<Rightarrow> ip_state" where
  "state_of l ip = (case lm_ips l ip of None \<Rightarrow> no_state | Some st \<Rightarrow> st)"

definition put :: "string \<Rightarrow> ip_state \<Rightarrow> limiter \<Rightarrow> limiter" where
  "put ip st l = l\<lparr>lm_ips := (lm_ips l)(ip \<mapsto> st)\<rparr>"

text \<open>The attempt is gated; when it is allowed a slot is held until \<open>release\<close>.\<close>

definition Begin :: "limits \<Rightarrow> int \<Rightarrow> string \<Rightarrow> limiter \<Rightarrow> decision \<times> limiter" where
  "Begin L now ip l =
     (let l = maybeSweep L now l; st = state_of l ip
      in if cooling now st then (refused_cooling now st, put ip st l)
         else if mx_fast L \<le> countWithin (ip_failures st) now (wd_fast L) + ip_inflight st \<or>
                 mx_slow L \<le> int (length (ip_failures st)) + ip_inflight st
         then (\<lparr>dc_allowed = False, dc_retry = co_fast L, dc_kind = ''fast''\<rparr>, put ip st l)
         else (allowed, put ip (st\<lparr>ip_inflight := ip_inflight st + 1\<rparr>) l))"

definition release :: "string \<Rightarrow> limiter \<Rightarrow> limiter" where
  "release ip l =
     (case lm_ips l ip of
        None \<Rightarrow> l
      | Some st \<Rightarrow> if 0 < ip_inflight st then put ip (st\<lparr>ip_inflight := ip_inflight st - 1\<rparr>) l else l)"

definition RecordFailure :: "limits \<Rightarrow> int \<Rightarrow> string \<Rightarrow> limiter \<Rightarrow> decision \<times> limiter" where
  "RecordFailure L now ip l =
     (let l = maybeSweep L now l; st = state_of l ip;
          st = st\<lparr>ip_failures := evictOlderThan (ip_failures st @ [now]) now (wd_slow L)\<rparr>
      in if mx_slow L \<le> int (length (ip_failures st)) then
           (\<lparr>dc_allowed = False, dc_retry = co_slow L, dc_kind = ''slow''\<rparr>,
            put ip (st\<lparr>ip_until := Some (now + co_slow L), ip_kind := ''slow''\<rparr>) l)
         else if mx_fast L \<le> countWithin (ip_failures st) now (wd_fast L) then
           (\<lparr>dc_allowed = False, dc_retry = co_fast L, dc_kind = ''fast''\<rparr>,
            put ip (st\<lparr>ip_until := Some (now + co_fast L), ip_kind := ''fast''\<rparr>) l)
         else (allowed, put ip st l))"

section \<open>Runs of login attempts\<close>

text \<open>
  What the handlers do with one address: an attempt begins; it may fail, once, while its slot is held; its
  slot is released when the handler returns. Other addresses do the same, or check, at any time. The
  state of the run counts the open attempts of the address that have not failed and those that have, and
  remembers every failure: this is the history the limiter is judged by.
\<close>

record run =
  rn_lim :: limiter
  rn_now :: int
  rn_open :: nat
  rn_failed :: nat
  rn_history :: "int list"

inductive attempt_step :: "limits \<Rightarrow> string \<Rightarrow> run \<Rightarrow> run \<Rightarrow> bool" for L ip where
  granted: "rn_now s \<le> t \<Longrightarrow> Begin L t ip (rn_lim s) = (d, l) \<Longrightarrow> dc_allowed d \<Longrightarrow>
    attempt_step L ip s (s\<lparr>rn_lim := l, rn_now := t, rn_open := rn_open s + 1\<rparr>)"
| denied: "rn_now s \<le> t \<Longrightarrow> Begin L t ip (rn_lim s) = (d, l) \<Longrightarrow> \<not> dc_allowed d \<Longrightarrow>
    attempt_step L ip s (s\<lparr>rn_lim := l, rn_now := t\<rparr>)"
| failure: "rn_now s \<le> t \<Longrightarrow> 0 < rn_open s \<Longrightarrow> RecordFailure L t ip (rn_lim s) = (d, l) \<Longrightarrow>
    attempt_step L ip s (s\<lparr>rn_lim := l, rn_now := t, rn_open := rn_open s - 1, rn_failed := rn_failed s + 1,
      rn_history := rn_history s @ [t]\<rparr>)"
| leave: "0 < rn_open s \<Longrightarrow>
    attempt_step L ip s (s\<lparr>rn_lim := release ip (rn_lim s), rn_open := rn_open s - 1\<rparr>)"
| leave_failed: "0 < rn_failed s \<Longrightarrow>
    attempt_step L ip s (s\<lparr>rn_lim := release ip (rn_lim s), rn_failed := rn_failed s - 1\<rparr>)"
| check: "rn_now s \<le> t \<Longrightarrow> Check L t other (rn_lim s) = (d, l) \<Longrightarrow>
    attempt_step L ip s (s\<lparr>rn_lim := l, rn_now := t\<rparr>)"
| other_begin: "rn_now s \<le> t \<Longrightarrow> other \<noteq> ip \<Longrightarrow> Begin L t other (rn_lim s) = (d, l) \<Longrightarrow>
    attempt_step L ip s (s\<lparr>rn_lim := l, rn_now := t\<rparr>)"
| other_failure: "rn_now s \<le> t \<Longrightarrow> other \<noteq> ip \<Longrightarrow> RecordFailure L t other (rn_lim s) = (d, l) \<Longrightarrow>
    attempt_step L ip s (s\<lparr>rn_lim := l, rn_now := t\<rparr>)"
| other_leave: "other \<noteq> ip \<Longrightarrow> attempt_step L ip s (s\<lparr>rn_lim := release other (rn_lim s)\<rparr>)"

inductive attempts :: "limits \<Rightarrow> string \<Rightarrow> int \<Rightarrow> run \<Rightarrow> bool" for L ip t0 where
  start: "attempts L ip t0 \<lparr>rn_lim = new_limiter, rn_now = t0, rn_open = 0, rn_failed = 0, rn_history = []\<rparr>"
| more: "attempts L ip t0 s \<Longrightarrow> attempt_step L ip s s' \<Longrightarrow> attempts L ip t0 s'"

section \<open>What an operation does to an address\<close>

definition wf_limits :: "limits \<Rightarrow> bool" where
  "wf_limits L \<longleftrightarrow> 0 < mx_fast L \<and> 0 < mx_slow L \<and> 0 < wd_fast L \<and> wd_fast L \<le> wd_slow L \<and> 0 < co_fast L \<and> 0 < co_slow L"

lemma NewFromConfig_wf: "wf_limits (NewFromConfig cfg)"
  by (auto simp: wf_limits_def NewFromConfig_def or_default_def second_def Let_def)

text \<open>The same slots held, and the same failures in every slow window from \<open>t\<close> on.\<close>

definition same_recent :: "limits \<Rightarrow> int \<Rightarrow> ip_state \<Rightarrow> ip_state \<Rightarrow> bool" where
  "same_recent L t st st' \<longleftrightarrow> ip_inflight st' = ip_inflight st \<and>
     (\<forall>u \<ge> t. evictOlderThan (ip_failures st') u (wd_slow L) = evictOlderThan (ip_failures st) u (wd_slow L))"

lemma evict_evict: "t \<le> u \<Longrightarrow> evictOlderThan (evictOlderThan fs t w) u w = evictOlderThan fs u w"
  by (induction fs) (auto simp: evictOlderThan_def)

lemma state_of_put [simp]: "state_of (put ip st l) ip = st" "other \<noteq> ip \<Longrightarrow> state_of (put other st l) ip = state_of l ip"
  by (simp_all add: state_of_def put_def)

lemma sweep_same_recent:
  assumes "0 \<le> ip_inflight (state_of l ip)"
  shows "same_recent L t (state_of l ip) (state_of (maybeSweep L t l) ip)"
proof (cases "lm_ips l ip")
  case None
  then show ?thesis by (auto simp: same_recent_def state_of_def maybeSweep_def)
next
  case (Some st)
  have "same_recent L t st (case swept L t st of None \<Rightarrow> no_state | Some st' \<Rightarrow> st')"
  proof (cases "swept L t st")
    case None
    then have "ip_inflight st \<le> 0" "evictOlderThan (ip_failures st) t (wd_slow L) = []"
      by (auto simp: swept_def Let_def split: if_splits)
    then show ?thesis using assms Some None evict_evict [of t _ "ip_failures st" "wd_slow L"]
      by (auto simp: same_recent_def state_of_def no_state_def evictOlderThan_def)
  next
    case (Some st')
    then show ?thesis
      by (auto simp: same_recent_def swept_def Let_def evict_evict split: if_splits)
  qed
  then show ?thesis using Some by (auto simp: same_recent_def state_of_def maybeSweep_def split: option.splits)
qed

lemma Check_state: "state_of (snd (Check L t other l)) ip = state_of (maybeSweep L t l) ip"
  by (simp add: Check_def Let_def split: option.splits)

lemma Begin_state:
  assumes "Begin L t ip l = (d, l')"
  shows "if dc_allowed d then
      state_of l' ip = (state_of (maybeSweep L t l) ip)\<lparr>ip_inflight := ip_inflight (state_of (maybeSweep L t l) ip) + 1\<rparr> \<and>
      countWithin (ip_failures (state_of (maybeSweep L t l) ip)) t (wd_fast L) + ip_inflight (state_of (maybeSweep L t l) ip) < mx_fast L \<and>
      int (length (ip_failures (state_of (maybeSweep L t l) ip))) + ip_inflight (state_of (maybeSweep L t l) ip) < mx_slow L
    else state_of l' ip = state_of (maybeSweep L t l) ip"
  using assms by (auto simp: Begin_def Let_def refused_cooling_def allowed_def split: if_splits)

lemma Begin_other: "other \<noteq> ip \<Longrightarrow> Begin L t other l = (d, l') \<Longrightarrow> state_of l' ip = state_of (maybeSweep L t l) ip"
  by (auto simp: Begin_def Let_def split: if_splits)

lemma RecordFailure_state:
  assumes "RecordFailure L t ip l = (d, l')"
  shows "ip_inflight (state_of l' ip) = ip_inflight (state_of (maybeSweep L t l) ip) \<and>
    ip_failures (state_of l' ip) = evictOlderThan (ip_failures (state_of (maybeSweep L t l) ip) @ [t]) t (wd_slow L)"
  using assms by (auto simp: RecordFailure_def Let_def split: if_splits)

lemma RecordFailure_other:
  "other \<noteq> ip \<Longrightarrow> RecordFailure L t other l = (d, l') \<Longrightarrow> state_of l' ip = state_of (maybeSweep L t l) ip"
  by (auto simp: RecordFailure_def Let_def split: if_splits)

lemma release_state:
  "0 < ip_inflight (state_of l ip) \<Longrightarrow> state_of (release ip l) ip = (state_of l ip)\<lparr>ip_inflight := ip_inflight (state_of l ip) - 1\<rparr>"
  by (auto simp: release_def state_of_def put_def no_state_def split: option.splits)

lemma release_other: "other \<noteq> ip \<Longrightarrow> state_of (release other l) ip = state_of l ip"
  by (auto simp: release_def state_of_def put_def split: option.splits)

section \<open>The invariant of the runs\<close>

definition in_window :: "int list \<Rightarrow> int \<Rightarrow> int \<Rightarrow> nat" where
  "in_window hist t w = length (filter (\<lambda>h. t - w < h \<and> h \<le> t) hist)"

definition run_inv :: "limits \<Rightarrow> string \<Rightarrow> run \<Rightarrow> bool" where
  "run_inv L ip s \<longleftrightarrow>
     ip_inflight (state_of (rn_lim s) ip) = int (rn_open s + rn_failed s) \<and>
     (\<forall>h \<in> set (rn_history s). h \<le> rn_now s) \<and>
     (\<forall>u \<ge> rn_now s. evictOlderThan (ip_failures (state_of (rn_lim s) ip)) u (wd_slow L) = evictOlderThan (rn_history s) u (wd_slow L)) \<and>
     countWithin (rn_history s) (rn_now s) (wd_fast L) + int (rn_open s) \<le> mx_fast L \<and>
     countWithin (rn_history s) (rn_now s) (wd_slow L) + int (rn_open s) \<le> mx_slow L \<and>
     (\<forall>t. int (in_window (rn_history s) t (wd_fast L)) \<le> mx_fast L) \<and>
     (\<forall>t. int (in_window (rn_history s) t (wd_slow L)) \<le> mx_slow L)"

lemma countWithin_mono: "t \<le> u \<Longrightarrow> countWithin fs u w \<le> countWithin fs t w"
  unfolding countWithin_def by (induction fs) auto

lemma countWithin_evict:
  assumes "w \<le> w'"
  shows "countWithin (evictOlderThan fs t w') t w = countWithin fs t w"
  unfolding countWithin_def evictOlderThan_def using assms by (induction fs) auto

lemma countWithin_length: "countWithin fs t w \<le> int (length fs)"
  by (simp add: countWithin_def)

lemma in_window_le: "int (in_window fs t w) \<le> countWithin fs t w"
  unfolding in_window_def countWithin_def by (induction fs) auto

lemma in_window_append:
  "in_window (fs @ [t]) u w = in_window fs u w + (if u - w < t \<and> t \<le> u then 1 else 0)"
  by (simp add: in_window_def)

lemma countWithin_append: "0 < w \<Longrightarrow> countWithin (fs @ [t]) t w = countWithin fs t w + 1"
  by (simp add: countWithin_def)

text \<open>Time passes, other addresses act, slots are denied: nothing changes for the address.\<close>

lemma run_inv_idle:
  assumes inv: "run_inv L ip s" and t: "rn_now s \<le> t" and st: "same_recent L t (state_of (rn_lim s) ip) (state_of l ip)"
  shows "run_inv L ip (s\<lparr>rn_lim := l, rn_now := t\<rparr>)"
proof -
  have "evictOlderThan (ip_failures (state_of l ip)) u (wd_slow L) = evictOlderThan (rn_history s) u (wd_slow L)" if "t \<le> u" for u
    using inv st t that unfolding run_inv_def same_recent_def by (metis order_trans)
  moreover have "\<forall>h \<in> set (rn_history s). h \<le> t" using inv t unfolding run_inv_def by auto
  ultimately show ?thesis
    using inv st countWithin_mono [OF t, of "rn_history s" "wd_fast L"] countWithin_mono [OF t, of "rn_history s" "wd_slow L"]
    unfolding run_inv_def same_recent_def by auto
qed

lemma run_inv_granted:
  assumes L: "wf_limits L" and inv: "run_inv L ip s" and t: "rn_now s \<le> t"
    and st: "same_recent L t (state_of (rn_lim s) ip) st"
    and room: "countWithin (ip_failures st) t (wd_fast L) + ip_inflight st < mx_fast L"
      "int (length (ip_failures st)) + ip_inflight st < mx_slow L"
    and l: "state_of l ip = st\<lparr>ip_inflight := ip_inflight st + 1\<rparr>"
  shows "run_inv L ip (s\<lparr>rn_lim := l, rn_now := t, rn_open := rn_open s + 1\<rparr>)"
proof -
  have hist: "evictOlderThan (ip_failures st) t (wd_slow L) = evictOlderThan (rn_history s) t (wd_slow L)"
    using inv st t by (simp add: run_inv_def same_recent_def)
  have "countWithin (rn_history s) t (wd_fast L) = countWithin (ip_failures st) t (wd_fast L)"
    using L countWithin_evict [of "wd_fast L" "wd_slow L" _ t] hist by (metis wf_limits_def)
  moreover have "countWithin (rn_history s) t (wd_slow L) = countWithin (ip_failures st) t (wd_slow L)"
    using countWithin_evict [of "wd_slow L" "wd_slow L" _ t] hist by (metis order_refl)
  moreover have "ip_inflight st = int (rn_open s + rn_failed s)" using inv st by (simp add: run_inv_def same_recent_def)
  ultimately have "countWithin (rn_history s) t (wd_fast L) + int (rn_open s + 1) \<le> mx_fast L"
    "countWithin (rn_history s) t (wd_slow L) + int (rn_open s + 1) \<le> mx_slow L"
    using room countWithin_length [of "ip_failures st" t "wd_slow L"] by simp_all
  moreover have "run_inv L ip (s\<lparr>rn_lim := put ip st l, rn_now := t\<rparr>)"
    by (rule run_inv_idle [OF inv t]) (use st in simp)
  ultimately show ?thesis using l unfolding run_inv_def by auto
qed

lemma run_inv_failure:
  assumes L: "wf_limits L" and inv: "run_inv L ip s" and t: "rn_now s \<le> t" and pos: "0 < rn_open s"
    and st: "same_recent L t (state_of (rn_lim s) ip) st"
    and l: "ip_inflight (state_of l ip) = ip_inflight st"
      "ip_failures (state_of l ip) = evictOlderThan (ip_failures st @ [t]) t (wd_slow L)"
  shows "run_inv L ip (s\<lparr>rn_lim := l, rn_now := t, rn_open := rn_open s - 1, rn_failed := rn_failed s + 1,
      rn_history := rn_history s @ [t]\<rparr>)"
proof -
  have "run_inv L ip (s\<lparr>rn_lim := put ip st l, rn_now := t\<rparr>)"
    by (rule run_inv_idle [OF inv t]) (use st in simp)
  then have i: "ip_inflight st = int (rn_open s + rn_failed s)" "\<And>h. h \<in> set (rn_history s) \<Longrightarrow> h \<le> t"
    "\<And>u. t \<le> u \<Longrightarrow> evictOlderThan (ip_failures st) u (wd_slow L) = evictOlderThan (rn_history s) u (wd_slow L)"
    "countWithin (rn_history s) t (wd_fast L) + int (rn_open s) \<le> mx_fast L"
    "countWithin (rn_history s) t (wd_slow L) + int (rn_open s) \<le> mx_slow L"
    "\<And>u. int (in_window (rn_history s) u (wd_fast L)) \<le> mx_fast L"
    "\<And>u. int (in_window (rn_history s) u (wd_slow L)) \<le> mx_slow L"
    by (simp_all add: run_inv_def)
  have w: "0 < wd_fast L" "0 < wd_slow L" using L by (auto simp: wf_limits_def)
  have fails: "evictOlderThan (ip_failures (state_of l ip)) u (wd_slow L) = evictOlderThan (rn_history s @ [t]) u (wd_slow L)"
    if "t \<le> u" for u
    using i(3) [OF that] evict_evict [OF that] w unfolding l by (simp add: evictOlderThan_def)
  have win: "int (in_window (rn_history s @ [t]) u x) \<le> m"
    if x: "0 < x" "countWithin (rn_history s) t x + int (rn_open s) \<le> m" "int (in_window (rn_history s) u x) \<le> m" for u x m
  proof (cases "t \<le> u")
    case True
    have "int (in_window (rn_history s @ [t]) u x) \<le> countWithin (rn_history s @ [t]) u x" by (rule in_window_le)
    also have "\<dots> \<le> countWithin (rn_history s @ [t]) t x" by (rule countWithin_mono [OF True])
    also have "\<dots> \<le> m" using x pos by (simp add: countWithin_append)
    finally show ?thesis .
  next
    case False
    then show ?thesis using x(3) by (simp add: in_window_append)
  qed
  have "countWithin (rn_history s @ [t]) t (wd_fast L) + int (rn_open s - 1) \<le> mx_fast L"
    "countWithin (rn_history s @ [t]) t (wd_slow L) + int (rn_open s - 1) \<le> mx_slow L"
    using i(4,5) pos w by (simp_all add: countWithin_append of_nat_diff)
  then show ?thesis
    using i(1,2) fails l(1) pos win [OF w(1) i(4) i(6)] win [OF w(2) i(5) i(7)] by (simp add: run_inv_def of_nat_diff)
qed

lemma run_inv_release:
  assumes inv: "run_inv L ip s" and l: "state_of l ip = (state_of (rn_lim s) ip)\<lparr>ip_inflight := ip_inflight (state_of (rn_lim s) ip) - 1\<rparr>"
  shows "0 < rn_open s \<Longrightarrow> run_inv L ip (s\<lparr>rn_lim := l, rn_open := rn_open s - 1\<rparr>)"
    "0 < rn_failed s \<Longrightarrow> run_inv L ip (s\<lparr>rn_lim := l, rn_failed := rn_failed s - 1\<rparr>)"
  using inv l by (auto simp: run_inv_def of_nat_diff)

lemma same_recent_state: "state_of l ip = state_of l' ip \<Longrightarrow> same_recent L t st (state_of l' ip) \<Longrightarrow> same_recent L t st (state_of l ip)"
  by simp

lemma run_inv_step:
  assumes "attempt_step L ip s s'" "wf_limits L" "run_inv L ip s"
  shows "run_inv L ip s'"
proof -
  have pos: "0 \<le> ip_inflight (state_of (rn_lim s) ip)" using assms(3) by (simp add: run_inv_def)
  note swept = sweep_same_recent [OF pos]
  from assms(1) show ?thesis
  proof (cases rule: attempt_step.cases)
    case (granted t d l)
    then show ?thesis
      using run_inv_granted [OF assms(2,3) granted(2) swept, of l] Begin_state [OF granted(3)] by simp
  next
    case (denied t d l)
    then show ?thesis using run_inv_idle [OF assms(3) denied(2), of l] swept [of L t] Begin_state [OF denied(3)] by simp
  next
    case (failure t d l)
    then show ?thesis
      using run_inv_failure [OF assms(2,3) failure(2,3) swept, of l] RecordFailure_state [OF failure(4)] by simp
  next
    case leave
    then show ?thesis using run_inv_release(1) [OF assms(3) release_state] assms(3) by (simp add: run_inv_def)
  next
    case leave_failed
    then show ?thesis using run_inv_release(2) [OF assms(3) release_state] assms(3) by (simp add: run_inv_def)
  next
    case (check t other d l)
    then show ?thesis using run_inv_idle [OF assms(3) check(2), of l] swept [of L t] Check_state [of L t other "rn_lim s" ip] by simp
  next
    case (other_begin t other d l)
    then show ?thesis using run_inv_idle [OF assms(3) other_begin(2), of l] swept [of L t] Begin_other [of other ip L t "rn_lim s" d l] by simp
  next
    case (other_failure t other d l)
    then show ?thesis
      using run_inv_idle [OF assms(3) other_failure(2), of l] swept [of L t] RecordFailure_other [of other ip L t "rn_lim s" d l] by simp
  next
    case (other_leave other)
    then show ?thesis using assms(3) release_other [of other ip "rn_lim s"] by (simp add: run_inv_def)
  qed
qed

lemma run_inv_start: "wf_limits L \<Longrightarrow> run_inv L ip \<lparr>rn_lim = new_limiter, rn_now = t0, rn_open = 0, rn_failed = 0, rn_history = []\<rparr>"
  by (simp add: run_inv_def new_limiter_def state_of_def no_state_def countWithin_def in_window_def evictOlderThan_def wf_limits_def)

lemma attempts_inv: "attempts L ip t0 s \<Longrightarrow> wf_limits L \<Longrightarrow> run_inv L ip s"
  by (induction rule: attempts.induct) (auto intro: run_inv_start run_inv_step)

text \<open>C35. However attempts of an address overlap and whatever other addresses do: in every window of the
  fast length at most \<open>MaxFailuresFast\<close> attempts of the address fail, and in every window of the slow
  length at most \<open>MaxFailuresSlow\<close>.\<close>

theorem failures_bounded:
  assumes "attempts (NewFromConfig cfg) ip t0 s"
  shows "int (in_window (rn_history s) t (wd_fast (NewFromConfig cfg))) \<le> mx_fast (NewFromConfig cfg) \<and>
    int (in_window (rn_history s) t (wd_slow (NewFromConfig cfg))) \<le> mx_slow (NewFromConfig cfg)"
  using attempts_inv [OF assms NewFromConfig_wf] by (simp add: run_inv_def)

section \<open>An address is let in again\<close>

text \<open>
  The cool-off of an address never ends later than the longest cool-off from now, and nothing in the
  limiter is dated after the last operation.
\<close>

definition cool_inv :: "limits \<Rightarrow> string \<Rightarrow> int \<Rightarrow> limiter \<Rightarrow> bool" where
  "cool_inv L ip now l \<longleftrightarrow>
     (\<forall>u. ip_until (state_of l ip) = Some u \<longrightarrow> u \<le> now + max (co_fast L) (co_slow L)) \<and>
     (\<forall>u. lm_last l = Some u \<longrightarrow> u \<le> now) \<and> (\<forall>h \<in> set (ip_failures (state_of l ip)). h \<le> now)"

lemma cool_inv_later: "cool_inv L ip now l \<Longrightarrow> now \<le> t \<Longrightarrow> cool_inv L ip t l"
  unfolding cool_inv_def by fastforce

lemma cool_inv_put:
  assumes "cool_inv L ip t l" "ip_until st = ip_until (state_of l ip) \<or> ip_until st = Some (t + co_fast L) \<or> ip_until st = Some (t + co_slow L)"
    and "\<And>h. h \<in> set (ip_failures st) \<Longrightarrow> h \<in> set (ip_failures (state_of l ip)) \<or> h \<le> t"
  shows "cool_inv L ip t (put ip st l)"
  using assms unfolding cool_inv_def by (auto simp: put_def state_of_def)

lemma cool_inv_put_other: "other \<noteq> ip \<Longrightarrow> cool_inv L ip t l \<Longrightarrow> cool_inv L ip t (put other st l)"
  unfolding cool_inv_def by (simp add: put_def state_of_def)

lemma cool_inv_sweep:
  assumes "cool_inv L ip t l"
  shows "cool_inv L ip t (maybeSweep L t l)"
proof -
  have "swept L t st = Some st' \<Longrightarrow> ip_until st' = ip_until st \<and> set (ip_failures st') \<subseteq> set (ip_failures st)" for st st'
    by (auto simp: swept_def Let_def evictOlderThan_def split: if_splits)
  then show ?thesis
    using assms unfolding cool_inv_def maybeSweep_def state_of_def
    by (auto simp: no_state_def split: option.splits) blast+
qed

lemma cool_inv_Begin:
  assumes "cool_inv L ip t l" "Begin L t other l = (d, l')"
  shows "cool_inv L ip t l'"
proof -
  note i = cool_inv_sweep [OF assms(1)]
  show ?thesis
  proof (cases "other = ip")
    case True
    then show ?thesis using assms(2) i by (auto simp: Begin_def Let_def split: if_splits intro!: cool_inv_put)
  next
    case False
    then show ?thesis using assms(2) i by (auto simp: Begin_def Let_def split: if_splits intro!: cool_inv_put_other)
  qed
qed

lemma cool_inv_RecordFailure:
  assumes "cool_inv L ip t l" "RecordFailure L t other l = (d, l')"
  shows "cool_inv L ip t l'"
proof -
  note i = cool_inv_sweep [OF assms(1)]
  show ?thesis
  proof (cases "other = ip")
    case True
    then show ?thesis using assms(2) i
      by (auto simp: RecordFailure_def Let_def evictOlderThan_def split: if_splits intro!: cool_inv_put)
  next
    case False
    then show ?thesis using assms(2) i by (auto simp: RecordFailure_def Let_def split: if_splits intro!: cool_inv_put_other)
  qed
qed

lemma cool_inv_release: "cool_inv L ip t l \<Longrightarrow> cool_inv L ip t (release other l)"
  by (cases "other = ip")
    (auto simp: release_def cool_inv_def state_of_def put_def split: option.splits)

lemma attempts_cool: "attempts L ip t0 s \<Longrightarrow> cool_inv L ip (rn_now s) (rn_lim s)"
proof (induction rule: attempts.induct)
  case start
  then show ?case by (simp add: cool_inv_def new_limiter_def state_of_def no_state_def)
next
  case (more s s')
  from more(2,3) show ?case
  proof (cases rule: attempt_step.cases)
    case (check t other d l)
    then have "l = maybeSweep L t (rn_lim s)" by (auto simp: Check_def Let_def split: option.splits if_splits)
    then show ?thesis using check cool_inv_sweep [OF cool_inv_later [OF more(3) check(2)]] by simp
  qed (auto intro: cool_inv_Begin cool_inv_RecordFailure cool_inv_later cool_inv_release)
qed

text \<open>No address is locked out for good: once it has no attempt in flight and the limiter has heard
  nothing for the longest of the cool-offs, the slow window and the sweep interval, its next attempt is
  let in.\<close>

theorem idle_address_let_in:
  assumes "attempts (NewFromConfig cfg) ip t0 s" "rn_open s = 0" "rn_failed s = 0"
    and "rn_now s + Max {co_fast (NewFromConfig cfg), co_slow (NewFromConfig cfg), wd_slow (NewFromConfig cfg), sweepInterval} \<le> t"
  shows "dc_allowed (fst (Begin (NewFromConfig cfg) t ip (rn_lim s)))"
proof -
  let ?L = "NewFromConfig cfg"
  have L: "wf_limits ?L" by (rule NewFromConfig_wf)
  have inflight: "ip_inflight (state_of (rn_lim s) ip) = 0"
    using attempts_inv [OF assms(1) L] assms(2,3) by (simp add: run_inv_def)
  have t: "rn_now s + max (co_fast ?L) (co_slow ?L) \<le> t" "rn_now s + wd_slow ?L \<le> t" "rn_now s + sweepInterval \<le> t"
    using assms(4) by auto
  note c = attempts_cool [OF assms(1), unfolded cool_inv_def]
  have calm: "\<not> cooling t (state_of (rn_lim s) ip)"
    using c t(1) by (fastforce simp: cooling_def split: option.splits)
  have old: "evictOlderThan (ip_failures (state_of (rn_lim s) ip)) t (wd_slow ?L) = []"
    using c t(2) by (fastforce simp: evictOlderThan_def filter_empty_conv)
  have due: "\<not> (case lm_last (rn_lim s) of None \<Rightarrow> False | Some u \<Rightarrow> t - u < sweepInterval)"
    using c t(3) by (fastforce split: option.splits)
  have "state_of (maybeSweep ?L t (rn_lim s)) ip = no_state"
  proof (cases "lm_ips (rn_lim s) ip")
    case None
    then show ?thesis using due by (simp add: maybeSweep_def state_of_def)
  next
    case (Some st)
    then have "swept ?L t st = None" using calm old inflight by (simp add: state_of_def swept_def Let_def)
    then show ?thesis using due Some by (simp add: maybeSweep_def state_of_def)
  qed
  then show ?thesis using L by (simp add: Begin_def Let_def cooling_def no_state_def countWithin_def allowed_def wf_limits_def)
qed

section \<open>An attempt that fails\<close>

definition three_seconds :: limits where
  "three_seconds = \<lparr>mx_fast = 1, wd_fast = 1, co_fast = 1, mx_slow = 1, wd_slow = 1, co_slow = 1\<rparr>"

definition after_failure :: run where
  "after_failure = \<lparr>rn_lim = release ''1.2.3.4'' (snd (RecordFailure (NewFromConfig three_seconds) 7 ''1.2.3.4''
       (snd (Begin (NewFromConfig three_seconds) 5 ''1.2.3.4'' new_limiter)))),
     rn_now = 7, rn_open = 0, rn_failed = 0, rn_history = [7]\<rparr>"

lemma after_failure_run: "attempts (NewFromConfig three_seconds) ''1.2.3.4'' 0 after_failure"
proof -
  let ?L = "NewFromConfig three_seconds" and ?ip = "''1.2.3.4''"
  have "dc_allowed (fst (Begin ?L 5 ?ip new_limiter))" by code_simp
  then obtain d l where b: "Begin ?L 5 ?ip new_limiter = (d, l)" "dc_allowed d" by (metis prod.collapse)
  obtain e m where f: "RecordFailure ?L 7 ?ip l = (e, m)" by (metis prod.collapse)
  note a0 = attempts.start [of ?L ?ip 0]
  note a1 = attempts.more [OF a0 attempt_step.granted [of _ 5 ?L ?ip d l]]
  note a2 = attempts.more [OF a1 attempt_step.failure [of _ 7 ?L ?ip e m]]
  note a3 = attempts.more [OF a2 attempt_step.leave_failed]
  show ?thesis using a3 b f by (simp add: after_failure_def)
qed

theorem failures_bounded_witness:
  "int (in_window (rn_history after_failure) 7 1) \<le> 1 \<and> in_window (rn_history after_failure) 7 1 = 1"
  using failures_bounded [OF after_failure_run, of 7]
  by (simp add: NewFromConfig_def three_seconds_def or_default_def Let_def after_failure_def in_window_def)

theorem idle_address_let_in_witness:
  "dc_allowed (fst (Begin (NewFromConfig three_seconds) 30000000007 ''1.2.3.4'' (rn_lim after_failure)))"
proof (rule idle_address_let_in [OF after_failure_run])
  show "rn_now after_failure + Max {co_fast (NewFromConfig three_seconds), co_slow (NewFromConfig three_seconds),
      wd_slow (NewFromConfig three_seconds), sweepInterval} \<le> 30000000007"
    by (simp add: after_failure_def NewFromConfig_def three_seconds_def or_default_def Let_def sweepInterval_def second_def)
qed (simp_all add: after_failure_def)

end
