(* ===== verification/Effects.thy ===== *)
theory Effects
  imports Prelude
begin

text \<open>
  Operations that change state even when they fail: a Go function that renames files before a later
  step returns an error leaves the renames behind, although its transaction is rolled back. Such an
  operation maps a state to its result and the state it leaves, \<open>('e + 'a) \<times> 's\<close>. \<open>ebind\<close> is the
  \<open>if err != nil { return err }\<close> idiom, \<open>etry\<close> a call whose error is only logged, \<open>efold\<close> a loop that stops
  at the first error. \<open>keeps R\<close> says that every run, failing or not, relates its first and last state
  by \<open>R\<close>; it is proved for an operation along its text by the rules of \<open>keeps_intros\<close>.
\<close>

named_theorems keeps_intros \<open>frame rules of effectful operations\<close>

type_synonym ('s, 'e, 'a) act = "'s \<Rightarrow> ('e + 'a) \<times> 's"

definition ereturn :: "'a \<Rightarrow> ('s, 'e, 'a) act" where
  "ereturn x = (\<lambda>s. (Inr x, s))"

definition efail :: "'e \<Rightarrow> ('s, 'e, 'a) act" where
  "efail e = (\<lambda>s. (Inl e, s))"

definition ebind :: "('s, 'e, 'a) act \<Rightarrow> ('a \<Rightarrow> ('s, 'e, 'b) act) \<Rightarrow> ('s, 'e, 'b) act" where
  "ebind m f = (\<lambda>s. case m s of (Inl e, t) \<Rightarrow> (Inl e, t) | (Inr x, t) \<Rightarrow> f x t)"

text \<open>A call whose error and whose value are handled differently.\<close>

definition ecase :: "('s, 'e, 'a) act \<Rightarrow> ('e \<Rightarrow> ('s, 'f, 'b) act) \<Rightarrow> ('a \<Rightarrow> ('s, 'f, 'b) act) \<Rightarrow> ('s, 'f, 'b) act" where
  "ecase m h f = (\<lambda>s. case m s of (Inl e, t) \<Rightarrow> h e t | (Inr x, t) \<Rightarrow> f x t)"

text \<open>A read of the state, and a call that is allowed to fail.\<close>

definition eread :: "('s \<Rightarrow> ('s, 'e, 'a) act) \<Rightarrow> ('s, 'e, 'a) act" where
  "eread f = (\<lambda>s. f s s)"

definition etry :: "('s, 'e, 'a) act \<Rightarrow> ('s, 'e, unit) act" where
  "etry m = (\<lambda>s. (Inr (), snd (m s)))"

definition emod :: "('s \<Rightarrow> 's) \<Rightarrow> ('s, 'e, unit) act" where
  "emod f = (\<lambda>s. (Inr (), f s))"

definition elift :: "'e + 'a \<Rightarrow> ('s, 'e, 'a) act" where
  "elift r = (\<lambda>s. (r, s))"

definition ewhen :: "bool \<Rightarrow> ('s, 'e, unit) act \<Rightarrow> ('s, 'e, unit) act" where
  "ewhen b m = (if b then m else ereturn ())"

fun efold :: "('x \<Rightarrow> ('s, 'e, unit) act) \<Rightarrow> 'x list \<Rightarrow> ('s, 'e, unit) act" where
  "efold f [] = ereturn ()"
| "efold f (x # xs) = ebind (f x) (\<lambda>_. efold f xs)"

lemmas eff_defs = ecase_def ereturn_def efail_def ebind_def eread_def etry_def emod_def elift_def ewhen_def

lemma ebind_Inr: "ebind m f s = (Inr y, t) \<longleftrightarrow> (\<exists>x u. m s = (Inr x, u) \<and> f x u = (Inr y, t))"
  by (auto simp: ebind_def split: prod.splits sum.splits)

lemma ebind_Inl:
  "ebind m f s = (Inl e, t) \<longleftrightarrow> m s = (Inl e, t) \<or> (\<exists>x u. m s = (Inr x, u) \<and> f x u = (Inl e, t))"
  by (auto simp: ebind_def split: prod.splits sum.splits)

lemma eff_Inr:
  "ereturn x s = (Inr y, t) \<longleftrightarrow> y = x \<and> t = s"
  "efail e s = (Inr y, t) \<longleftrightarrow> False"
  "eread g s = (Inr y, t) \<longleftrightarrow> g s s = (Inr y, t)"
  "emod h s = (Inr u, t) \<longleftrightarrow> t = h s"
  "elift r s = (Inr y, t) \<longleftrightarrow> r = Inr y \<and> t = s"
  by (auto simp: eff_defs)

section \<open>Frames\<close>

definition keeps :: "('s \<Rightarrow> 's \<Rightarrow> bool) \<Rightarrow> ('s, 'e, 'a) act \<Rightarrow> bool" where
  "keeps R m \<longleftrightarrow> (\<forall>s. R s (snd (m s)))"

lemma keepsD: "keeps R m \<Longrightarrow> m s = (r, t) \<Longrightarrow> R s t"
  by (metis keeps_def snd_conv)

lemma keepsI: "(\<And>s r t. m s = (r, t) \<Longrightarrow> R s t) \<Longrightarrow> keeps R m"
  by (simp add: keeps_def) (metis surjective_pairing)

lemma keeps_return: "reflp R \<Longrightarrow> keeps R (ereturn x)"
  by (simp add: keeps_def ereturn_def reflpD)

lemma keeps_fail: "reflp R \<Longrightarrow> keeps R (efail e)"
  by (simp add: keeps_def efail_def reflpD)

lemma keeps_lift: "reflp R \<Longrightarrow> keeps R (elift r)"
  by (simp add: keeps_def elift_def reflpD)

lemma keeps_bind:
  assumes "transp R" "keeps R m" "\<And>x. keeps R (f x)"
  shows "keeps R (ebind m f)"
  unfolding keeps_def
proof
  fix s
  obtain r t where m: "m s = (r, t)" by (cases "m s")
  then have "R s t" using assms(2) by (rule keepsD [rotated])
  then show "R s (snd (ebind m f s))"
    using m assms(1,3) by (cases r) (auto simp: ebind_def keeps_def dest: transpD)
qed

lemma keeps_case:
  assumes "transp R" "keeps R m" "\<And>e. keeps R (h e)" "\<And>x. keeps R (f x)"
  shows "keeps R (ecase m h f)"
  unfolding keeps_def
proof
  fix s
  obtain r t where m: "m s = (r, t)" by (cases "m s")
  then have "R s t" using assms(2) by (rule keepsD [rotated])
  then show "R s (snd (ecase m h f s))"
  proof (cases r)
    case (Inl e)
    then show ?thesis using m transpD [OF assms(1) \<open>R s t\<close>] assms(3) by (simp add: ecase_def keeps_def)
  next
    case (Inr x)
    then show ?thesis using m transpD [OF assms(1) \<open>R s t\<close>] assms(4) by (simp add: ecase_def keeps_def)
  qed
qed

lemma keeps_read: "(\<And>s. keeps R (f s)) \<Longrightarrow> keeps R (eread f)"
  by (simp add: keeps_def eread_def)

lemma keeps_try: "keeps R m \<Longrightarrow> keeps R (etry m)"
  by (simp add: keeps_def etry_def)

lemma keeps_mod: "(\<And>s. R s (h s)) \<Longrightarrow> keeps R (emod h)"
  by (simp add: keeps_def emod_def)

lemma keeps_when: "reflp R \<Longrightarrow> (b \<Longrightarrow> keeps R m) \<Longrightarrow> keeps R (ewhen b m)"
  by (simp add: ewhen_def keeps_return)

lemma keeps_fold:
  assumes "reflp R" "transp R" "\<And>x. x \<in> set xs \<Longrightarrow> keeps R (f x)"
  shows "keeps R (efold f xs)"
  using assms(3) by (induction xs) (auto intro!: keeps_bind keeps_return assms(1,2))

lemmas keeps_rules = keeps_return keeps_fail keeps_lift keeps_bind keeps_case keeps_read keeps_try keeps_mod
  keeps_when keeps_fold

declare keeps_rules [keeps_intros]

end
