(* ===== verification/AssetTables.thy ===== *)
theory AssetTables
  imports EdgeQueries Effects Guard
begin

text \<open>
  The tables beside \<open>media_nodes\<close> and \<open>media_edges\<close> that the trash (\<open>internal/pipeline/trash.go\<close>) and the
  agent's event queue (\<open>internal/agent\<close>) keep: trash times, trash cascades, remote sync rows, uuid
  aliases, node creators and the queue itself, with their statements. The tables refer to
  \<open>media_nodes\<close> by foreign keys, which nothing deletes from. An operation of these components works on an
  \<open>asset_state\<close>: the tables, the file system and the log of the files it has moved.
\<close>

record trash_cascade =
  tc_id :: int
  tc_parent :: int
  tc_export :: int
  tc_trashed :: int
  tc_restored :: "int option"

record node_alias =
  na_alias :: string
  na_node :: string
  na_agent :: string
  na_created :: int

datatype event_status = EvPending | EvProcessed | EvFailed

record agent_event =
  ev_id :: int
  ev_uuid :: string
  ev_agent :: string
  ev_type :: string
  ev_payload :: string
  ev_status :: event_status
  ev_retry :: int
  ev_error :: "string option"
  ev_created :: int
  ev_processed :: "int option"
  ev_next :: int

record asset_db =
  ad_db :: db
  ad_times :: "(int \<times> int option) list"
  ad_cascades :: "trash_cascade list"
  ad_sync :: "(int \<times> string) list"
  ad_aliases :: "node_alias list"
  ad_creators :: "(string \<times> string) list"
  ad_events :: "agent_event list"

record asset_state =
  as_tables :: asset_db
  as_fs :: fs
  as_moves :: "(string \<times> string) list"

abbreviation as_db :: "asset_state \<Rightarrow> db" where
  "as_db s \<equiv> ad_db (as_tables s)"

definition on_tables :: "(asset_db \<Rightarrow> asset_db) \<Rightarrow> asset_state \<Rightarrow> asset_state" where
  "on_tables f s = s\<lparr>as_tables := f (as_tables s)\<rparr>"

section \<open>Nodes\<close>

definition GetMediaNodeByID :: "int \<Rightarrow> db \<Rightarrow> media_node option" where
  "GetMediaNodeByID i d = find (\<lambda>n. n_id n = i) (db_nodes d)"

definition GetMediaNodeByUUID :: "string \<Rightarrow> db \<Rightarrow> media_node option" where
  "GetMediaNodeByUUID u d = find (\<lambda>n. n_uuid n = u) (db_nodes d)"

definition GetMediaNodeByFilePath :: "string \<Rightarrow> db \<Rightarrow> media_node option" where
  "GetMediaNodeByFilePath p d = find (\<lambda>n. n_path n = p \<and> \<not> retired n) (db_nodes d)"

definition MarkNodeTrashed :: "int \<Rightarrow> db \<Rightarrow> db_error + db" where
  "MarkNodeTrashed i d = update_nodes (\<lambda>n. n_id n = i)
     (\<lambda>n. n\<lparr>n_life := TRASHED, n_updated := db_clock d\<rparr>) d"

definition UntrashNode :: "int \<Rightarrow> db \<Rightarrow> db_error + db" where
  "UntrashNode i d = update_nodes (\<lambda>n. n_id n = i)
     (\<lambda>n. n\<lparr>n_life := ACTIVE, n_updated := db_clock d\<rparr>) d"

definition RebaseNodePathByUUID :: "string \<Rightarrow> string \<Rightarrow> string \<Rightarrow> int \<Rightarrow> int \<Rightarrow> db \<Rightarrow> db_error + db" where
  "RebaseNodePathByUUID u p nm loc mt d = update_nodes (\<lambda>n. n_uuid n = u)
     (\<lambda>n. n\<lparr>n_path := p, n_name := nm, n_loc := loc, n_life := ACTIVE, n_mtime := mt,
            n_last_seen := db_clock d, n_updated := db_clock d\<rparr>) d"

text \<open>\<open>CreateMediaEdge\<close>: SQLite tests the row's \<open>CHECK\<close>s, then uniqueness, then the foreign keys.\<close>

definition CreateMediaEdge :: "new_edge \<Rightarrow> db \<Rightarrow> db_error + db" where
  "CreateMediaEdge u d =
     (let row = edge_row (next_edge_id d) (db_clock d) u
      in if \<not> edge_check row then Inl EdgeCheck
         else if \<exists>e \<in> set (db_edges d). edge_key e = upsert_key u then Inl EdgeKey
         else checked_edges (d\<lparr>db_edges := db_edges d @ [row]\<rparr>))"

section \<open>Trash times and cascades\<close>

definition has_node :: "int \<Rightarrow> db \<Rightarrow> bool" where
  "has_node i d \<longleftrightarrow> i \<in> n_id ` set (db_nodes d)"

definition RecordNodeTrashed :: "int \<Rightarrow> asset_db \<Rightarrow> db_error + asset_db" where
  "RecordNodeTrashed i a =
     (if \<not> has_node i (ad_db a) then Inl NodeForeignKey
      else Inr (a\<lparr>ad_times := AList.update i (Some (db_clock (ad_db a))) (ad_times a)\<rparr>))"

definition ClearNodeTrashed :: "int \<Rightarrow> asset_db \<Rightarrow> asset_db" where
  "ClearNodeTrashed i a =
     a\<lparr>ad_times := map (\<lambda>(n, t). (n, if n = i then None else t)) (ad_times a)\<rparr>"

definition GetTrashedNodeTrashTime :: "string \<Rightarrow> asset_db \<Rightarrow> (int \<times> string \<times> int) option" where
  "GetTrashedNodeTrashTime u a =
     (case find (\<lambda>n. n_uuid n = u \<and> n_life n = TRASHED) (db_nodes (ad_db a)) of
        None \<Rightarrow> None
      | Some n \<Rightarrow> (case map_of (ad_times a) (n_id n) of
                     Some (Some t) \<Rightarrow> Some (n_id n, n_path n, t)
                   | _ \<Rightarrow> None))"

definition RecordTrashCascade :: "int \<Rightarrow> int \<Rightarrow> asset_db \<Rightarrow> db_error + asset_db" where
  "RecordTrashCascade parent ex a =
     (if \<not> has_node parent (ad_db a) \<or> \<not> has_node ex (ad_db a) then Inl NodeForeignKey
      else Inr (a\<lparr>ad_cascades := ad_cascades a @
        [\<lparr>tc_id = next_rowid (map tc_id (ad_cascades a)), tc_parent = parent, tc_export = ex,
          tc_trashed = db_clock (ad_db a), tc_restored = None\<rparr>]\<rparr>))"

definition CloseTrashCascadesForExport :: "int \<Rightarrow> asset_db \<Rightarrow> asset_db" where
  "CloseTrashCascadesForExport ex a =
     a\<lparr>ad_cascades := map (\<lambda>c. if tc_export c = ex \<and> tc_restored c = None
        then c\<lparr>tc_restored := Some (db_clock (ad_db a))\<rparr> else c) (ad_cascades a)\<rparr>"

definition ListOpenTrashCascadeExports :: "int \<Rightarrow> asset_db \<Rightarrow> int list" where
  "ListOpenTrashCascadeExports parent a =
     sort (remdups (map tc_export (filter (\<lambda>c. tc_parent c = parent \<and> tc_restored c = None) (ad_cascades a))))"

definition DeleteRemoteSyncStateForNode :: "int \<Rightarrow> asset_db \<Rightarrow> asset_db" where
  "DeleteRemoteSyncStateForNode i a = a\<lparr>ad_sync := filter (\<lambda>(n, _). n \<noteq> i) (ad_sync a)\<rparr>"

section \<open>Aliases and creators\<close>

definition has_uuid :: "string \<Rightarrow> db \<Rightarrow> bool" where
  "has_uuid u d \<longleftrightarrow> u \<in> n_uuid ` set (db_nodes d)"

definition GetNodeUUIDAlias :: "string \<Rightarrow> asset_db \<Rightarrow> node_alias option" where
  "GetNodeUUIDAlias u a = find (\<lambda>x. na_alias x = u) (ad_aliases a)"

definition InsertNodeUUIDAlias :: "string \<Rightarrow> string \<Rightarrow> string \<Rightarrow> asset_db \<Rightarrow> db_error + asset_db" where
  "InsertNodeUUIDAlias al u agent a =
     (if al = u then Inl NodeCheck
      else if GetNodeUUIDAlias al a \<noteq> None then Inr a
      else if \<not> has_uuid u (ad_db a) then Inl NodeForeignKey
      else Inr (a\<lparr>ad_aliases := ad_aliases a @
        [\<lparr>na_alias = al, na_node = u, na_agent = agent, na_created = db_clock (ad_db a)\<rparr>]\<rparr>))"

definition GetNodeCreator :: "string \<Rightarrow> asset_db \<Rightarrow> string option" where
  "GetNodeCreator u a = map_of (ad_creators a) u"

definition SetNodeCreator :: "string \<Rightarrow> string \<Rightarrow> asset_db \<Rightarrow> db_error + asset_db" where
  "SetNodeCreator u agent a =
     (if GetNodeCreator u a \<noteq> None then Inr a
      else if \<not> has_uuid u (ad_db a) then Inl NodeForeignKey
      else Inr (a\<lparr>ad_creators := ad_creators a @ [(u, agent)]\<rparr>))"

section \<open>The event queue\<close>

definition due :: "int \<Rightarrow> agent_event \<Rightarrow> bool" where
  "due now e \<longleftrightarrow> ev_status e = EvPending \<and> ev_next e \<le> now"

definition CountDueAgentEvents :: "int \<Rightarrow> asset_db \<Rightarrow> nat" where
  "CountDueAgentEvents now a = length (filter (due now) (ad_events a))"

definition CountPendingAgentEvents :: "asset_db \<Rightarrow> nat" where
  "CountPendingAgentEvents a = length (filter (\<lambda>e. ev_status e = EvPending) (ad_events a))"

definition ListPendingAgentEvents :: "int \<Rightarrow> nat \<Rightarrow> asset_db \<Rightarrow> agent_event list" where
  "ListPendingAgentEvents now k a =
     take k (sort_key ev_created (sort_key ev_id (filter (due now) (ad_events a))))"

definition update_events :: "int \<Rightarrow> (agent_event \<Rightarrow> agent_event) \<Rightarrow> asset_db \<Rightarrow> asset_db" where
  "update_events i f a = a\<lparr>ad_events := map (\<lambda>e. if ev_id e = i then f e else e) (ad_events a)\<rparr>"

definition MarkAgentEventProcessed :: "int \<Rightarrow> asset_db \<Rightarrow> asset_db" where
  "MarkAgentEventProcessed i a = update_events i
     (\<lambda>e. e\<lparr>ev_status := EvProcessed, ev_processed := Some (db_clock (ad_db a)), ev_error := None\<rparr>) a"

definition MarkAgentEventFailed :: "int \<Rightarrow> string \<Rightarrow> asset_db \<Rightarrow> asset_db" where
  "MarkAgentEventFailed i msg a = update_events i
     (\<lambda>e. e\<lparr>ev_status := EvFailed, ev_processed := Some (db_clock (ad_db a)), ev_error := Some msg\<rparr>) a"

definition ScheduleAgentEventRetry :: "int \<Rightarrow> string \<Rightarrow> int \<Rightarrow> asset_db \<Rightarrow> asset_db" where
  "ScheduleAgentEventRetry i msg t a = update_events i
     (\<lambda>e. e\<lparr>ev_retry := ev_retry e + 1, ev_error := Some msg, ev_next := t\<rparr>) a"

definition eventTypes :: "string set" where
  "eventTypes = {''EVENT_NODE_CREATED'', ''EVENT_EDGE_ATTACHED'', ''EVENT_NODE_MOVED'',
     ''EVENT_NODE_DELETED'', ''EVENT_PATH_REBASED'', ''EVENT_VIRTUAL_NODE_CREATED''}"

definition EnqueueAgentEvent :: "string \<Rightarrow> string \<Rightarrow> string \<Rightarrow> string \<Rightarrow> asset_db \<Rightarrow> db_error + (agent_event \<times> asset_db)" where
  "EnqueueAgentEvent u agent ty payload a =
     (if ty \<notin> eventTypes then Inl NodeCheck
      else if u \<in> ev_uuid ` set (ad_events a) then Inl UniqueNodeKey
      else let e = \<lparr>ev_id = next_rowid (map ev_id (ad_events a)), ev_uuid = u, ev_agent = agent, ev_type = ty,
                    ev_payload = payload, ev_status = EvPending, ev_retry = 0, ev_error = None,
                    ev_created = db_clock (ad_db a), ev_processed = None, ev_next = 0\<rparr>
           in Inr (e, a\<lparr>ad_events := ad_events a @ [e]\<rparr>))"

section \<open>Statements as operations\<close>

datatype asset_error =
    Sql db_error
  | GuardRefused guard_error
  | StatFailed fs_error
  | NotUnderRoot string
  | EmptyUUID
  | ErrAssetNotTrashed int
  | ErrAssetTrashFileMissing string
  | ErrAssetHasSuperseded int
  | ErrAssetPathCollision int
  | ErrAssetAlreadyExists string string

text \<open>A failing statement leaves the tables as they were; the transaction goes on until its owner ends it.\<close>

definition run_sql :: "(asset_db \<Rightarrow> db_error + asset_db) \<Rightarrow> (asset_state, asset_error, unit) act" where
  "run_sql f s = (case f (as_tables s) of
     Inl e \<Rightarrow> (Inl (Sql e), s) | Inr a \<Rightarrow> (Inr (), s\<lparr>as_tables := a\<rparr>))"

definition node_sql :: "(db \<Rightarrow> db_error + db) \<Rightarrow> (asset_state, asset_error, unit) act" where
  "node_sql f = run_sql (\<lambda>a. rbind (f (ad_db a)) (\<lambda>d. Inr (a\<lparr>ad_db := d\<rparr>)))"

definition load_node :: "int \<Rightarrow> (asset_state, asset_error, media_node) act" where
  "load_node i = eread (\<lambda>s. case GetMediaNodeByID i (as_db s) of
     None \<Rightarrow> efail (Sql NoRows) | Some n \<Rightarrow> ereturn n)"

text \<open>A guarded call on the file system.\<close>

definition on_disk :: "(fs \<Rightarrow> guard_error + fs) \<Rightarrow> (asset_state, asset_error, unit) act" where
  "on_disk f s = (case f (as_fs s) of
     Inl e \<Rightarrow> (Inl (GuardRefused e), s) | Inr fs \<Rightarrow> (Inr (), s\<lparr>as_fs := fs\<rparr>))"

lemma run_sql_Inr: "run_sql f s = (Inr u, t) \<longleftrightarrow> (\<exists>a. f (as_tables s) = Inr a \<and> t = s\<lparr>as_tables := a\<rparr>)"
  by (auto simp: run_sql_def split: sum.splits)

lemma node_sql_Inr:
  "node_sql f s = (Inr u, t) \<longleftrightarrow>
     (\<exists>d. f (as_db s) = Inr d \<and> t = s\<lparr>as_tables := (as_tables s)\<lparr>ad_db := d\<rparr>\<rparr>)"
  by (auto simp: node_sql_def run_sql_Inr result_simps)

lemma on_disk_Inr: "on_disk f s = (Inr u, t) \<longleftrightarrow> (\<exists>fs. f (as_fs s) = Inr fs \<and> t = s\<lparr>as_fs := fs\<rparr>)"
  by (auto simp: on_disk_def split: sum.splits)

lemma load_node_Inr: "load_node i s = (Inr n, t) \<longleftrightarrow> GetMediaNodeByID i (as_db s) = Some n \<and> t = s"
  by (auto simp: load_node_def eread_def efail_def ereturn_def split: option.splits)

lemmas sql_Inr = run_sql_Inr node_sql_Inr on_disk_Inr load_node_Inr

lemma keeps_run_sql: "reflp R \<Longrightarrow> (\<And>s a. f (as_tables s) = Inr a \<Longrightarrow> R s (s\<lparr>as_tables := a\<rparr>)) \<Longrightarrow> keeps R (run_sql f)"
  by (auto simp: keeps_def run_sql_def reflpD split: sum.splits)

lemma keeps_node_sql:
  "reflp R \<Longrightarrow> (\<And>s d. f (as_db s) = Inr d \<Longrightarrow> R s (s\<lparr>as_tables := (as_tables s)\<lparr>ad_db := d\<rparr>\<rparr>)) \<Longrightarrow> keeps R (node_sql f)"
  unfolding node_sql_def by (rule keeps_run_sql) (auto simp: result_simps)

lemma keeps_on_disk: "reflp R \<Longrightarrow> (\<And>s fs. f (as_fs s) = Inr fs \<Longrightarrow> R s (s\<lparr>as_fs := fs\<rparr>)) \<Longrightarrow> keeps R (on_disk f)"
  by (auto simp: keeps_def on_disk_def reflpD split: sum.splits)

lemma keeps_load [keeps_intros]: "reflp R \<Longrightarrow> keeps R (load_node i)"
  unfolding load_node_def by (auto intro!: keeps_read keeps_fail keeps_return split: option.splits)

end
