(* ===== verification/Trash.thy ===== *)
theory Trash
  imports AssetTables TrashPurge
begin

text \<open>
  \<open>internal/pipeline/trash.go\<close>: trashing an asset and restoring it. A trashed file is renamed into the
  \<open>.trash\<close> directory of its location and its row marked \<open>TRASHED\<close> in one transaction; a transaction that
  fails is rolled back and the renames undone, newest first. \<open>guard\<close> is \<open>None\<close> for Go's nil. Log lines are
  not modelled; a call whose error is only logged is \<open>etry\<close>.
\<close>

section \<open>Names in the trash\<close>

fun common_prefix :: "string list \<Rightarrow> string list \<Rightarrow> nat" where
  "common_prefix (x # xs) (y # ys) = (if x = y then Suc (common_prefix xs ys) else 0)"
| "common_prefix _ _ = 0"

text \<open>\<open>filepath.Rel\<close> for two absolute paths, which never fails.\<close>

definition path_rel :: "string \<Rightarrow> string \<Rightarrow> string" where
  "path_rel base targ =
     (let b = clean_comps base; t = clean_comps targ; k = common_prefix b t;
          r = replicate (length b - k) dotdot @ drop k t
      in if r = [] then dot else join_slash r)"

text \<open>\<open>filepath.Ext\<close>\<close>

definition path_ext :: "string \<Rightarrow> string" where
  "path_ext p =
     (case last_index p (CHR ''.'') of
        None \<Rightarrow> []
      | Some i \<Rightarrow> if CHR ''/'' \<in> set (drop i p) then [] else drop i p)"

text \<open>\<open>filepath.Join(rt, ".trash", name)\<close> for a nonempty \<open>name\<close>.\<close>

definition in_trash :: "string \<Rightarrow> string \<Rightarrow> string" where
  "in_trash rt name = path_clean (rt @ ''/.trash/'' @ name)"

definition trashPathFor :: "string \<Rightarrow> string \<Rightarrow> string \<Rightarrow> string" where
  "trashPathFor rt rel uuid =
     (let ext = path_ext rel in in_trash rt (trim_suffix rel ext @ ''.'' @ uuid @ ext))"

definition legacyTrashPathFor :: "string \<Rightarrow> string \<Rightarrow> string \<Rightarrow> string" where
  "legacyTrashPathFor rt rel uuid =
     (let ext = path_ext rel in in_trash rt (trim_suffix rel ext @ ''.'' @ take 8 uuid @ ext))"

definition is_hex :: "char \<Rightarrow> bool" where
  "is_hex c \<longleftrightarrow> (let n = of_char c :: nat in 48 \<le> n \<and> n \<le> 57 \<or> 97 \<le> n \<and> n \<le> 102 \<or> 65 \<le> n \<and> n \<le> 70)"

text \<open>The canonical form \<open>8-4-4-4-12\<close>, what \<open>uuid.Parse\<close> accepts of 36 bytes.\<close>

definition isUUID :: "string \<Rightarrow> bool" where
  "isUUID s \<longleftrightarrow> length s = 36 \<and>
     list_all (\<lambda>i. if i \<in> {8, 13, 18, 23} then s ! i = CHR ''-'' else is_hex (s ! i)) [0..<36]"

definition nodeUUIDFromTrashName :: "string \<Rightarrow> string option" where
  "nodeUUIDFromTrashName path =
     (let base = path_base path; ext = path_ext base; id1 = trim_prefix ext ''.''
      in if isUUID id1 then Some id1
         else let stem = trim_suffix base ext; k = length stem - 36
              in if length stem \<le> 36 \<or> stem ! (k - 1) \<noteq> CHR ''.'' then None
                 else if isUUID (drop k stem) then Some (drop k stem) else None)"

text \<open>\<open>filepath.IsLocal\<close> for a result of \<open>filepath.Rel\<close>.\<close>

definition is_local :: "string \<Rightarrow> bool" where
  "is_local rel \<longleftrightarrow> rel \<noteq> ''..'' \<and> \<not> has_prefix rel ''../''"

text \<open>\<open>TrashTimeLookup\<close>: the recorded trash time of a copy, in nanoseconds.\<close>

definition TrashTimeLookup :: "asset_db \<Rightarrow> string \<Rightarrow> string \<Rightarrow> string + int option" where
  "TrashTimeLookup a locRoot path =
     (case nodeUUIDFromTrashName path of
        None \<Rightarrow> Inr None
      | Some uuid \<Rightarrow>
          (case GetTrashedNodeTrashTime uuid a of
             None \<Rightarrow> Inr None
           | Some (_, file, t) \<Rightarrow>
               let rel = path_rel locRoot file
               in if \<not> is_local rel \<or> trashPathFor locRoot rel uuid \<noteq> path_clean path then Inr None
                  else Inr (Some (t * 1000000000))))"

section \<open>The move log\<close>

definition record_move :: "string \<Rightarrow> string \<Rightarrow> asset_state \<Rightarrow> asset_state" where
  "record_move old new s = s\<lparr>as_moves := as_moves s @ [(old, new)]\<rparr>"

definition undo_move :: "guard option \<Rightarrow> string \<times> string \<Rightarrow> fs \<Rightarrow> fs" where
  "undo_move g = (\<lambda>(old, new) fs.
     case g of None \<Rightarrow> fs
     | Some g \<Rightarrow> (case Rename g new old fs of Inl _ \<Rightarrow> fs | Inr fs' \<Rightarrow> fs'))"

definition undo :: "guard option \<Rightarrow> asset_state \<Rightarrow> asset_state" where
  "undo g s = s\<lparr>as_fs := fold (undo_move g) (rev (as_moves s)) (as_fs s), as_moves := []\<rparr>"

section \<open>Moving files\<close>

definition stamp :: "guard \<Rightarrow> string \<Rightarrow> (asset_state, asset_error, unit) act" where
  "stamp g path = etry (eread (\<lambda>s. on_disk (Chtimes g path (fs_now (as_fs s)))))"

definition moveToTrashLogged :: "guard \<Rightarrow> string \<Rightarrow> string \<Rightarrow> string \<Rightarrow> (asset_state, asset_error, unit) act" where
  "moveToTrashLogged g rt file uuid =
     (let rel = path_rel rt file; trash = trashPathFor rt rel uuid
      in if has_prefix rel ''..'' then efail (NotUnderRoot file)
         else if uuid = [] then efail EmptyUUID
         else ebind (on_disk (MkdirAll g (path_dir trash))) (\<lambda>_.
           eread (\<lambda>s. case os_open file (as_fs s) of
               Inl e \<Rightarrow> if e = NotExist then ereturn () else efail (StatFailed e)
             | Inr _ \<Rightarrow>
                 ebind (on_disk (Rename g file trash)) (\<lambda>_.
                   ebind (emod (record_move file trash)) (\<lambda>_. stamp g trash)))))"

text \<open>\<open>os.Stat\<close> as a test: the path is there, is not there, or cannot be looked at.\<close>

definition stat_exists :: "string \<Rightarrow> (asset_state, asset_error, bool) act" where
  "stat_exists p = eread (\<lambda>s. case os_open p (as_fs s) of
      Inr _ \<Rightarrow> ereturn True
    | Inl e \<Rightarrow> if e = NotExist then ereturn False else efail (StatFailed e))"

text \<open>The copy to restore: a legacy short name is used only when the full name is absent.\<close>

definition found :: "fs \<Rightarrow> string \<Rightarrow> bool" where
  "found fs p = (case os_open p fs of Inr _ \<Rightarrow> True | Inl _ \<Rightarrow> False)"

definition trash_copy :: "fs \<Rightarrow> string \<Rightarrow> string \<Rightarrow> string \<Rightarrow> string" where
  "trash_copy fs rt rel uuid =
     (let trash = trashPathFor rt rel uuid; legacy = legacyTrashPathFor rt rel uuid
      in if os_open trash fs = Inl NotExist \<and> legacy \<noteq> trash \<and> found fs legacy
         then legacy else trash)"

definition restoreFromTrash :: "guard \<Rightarrow> string \<Rightarrow> string \<Rightarrow> (asset_state, asset_error, unit) act" where
  "restoreFromTrash g file uuid = eread (\<lambda>s.
     case Resolve g (as_fs s) file of
       Inl e \<Rightarrow> efail (GuardRefused e)
     | Inr l \<Rightarrow>
         if gl_virtual l then ereturn ()
         else if uuid = [] then efail EmptyUUID
         else let rel = path_rel (gl_root l) file; trash = trash_copy (as_fs s) (gl_root l) rel uuid
           in if has_prefix rel ''..'' then efail (NotUnderRoot file)
              else ebind (stat_exists file) (\<lambda>original. ebind (stat_exists trash) (\<lambda>copy.
                if \<not> original \<and> copy then
                  ebind (on_disk (MkdirAll g (path_dir file))) (\<lambda>_.
                    ebind (on_disk (Rename g trash file)) (\<lambda>_. emod (record_move trash file)))
                else if original \<and> \<not> copy then ereturn ()
                else if \<not> original \<and> \<not> copy then efail (ErrAssetTrashFileMissing trash)
                else efail (ErrAssetAlreadyExists file trash))))"

section \<open>Trashing\<close>

definition markTrashed :: "int \<Rightarrow> (asset_state, asset_error, unit) act" where
  "markTrashed i = ebind (node_sql (MarkNodeTrashed i)) (\<lambda>_. run_sql (RecordNodeTrashed i))"

definition markUntrashed :: "int \<Rightarrow> (asset_state, asset_error, unit) act" where
  "markUntrashed i = ebind (node_sql (UntrashNode i)) (\<lambda>_. emod (on_tables (ClearNodeTrashed i)))"

definition isCascadeExportEdge :: "media_edge \<Rightarrow> bool" where
  "isCascadeExportEdge e \<longleftrightarrow>
     \<not> (e_rel e \<noteq> ''FINAL_EXPORT'' \<and> e_resolver e \<noteq> ''immich_export'') \<and>
     (e_review e = AUTO_ACCEPTED \<or> e_review e = CONFIRMED)"

definition protected_tier :: "location \<Rightarrow> bool" where
  "protected_tier l \<longleftrightarrow> gl_readonly l \<or> gl_tier l = TIER3_MASTER_ARCHIVE"

text \<open>Marking an export and recording the cascade.\<close>

definition trash_export_row :: "int \<Rightarrow> int \<Rightarrow> (asset_state, asset_error, unit) act" where
  "trash_export_row parent i =
     ebind (markTrashed i) (\<lambda>_. ebind (run_sql (RecordTrashCascade parent i)) (\<lambda>_.
       emod (on_tables (DeleteRemoteSyncStateForNode i))))"

definition trash_export :: "guard option \<Rightarrow> int \<Rightarrow> media_node \<Rightarrow> (asset_state, asset_error, unit) act" where
  "trash_export g parent ex =
     (case g of
        None \<Rightarrow> trash_export_row parent (n_id ex)
      | Some g \<Rightarrow>
          if n_path ex = [] then trash_export_row parent (n_id ex)
          else eread (\<lambda>s. case Resolve g (as_fs s) (n_path ex) of
              Inl _ \<Rightarrow> ereturn ()
            | Inr l \<Rightarrow>
                if gl_readonly l \<or> gl_virtual l \<or> gl_tier l = TIER3_MASTER_ARCHIVE then ereturn ()
                else ebind (moveToTrashLogged g (gl_root l) (n_path ex) (n_uuid ex)) (\<lambda>_.
                  trash_export_row parent (n_id ex))))"

definition purge_edge :: "guard option \<Rightarrow> int \<Rightarrow> media_edge \<Rightarrow> (asset_state, asset_error, unit) act" where
  "purge_edge g parent e =
     (if \<not> isCascadeExportEdge e then ereturn ()
      else eread (\<lambda>s. case GetMediaNodeByID (e_target e) (as_db s) of
          None \<Rightarrow> ereturn ()
        | Some ex \<Rightarrow>
            if n_life ex = TRASHED \<or> n_life ex = MISSING then ereturn ()
            else trash_export g parent ex))"

definition purgeLinkedExports :: "guard option \<Rightarrow> int \<Rightarrow> (asset_state, asset_error, unit) act" where
  "purgeLinkedExports g parent = eread (\<lambda>s. efold (purge_edge g parent) (ListEdgesBySource parent (as_db s)))"

definition purgeRemoteSyncStateForLinkedExports :: "int \<Rightarrow> asset_db \<Rightarrow> asset_db" where
  "purgeRemoteSyncStateForLinkedExports parent a =
     fold (\<lambda>e. DeleteRemoteSyncStateForNode (e_target e))
       (filter isCascadeExportEdge (ListEdgesBySource parent (ad_db a))) a"

text \<open>The master's own file: virtual and protected locations are left alone on disk.\<close>

definition trash_master_file :: "guard option \<Rightarrow> media_node \<Rightarrow> (asset_state, asset_error, unit) act" where
  "trash_master_file g m =
     (case g of
        None \<Rightarrow> ereturn ()
      | Some g \<Rightarrow>
          if n_path m = [] then ereturn ()
          else eread (\<lambda>s. case Resolve g (as_fs s) (n_path m) of
              Inl e \<Rightarrow> efail (GuardRefused e)
            | Inr l \<Rightarrow>
                if gl_virtual l then ereturn ()
                else if protected_tier l then ereturn ()
                else moveToTrashLogged g (gl_root l) (n_path m) (n_uuid m)))"

definition finish_trash :: "int \<Rightarrow> bool \<Rightarrow> (asset_state, asset_error, media_node) act" where
  "finish_trash i keepExports =
     ebind (markTrashed i) (\<lambda>_.
     ebind (emod (on_tables (DeleteRemoteSyncStateForNode i))) (\<lambda>_.
     ebind (ewhen (\<not> keepExports) (emod (on_tables (purgeRemoteSyncStateForLinkedExports i)))) (\<lambda>_.
       load_node i)))"

definition trashAssetTx :: "guard option \<Rightarrow> int \<Rightarrow> bool \<Rightarrow> (asset_state, asset_error, media_node) act" where
  "trashAssetTx g i keepExports =
     ebind (load_node i) (\<lambda>m.
       if n_life m = TRASHED then ereturn m
       else if n_life m = ARCHIVED then efail (ErrAssetNotTrashed i)
       else
         ebind (trash_master_file g m) (\<lambda>_.
         ebind (ewhen (\<not> keepExports) (purgeLinkedExports g (n_id m))) (\<lambda>_.
         finish_trash (n_id m) keepExports)))"

section \<open>Restoring\<close>

definition check_path_free :: "media_node \<Rightarrow> (asset_state, asset_error, unit) act" where
  "check_path_free m = eread (\<lambda>s. case GetLiveNodeByPath (n_path m) (as_db s) of
       Some live \<Rightarrow> if n_id live \<noteq> n_id m then efail (ErrAssetPathCollision (n_id live)) else ereturn ()
     | None \<Rightarrow> ereturn ())"

definition restore_export :: "guard option \<Rightarrow> int \<Rightarrow> (asset_state, asset_error, unit) act" where
  "restore_export g i = eread (\<lambda>s.
     case GetMediaNodeByID i (as_db s) of
       None \<Rightarrow> ereturn ()
     | Some ex \<Rightarrow>
         ebind (emod (on_tables (CloseTrashCascadesForExport (n_id ex)))) (\<lambda>_.
           if n_life ex \<noteq> TRASHED then ereturn ()
           else ebind
             (case g of
                None \<Rightarrow> ereturn ()
              | Some g \<Rightarrow>
                  if n_path ex = [] then ereturn ()
                  else (\<lambda>s. case restoreFromTrash g (n_path ex) (n_uuid ex) s of
                      (Inl (ErrAssetTrashFileMissing p), t) \<Rightarrow> (Inr (), t)
                    | r \<Rightarrow> r))
             (\<lambda>_. markUntrashed (n_id ex))))"

definition restoreLinkedExports :: "guard option \<Rightarrow> int \<Rightarrow> (asset_state, asset_error, unit) act" where
  "restoreLinkedExports g parent =
     eread (\<lambda>s. efold (restore_export g) (ListOpenTrashCascadeExports parent (as_tables s)))"

definition check_restorable :: "media_node \<Rightarrow> (asset_state, asset_error, unit) act" where
  "check_restorable m =
     (if n_life m \<noteq> TRASHED then efail (ErrAssetNotTrashed (n_id m))
      else case n_superseded m of
        Some w \<Rightarrow> if w \<noteq> 0 then efail (ErrAssetHasSuperseded w) else check_path_free m
      | None \<Rightarrow> check_path_free m)"

definition restore_master_file :: "guard option \<Rightarrow> media_node \<Rightarrow> (asset_state, asset_error, unit) act" where
  "restore_master_file g m =
     (case g of
        None \<Rightarrow> ereturn ()
      | Some g \<Rightarrow> if n_path m = [] then ereturn () else restoreFromTrash g (n_path m) (n_uuid m))"

definition restoreTrashedAssetTx :: "guard option \<Rightarrow> int \<Rightarrow> (asset_state, asset_error, media_node) act" where
  "restoreTrashedAssetTx g i =
     ebind (load_node i) (\<lambda>m.
     ebind (check_restorable m) (\<lambda>_.
     ebind (restore_master_file g m) (\<lambda>_.
     ebind (markUntrashed (n_id m)) (\<lambda>_.
     ebind (emod (on_tables (CloseTrashCascadesForExport (n_id m)))) (\<lambda>_.
     ebind (restoreLinkedExports g (n_id m)) (\<lambda>_.
     load_node (n_id m)))))))"

section \<open>Transactions\<close>

text \<open>
  \<open>DB.InTx\<close> around an operation: its error puts the tables back; the files it moved stay moved, and
  the log says which.
\<close>

definition asset_tx :: "(asset_state, 'e, 'a) act \<Rightarrow> (asset_state, 'e, 'a) act" where
  "asset_tx m s = (case m s of
     (Inl e, t) \<Rightarrow> (Inl e, t\<lparr>as_tables := as_tables s\<rparr>) | (Inr x, t) \<Rightarrow> (Inr x, t))"

text \<open>A transaction with its own move log, undone when the transaction fails.\<close>

definition with_undo :: "guard option \<Rightarrow> (asset_state, 'e, 'a) act \<Rightarrow> (asset_state, 'e, 'a) act" where
  "with_undo g m s = (case asset_tx m (s\<lparr>as_moves := []\<rparr>) of
     (Inl e, t) \<Rightarrow> (Inl e, undo g t) | (Inr x, t) \<Rightarrow> (Inr x, t\<lparr>as_moves := []\<rparr>))"

definition TrashAsset :: "guard option \<Rightarrow> int \<Rightarrow> bool \<Rightarrow> (asset_state, asset_error, media_node) act" where
  "TrashAsset g i keepExports = with_undo g (trashAssetTx g i keepExports)"

definition RestoreTrashedAsset :: "guard option \<Rightarrow> int \<Rightarrow> (asset_state, asset_error, media_node) act" where
  "RestoreTrashedAsset g i = with_undo g (restoreTrashedAssetTx g i)"

end
