(* ===== verification/Drainer.thy ===== *)
theory Drainer
  imports Trash Engine Commit PairingTables
begin

text \<open>
  \<open>internal/agent\<close>: the queue of events a paired device sends (\<open>types.go\<close>, \<open>alias.go\<close>, \<open>ownership.go\<close>)
  and the drainer that applies them, one transaction per event (\<open>drainer.go\<close>). A payload is JSON text;
  \<open>json.Unmarshal\<close> into each payload struct, the shortest decimal of a float and the text of an error are
  fields of \<open>drainer\<close>, so the theorems hold for every decoding and wording. Reads of the database do not
  fail. The clock is the database's; \<open>dr_tick\<close> is the time that passes while an event is handled.
\<close>

section \<open>Payloads and errors\<close>

record node_created =
  nc_uuid :: string
  nc_path :: string
  nc_name :: string
  nc_ext :: string
  nc_size :: int
  nc_mtime :: int
  nc_fast :: "string option"
  nc_full :: "string option"
  nc_srchash :: "string option"
  nc_phash :: "64 word option"
  nc_camera :: "string option"
  nc_serial :: "string option"
  nc_lens :: "string option"
  nc_captured :: "int option"
  nc_origdoc :: "string option"
  nc_doc :: "string option"
  nc_derived :: "string option"
  nc_stem :: "string option"
  nc_lat :: "float64 option"
  nc_lon :: "float64 option"

record edge_attached =
  ea_source :: string
  ea_target :: string
  ea_source_id :: int
  ea_target_id :: int
  ea_rel :: string
  ea_conf :: float64
  ea_tier :: int
  ea_resolver :: string
  ea_evidence :: "evidence option"
  ea_review :: string

record virtual_node =
  vn_uuid :: string
  vn_path :: string
  vn_name :: string
  vn_type :: string
  vn_evidence :: string

record node_moved =
  mv_uuid :: string
  mv_path :: string
  mv_name :: string
  mv_mtime :: int

record path_rebased =
  rb_uuid :: string
  rb_path :: string
  rb_name :: string
  rb_mtime :: int
  rb_fast :: "string option"
  rb_full :: "string option"
  rb_size :: int

datatype drain_error =
    ErrUnknownEventType
  | ErrMalformedPayload
  | ErrNodeNotFound
  | ErrInvalidNodeUUID
  | ErrReadOnlyRebase
  | ErrArchivedNode
  | ErrTrashedNode
  | ErrWouldCreateCycle
  | ErrArchiveFileNotYetPresent string
  | ErrVirtualPathNotVirtual
  | ErrCrossAgentCollision
  | ErrNotNodeOwner
  | ErrHashConflict
  | GuardMissing string
  | AssetFailed asset_error

record drainer =
  dr_guard :: "guard option"
  dr_max :: int
  dr_engine :: "resolver list option"
  dr_immich :: bool
  dr_pairings :: pairing_db
  dr_tick :: "int \<Rightarrow> int"
  dr_text :: "drain_error \<Rightarrow> string"
  dr_float :: "float64 \<Rightarrow> string"
  dr_created :: "string \<Rightarrow> node_created option"
  dr_attached :: "string \<Rightarrow> edge_attached option"
  dr_moved :: "string \<Rightarrow> node_moved option"
  dr_deleted :: "string \<Rightarrow> string option"
  dr_rebased :: "string \<Rightarrow> path_rebased option"
  dr_virtual :: "string \<Rightarrow> virtual_node option"

text \<open>A statement's error whose text has SQLite's \<open>constraint failed\<close>.\<close>

definition constraint_error :: "db_error \<Rightarrow> bool" where
  "constraint_error e \<longleftrightarrow> e \<noteq> NoRows \<and> e \<noteq> MintUuid"

definition isFatal :: "drainer \<Rightarrow> drain_error \<Rightarrow> bool" where
  "isFatal dr e \<longleftrightarrow>
     e \<in> {ErrMalformedPayload, ErrUnknownEventType, ErrInvalidNodeUUID, ErrReadOnlyRebase, ErrArchivedNode,
          ErrTrashedNode, ErrWouldCreateCycle, ErrVirtualPathNotVirtual, ErrCrossAgentCollision,
          ErrNotNodeOwner, ErrHashConflict} \<or>
     contains (dr_text dr e) ''constraint failed''"

section \<open>Retry policy\<close>

definition DefaultMaxRetries :: int where "DefaultMaxRetries = 20"
definition DefaultRetryBaseDelay :: int where "DefaultRetryBaseDelay = 5 * 1000000000"
definition DefaultRetryMaxDelay :: int where "DefaultRetryMaxDelay = 3600 * 1000000000"

text \<open>The loop of \<open>RetryDelay\<close>: \<open>k\<close> iterations to go, \<open>d\<close> the delay so far.\<close>

fun retry_loop :: "nat \<Rightarrow> int \<Rightarrow> int" where
  "retry_loop 0 d = d"
| "retry_loop (Suc k) d =
     (let d' = d * 2 in if DefaultRetryMaxDelay \<le> d' then DefaultRetryMaxDelay else retry_loop k d')"

definition RetryDelay :: "int \<Rightarrow> int" where
  "RetryDelay attempts = retry_loop (nat (attempts - 1)) DefaultRetryBaseDelay"

definition SetMaxRetries :: "int \<Rightarrow> drainer \<Rightarrow> drainer" where
  "SetMaxRetries n dr = dr\<lparr>dr_max := (if n \<le> 0 then 1 else n)\<rparr>"

section \<open>Identity and ownership\<close>

definition ValidNodeUUID :: "string \<Rightarrow> bool" where
  "ValidNodeUUID s \<longleftrightarrow> isUUID s"

definition lower_hex :: "char \<Rightarrow> bool" where
  "lower_hex c \<longleftrightarrow> (let n = of_char c :: nat in 48 \<le> n \<and> n \<le> 57 \<or> 97 \<le> n \<and> n \<le> 102)"

definition ValidFullHash :: "string \<Rightarrow> bool" where
  "ValidFullHash s \<longleftrightarrow> length s = 64 \<and> list_all lower_hex s"

text \<open>The node a uuid names for an agent, and whether through an alias; \<open>None\<close> is \<open>sql.ErrNoRows\<close>.\<close>

definition LookupNodeByUUID :: "string \<Rightarrow> string \<Rightarrow> asset_db \<Rightarrow> (media_node \<times> bool) option" where
  "LookupNodeByUUID agent u a =
     (case GetMediaNodeByUUID u (ad_db a) of
        Some n \<Rightarrow> Some (n, False)
      | None \<Rightarrow>
          (case GetNodeUUIDAlias u a of
             None \<Rightarrow> None
           | Some al \<Rightarrow>
               if na_agent al \<noteq> agent then None
               else map_option (\<lambda>n. (n, True)) (GetMediaNodeByUUID (na_node al) (ad_db a))))"

definition owns :: "string \<Rightarrow> string \<Rightarrow> asset_db \<Rightarrow> bool" where
  "owns agent u a \<longleftrightarrow> (case GetNodeCreator u a of None \<Rightarrow> False | Some c \<Rightarrow> c \<noteq> [] \<and> c = agent)"

definition FullHashUpdate :: "string option \<Rightarrow> string \<Rightarrow> drain_error + bool" where
  "FullHashUpdate stored incoming =
     (if \<not> ValidFullHash incoming then Inl ErrMalformedPayload
      else if stored = None \<or> stored = Some [] then Inr True
      else if stored = Some incoming then Inr False
      else Inl ErrHashConflict)"

definition resolveAgentUserID :: "drainer \<Rightarrow> string \<Rightarrow> int option" where
  "resolveAgentUserID dr agent =
     (case GetDevicePairingByAgentID agent (dr_pairings dr) of
        None \<Rightarrow> None
      | Some p \<Rightarrow> if dp_revoked p \<noteq> None then None
                  else (case dp_user p of Some u \<Rightarrow> if u \<noteq> 0 then Some u else None | None \<Rightarrow> None))"

section \<open>Operations of an event's transaction\<close>

type_synonym 'a event_op = "(asset_state, drain_error, 'a) act"

definition asset :: "(asset_state, asset_error, 'a) act \<Rightarrow> 'a event_op" where
  "asset m s = (case m s of (Inl e, t) \<Rightarrow> (Inl (AssetFailed e), t) | (Inr x, t) \<Rightarrow> (Inr x, t))"

abbreviation on_db :: "(db \<Rightarrow> db) \<Rightarrow> unit event_op" where
  "on_db f \<equiv> emod (on_tables (\<lambda>a. a\<lparr>ad_db := f (ad_db a)\<rparr>))"

definition guarded :: "bool \<Rightarrow> drain_error \<Rightarrow> unit event_op" where
  "guarded b e = (if b then efail e else ereturn ())"

definition require_owner :: "string \<Rightarrow> string \<Rightarrow> unit event_op" where
  "require_owner agent u = eread (\<lambda>s. guarded (\<not> owns agent u (as_tables s)) ErrNotNodeOwner)"

definition recordContentAlias :: "string \<Rightarrow> string \<Rightarrow> string \<Rightarrow> unit event_op" where
  "recordContentAlias al u agent =
     (if al = u then ereturn () else asset (run_sql (InsertNodeUUIDAlias al u agent)))"

text \<open>Pointer fields that are absent or empty are stored as NULL.\<close>

definition nonempty :: "string option \<Rightarrow> string option" where
  "nonempty v = (case v of None \<Rightarrow> None | Some s \<Rightarrow> if s = [] then None else Some s)"

definition or_default :: "string \<Rightarrow> string \<Rightarrow> string" where
  "or_default s d = (if s = [] then d else s)"

definition clean_source_hash :: "string option \<Rightarrow> string option" where
  "clean_source_hash v =
     (case nonempty v of
        None \<Rightarrow> None
      | Some s \<Rightarrow> let h = to_lower (trim_space s)
                  in if length h = 64 \<and> list_all is_hex h then Some h else None)"

definition need_guard :: "drainer \<Rightarrow> string \<Rightarrow> guard event_op" where
  "need_guard dr path = (case dr_guard dr of None \<Rightarrow> efail (GuardMissing path) | Some g \<Rightarrow> ereturn g)"

definition resolve_location :: "guard \<Rightarrow> string \<Rightarrow> location event_op" where
  "resolve_location g path = eread (\<lambda>s. case Resolve g (as_fs s) path of
     Inl _ \<Rightarrow> efail ErrMalformedPayload | Inr l \<Rightarrow> ereturn l)"

definition insert_node :: "new_node \<Rightarrow> media_node event_op" where
  "insert_node a = asset (\<lambda>s. case InsertMediaNode a (as_db s) of
     Inl e \<Rightarrow> (Inl (Sql e), s)
   | Inr (n, d) \<Rightarrow> (Inr n, s\<lparr>as_tables := (as_tables s)\<lparr>ad_db := d\<rparr>\<rparr>))"

text \<open>The rows that go with a new node: its creator and where its hash comes from.\<close>

definition record_creation :: "string \<Rightarrow> string \<Rightarrow> media_node \<Rightarrow> string option \<Rightarrow> unit event_op" where
  "record_creation agent u n full =
     ebind (asset (run_sql (SetNodeCreator u agent))) (\<lambda>_. on_db (RecordFullHashSource (n_id n) full AGENT))"

section \<open>New nodes\<close>

definition created_row :: "drainer \<Rightarrow> string \<Rightarrow> node_created \<Rightarrow> location \<Rightarrow> int \<Rightarrow> new_node" where
  "created_row dr agent p l now =
     \<lparr>i_uuid = nc_uuid p, i_loc = gl_id l, i_path = nc_path p,
      i_name = or_default (nc_name p) (path_base (nc_path p)), i_ext = or_default (nc_ext p) (path_ext (nc_path p)),
      i_size = nc_size p, i_mtime = (if nc_mtime p = 0 then now else nc_mtime p),
      i_fast = nonempty (nc_fast p), i_full = nonempty (nc_full p), i_phash = nc_phash p,
      i_indexing = IndexingStatusFor (nonempty (nc_full p)), i_graph = UNLINKED, i_life = ACTIVE,
      i_origdoc = nonempty (nc_origdoc p), i_doc = nonempty (nc_doc p), i_derived = nonempty (nc_derived p),
      i_captured = nc_captured p, i_camera = nonempty (nc_camera p), i_stem = nonempty (nc_stem p),
      i_serial = nonempty (nc_serial p), i_lens = nonempty (nc_lens p),
      i_srchash = clean_source_hash (nc_srchash p), i_uploader = resolveAgentUserID dr agent\<rparr>"

definition writeGPSMetadata :: "drainer \<Rightarrow> int \<Rightarrow> node_created \<Rightarrow> db \<Rightarrow> db" where
  "writeGPSMetadata dr i p d =
     (let d1 = (case nc_lat p of None \<Rightarrow> d
                | Some x \<Rightarrow> InsertNodeMetadata i ''exiftool'' ''Composite:GPSLatitude'' (dr_float dr x) d)
      in case nc_lon p of None \<Rightarrow> d1
         | Some x \<Rightarrow> InsertNodeMetadata i ''exiftool'' ''Composite:GPSLongitude'' (dr_float dr x) d1)"

text \<open>Content the server already holds: the device's uuid becomes an alias of that node.\<close>

definition dedup :: "string \<Rightarrow> string \<Rightarrow> string option \<Rightarrow> int event_op \<Rightarrow> int event_op" where
  "dedup agent u full otherwise = eread (\<lambda>s.
     case nonempty full of
       None \<Rightarrow> otherwise
     | Some h \<Rightarrow>
         (case GetMediaNodeByFullHash (Some h) (as_db s) of
            None \<Rightarrow> otherwise
          | Some ex \<Rightarrow> ebind (recordContentAlias u (n_uuid ex) agent) (\<lambda>_. ereturn 0)))"

definition check_created :: "node_created \<Rightarrow> unit event_op" where
  "check_created p =
     ebind (guarded (\<not> ValidNodeUUID (nc_uuid p)) ErrInvalidNodeUUID) (\<lambda>_.
     ebind (guarded (nc_path p = []) ErrMalformedPayload) (\<lambda>_.
       guarded (\<exists>h \<in> set_option (nonempty (nc_full p)). \<not> ValidFullHash h) ErrMalformedPayload))"

definition insert_created :: "drainer \<Rightarrow> string \<Rightarrow> node_created \<Rightarrow> int event_op" where
  "insert_created dr agent p =
     ebind (need_guard dr (nc_path p)) (\<lambda>g.
     ebind (resolve_location g (nc_path p)) (\<lambda>l.
     eread (\<lambda>s. ecase (insert_node (created_row dr agent p l (db_clock (as_db s))))
       (\<lambda>e. dedup agent (nc_uuid p) (nc_full p) (efail e))
       (\<lambda>n. ebind (record_creation agent (nc_uuid p) n (nonempty (nc_full p))) (\<lambda>_.
          ebind (on_db (writeGPSMetadata dr (n_id n) p)) (\<lambda>_. ereturn (n_id n)))))))"

definition applyNodeCreated :: "drainer \<Rightarrow> agent_event \<Rightarrow> int event_op" where
  "applyNodeCreated dr ev =
     (case dr_created dr (ev_payload ev) of
        None \<Rightarrow> efail ErrMalformedPayload
      | Some p \<Rightarrow>
          ebind (check_created p) (\<lambda>_. eread (\<lambda>s.
            if LookupNodeByUUID (ev_agent ev) (nc_uuid p) (as_tables s) \<noteq> None then ereturn 0
            else dedup (ev_agent ev) (nc_uuid p) (nc_full p) (insert_created dr (ev_agent ev) p))))"

section \<open>Edges\<close>

definition agentMaxEdgeTier :: int where "agentMaxEdgeTier = 2"

definition agent_tier :: "int \<Rightarrow> int" where
  "agent_tier t = (let t' = (if t \<le> 0 then 1 else t) in if agentMaxEdgeTier < t' then agentMaxEdgeTier else t')"

definition agent_rel :: "edge_attached \<Rightarrow> string" where
  "agent_rel p = or_default (ea_rel p) ''DERIVED_FROM''"

text \<open>The checks of the payload, before the database is read.\<close>

definition check_attached :: "edge_attached \<Rightarrow> unit event_op" where
  "check_attached p =
     ebind (guarded (ea_source_id p \<noteq> 0 \<or> ea_target_id p \<noteq> 0) ErrMalformedPayload) (\<lambda>_.
     ebind (guarded (ea_source p = []) ErrMalformedPayload) (\<lambda>_.
     ebind (guarded (ea_target p = []) ErrMalformedPayload) (\<lambda>_.
     ebind (guarded (\<not> ValidNodeUUID (ea_source p) \<or> \<not> ValidNodeUUID (ea_target p)) ErrInvalidNodeUUID) (\<lambda>_.
     ebind (guarded (\<not> IsValidRelationshipType (agent_rel p)) ErrMalformedPayload) (\<lambda>_.
     ebind (guarded (ea_review p = ''CONFIRMED'' \<or> ea_review p = ''REJECTED'') ErrMalformedPayload) (\<lambda>_.
     ebind (guarded (ea_conf p \<le> 0 \<or> 1 < ea_conf p) ErrMalformedPayload) (\<lambda>_.
       guarded (ea_conf p < NeedsReviewFloor) ErrMalformedPayload)))))))"

definition lookup_node :: "string \<Rightarrow> string \<Rightarrow> (media_node \<times> bool) event_op" where
  "lookup_node agent u = eread (\<lambda>s. case LookupNodeByUUID agent u (as_tables s) of
     None \<Rightarrow> efail (AssetFailed (Sql NoRows)) | Some r \<Rightarrow> ereturn r)"

definition agent_review :: "bool \<Rightarrow> edge_attached \<Rightarrow> review_state" where
  "agent_review targetOwned p =
     (if targetOwned \<and> AutoAcceptThresholdForTier (agent_tier (ea_tier p)) \<le> ea_conf p then AUTO_ACCEPTED
      else NEEDS_REVIEW)"

definition agent_edge :: "edge_attached \<Rightarrow> int \<Rightarrow> int \<Rightarrow> bool \<Rightarrow> new_edge" where
  "agent_edge p src tgt targetOwned =
     \<lparr>u_source = src, u_target = tgt, u_rel = agent_rel p, u_conf = ea_conf p, u_tier = agent_tier (ea_tier p),
      u_resolver = or_default (ea_resolver p) ''agent'',
      u_evidence = (case ea_evidence p of None \<Rightarrow> EvObject [] | Some e \<Rightarrow> e),
      u_review = agent_review targetOwned p\<rparr>"

text \<open>\<open>isDuplicateEdgeError\<close>\<close>

definition isDuplicateEdgeError :: "asset_error \<Rightarrow> bool" where
  "isDuplicateEdgeError e \<longleftrightarrow> e = Sql EdgeKey"

definition insert_edge :: "new_edge \<Rightarrow> unit event_op" where
  "insert_edge u = ecase (node_sql (CreateMediaEdge u))
     (\<lambda>e. if isDuplicateEdgeError e then ereturn () else efail (AssetFailed e)) ereturn"

definition attach_edge :: "string \<Rightarrow> edge_attached \<Rightarrow> media_node \<Rightarrow> media_node \<Rightarrow> unit event_op" where
  "attach_edge agent p src tgt = eread (\<lambda>s.
     let owned = owns agent (n_uuid tgt) (as_tables s)
     in if WouldCreateCycle (n_id src) (n_id tgt) (as_db s) then efail ErrWouldCreateCycle
        else ebind (insert_edge (agent_edge p (n_id src) (n_id tgt) owned)) (\<lambda>_.
          asset (node_sql (RecomputeStatusFromPersistedEdges (n_id tgt)))))"

definition applyEdgeAttached :: "drainer \<Rightarrow> agent_event \<Rightarrow> unit event_op" where
  "applyEdgeAttached dr ev =
     (case dr_attached dr (ev_payload ev) of
        None \<Rightarrow> efail ErrMalformedPayload
      | Some p \<Rightarrow>
          ebind (check_attached p) (\<lambda>_.
          ebind (lookup_node (ev_agent ev) (ea_source p)) (\<lambda>(src, _).
          ebind (lookup_node (ev_agent ev) (ea_target p)) (\<lambda>(tgt, _).
            attach_edge (ev_agent ev) p src tgt))))"

section \<open>Moves and deletions\<close>

text \<open>\<open>resolveRebaseTarget\<close>\<close>

definition resolveRebaseTarget :: "guard \<Rightarrow> fs \<Rightarrow> string \<Rightarrow> drain_error + location" where
  "resolveRebaseTarget g fs path =
     (case Resolve g fs path of
        Inl _ \<Rightarrow> Inl ErrMalformedPayload
      | Inr l \<Rightarrow>
          if \<not> gl_readonly l \<and> gl_tier l \<noteq> TIER3_MASTER_ARCHIVE then Inr l
          else if gl_tier l \<noteq> TIER3_MASTER_ARCHIVE then Inl ErrReadOnlyRebase
          else case Exists g path fs of
            Inl _ \<Rightarrow> Inl ErrMalformedPayload
          | Inr b \<Rightarrow> if b then Inr l else Inl (ErrArchiveFileNotYetPresent path))"

definition rebase_target :: "guard \<Rightarrow> string \<Rightarrow> location event_op" where
  "rebase_target g path = eread (\<lambda>s. elift (resolveRebaseTarget g (as_fs s) path))"

definition find_node :: "string \<Rightarrow> string \<Rightarrow> (media_node \<times> bool) event_op" where
  "find_node agent u = eread (\<lambda>s. case LookupNodeByUUID agent u (as_tables s) of
     None \<Rightarrow> efail ErrNodeNotFound | Some r \<Rightarrow> ereturn r)"

text \<open>What refuses to move a node: its state, then its owner.\<close>

definition check_movable :: "string \<Rightarrow> media_node \<Rightarrow> string \<Rightarrow> unit event_op" where
  "check_movable agent n u =
     ebind (guarded (n_life n = ARCHIVED) ErrArchivedNode) (\<lambda>_.
     ebind (guarded (n_life n = TRASHED) ErrTrashedNode) (\<lambda>_. require_owner agent u))"

definition rebase_row :: "string \<Rightarrow> string \<Rightarrow> string \<Rightarrow> location \<Rightarrow> int \<Rightarrow> unit event_op" where
  "rebase_row u path name l mtime =
     asset (node_sql (RebaseNodePathByUUID u path (or_default name (path_base path)) (gl_id l) mtime))"

definition applyNodeMoved :: "drainer \<Rightarrow> agent_event \<Rightarrow> unit event_op" where
  "applyNodeMoved dr ev =
     (case dr_moved dr (ev_payload ev) of
        None \<Rightarrow> efail ErrMalformedPayload
      | Some p \<Rightarrow>
          ebind (guarded (\<not> ValidNodeUUID (mv_uuid p)) ErrInvalidNodeUUID) (\<lambda>_.
          ebind (guarded (mv_path p = []) ErrMalformedPayload) (\<lambda>_.
          ebind (find_node (ev_agent ev) (mv_uuid p)) (\<lambda>(n, aliased).
            if aliased then ereturn ()
            else
              ebind (check_movable (ev_agent ev) n (mv_uuid p)) (\<lambda>_.
              ebind (need_guard dr (mv_path p)) (\<lambda>g.
              ebind (rebase_target g (mv_path p)) (\<lambda>l.
                rebase_row (mv_uuid p) (mv_path p) (mv_name p) l
                  (if mv_mtime p = 0 then n_mtime n else mv_mtime p))))))))"

text \<open>The result is the list of nodes whose deletion triggers an Immich scan once the event commits.\<close>

definition applyNodeDeleted :: "drainer \<Rightarrow> agent_event \<Rightarrow> int list event_op" where
  "applyNodeDeleted dr ev =
     (case dr_deleted dr (ev_payload ev) of
        None \<Rightarrow> efail ErrMalformedPayload
      | Some u \<Rightarrow>
          ebind (guarded (\<not> ValidNodeUUID u) ErrInvalidNodeUUID) (\<lambda>_.
          ebind (find_node (ev_agent ev) u) (\<lambda>(n, aliased).
            if aliased then ereturn []
            else
              ebind (require_owner (ev_agent ev) u) (\<lambda>_.
              ebind (if n_life n \<noteq> ARCHIVED
                     then ebind (asset (trashAssetTx (dr_guard dr) (n_id n) False)) (\<lambda>_. ereturn ())
                     else ereturn ()) (\<lambda>_.
                ereturn (if dr_immich dr then [n_id n] else []))))))"

section \<open>Rebasing\<close>

definition set_hash :: "int \<Rightarrow> string option \<Rightarrow> unit event_op" where
  "set_hash i h = asset (node_sql (UpdateMediaNodeFullHash i h))"

text \<open>The hash of a known node: decided before the row is touched.\<close>

definition hash_decision :: "media_node \<Rightarrow> path_rebased \<Rightarrow> drain_error + bool" where
  "hash_decision n p = (case nonempty (rb_full p) of None \<Rightarrow> Inr False | Some h \<Rightarrow> FullHashUpdate (n_full n) h)"

definition rebase_known :: "string \<Rightarrow> path_rebased \<Rightarrow> media_node \<Rightarrow> location \<Rightarrow> int \<Rightarrow> unit event_op" where
  "rebase_known agent p n l mtime =
     ebind (check_movable agent n (rb_uuid p)) (\<lambda>_.
     ebind (elift (hash_decision n p)) (\<lambda>setHash.
     ebind (rebase_row (rb_uuid p) (rb_path p) (rb_name p) l mtime) (\<lambda>_.
       if setHash then
         ebind (set_hash (n_id n) (rb_full p)) (\<lambda>_. on_db (RecordFullHashSource (n_id n) (rb_full p) AGENT))
       else ewhen (nonempty (n_full n) \<noteq> None \<and> n_indexing n \<noteq> INDEXED_FULL) (set_hash (n_id n) (n_full n)))))"

definition rebased_row :: "drainer \<Rightarrow> string \<Rightarrow> path_rebased \<Rightarrow> location \<Rightarrow> int \<Rightarrow> new_node" where
  "rebased_row dr agent p l mtime =
     \<lparr>i_uuid = rb_uuid p, i_loc = gl_id l, i_path = rb_path p, i_name = or_default (rb_name p) (path_base (rb_path p)),
      i_ext = path_ext (rb_path p), i_size = rb_size p, i_mtime = mtime, i_fast = rb_fast p,
      i_full = nonempty (rb_full p), i_phash = None, i_indexing = IndexingStatusFor (nonempty (rb_full p)),
      i_graph = UNLINKED, i_life = ACTIVE, i_origdoc = None, i_doc = None, i_derived = None, i_captured = None,
      i_camera = None, i_stem = None, i_serial = None, i_lens = None, i_srchash = None,
      i_uploader = resolveAgentUserID dr agent\<rparr>"

definition rebase_unknown :: "drainer \<Rightarrow> string \<Rightarrow> path_rebased \<Rightarrow> location \<Rightarrow> int \<Rightarrow> int event_op" where
  "rebase_unknown dr agent p l mtime =
     dedup agent (rb_uuid p) (rb_full p)
       (ebind (insert_node (rebased_row dr agent p l mtime)) (\<lambda>n.
        ebind (record_creation agent (rb_uuid p) n (nonempty (rb_full p))) (\<lambda>_. ereturn (n_id n))))"

definition applyPathRebased :: "drainer \<Rightarrow> agent_event \<Rightarrow> int event_op" where
  "applyPathRebased dr ev =
     (case dr_rebased dr (ev_payload ev) of
        None \<Rightarrow> efail ErrMalformedPayload
      | Some p \<Rightarrow>
          ebind (guarded (\<not> ValidNodeUUID (rb_uuid p)) ErrInvalidNodeUUID) (\<lambda>_.
          ebind (guarded (rb_path p = []) ErrMalformedPayload) (\<lambda>_.
          eread (\<lambda>s.
            let known = LookupNodeByUUID (ev_agent ev) (rb_uuid p) (as_tables s)
            in if \<exists>r \<in> set_option known. snd r then ereturn 0
               else
                 ebind (need_guard dr (rb_path p)) (\<lambda>g.
                 ebind (rebase_target g (rb_path p)) (\<lambda>l.
                   let mtime = (if rb_mtime p = 0 then db_clock (as_db s) else rb_mtime p)
                   in case known of
                        Some (n, _) \<Rightarrow> ebind (rebase_known (ev_agent ev) p n l mtime) (\<lambda>_. ereturn 0)
                      | None \<Rightarrow> rebase_unknown dr (ev_agent ev) p l mtime))))))"

section \<open>Virtual nodes\<close>

definition index_byte :: "string \<Rightarrow> char \<Rightarrow> nat option" where
  "index_byte s c = (if c \<in> set s then Some (length (takeWhile (\<lambda>x. x \<noteq> c) s)) else None)"

definition extractPathAgentSegment :: "string \<Rightarrow> string \<Rightarrow> string option" where
  "extractPathAgentSegment filePath rootPath =
     (let prefix = rootPath @ ''/''; rest = trim_prefix filePath prefix
      in if \<not> has_prefix filePath prefix then None
         else case index_byte rest (CHR ''/'') of
           None \<Rightarrow> None
         | Some i \<Rightarrow> if take i rest = [] then None else Some (take i rest))"

definition hex_value :: "char \<Rightarrow> nat" where
  "hex_value c = (let n = of_char c :: nat in if n \<le> 57 then n - 48 else if n \<le> 70 then n - 55 else n - 87)"

text \<open>\<open>url.PathUnescape\<close>; \<open>None\<close> is an invalid escape.\<close>

fun path_unescape :: "string \<Rightarrow> string option" where
  "path_unescape [] = Some []"
| "path_unescape (c # s) =
     (if c = CHR ''%'' then
        (case s of
           a # b # t \<Rightarrow>
             if is_hex a \<and> is_hex b
             then map_option (\<lambda>u. char_of (16 * hex_value a + hex_value b) # u) (path_unescape t)
             else None
         | _ \<Rightarrow> None)
      else map_option (\<lambda>u. c # u) (path_unescape s))"

definition display_name :: "virtual_node \<Rightarrow> string" where
  "display_name p =
     (if vn_name p = [] then
        (let b = path_base (vn_path p) in case path_unescape b of Some u \<Rightarrow> u | None \<Rightarrow> b)
      else vn_name p)"

definition evidence_source :: "virtual_node \<Rightarrow> string" where
  "evidence_source p = (if vn_type p = [] then ''virtual_evidence'' else vn_type p @ ''_evidence'')"

definition persist_evidence :: "int \<Rightarrow> virtual_node \<Rightarrow> unit event_op" where
  "persist_evidence i p = ewhen (vn_evidence p \<noteq> [])
     (on_db (InsertNodeMetadata i (evidence_source p) ''evidence_json'' (vn_evidence p)))"

definition virtual_row :: "virtual_node \<Rightarrow> location \<Rightarrow> new_node" where
  "virtual_row p l =
     \<lparr>i_uuid = vn_uuid p, i_loc = gl_id l, i_path = vn_path p, i_name = display_name p, i_ext = [], i_size = 0,
      i_mtime = 0, i_fast = None, i_full = None, i_phash = None, i_indexing = INDEXED_SHALLOW, i_graph = UNLINKED,
      i_life = ACTIVE, i_origdoc = None, i_doc = None, i_derived = None, i_captured = None, i_camera = None,
      i_stem = None, i_serial = None, i_lens = None, i_srchash = None, i_uploader = None\<rparr>"

text \<open>A path that is taken is reused by the agent its second segment names, or when it names none.\<close>

definition reuse_virtual :: "string \<Rightarrow> virtual_node \<Rightarrow> location \<Rightarrow> drain_error \<Rightarrow> int event_op" where
  "reuse_virtual agent p l err = eread (\<lambda>s.
     case (case err of AssetFailed (Sql e) \<Rightarrow> if constraint_error e then GetMediaNodeByFilePath (vn_path p) (as_db s) else None
           | _ \<Rightarrow> None) of
       None \<Rightarrow> efail err
     | Some ex \<Rightarrow>
         (case extractPathAgentSegment (vn_path p) (gl_root l) of
            Some owner \<Rightarrow>
              if owner = agent then ebind (persist_evidence (n_id ex) p) (\<lambda>_. ereturn (n_id ex))
              else efail ErrCrossAgentCollision
          | None \<Rightarrow> ebind (persist_evidence (n_id ex) p) (\<lambda>_. ereturn (n_id ex))))"

definition insert_virtual :: "string \<Rightarrow> virtual_node \<Rightarrow> location \<Rightarrow> int event_op" where
  "insert_virtual agent p l =
     ecase (insert_node (virtual_row p l)) (reuse_virtual agent p l) (\<lambda>n.
       ebind (asset (run_sql (SetNodeCreator (vn_uuid p) agent))) (\<lambda>_.
       ebind (persist_evidence (n_id n) p) (\<lambda>_. ereturn (n_id n))))"

definition applyVirtualNodeCreated :: "drainer \<Rightarrow> agent_event \<Rightarrow> int event_op" where
  "applyVirtualNodeCreated dr ev =
     (case dr_virtual dr (ev_payload ev) of
        None \<Rightarrow> efail ErrMalformedPayload
      | Some p \<Rightarrow>
          ebind (guarded (\<not> ValidNodeUUID (vn_uuid p)) ErrInvalidNodeUUID) (\<lambda>_.
          ebind (guarded (vn_path p = []) ErrMalformedPayload) (\<lambda>_.
          eread (\<lambda>s.
            if GetMediaNodeByUUID (vn_uuid p) (as_db s) \<noteq> None then ereturn 0
            else
              ebind (need_guard dr (vn_path p)) (\<lambda>g.
              ebind (resolve_location g (vn_path p)) (\<lambda>l.
              ebind (guarded (\<not> gl_virtual l) ErrVirtualPathNotVirtual) (\<lambda>_.
                insert_virtual (ev_agent ev) p l)))))))"

section \<open>The queue\<close>

text \<open>\<open>applyEvent\<close>: the node to resolve (0 for none) and the after-commit scans.\<close>

definition applyEvent :: "drainer \<Rightarrow> agent_event \<Rightarrow> (int \<times> int list) event_op" where
  "applyEvent dr ev =
     (if ev_type ev = ''EVENT_NODE_CREATED'' then ebind (applyNodeCreated dr ev) (\<lambda>i. ereturn (i, []))
      else if ev_type ev = ''EVENT_EDGE_ATTACHED'' then ebind (applyEdgeAttached dr ev) (\<lambda>_. ereturn (0, []))
      else if ev_type ev = ''EVENT_NODE_MOVED'' then ebind (applyNodeMoved dr ev) (\<lambda>_. ereturn (0, []))
      else if ev_type ev = ''EVENT_NODE_DELETED'' then ebind (applyNodeDeleted dr ev) (\<lambda>h. ereturn (0, h))
      else if ev_type ev = ''EVENT_PATH_REBASED'' then ebind (applyPathRebased dr ev) (\<lambda>i. ereturn (i, []))
      else if ev_type ev = ''EVENT_VIRTUAL_NODE_CREATED'' then ebind (applyVirtualNodeCreated dr ev) (\<lambda>i. ereturn (i, []))
      else efail ErrUnknownEventType)"

record drain_stats =
  ds_processed :: nat
  ds_failed :: nat
  ds_scans :: "int list"

definition no_stats :: drain_stats where
  "no_stats = \<lparr>ds_processed = 0, ds_failed = 0, ds_scans = []\<rparr>"

definition event_tx :: "drainer \<Rightarrow> agent_event \<Rightarrow> (int \<times> int list) event_op" where
  "event_tx dr ev = with_undo (dr_guard dr)
     (ebind (applyEvent dr ev) (\<lambda>r.
      ebind (emod (on_tables (MarkAgentEventProcessed (ev_id ev)))) (\<lambda>_. ereturn r)))"

text \<open>Edges of a node an event inserted, in a transaction of their own whose failure is only logged.\<close>

definition resolve_created :: "drainer \<Rightarrow> int \<Rightarrow> asset_state \<Rightarrow> asset_state" where
  "resolve_created dr i s =
     (case dr_engine dr of
        None \<Rightarrow> s
      | Some resolvers \<Rightarrow>
          if i = 0 then s
          else case GetMediaNodeByID i (as_db s) of
            None \<Rightarrow> s
          | Some n \<Rightarrow> on_tables (\<lambda>a. a\<lparr>ad_db :=
              snd (ResolveAndCommit resolvers (dbLookup (ad_db a)) (ToNode n) (ad_db a))\<rparr>) s)"

definition settle_error :: "drainer \<Rightarrow> agent_event \<Rightarrow> drain_error \<Rightarrow> drain_stats \<times> asset_state \<Rightarrow> drain_stats \<times> asset_state" where
  "settle_error dr ev e = (\<lambda>(st, s).
     let attempts = ev_retry ev + 1
     in if isFatal dr e \<or> dr_max dr \<le> attempts
        then (st\<lparr>ds_failed := ds_failed st + 1\<rparr>, on_tables (MarkAgentEventFailed (ev_id ev) (dr_text dr e)) s)
        else (st, on_tables (\<lambda>a. ScheduleAgentEventRetry (ev_id ev) (dr_text dr e)
                    (db_clock (ad_db a) + RetryDelay attempts div 1000000000) a) s))"

definition pass_time :: "drainer \<Rightarrow> asset_state \<Rightarrow> asset_state" where
  "pass_time dr = on_tables (\<lambda>a. a\<lparr>ad_db := (ad_db a)\<lparr>db_clock := dr_tick dr (db_clock (ad_db a))\<rparr>\<rparr>)"

definition process_event :: "drainer \<Rightarrow> agent_event \<Rightarrow> drain_stats \<times> asset_state \<Rightarrow> drain_stats \<times> asset_state" where
  "process_event dr ev = (\<lambda>(st, s).
     case event_tx dr ev (pass_time dr s) of
       (Inl e, t) \<Rightarrow> settle_error dr ev e (st, t)
     | (Inr (i, scans), t) \<Rightarrow>
         (st\<lparr>ds_processed := ds_processed st + 1, ds_scans := ds_scans st @ scans\<rparr>, resolve_created dr i t))"

definition ProcessPending :: "drainer \<Rightarrow> int \<Rightarrow> asset_state \<Rightarrow> drain_stats \<times> asset_state" where
  "ProcessPending dr batchSize s =
     (let k = (if batchSize \<le> 0 then 50 else batchSize);
          evs = ListPendingAgentEvents (db_clock (as_db s)) (nat k) (as_tables s)
      in fold (process_event dr) evs (no_stats, s))"

end
