(* ===== verification/DrainerEffects.thy ===== *)
theory DrainerEffects
  imports Drainer
begin

text \<open>
  What an event can do to the tables. \<open>effect T G Q agent U\<close> relates the state before to the state after:
  rows whose id and uuid do not satisfy \<open>T\<close> stay verbatim, but for the graph status of those whose id
  satisfies \<open>G\<close>; edge rows stay verbatim and new ones satisfy \<open>Q\<close>,
  a new creator entry names \<open>agent\<close> and a uuid of \<open>U\<close>, no hash is newly vouched for by the server, and
  the queue is not touched. It is proved along the text of every operation by the frame rules.
\<close>

section \<open>Effects\<close>

text \<open>A row that stays, but for the status the graph gives it.\<close>

definition row_same :: "media_node \<Rightarrow> media_node \<Rightarrow> bool" where
  "row_same n n' \<longleftrightarrow> (\<exists>g u. n' = n\<lparr>n_graph := g, n_updated := u\<rparr>)"

definition edges_grow :: "(media_edge \<Rightarrow> bool) \<Rightarrow> db \<Rightarrow> db \<Rightarrow> bool" where
  "edges_grow Q d d' \<longleftrightarrow> set (db_edges d) \<subseteq> set (db_edges d') \<and>
     (\<forall>e \<in> set (db_edges d') - set (db_edges d). Q e)"

definition server_hashes :: "db \<Rightarrow> (int \<times> string) set" where
  "server_hashes d = {(p_node p, p_full p) | p. p \<in> set (db_provs d) \<and> p_source p = SERVER}"

definition creators_kept :: "string \<Rightarrow> string set \<Rightarrow> asset_db \<Rightarrow> asset_db \<Rightarrow> bool" where
  "creators_kept agent U a a' \<longleftrightarrow> (\<forall>u. GetNodeCreator u a' = GetNodeCreator u a \<or>
     GetNodeCreator u a = None \<and> GetNodeCreator u a' = Some agent \<and> u \<in> U)"

lemma row_same_refl [simp]: "row_same n n"
  unfolding row_same_def by (intro exI [of _ "n_graph n"] exI [of _ "n_updated n"]) simp

lemma row_same_trans: "row_same a b \<Longrightarrow> row_same b c \<Longrightarrow> row_same a c"
  unfolding row_same_def by (elim exE) (simp, blast)

text \<open>One row under an operation.\<close>

definition row_kept :: "(int \<Rightarrow> string \<Rightarrow> bool) \<Rightarrow> (int \<Rightarrow> bool) \<Rightarrow> media_node \<Rightarrow> media_node \<Rightarrow> bool" where
  "row_kept T G n n' \<longleftrightarrow> n_id n' = n_id n \<and> n_uuid n' = n_uuid n \<and>
     (\<not> T (n_id n) (n_uuid n) \<longrightarrow> n' = n \<or> G (n_id n) \<and> row_same n n')"

lemma row_kept_trans:
  assumes "row_kept T G a b" "row_kept T G b c"
  shows "row_kept T G a c"
proof (cases "T (n_id a) (n_uuid a)")
  case False
  then have "b = a \<or> G (n_id a) \<and> row_same a b" "c = b \<or> G (n_id a) \<and> row_same b c"
    using assms by (simp_all add: row_kept_def)
  then have "c = a \<or> G (n_id a) \<and> row_same a c" using row_same_trans [of a b c] by blast
  then show ?thesis using assms by (simp add: row_kept_def)
qed (use assms in \<open>simp add: row_kept_def\<close>)

definition rows_kept :: "(int \<Rightarrow> string \<Rightarrow> bool) \<Rightarrow> (int \<Rightarrow> bool) \<Rightarrow> db \<Rightarrow> db \<Rightarrow> bool" where
  "rows_kept T G d d' \<longleftrightarrow> (\<forall>n \<in> set (db_nodes d). \<exists>n' \<in> set (db_nodes d'). row_kept T G n n')"

lemma row_kept_refl [simp]: "row_kept T G n n"
  by (simp add: row_kept_def)

lemma rows_kept_refl [simp]: "rows_kept T G d d"
  unfolding rows_kept_def by (blast intro: row_kept_refl)

lemma rows_kept_trans: "rows_kept T G a b \<Longrightarrow> rows_kept T G b c \<Longrightarrow> rows_kept T G a c"
  unfolding rows_kept_def by (blast intro: row_kept_trans)

definition effect :: "(int \<Rightarrow> string \<Rightarrow> bool) \<Rightarrow> (int \<Rightarrow> bool) \<Rightarrow> (media_edge \<Rightarrow> bool) \<Rightarrow> string \<Rightarrow> string set \<Rightarrow> asset_state \<Rightarrow> asset_state \<Rightarrow> bool" where
  "effect T G Q agent U s t \<longleftrightarrow> rows_kept T G (as_db s) (as_db t) \<and> edges_grow Q (as_db s) (as_db t) \<and>
     server_hashes (as_db t) \<subseteq> server_hashes (as_db s) \<and>
     creators_kept agent U (as_tables s) (as_tables t) \<and> ad_events (as_tables t) = ad_events (as_tables s) \<and>
     (db_ok (as_db s) \<longrightarrow> db_ok (as_db t))"

lemma edges_grow_refl [simp]: "edges_grow Q d d"
  by (simp add: edges_grow_def)

lemma edges_grow_trans: "edges_grow Q a b \<Longrightarrow> edges_grow Q b c \<Longrightarrow> edges_grow Q a c"
  unfolding edges_grow_def by blast

lemma creators_kept_refl [simp]: "creators_kept agent U a a"
  by (simp add: creators_kept_def)

lemma creators_kept_trans: "creators_kept agent U a b \<Longrightarrow> creators_kept agent U b c \<Longrightarrow> creators_kept agent U a c"
  unfolding creators_kept_def by metis

lemma effect_refl [simp]: "effect T G Q agent U s s"
  by (simp add: effect_def)

lemma effect_trans: "effect T G Q agent U s t \<Longrightarrow> effect T G Q agent U t u \<Longrightarrow> effect T G Q agent U s u"
  unfolding effect_def
  by (elim conjE, intro conjI)
    (blast intro: rows_kept_trans edges_grow_trans creators_kept_trans elim: order_trans | simp)+

lemma effect_reflp [simp]: "reflp (effect T G Q agent U)"
  by (simp add: reflp_def)

lemma effect_transp [simp]: "transp (effect T G Q agent U)"
  by (rule transpI) (rule effect_trans)

text \<open>A bigger allowance.\<close>

lemma effect_mono:
  assumes "effect T G Q agent U s t" "\<And>i u. T i u \<Longrightarrow> T' i u" "\<And>i. G i \<Longrightarrow> G' i" "U \<subseteq> U'" "\<And>e. Q e \<Longrightarrow> Q' e"
  shows "effect T' G' Q' agent U' s t"
proof -
  have "rows_kept T' G' (as_db s) (as_db t)"
    using assms(1-3) unfolding effect_def rows_kept_def row_kept_def by (elim conjE) (intro ballI, drule (1) bspec, blast)
  moreover have "edges_grow Q' (as_db s) (as_db t)" using assms(1,5) unfolding effect_def edges_grow_def by blast
  moreover have "creators_kept agent U' (as_tables s) (as_tables t)" using assms(1,4) unfolding effect_def creators_kept_def by blast
  ultimately show ?thesis using assms(1) by (simp add: effect_def)
qed

text \<open>Operations that leave the tables alone.\<close>

definition tables_same :: "asset_state \<Rightarrow> asset_state \<Rightarrow> bool" where
  "tables_same s t \<longleftrightarrow> as_tables t = as_tables s"

lemma tables_same_props [simp]: "reflp tables_same" "transp tables_same"
  by (auto simp: tables_same_def reflp_def intro: transpI)

lemma effect_same: "tables_same s t \<Longrightarrow> effect T G Q agent U s t"
  by (simp add: tables_same_def effect_def)

lemma rows_kept_appended: "db_nodes d' = db_nodes d @ ns \<Longrightarrow> rows_kept T G d d'"
  unfolding rows_kept_def by (auto intro: row_kept_refl)

lemma rows_kept_same: "db_nodes d' = db_nodes d \<Longrightarrow> rows_kept T G d d'"
  using rows_kept_appended [of d' d "[]"] by simp

section \<open>Statements\<close>

lemma effect_db:
  assumes "rows_kept T G (as_db s) d" "edges_grow Q (as_db s) d" "server_hashes d \<subseteq> server_hashes (as_db s)"
    "db_ok (as_db s) \<Longrightarrow> db_ok d"
  shows "effect T G Q agent U s (s\<lparr>as_tables := (as_tables s)\<lparr>ad_db := d\<rparr>\<rparr>)"
  using assms by (simp add: effect_def creators_kept_def GetNodeCreator_def)

lemma server_hashes_same: "db_provs d' = db_provs d \<Longrightarrow> server_hashes d' = server_hashes d"
  by (simp add: server_hashes_def)

lemma edges_grow_same: "db_edges d' = db_edges d \<Longrightarrow> edges_grow Q d d'"
  by (simp add: edges_grow_def)

lemma effect_update_nodes:
  assumes "\<And>s d. f (as_db s) = Inr d \<Longrightarrow> \<exists>P g. update_nodes P g (as_db s) = Inr d \<and>
      (\<forall>n. n_id (g n) = n_id n \<and> n_uuid (g n) = n_uuid n) \<and>
      (\<forall>n \<in> set (db_nodes (as_db s)). P n \<longrightarrow> T (n_id n) (n_uuid n) \<or> G (n_id n) \<and> row_same n (g n))"
  shows "keeps (effect T G Q agent U) (node_sql f)"
proof (rule keeps_node_sql)
  fix s d assume "f (as_db s) = Inr d"
  then obtain P g where u: "update_nodes P g (as_db s) = Inr d" and
    g: "\<And>n. n_id (g n) = n_id n \<and> n_uuid (g n) = n_uuid n" and
    T: "\<And>n. n \<in> set (db_nodes (as_db s)) \<Longrightarrow> P n \<Longrightarrow> T (n_id n) (n_uuid n) \<or> G (n_id n) \<and> row_same n (g n)"
    using assms by metis
  have d: "d = (as_db s)\<lparr>db_nodes := map (\<lambda>n. if P n then g n else n) (db_nodes (as_db s))\<rparr>"
    using u by (simp add: update_nodes_Inr)
  show "effect T G Q agent U s (s\<lparr>as_tables := (as_tables s)\<lparr>ad_db := d\<rparr>\<rparr>)"
  proof (rule effect_db)
    show "rows_kept T G (as_db s) d"
      unfolding rows_kept_def
    proof
      fix n assume n: "n \<in> set (db_nodes (as_db s))"
      have "(if P n then g n else n) \<in> set (db_nodes d)" using n by (auto simp: d)
      then show "\<exists>n' \<in> set (db_nodes d). row_kept T G n n'"
        using T [OF n] g unfolding row_kept_def by (intro bexI [of _ "if P n then g n else n"]) auto
    qed
  qed (use update_nodes_ok [OF u] g in \<open>auto simp: d edges_grow_def server_hashes_def\<close>)
qed simp

lemma effect_mark_trashed: "(\<And>u. T i u) \<Longrightarrow> keeps (effect T G Q agent U) (node_sql (MarkNodeTrashed i))"
  by (rule effect_update_nodes) (auto simp: MarkNodeTrashed_def intro!: exI)

lemma effect_rebase:
  "(\<And>i. T i u) \<Longrightarrow> keeps (effect T G Q agent U) (node_sql (RebaseNodePathByUUID u p nm loc mt))"
  by (rule effect_update_nodes) (auto simp: RebaseNodePathByUUID_def intro!: exI)

lemma effect_full_hash: "(\<And>u. T i u) \<Longrightarrow> keeps (effect T G Q agent U) (node_sql (UpdateMediaNodeFullHash i h))"
  by (rule effect_update_nodes) (auto simp: UpdateMediaNodeFullHash_def intro!: exI)

lemma effect_recompute: "G i \<Longrightarrow> keeps (effect T G Q agent U) (node_sql (RecomputeStatusFromPersistedEdges i))"
  by (rule effect_update_nodes)
    (auto simp: RecomputeStatusFromPersistedEdges_def UpdateMediaNodeGraphStatus_def row_same_def intro!: exI)

lemma effect_other_tables:
  "ad_db a = ad_db (as_tables s) \<Longrightarrow> ad_creators a = ad_creators (as_tables s) \<Longrightarrow> ad_events a = ad_events (as_tables s) \<Longrightarrow>
   effect T G Q agent U s (s\<lparr>as_tables := a\<rparr>)"
  by (simp add: effect_def creators_kept_def GetNodeCreator_def)

lemma effect_run_sql:
  "(\<And>a a'. f a = Inr a' \<Longrightarrow> ad_db a' = ad_db a \<and> ad_creators a' = ad_creators a \<and> ad_events a' = ad_events a) \<Longrightarrow>
   keeps (effect T G Q agent U) (run_sql f)"
  by (rule keeps_run_sql) (auto intro: effect_other_tables)

lemma effect_on_tables:
  "(\<And>a. ad_db (f a) = ad_db a \<and> ad_creators (f a) = ad_creators a \<and> ad_events (f a) = ad_events a) \<Longrightarrow>
   keeps (effect T G Q agent U) (emod (on_tables f))"
  by (rule keeps_mod) (auto simp: on_tables_def intro: effect_other_tables)

lemma effect_set_creator: "u \<in> U \<Longrightarrow> keeps (effect T G Q agent U) (run_sql (SetNodeCreator u agent))"
proof (rule keeps_run_sql)
  fix s :: asset_state and a assume u: "u \<in> U" and a: "SetNodeCreator u agent (as_tables s) = Inr a"
  then have "a = as_tables s \<or> GetNodeCreator u (as_tables s) = None \<and>
      a = (as_tables s)\<lparr>ad_creators := ad_creators (as_tables s) @ [(u, agent)]\<rparr>"
    by (auto simp: SetNodeCreator_def split: if_splits)
  then show "effect T G Q agent U s (s\<lparr>as_tables := a\<rparr>)"
    using u by (auto simp: effect_def creators_kept_def GetNodeCreator_def map_add_def split: option.splits if_splits)
qed simp

lemma effect_on_db:
  assumes "\<And>d. db_nodes (f d) = db_nodes d \<and> db_edges (f d) = db_edges d \<and> db_locs (f d) = db_locs d \<and>
      db_users (f d) = db_users d \<and> server_hashes (f d) \<subseteq> server_hashes d"
  shows "keeps (effect T G Q agent U) (on_db f)"
proof (rule keeps_mod)
  fix s :: asset_state
  have f: "db_nodes (f (as_db s)) = db_nodes (as_db s)" "db_edges (f (as_db s)) = db_edges (as_db s)"
    "db_locs (f (as_db s)) = db_locs (as_db s)" "db_users (f (as_db s)) = db_users (as_db s)"
    "server_hashes (f (as_db s)) \<subseteq> server_hashes (as_db s)" using assms by simp_all
  have "db_ok (f (as_db s)) = db_ok (as_db s)"
    using node_violation_cong [OF f(1,3,4)] edge_violation_cong [OF f(2)] f(1) by (simp add: db_ok_def)
  moreover have "rows_kept T G (as_db s) (f (as_db s))"
    using f(1) by (rule rows_kept_same)
  ultimately show "effect T G Q agent U s (on_tables (\<lambda>a. a\<lparr>ad_db := f (ad_db a)\<rparr>) s)"
    unfolding on_tables_def using f by (intro effect_db) (simp_all add: edges_grow_same)
qed

text \<open>A hash an agent asserts is never one the server comes to vouch for.\<close>

lemma server_hashes_agent: "server_hashes (RecordFullHashSource i h AGENT d) \<subseteq> server_hashes d"
proof (cases "\<exists>h'. h = Some h' \<and> length h' = 64")
  case False
  then have "RecordFullHashSource i h AGENT d = d" by (auto simp: RecordFullHashSource_def split: option.splits)
  then show ?thesis by simp
next
  case True
  then obtain h' where h': "RecordFullHashSource i h AGENT d = RecordFullHashProvenance i h' AGENT d"
    by (auto simp: RecordFullHashSource_def)
  have old: "(p_node p, p_full p) \<in> server_hashes d" if "p \<in> set (db_provs d)" "p_source p = SERVER" for p
    using that by (auto simp: server_hashes_def)
  have merged: "p_source p = SERVER \<and> p_full (merge_prov p (new_prov i h' AGENT now)) = p_full p \<and>
      p_node (merge_prov p (new_prov i h' AGENT now)) = p_node p"
    if "p_source (merge_prov p (new_prov i h' AGENT now)) = SERVER" for p now
    using that by (auto simp: merge_prov_def new_prov_def Let_def split: if_splits)
  show ?thesis
  proof
    fix x assume "x \<in> server_hashes (RecordFullHashSource i h AGENT d)"
    then obtain q where q: "x = (p_node q, p_full q)" "p_source q = SERVER"
        "q \<in> set (db_provs (RecordFullHashProvenance i h' AGENT d))"
      by (auto simp: server_hashes_def h')
    consider "q = new_prov i h' AGENT (db_clock d)" | "q \<in> set (db_provs d)"
      | p where "p \<in> set (db_provs d)" "q = merge_prov p (new_prov i h' AGENT (db_clock d))"
      using q(3) by (auto simp: RecordFullHashProvenance_def Let_def split: if_splits)
    then show "x \<in> server_hashes d"
    proof cases
      case 1
      then show ?thesis using q(2) by (simp add: new_prov_def)
    next
      case 2
      then show ?thesis using old q by simp
    next
      case 3
      then show ?thesis using old merged q by metis
    qed
  qed
qed

lemma effect_agent_hash: "keeps (effect T G Q agent U) (on_db (RecordFullHashSource i h AGENT))"
  by (rule effect_on_db)
    (use server_hashes_agent in \<open>auto simp: RecordFullHashSource_def RecordFullHashProvenance_def Let_def split: option.splits\<close>)

lemma effect_metadata: "keeps (effect T G Q agent U) (on_db (InsertNodeMetadata i src k v))"
  by (rule effect_on_db) (auto simp: InsertNodeMetadata_def server_hashes_def)

lemma effect_gps: "keeps (effect T G Q agent U) (on_db (writeGPSMetadata dr i p))"
  by (rule effect_on_db)
    (auto simp: writeGPSMetadata_def InsertNodeMetadata_def server_hashes_def Let_def split: option.splits)

lemma InsertMediaNode_ok:
  assumes "InsertMediaNode a d = Inr (n, d')"
  shows "db_nodes d' = db_nodes d @ [n]" "db_edges d' = db_edges d" "db_provs d' = db_provs d" "db_ok d \<Longrightarrow> db_ok d'"
    "n_uuid n = i_uuid a" "n_id n \<notin> n_id ` set (db_nodes d)"
proof -
  have d': "d' = d\<lparr>db_nodes := db_nodes d @ [n]\<rparr>" "node_violation d' = None"
    "n = node_row (next_rowid (map n_id (db_nodes d))) (db_clock d) a"
    using assms by (auto simp: InsertMediaNode_def Let_def result_simps)
  then show "db_nodes d' = db_nodes d @ [n]" "db_edges d' = db_edges d" "db_provs d' = db_provs d" "n_uuid n = i_uuid a"
    by (simp_all add: node_row_def)
  show "n_id n \<notin> n_id ` set (db_nodes d)"
    using d'(3) next_rowid_fresh [of _ "map n_id (db_nodes d)"] by (fastforce simp: node_row_def)
  show "db_ok d'" if "db_ok d"
    using that d' by (auto simp: db_ok_def edge_violation_None)
qed

lemma keeps_asset: "keeps R m \<Longrightarrow> keeps R (asset m)"
  by (auto simp: keeps_def asset_def split: prod.splits sum.splits) (metis snd_conv)+

lemma effect_insert: "keeps (effect T G Q agent U) (insert_node a)"
  unfolding insert_node_def
proof (rule keeps_asset, rule keepsI)
  fix s r t
  assume "(case InsertMediaNode a (as_db s) of Inl e \<Rightarrow> (Inl (Sql e), s)
    | Inr (n, d) \<Rightarrow> (Inr n, s\<lparr>as_tables := (as_tables s)\<lparr>ad_db := d\<rparr>\<rparr>)) = (r, t)"
  then consider "t = s" | n d where "InsertMediaNode a (as_db s) = Inr (n, d)" "t = s\<lparr>as_tables := (as_tables s)\<lparr>ad_db := d\<rparr>\<rparr>"
    by (auto split: sum.splits)
  then show "effect T G Q agent U s t"
  proof cases
    case 2
    note ok = InsertMediaNode_ok [OF 2(1)]
    have "rows_kept T G (as_db s) d" using ok(1) by (rule rows_kept_appended)
    then show ?thesis unfolding 2(2)
      using ok(4) by (intro effect_db edges_grow_same ok(2)) (simp_all only: server_hashes_same [OF ok(3)] order_refl)
  qed simp
qed

lemma effect_create_edge:
  assumes "\<And>i now. Q (edge_row i now u)"
  shows "keeps (effect T G Q agent U) (node_sql (CreateMediaEdge u))"
proof (rule keeps_node_sql)
  fix s d assume "CreateMediaEdge u (as_db s) = Inr d"
  then obtain i now where d: "d = (as_db s)\<lparr>db_edges := db_edges (as_db s) @ [edge_row i now u]\<rparr>" "edge_violation d = None"
    by (auto simp: CreateMediaEdge_def Let_def result_simps split: if_splits)
  have nodes: "db_nodes d = db_nodes (as_db s)" and provs: "db_provs d = db_provs (as_db s)" by (simp_all add: d(1))
  have "node_violation d = node_violation (as_db s)" by (rule node_violation_cong) (simp_all add: d(1))
  moreover have "edges_grow Q (as_db s) d" using assms by (auto simp: edges_grow_def d(1))
  ultimately show "effect T G Q agent U s (s\<lparr>as_tables := (as_tables s)\<lparr>ad_db := d\<rparr>\<rparr>)"
    using d(2) by (intro effect_db rows_kept_same [OF nodes])
      (simp_all only: db_ok_def server_hashes_same [OF provs] order_refl simp_thms)
qed simp

lemmas effect_rules = effect_run_sql effect_on_tables effect_agent_hash effect_metadata effect_gps effect_insert
  effect_mark_trashed effect_set_creator

section \<open>Operations run from a given state\<close>

text \<open>An operation whose prefix keeps \<open>K\<close> and whose rest keeps \<open>R\<close> from every state \<open>K\<close> leads to.\<close>

lemma leaves_bind:
  assumes "keeps K m" "\<And>t. K s t \<Longrightarrow> R s t" "\<And>x t. m s = (Inr x, t) \<Longrightarrow> K s t \<Longrightarrow> R s (snd (f x t))"
  shows "R s (snd (ebind m f s))"
proof (cases "m s")
  case (Pair r t)
  have "K s t" using keepsD [OF assms(1) Pair] .
  then show ?thesis using Pair assms(2,3) by (cases r) (simp_all add: ebind_def)
qed

lemma leaves_keeps: "keeps R m \<Longrightarrow> R s (snd (m s))"
  by (simp add: keeps_def)

lemma keeps_pureD: "keeps (=) m \<Longrightarrow> m s = (r, t) \<Longrightarrow> t = s"
  by (metis keepsD)

lemma eq_props: "reflp (=)" "transp (=)"
  by (auto simp: reflp_def intro: transpI)

lemma pure_guarded: "keeps (=) (guarded b e)"
  unfolding guarded_def by (auto intro!: keeps_return keeps_fail eq_props)

lemmas pure_steps = keeps_bind [OF eq_props(2)] keeps_read keeps_return [OF eq_props(1)] keeps_fail [OF eq_props(1)]
  keeps_lift [OF eq_props(1)] pure_guarded

lemma pure_load: "keeps (=) (load_node i)"
  by (rule keeps_load) (rule eq_props)

lemma pure_lookup: "keeps (=) (lookup_node agent u)"
  unfolding lookup_node_def by (auto intro!: pure_steps split: option.splits)

lemma pure_find: "keeps (=) (find_node agent u)"
  unfolding find_node_def by (auto intro!: pure_steps split: option.splits)

lemma pure_owner: "keeps (=) (require_owner agent u)"
  unfolding require_owner_def by (intro pure_steps)

lemma pure_movable: "keeps (=) (check_movable agent n u)"
  unfolding check_movable_def by (intro pure_steps pure_owner)

lemma pure_guard: "keeps (=) (need_guard dr p)"
  unfolding need_guard_def by (auto intro!: pure_steps split: option.splits)

lemma pure_resolve: "keeps (=) (resolve_location g p)"
  unfolding resolve_location_def by (auto intro!: pure_steps split: sum.splits)

lemma pure_target: "keeps (=) (rebase_target g p)"
  unfolding rebase_target_def by (intro pure_steps)

lemma pure_created: "keeps (=) (check_created c)"
  unfolding check_created_def by (intro pure_steps)

lemma pure_attached: "keeps (=) (check_attached e)"
  unfolding check_attached_def by (intro pure_steps)

lemmas pure_rules = pure_load pure_lookup pure_find pure_owner pure_movable pure_guard pure_resolve pure_target
  pure_created pure_attached pure_guarded keeps_lift [OF eq_props(1)]

section \<open>Trashing\<close>

lemma same_on_disk: "keeps tables_same (on_disk f)"
  by (rule keeps_on_disk) (auto simp: tables_same_def)

lemma same_record: "keeps tables_same (emod (record_move a b))"
  by (rule keeps_mod) (simp add: tables_same_def record_move_def)

lemma same_move: "keeps tables_same (moveToTrashLogged g rt file u)"
  unfolding moveToTrashLogged_def stamp_def Let_def
  by (auto intro!: keeps_rules same_on_disk same_record split: sum.splits)

lemma same_restore: "keeps tables_same (restoreFromTrash g file u)"
  unfolding restoreFromTrash_def stat_exists_def Let_def
  by (auto intro!: keeps_rules same_on_disk same_record split: sum.splits)

lemma same_master: "keeps tables_same (trash_master_file g m)"
  unfolding trash_master_file_def by (auto intro!: keeps_rules same_move split: option.splits sum.splits)

lemma keeps_weaken: "keeps K m \<Longrightarrow> (\<And>s t. K s t \<Longrightarrow> R s t) \<Longrightarrow> keeps R m"
  by (simp add: keeps_def)

lemma effect_same_tables: "keeps tables_same m \<Longrightarrow> keeps (effect T G Q agent U) m"
  by (erule keeps_weaken) (rule effect_same)

lemma effect_markTrashed: "(\<And>u. T i u) \<Longrightarrow> keeps (effect T G Q agent U) (markTrashed i)"
  unfolding markTrashed_def
  by (intro keeps_bind effect_transp effect_mark_trashed effect_run_sql)
    (auto simp: RecordNodeTrashed_def split: if_splits)

lemma effect_export_row: "(\<And>u. T i u) \<Longrightarrow> keeps (effect T G Q agent U) (trash_export_row parent i)"
  unfolding trash_export_row_def
  by (intro keeps_bind effect_transp effect_markTrashed effect_run_sql effect_on_tables)
    (auto simp: RecordTrashCascade_def DeleteRemoteSyncStateForNode_def split: if_splits)

lemma effect_export: "(\<And>u. T (n_id ex) u) \<Longrightarrow> keeps (effect T G Q agent U) (trash_export g parent ex)"
  unfolding trash_export_def
  by (auto intro!: keeps_rules effect_export_row effect_same_tables [OF same_move] split: option.splits sum.splits)

lemma effect_purge_edge:
  "(isCascadeExportEdge e \<Longrightarrow> \<forall>u. T (e_target e) u) \<Longrightarrow> keeps (effect T G Q agent U) (purge_edge g parent e)"
  unfolding purge_edge_def
  by (auto intro!: keeps_rules effect_export simp: GetMediaNodeByID_def dest!: find_SomeD split: option.splits)

lemma purgeRemoteSync_other:
  "ad_db (purgeRemoteSyncStateForLinkedExports p a) = ad_db a \<and>
   ad_creators (purgeRemoteSyncStateForLinkedExports p a) = ad_creators a \<and>
   ad_events (purgeRemoteSyncStateForLinkedExports p a) = ad_events a"
proof -
  have "ad_db (fold (\<lambda>e. DeleteRemoteSyncStateForNode (e_target e)) es a) = ad_db a \<and>
    ad_creators (fold (\<lambda>e. DeleteRemoteSyncStateForNode (e_target e)) es a) = ad_creators a \<and>
    ad_events (fold (\<lambda>e. DeleteRemoteSyncStateForNode (e_target e)) es a) = ad_events a" for es
    by (induction es arbitrary: a) (simp_all add: DeleteRemoteSyncStateForNode_def)
  then show ?thesis by (simp add: purgeRemoteSyncStateForLinkedExports_def)
qed

text \<open>The rows a trash may change: the node, and the exports its reviewed edges lead to.\<close>

definition cascade_targets :: "int \<Rightarrow> db \<Rightarrow> int set" where
  "cascade_targets i d = {e_target e | e. e \<in> set (ListEdgesBySource i d) \<and> isCascadeExportEdge e}"

lemma effect_finish:
  assumes "\<And>u. T i u"
  shows "keeps (effect T G Q agent U) (finish_trash i keep)"
  unfolding finish_trash_def
  by (intro keeps_bind keeps_when effect_transp effect_reflp effect_markTrashed effect_on_tables keeps_load
      purgeRemoteSync_other assms) (simp_all add: DeleteRemoteSyncStateForNode_def)

lemma effect_purge_exports:
  assumes "\<And>j u. j \<in> cascade_targets i (as_db s) \<Longrightarrow> T j u"
  shows "effect T G Q agent U s (snd (purgeLinkedExports g i s))"
proof -
  have "keeps (effect T G Q agent U) (efold (purge_edge g i) (ListEdgesBySource i (as_db s)))"
  proof (intro keeps_fold effect_transp effect_reflp effect_purge_edge)
    fix e assume "e \<in> set (ListEdgesBySource i (as_db s))" "isCascadeExportEdge e"
    then have "e_target e \<in> cascade_targets i (as_db s)" by (auto simp: cascade_targets_def)
    then show "\<forall>u. T (e_target e) u" using assms by blast
  qed
  then show ?thesis by (simp add: purgeLinkedExports_def eread_def leaves_keeps)
qed

text \<open>An operation known from one state, followed by one that keeps the relation from everywhere.\<close>

lemma effect_then:
  assumes "effect T G Q agent U s (snd (m s))" "\<And>x. keeps (effect T G Q agent U) (f x)"
  shows "effect T G Q agent U s (snd (ebind m f s))"
proof (cases "m s")
  case (Pair r t)
  then show ?thesis
  proof (cases r)
    case (Inr x)
    have "effect T G Q agent U t (snd (f x t))" using assms(2) by (rule leaves_keeps)
    then show ?thesis using Pair Inr assms(1) effect_trans [of T G Q agent U s t] by (simp add: ebind_def)
  qed (use assms(1) in \<open>simp add: ebind_def\<close>)
qed

lemma effect_trash:
  assumes "\<And>j u. j = i \<or> j \<in> cascade_targets i (as_db s) \<Longrightarrow> T j u"
  shows "effect T G Q agent U s (snd (trashAssetTx g i keep s))"
  unfolding trashAssetTx_def
proof (rule leaves_bind [OF pure_load])
  fix m t assume m: "load_node i s = (Inr m, t)" "s = t"
  then have i: "n_id m = i" by (auto simp: load_node_Inr GetMediaNodeByID_def dest: find_SomeD)
  let ?E = "effect T G Q agent U"
  have fin: "keeps ?E (finish_trash i keep)" by (rule effect_finish) (simp add: assms)
  have main: "?E s (snd (ebind (trash_master_file g m) (\<lambda>_. ebind (ewhen (\<not> keep) (purgeLinkedExports g i)) (\<lambda>_.
      finish_trash i keep)) s))"
  proof (rule leaves_bind [OF same_master effect_same])
    fix x v assume v: "tables_same s v"
    have "?E v (snd (ewhen (\<not> keep) (purgeLinkedExports g i) v))"
      using effect_purge_exports [of i v T G Q agent U g] assms v
      by (cases keep) (auto simp: ewhen_def ereturn_def tables_same_def)
    then have "?E v (snd (ebind (ewhen (\<not> keep) (purgeLinkedExports g i)) (\<lambda>_. finish_trash i keep) v))"
      by (rule effect_then) (rule fin)
    with v show "?E s (snd (ebind (ewhen (\<not> keep) (purgeLinkedExports g i)) (\<lambda>_. finish_trash i keep) v))"
      using effect_trans effect_same by blast
  qed
  show "?E s (snd ((if n_life m = TRASHED then ereturn m else if n_life m = ARCHIVED then efail (ErrAssetNotTrashed i)
      else ebind (trash_master_file g m) (\<lambda>_. ebind (ewhen (\<not> keep) (purgeLinkedExports g (n_id m))) (\<lambda>_.
        finish_trash (n_id m) keep))) t))"
    using main m(2) i by (simp add: ereturn_def efail_def)
qed simp

section \<open>Events\<close>

text \<open>What a device may change: nodes it created, and the exports that the trashing of one of them takes
  along; the edges it may add, accepted only into a node it created; and uuids no node has yet.\<close>

definition touchable :: "string \<Rightarrow> asset_db \<Rightarrow> int \<Rightarrow> string \<Rightarrow> bool" where
  "touchable agent a i u \<longleftrightarrow> owns agent u a \<or>
     (\<exists>m \<in> set (db_nodes (ad_db a)). owns agent (n_uuid m) a \<and> (i = n_id m \<or> i \<in> cascade_targets (n_id m) (ad_db a)))"

definition edge_allowed :: "string \<Rightarrow> asset_db \<Rightarrow> media_edge \<Rightarrow> bool" where
  "edge_allowed agent a e \<longleftrightarrow> e_review e = NEEDS_REVIEW \<or> e_review e = AUTO_ACCEPTED \<and>
     (\<exists>m \<in> set (db_nodes (ad_db a)). n_id m = e_target e \<and> owns agent (n_uuid m) a)"

definition fresh_uuids :: "asset_db \<Rightarrow> string set" where
  "fresh_uuids a = - (n_uuid ` set (db_nodes (ad_db a)))"

definition event_effect :: "(int \<Rightarrow> bool) \<Rightarrow> (media_edge \<Rightarrow> bool) \<Rightarrow> string \<Rightarrow> asset_state \<Rightarrow> asset_state \<Rightarrow> bool" where
  "event_effect G Q agent s = effect (touchable agent (as_tables s)) G Q agent (fresh_uuids (as_tables s)) s"

lemma event_effect_refl [simp]: "event_effect G Q agent s s"
  by (simp add: event_effect_def)

lemma leaves_pure:
  "keeps (=) m \<Longrightarrow> (\<And>t. R t t) \<Longrightarrow> (\<And>x. m s = (Inr x, s) \<Longrightarrow> R s (snd (f x s))) \<Longrightarrow> R s (snd (ebind m f s))"
  by (rule leaves_bind [where K = "(=)"]) auto

lemma event_pure:
  "keeps (=) m \<Longrightarrow> (\<And>x. m s = (Inr x, s) \<Longrightarrow> event_effect G Q agent s (snd (f x s))) \<Longrightarrow>
   event_effect G Q agent s (snd (ebind m f s))"
  by (rule leaves_pure [where R = "event_effect G Q agent"]) auto

lemma eread_snd: "snd (eread f s) = snd (f s s)"
  by (simp add: eread_def)

lemma snd_simps [simp]: "snd (ereturn x s) = s" "snd (efail e s) = s"
  by (simp_all add: ereturn_def efail_def)

lemma known_uuid:
  "LookupNodeByUUID agent u a = Some (n, False) \<Longrightarrow> n \<in> set (db_nodes (ad_db a)) \<and> n_uuid n = u"
  by (auto simp: LookupNodeByUUID_def GetMediaNodeByUUID_def split: option.splits if_splits dest: find_SomeD)

lemma unknown_uuid: "LookupNodeByUUID agent u a = None \<Longrightarrow> u \<in> fresh_uuids a"
  by (auto simp: LookupNodeByUUID_def GetMediaNodeByUUID_def fresh_uuids_def split: option.splits dest: find_NoneD)

lemma find_node_Inr: "find_node agent u s = (Inr r, t) \<longleftrightarrow> LookupNodeByUUID agent u (as_tables s) = Some r \<and> t = s"
  by (auto simp: find_node_def eread_def efail_def ereturn_def split: option.splits)

lemma lookup_node_Inr: "lookup_node agent u s = (Inr r, t) \<longleftrightarrow> LookupNodeByUUID agent u (as_tables s) = Some r \<and> t = s"
  by (auto simp: lookup_node_def eread_def efail_def ereturn_def split: option.splits)

lemma guarded_Inr: "guarded b e s = (Inr x, t) \<longleftrightarrow> \<not> b \<and> t = s"
  by (auto simp: guarded_def efail_def ereturn_def)

lemma require_owner_Inr: "require_owner agent u s = (Inr x, t) \<longleftrightarrow> owns agent u (as_tables s) \<and> t = s"
  by (simp add: require_owner_def eread_def guarded_Inr)

lemma check_movable_Inr: "check_movable agent n u s = (Inr x, t) \<longleftrightarrow>
    n_life n \<noteq> ARCHIVED \<and> n_life n \<noteq> TRASHED \<and> owns agent u (as_tables s) \<and> t = s"
  by (auto simp: check_movable_def ebind_Inr guarded_Inr require_owner_Inr)

text \<open>New nodes.\<close>

lemma effect_alias: "keeps (effect T G Q agent U) (recordContentAlias al u ag)"
  unfolding recordContentAlias_def
  by (auto intro!: keeps_return keeps_asset effect_run_sql simp: InsertNodeUUIDAlias_def split: if_splits)

lemma effect_dedup: "keeps (effect T G Q agent U) m \<Longrightarrow> keeps (effect T G Q agent U) (dedup ag u full m)"
  unfolding dedup_def by (auto intro!: keeps_rules effect_alias split: option.splits)

lemma effect_record_creation: "u \<in> U \<Longrightarrow> keeps (effect T G Q agent U) (record_creation agent u n full)"
  unfolding record_creation_def by (intro keeps_bind effect_transp keeps_asset effect_set_creator effect_agent_hash)

lemma effect_persist: "keeps (effect T G Q agent U) (persist_evidence i p)"
  unfolding persist_evidence_def by (intro keeps_when effect_reflp effect_metadata)

lemma effect_pure: "keeps (=) m \<Longrightarrow> keeps (effect T G Q agent U) m"
  by (erule keeps_weaken) simp

lemmas effect_pures = pure_rules [THEN effect_pure]

lemma effect_insert_created: "nc_uuid p \<in> U \<Longrightarrow> keeps (effect T G Q agent U) (insert_created dr agent p)"
  unfolding insert_created_def
  by (intro keeps_bind keeps_case keeps_read keeps_return keeps_fail effect_transp effect_reflp effect_pures
      effect_insert effect_dedup effect_record_creation effect_gps)

lemma event_created: "event_effect G Q (ev_agent ev) s (snd (applyNodeCreated dr ev s))"
proof (cases "dr_created dr (ev_payload ev)")
  case (Some p)
  show ?thesis
    unfolding applyNodeCreated_def Some option.case
  proof (rule event_pure [OF pure_created])
    have "event_effect G Q (ev_agent ev) s (snd (dedup (ev_agent ev) (nc_uuid p) (nc_full p) (insert_created dr (ev_agent ev) p) s))"
      if "LookupNodeByUUID (ev_agent ev) (nc_uuid p) (as_tables s) = None"
      unfolding event_effect_def
      by (rule leaves_keeps) (intro effect_dedup effect_insert_created unknown_uuid [OF that])
    then show "event_effect G Q (ev_agent ev) s (snd (eread (\<lambda>s.
        if LookupNodeByUUID (ev_agent ev) (nc_uuid p) (as_tables s) \<noteq> None then ereturn 0
        else dedup (ev_agent ev) (nc_uuid p) (nc_full p) (insert_created dr (ev_agent ev) p)) s))"
      by (cases "LookupNodeByUUID (ev_agent ev) (nc_uuid p) (as_tables s) = None") (simp_all add: eread_snd)
  qed
qed (simp add: applyNodeCreated_def)

lemma effect_insert_virtual: "vn_uuid p \<in> U \<Longrightarrow> keeps (effect T G Q agent U) (insert_virtual agent p l)"
proof -
  assume u: "vn_uuid p \<in> U"
  have "keeps (effect T G Q agent U) (reuse_virtual agent p l e)" for e
    unfolding reuse_virtual_def
    by (auto intro!: keeps_rules effect_persist split: option.splits)
  then show ?thesis
    unfolding insert_virtual_def
    by (intro keeps_case keeps_bind keeps_return effect_transp effect_reflp effect_insert keeps_asset
        effect_set_creator u effect_persist)
qed

lemma event_virtual: "event_effect G Q (ev_agent ev) s (snd (applyVirtualNodeCreated dr ev s))"
proof (cases "dr_virtual dr (ev_payload ev)")
  case (Some p)
  have new: "event_effect G Q (ev_agent ev) s (snd (ebind (need_guard dr (vn_path p)) (\<lambda>g.
      ebind (resolve_location g (vn_path p)) (\<lambda>l. ebind (guarded (\<not> gl_virtual l) ErrVirtualPathNotVirtual) (\<lambda>_.
        insert_virtual (ev_agent ev) p l))) s))"
    if "GetMediaNodeByUUID (vn_uuid p) (as_db s) = None"
  proof -
    have new: "vn_uuid p \<in> fresh_uuids (as_tables s)"
      using that by (auto simp: GetMediaNodeByUUID_def fresh_uuids_def dest: find_NoneD)
    show ?thesis
      unfolding event_effect_def
      by (rule leaves_keeps) (intro keeps_bind effect_transp effect_pures effect_insert_virtual new)
  qed
  show ?thesis
    unfolding applyVirtualNodeCreated_def Some option.case
    by (rule event_pure [OF pure_guarded])+ (use new in \<open>simp add: eread_snd\<close>)
qed (simp add: applyVirtualNodeCreated_def)

text \<open>Moves, deletions and rebases.\<close>

lemma touchable_owner: "owns agent u a \<Longrightarrow> touchable agent a i u"
  by (simp add: touchable_def)

lemma touchable_node: "n \<in> set (db_nodes (ad_db a)) \<Longrightarrow> owns agent (n_uuid n) a \<Longrightarrow> touchable agent a (n_id n) u"
  by (auto simp: touchable_def)

lemma effect_rebase_row: "(\<And>i. T i u) \<Longrightarrow> keeps (effect T G Q agent U) (rebase_row u p nm l mt)"
  unfolding rebase_row_def by (intro keeps_asset effect_rebase)

lemma event_moved: "event_effect G Q (ev_agent ev) s (snd (applyNodeMoved dr ev s))"
proof (cases "dr_moved dr (ev_payload ev)")
  case (Some p)
  let ?ag = "ev_agent ev"
  have move: "event_effect G Q ?ag s (snd (ebind (check_movable ?ag n (mv_uuid p)) (\<lambda>_. ebind (need_guard dr (mv_path p)) (\<lambda>g.
      ebind (rebase_target g (mv_path p)) (\<lambda>l. rebase_row (mv_uuid p) (mv_path p) (mv_name p) l
        (if mv_mtime p = 0 then n_mtime n else mv_mtime p)))) s))" for n
  proof (rule event_pure [OF pure_movable])
    fix x assume "check_movable ?ag n (mv_uuid p) s = (Inr x, s)"
    then have owner: "\<And>i. touchable ?ag (as_tables s) i (mv_uuid p)"
      by (auto simp: check_movable_Inr intro: touchable_owner)
    show "event_effect G Q ?ag s (snd (ebind (need_guard dr (mv_path p)) (\<lambda>g. ebind (rebase_target g (mv_path p)) (\<lambda>l.
        rebase_row (mv_uuid p) (mv_path p) (mv_name p) l (if mv_mtime p = 0 then n_mtime n else mv_mtime p))) s))"
      unfolding event_effect_def
      by (rule leaves_keeps) (intro keeps_bind effect_transp effect_pures effect_rebase_row owner)
  qed
  show ?thesis
    unfolding applyNodeMoved_def Some option.case
    by (rule event_pure [OF pure_guarded])+ (rule event_pure [OF pure_find], use move in \<open>auto split: prod.splits\<close>)
qed (simp add: applyNodeMoved_def)

lemma snd_asset [simp]: "snd (asset m s) = snd (m s)"
  by (simp add: asset_def split: prod.splits sum.splits)

lemma event_deleted: "event_effect G Q (ev_agent ev) s (snd (applyNodeDeleted dr ev s))"
proof (cases "dr_deleted dr (ev_payload ev)")
  case (Some u)
  let ?ag = "ev_agent ev"
  let ?tail = "\<lambda>n. ebind (require_owner ?ag u) (\<lambda>_. ebind (if n_life n \<noteq> ARCHIVED
      then ebind (asset (trashAssetTx (dr_guard dr) (n_id n) False)) (\<lambda>_. ereturn ()) else ereturn ()) (\<lambda>_.
      ereturn (if dr_immich dr then [n_id n] else [])))"
  have del: "event_effect G Q ?ag s (snd (?tail n s))" if "LookupNodeByUUID ?ag u (as_tables s) = Some (n, False)" for n
  proof (rule event_pure [OF pure_owner])
    fix x assume "require_owner ?ag u s = (Inr x, s)"
    then have "n \<in> set (db_nodes (as_db s))" "owns ?ag (n_uuid n) (as_tables s)"
      using known_uuid [OF that] by (auto simp: require_owner_Inr)
    then have T: "touchable ?ag (as_tables s) j v" if "j = n_id n \<or> j \<in> cascade_targets (n_id n) (as_db s)" for j v
      using that by (auto simp: touchable_def)
    have "event_effect G Q ?ag s (snd (trashAssetTx (dr_guard dr) (n_id n) False s))"
      unfolding event_effect_def by (rule effect_trash) (rule T)
    then show "event_effect G Q ?ag s (snd (ebind (if n_life n \<noteq> ARCHIVED
        then ebind (asset (trashAssetTx (dr_guard dr) (n_id n) False)) (\<lambda>_. ereturn ()) else ereturn ()) (\<lambda>_.
        ereturn (if dr_immich dr then [n_id n] else [])) s))"
      by (auto simp: ebind_def ereturn_def asset_def split: prod.splits sum.splits)
  qed
  show ?thesis
    unfolding applyNodeDeleted_def Some option.case
    by (rule event_pure [OF pure_guarded], rule event_pure [OF pure_find])
      (use del in \<open>auto simp: find_node_Inr split: prod.splits\<close>)
qed (simp add: applyNodeDeleted_def)

lemma effect_rebase_known:
  "(\<And>i. T i (rb_uuid p)) \<Longrightarrow> (\<And>u. T (n_id n) u) \<Longrightarrow>
   keeps (effect T G Q agent U) (rebase_known ag p n l mt)"
  unfolding rebase_known_def set_hash_def
  by (intro keeps_bind effect_transp effect_pures effect_rebase_row)
    (auto intro!: keeps_bind keeps_when keeps_asset effect_full_hash effect_agent_hash)

lemma effect_rebase_unknown: "rb_uuid p \<in> U \<Longrightarrow> keeps (effect T G Q agent U) (rebase_unknown dr agent p l mt)"
  unfolding rebase_unknown_def
  by (intro effect_dedup keeps_bind keeps_return effect_transp effect_reflp effect_insert effect_record_creation)

lemma event_rebased: "event_effect G Q (ev_agent ev) s (snd (applyPathRebased dr ev s))"
proof (cases "dr_rebased dr (ev_payload ev)")
  case (Some p)
  let ?ag = "ev_agent ev" and ?mt = "if rb_mtime p = 0 then db_clock (as_db s) else rb_mtime p"
  have known: "event_effect G Q ?ag s (snd (rebase_known ?ag p n l ?mt s))"
    if n: "LookupNodeByUUID ?ag (rb_uuid p) (as_tables s) = Some (n, False)" for n l
  proof (cases "owns ?ag (rb_uuid p) (as_tables s)")
    case True
    then have "\<And>i. touchable ?ag (as_tables s) i (rb_uuid p)" "\<And>u. touchable ?ag (as_tables s) (n_id n) u"
      using known_uuid [OF n] by (auto intro: touchable_owner touchable_node)
    then show ?thesis unfolding event_effect_def by (intro leaves_keeps [OF effect_rebase_known])
  next
    case False
    show ?thesis
      unfolding rebase_known_def
      by (rule event_pure [OF pure_movable]) (use False in \<open>simp add: check_movable_Inr\<close>)
  qed
  have unknown: "event_effect G Q ?ag s (snd (rebase_unknown dr ?ag p l ?mt s))"
    if "LookupNodeByUUID ?ag (rb_uuid p) (as_tables s) = None" for l
    unfolding event_effect_def by (rule leaves_keeps) (intro effect_rebase_unknown unknown_uuid [OF that])
  have body: "event_effect G Q ?ag s (snd (ebind (need_guard dr (rb_path p)) (\<lambda>g. ebind (rebase_target g (rb_path p)) (\<lambda>l.
      case LookupNodeByUUID ?ag (rb_uuid p) (as_tables s) of
        Some (n, _) \<Rightarrow> ebind (rebase_known ?ag p n l ?mt) (\<lambda>_. ereturn 0)
      | None \<Rightarrow> rebase_unknown dr ?ag p l ?mt)) s))"
    if unaliased: "\<not> (\<exists>r \<in> set_option (LookupNodeByUUID ?ag (rb_uuid p) (as_tables s)). snd r)"
  proof (rule event_pure [OF pure_guard], rule event_pure [OF pure_target])
    fix l
    show "event_effect G Q ?ag s (snd ((case LookupNodeByUUID ?ag (rb_uuid p) (as_tables s) of
        Some (n, _) \<Rightarrow> ebind (rebase_known ?ag p n l ?mt) (\<lambda>_. ereturn 0)
      | None \<Rightarrow> rebase_unknown dr ?ag p l ?mt) s))"
    proof (cases "LookupNodeByUUID ?ag (rb_uuid p) (as_tables s)")
      case None
      then show ?thesis using unknown by simp
    next
      case (Some r)
      then obtain n where r: "LookupNodeByUUID ?ag (rb_uuid p) (as_tables s) = Some (n, False)"
        using unaliased by (cases r) auto
      show ?thesis using known [OF r, of l]
        by (auto simp: r ebind_def ereturn_def split: prod.splits sum.splits)
    qed
  qed
  show ?thesis
    unfolding applyPathRebased_def Some option.case
    by (rule event_pure [OF pure_guarded])+ (use body in \<open>simp add: eread_snd Let_def\<close>)
qed (simp add: applyPathRebased_def)

text \<open>Edges.\<close>

definition new_edge_ok :: "string \<Rightarrow> asset_state \<Rightarrow> int \<Rightarrow> int \<Rightarrow> media_edge \<Rightarrow> bool" where
  "new_edge_ok agent s x y e \<longleftrightarrow> edge_allowed agent (as_tables s) e \<and> e_source e = x \<and> e_target e = y \<and>
     \<not> WouldCreateCycle x y (as_db s)"

definition attach_effect :: "(int \<Rightarrow> bool) \<Rightarrow> string \<Rightarrow> asset_state \<Rightarrow> asset_state \<Rightarrow> bool" where
  "attach_effect G agent s t \<longleftrightarrow> (\<exists>x y. event_effect G (new_edge_ok agent s x y) agent s t)"

lemma attach_pure:
  "keeps (=) m \<Longrightarrow> (\<And>x. m s = (Inr x, s) \<Longrightarrow> attach_effect G agent s (snd (f x s))) \<Longrightarrow>
   attach_effect G agent s (snd (ebind m f s))"
  by (rule leaves_pure [where R = "attach_effect G agent"]) (auto simp: attach_effect_def)

lemma attach_edge_effect:
  assumes "tgt \<in> set (db_nodes (as_db s))" "G (n_id tgt)"
  shows "attach_effect G agent s (snd (attach_edge agent p src tgt s))"
proof (cases "WouldCreateCycle (n_id src) (n_id tgt) (as_db s)")
  case True
  then show ?thesis by (simp add: attach_edge_def eread_snd attach_effect_def)
next
  case False
  let ?Q = "new_edge_ok agent s (n_id src) (n_id tgt)"
  let ?u = "agent_edge p (n_id src) (n_id tgt) (owns agent (n_uuid tgt) (as_tables s))"
  have allowed: "?Q (edge_row i now ?u)" for i now
    using assms False by (auto simp: new_edge_ok_def edge_allowed_def edge_row_def agent_edge_def agent_review_def)
  have "keeps (effect (touchable agent (as_tables s)) G ?Q agent (fresh_uuids (as_tables s)))
      (ebind (insert_edge ?u) (\<lambda>_. asset (node_sql (RecomputeStatusFromPersistedEdges (n_id tgt)))))"
    unfolding insert_edge_def
    by (intro keeps_bind keeps_case effect_transp effect_create_edge allowed keeps_asset effect_recompute)
      (use assms(2) in \<open>auto intro: keeps_return keeps_fail\<close>)
  from leaves_keeps [OF this, of s] False
  have "event_effect G ?Q agent s (snd (attach_edge agent p src tgt s))"
    by (simp add: attach_edge_def eread_snd event_effect_def Let_def)
  then show ?thesis by (auto simp: attach_effect_def)
qed

text \<open>The row whose graph status an event may change: the target of the edge it attaches.\<close>

definition edge_target :: "drainer \<Rightarrow> agent_event \<Rightarrow> asset_db \<Rightarrow> int \<Rightarrow> bool" where
  "edge_target dr ev a i \<longleftrightarrow> ev_type ev = ''EVENT_EDGE_ATTACHED'' \<and>
     (\<exists>p n b. dr_attached dr (ev_payload ev) = Some p \<and>
        LookupNodeByUUID (ev_agent ev) (ea_target p) a = Some (n, b) \<and> i = n_id n)"

lemma event_attached:
  assumes "ev_type ev = ''EVENT_EDGE_ATTACHED''"
  shows "attach_effect (edge_target dr ev (as_tables s)) (ev_agent ev) s (snd (applyEdgeAttached dr ev s))"
proof (cases "dr_attached dr (ev_payload ev)")
  case None
  then show ?thesis by (simp add: applyEdgeAttached_def attach_effect_def)
next
  case (Some p)
  let ?ag = "ev_agent ev" and ?G = "edge_target dr ev (as_tables s)"
  have attach: "attach_effect ?G ?ag s (snd (attach_edge ?ag p src tgt s))"
    if "LookupNodeByUUID ?ag (ea_target p) (as_tables s) = Some (tgt, b)" for src tgt b
    by (rule attach_edge_effect)
      (use that assms Some in \<open>auto simp: edge_target_def LookupNodeByUUID_def GetMediaNodeByUUID_def split: option.splits if_splits dest: find_SomeD\<close>)
  show ?thesis
    unfolding applyEdgeAttached_def Some option.case
  proof (rule attach_pure [OF pure_attached], rule attach_pure [OF pure_lookup])
    fix r
    have tail: "attach_effect ?G ?ag s (snd (ebind (lookup_node ?ag (ea_target p)) (\<lambda>(tgt, _). attach_edge ?ag p src tgt) s))" for src
      by (rule attach_pure [OF pure_lookup]) (use attach in \<open>auto simp: lookup_node_Inr split: prod.splits\<close>)
    show "attach_effect ?G ?ag s (snd ((case r of (src, _) \<Rightarrow> ebind (lookup_node ?ag (ea_target p)) (\<lambda>(tgt, _).
        attach_edge ?ag p src tgt)) s))"
      using tail by (simp split: prod.splits)
  qed
qed

lemma snd_bind_return: "snd (ebind m (\<lambda>x. ereturn (f x)) s) = snd (m s)"
  by (simp add: ebind_def ereturn_def split: prod.splits sum.splits)

text \<open>What one event does, whichever way it ends.\<close>

lemma event_apply: "attach_effect (edge_target dr ev (as_tables s)) (ev_agent ev) s (snd (applyEvent dr ev s))"
proof -
  have "attach_effect G (ev_agent ev) s t" if "\<And>Q. event_effect G Q (ev_agent ev) s t" for G t
    using that by (auto simp: attach_effect_def)
  note others = this [OF event_created] this [OF event_moved] this [OF event_deleted] this [OF event_rebased]
    this [OF event_virtual]
  have "attach_effect G (ev_agent ev) s s" for G by (simp add: attach_effect_def)
  then show ?thesis using event_attached others by (simp add: applyEvent_def snd_bind_return)
qed

lemma event_tx_effect:
  assumes "event_tx dr ev s = (r, t)"
  shows "\<exists>t'. attach_effect (edge_target dr ev (as_tables s)) (ev_agent ev) s t' \<and> as_tables t = (case r of Inl e \<Rightarrow> as_tables s
    | Inr x \<Rightarrow> MarkAgentEventProcessed (ev_id ev) (as_tables t'))"
proof -
  let ?s = "s\<lparr>as_moves := []\<rparr>"
  obtain r' t' where m: "applyEvent dr ev ?s = (r', t')" by (cases "applyEvent dr ev ?s")
  have eff: "attach_effect (edge_target dr ev (as_tables s)) (ev_agent ev) ?s t'" using event_apply [of dr ev ?s] m by simp
  then have "attach_effect (edge_target dr ev (as_tables s)) (ev_agent ev) s t'"
    by (simp add: attach_effect_def event_effect_def effect_def new_edge_ok_def [abs_def])
  then show ?thesis
    using assms m
    by (auto simp: event_tx_def with_undo_def asset_tx_def ebind_def emod_def ereturn_def on_tables_def undo_def
        intro!: exI [of _ t'] split: sum.splits)
qed

end
