(* ===== verification/DrainerSample.thy ===== *)
theory DrainerSample
  imports Drainer Samples
begin

text \<open>
  A small archive with a paired phone: the raw original on the archive, which the scanner found, and the
  phone's own copy, which it now says was edited from the original and then deletes.
\<close>

definition uid :: "char \<Rightarrow> string" where
  "uid c = ''00000000-0000-4000-8000-00000000000'' @ [c]"

definition scanned :: media_node where
  "scanned = (sample_node 1 (uid (CHR ''1'')) 1 ''/archive/a.arw'' ''a.arw'' ''arw'')
     \<lparr>n_full := Some (replicate 64 (CHR ''c'')), n_indexing := INDEXED_FULL\<rparr>"

definition uploaded :: media_node where
  "uploaded = sample_node 2 (uid (CHR ''2'')) 2 ''/exports/b.jpg'' ''b.jpg'' ''jpg''"

definition phone_tables :: asset_db where
  "phone_tables =
     \<lparr>ad_db = \<lparr>db_nodes = [scanned, uploaded], db_edges = [], db_provs = [], db_meta = [],
        db_locs = [sample_loc 1 ''/archive'' TIER3_MASTER_ARCHIVE True, sample_loc 2 ''/exports'' TIER2_EXPORTS False],
        db_users = [7], db_clock = 2000\<rparr>,
      ad_times = [], ad_cascades = [], ad_sync = [], ad_aliases = [],
      ad_creators = [(uid (CHR ''2''), ''phone'')], ad_events = []\<rparr>"

definition queued :: "int \<Rightarrow> string \<Rightarrow> string \<Rightarrow> agent_event" where
  "queued i ty payload = \<lparr>ev_id = i, ev_uuid = [char_of (nat i)], ev_agent = ''phone'', ev_type = ty, ev_payload = payload,
     ev_status = EvPending, ev_retry = 0, ev_error = None, ev_created = i, ev_processed = None, ev_next = 0\<rparr>"

definition create_event :: agent_event where "create_event = queued 1 ''EVENT_NODE_CREATED'' ''copy''"
definition attach_event :: agent_event where "attach_event = queued 1 ''EVENT_EDGE_ATTACHED'' ''edge''"
definition delete_event :: agent_event where "delete_event = queued 2 ''EVENT_NODE_DELETED'' ''mine''"
definition foreign_event :: agent_event where "foreign_event = queued 3 ''EVENT_NODE_DELETED'' ''theirs''"

definition phone_state :: asset_state where
  "phone_state = \<lparr>as_tables = phone_tables\<lparr>ad_events := [attach_event, delete_event, foreign_event]\<rparr>,
     as_fs = \<lparr>fs_tree = [], fs_now = 0\<rparr>, as_moves = []\<rparr>"

definition edited_from :: edge_attached where
  "edited_from = \<lparr>ea_source = uid (CHR ''1''), ea_target = uid (CHR ''2''), ea_source_id = 0, ea_target_id = 0, ea_rel = [],
     ea_conf = 1, ea_tier = 0, ea_resolver = [], ea_evidence = None, ea_review = []\<rparr>"

definition copied :: node_created where
  "copied = \<lparr>nc_uuid = uid (CHR ''3''), nc_path = ''/exports/c.arw'', nc_name = [], nc_ext = [], nc_size = 100, nc_mtime = 0,
     nc_fast = None, nc_full = Some (replicate 64 (CHR ''c'')), nc_srchash = None, nc_phash = None, nc_camera = None,
     nc_serial = None, nc_lens = None, nc_captured = None, nc_origdoc = None, nc_doc = None, nc_derived = None,
     nc_stem = None, nc_lat = None, nc_lon = None\<rparr>"

definition phone_drainer :: drainer where
  "phone_drainer =
     \<lparr>dr_guard = None, dr_max = 20, dr_engine = None, dr_immich = False,
      dr_pairings = \<lparr>pd_pairings = [], pd_keys = [], pd_audit = [], pd_actors = [], pd_users = []\<rparr>,
      dr_tick = (\<lambda>t. t + 1), dr_text = (\<lambda>_. ''failed''), dr_float = (\<lambda>_. ''0''),
      dr_created = (\<lambda>p. if p = ''copy'' then Some copied else None), dr_attached = (\<lambda>p. if p = ''edge'' then Some edited_from else None),
      dr_moved = (\<lambda>_. None),
      dr_deleted = (\<lambda>p. if p = ''mine'' then Some (uid (CHR ''2'')) else if p = ''theirs'' then Some (uid (CHR ''1'')) else None),
      dr_rebased = (\<lambda>_. None), dr_virtual = (\<lambda>_. None)\<rparr>"


lemma phone_ok: "db_ok (as_db phone_state)"
  by (simp add: db_ok_def) code_simp

lemma phone_acyclic: "acyclic (active_rel (as_db phone_state))"
  by (simp add: phone_state_def phone_tables_def active_rel_def active_pairs_def acyclic_def)

end
