(* ===== verification/DrainerProps.thy ===== *)
theory DrainerProps
  imports DrainerEffects DrainerSample
begin

text \<open>
  What the agent's events guarantee: devices change only what they created, their edges are suggestions
  unless they lead into a node of their own, they cannot make the server vouch for a hash, and a
  repeated creation changes nothing.
\<close>

lemma processed_db [simp]: "ad_db (MarkAgentEventProcessed i a) = ad_db a"
  "ad_creators (MarkAgentEventProcessed i a) = ad_creators a"
  by (simp_all add: MarkAgentEventProcessed_def update_events_def)

lemma active_rel_mono: "set (db_edges d) \<subseteq> set (db_edges d') \<Longrightarrow> active_rel d \<subseteq> active_rel d'"
proof (rule subrelI)
  fix a b
  assume "set (db_edges d) \<subseteq> set (db_edges d')" "(a, b) \<in> active_rel d"
  then show "(a, b) \<in> active_rel d'" unfolding active_rel_iff by blast
qed

lemma active_rel_grown:
  assumes "edges_grow Q d d'" "\<And>e. Q e \<Longrightarrow> e_source e = x \<and> e_target e = y"
  shows "active_rel d' \<subseteq> insert (x, y) (active_rel d)"
proof (rule subrelI)
  fix a b
  assume "(a, b) \<in> active_rel d'"
  then obtain e where e: "e \<in> set (db_edges d')" "e_active e" "e_source e = a" "e_target e = b"
    unfolding active_rel_iff by blast
  show "(a, b) \<in> insert (x, y) (active_rel d)"
  proof (cases "e \<in> set (db_edges d)")
    case True
    then show ?thesis using e unfolding insert_iff active_rel_iff by blast
  next
    case False
    then have "Q e" using assms(1) e(1) by (simp add: edges_grow_def)
    then show ?thesis using assms(2) e by blast
  qed
qed

lemma event_tx_cases:
  assumes "event_tx dr ev s = (r, t)"
  obtains (rolled_back) "as_tables t = as_tables s"
  | (committed) x y t' where "event_effect (edge_target dr ev (as_tables s)) (new_edge_ok (ev_agent ev) s x y) (ev_agent ev) s t'" "as_db t = as_db t'"
      "ad_creators (as_tables t) = ad_creators (as_tables t')"
proof -
  obtain t' where t': "attach_effect (edge_target dr ev (as_tables s)) (ev_agent ev) s t'" "as_tables t = (case r of Inl e \<Rightarrow> as_tables s
      | Inr x \<Rightarrow> MarkAgentEventProcessed (ev_id ev) (as_tables t'))"
    using event_tx_effect [OF assms] by blast
  show thesis
  proof (cases r)
    case (Inl e)
    then show ?thesis using rolled_back t'(2) by simp
  next
    case (Inr x)
    then show ?thesis using committed t' by (auto simp: attach_effect_def)
  qed
qed

text \<open>C2. A device changes only the \<open>media_nodes\<close> rows that are its own. Applying an event leaves the row of
  a node verbatim unless the device created the node, or created the master whose trashing takes this
  node along over a reviewed export edge; the one exception is the target of the edge that an
  \<open>EVENT_EDGE_ATTACHED\<close> attaches, whoever created it, whose graph status (and update time) follows its
  edges. And no event makes a device the creator of a node that was there before. The side tables are
  not covered: the metadata of a virtual node without a creator, for one, is open to every device.\<close>

theorem events_respect_ownership:
  assumes "event_tx dr ev s = (r, t)" "n \<in> set (db_nodes (as_db s))" "db_ok (as_db s)"
    and "\<not> owns (ev_agent ev) (n_uuid n) (as_tables s)"
    and "\<And>m. m \<in> set (db_nodes (as_db s)) \<Longrightarrow> owns (ev_agent ev) (n_uuid m) (as_tables s) \<Longrightarrow>
      n_id n \<notin> cascade_targets (n_id m) (as_db s)"
  shows "(\<exists>n' \<in> set (db_nodes (as_db t)). n_id n' = n_id n \<and>
      (n' = n \<or> edge_target dr ev (as_tables s) (n_id n) \<and> row_same n n')) \<and>
    GetNodeCreator (n_uuid n) (as_tables t) = GetNodeCreator (n_uuid n) (as_tables s)"
  using assms(1)
proof (cases rule: event_tx_cases)
  case rolled_back
  then show ?thesis using assms(2) by (auto intro: bexI [of _ n])
next
  case (committed x y t')
  have "\<not> touchable (ev_agent ev) (as_tables s) (n_id n) (n_uuid n)"
  proof
    assume "touchable (ev_agent ev) (as_tables s) (n_id n) (n_uuid n)"
    then obtain m where m: "m \<in> set (db_nodes (as_db s))" "owns (ev_agent ev) (n_uuid m) (as_tables s)" "n_id n = n_id m"
      using assms(4,5) by (auto simp: touchable_def)
    then have "n = m" using node_same_id [OF _ assms(2) m(1)] assms(3) by (simp add: db_ok_def)
    then show False using assms(4) m(2) by simp
  qed
  moreover have "n_uuid n \<notin> fresh_uuids (as_tables s)" using assms(2) by (auto simp: fresh_uuids_def)
  ultimately show ?thesis
    using committed assms(2)
    unfolding event_effect_def effect_def rows_kept_def row_kept_def creators_kept_def GetNodeCreator_def by metis
qed

text \<open>C5. The lineage a device asserts. No event changes or removes an edge row, human decisions included; an
  edge an event adds waits for review unless the device created its child, and is never a human
  decision; and the graph of active edges stays acyclic.\<close>

theorem device_edges_are_suggestions:
  assumes "event_tx dr ev s = (r, t)" "db_ok (as_db s)" "acyclic (active_rel (as_db s))"
  shows "set (db_edges (as_db s)) \<subseteq> set (db_edges (as_db t)) \<and>
    (\<forall>e \<in> set (db_edges (as_db t)) - set (db_edges (as_db s)). edge_allowed (ev_agent ev) (as_tables s) e) \<and>
    acyclic (active_rel (as_db t))"
  using assms(1)
proof (cases rule: event_tx_cases)
  case rolled_back
  then show ?thesis using assms(3) by simp
next
  case (committed x y t')
  then have grow: "edges_grow (new_edge_ok (ev_agent ev) s x y) (as_db s) (as_db t)"
    by (simp add: event_effect_def effect_def)
  have "acyclic (active_rel (as_db t))"
  proof (cases "set (db_edges (as_db t)) - set (db_edges (as_db s)) = {}")
    case True
    then have "set (db_edges (as_db t)) \<subseteq> set (db_edges (as_db s))" by blast
    then have "active_rel (as_db t) \<subseteq> active_rel (as_db s)" by (rule active_rel_mono)
    then show ?thesis using assms(3) by (rule acyclic_subset [rotated])
  next
    case False
    then have new: "\<not> WouldCreateCycle x y (as_db s)" using grow by (auto simp: edges_grow_def new_edge_ok_def)
    have "active_rel (as_db t) \<subseteq> insert (x, y) (active_rel (as_db s))"
      by (rule active_rel_grown [OF grow]) (simp add: new_edge_ok_def)
    with assms(3) new show ?thesis by (rule cycle_check_sound)
  qed
  then show ?thesis using grow by (auto simp: edges_grow_def new_edge_ok_def)
qed

text \<open>C6. No event records a hash as computed by the server: every (node, hash) pair that a \<open>SERVER\<close> row of
  the provenance table names after an event was named by one before. It is these rows that pruning
  accepts a master by, when they name the hash the node stores. An event that stores a hash again which
  an older \<open>SERVER\<close> row of the node still names makes that row count again; a node that no \<open>SERVER\<close> row
  names is never verified by an event.\<close>

theorem devices_never_vouch:
  assumes "event_tx dr ev s = (r, t)"
  shows "server_hashes (as_db t) \<subseteq> server_hashes (as_db s)"
  using assms by (cases rule: event_tx_cases) (simp_all add: event_effect_def effect_def)


section \<open>Repeated events\<close>

lemma check_created_again: "check_created p s = (Inr x, s') \<Longrightarrow> check_created p t = (Inr x, t)"
  by (auto simp: check_created_def ebind_def guarded_def efail_def ereturn_def split: if_splits)

lemma check_created_state: "check_created p s = (Inr x, s') \<Longrightarrow> s' = s"
  by (rule keeps_pureD [OF pure_created])

text \<open>A uuid with a row of its own is known to every device.\<close>

lemma lookup_row: "n \<in> set (db_nodes (ad_db a)) \<Longrightarrow> LookupNodeByUUID agent (n_uuid n) a \<noteq> None"
proof -
  assume "n \<in> set (db_nodes (ad_db a))"
  then have "GetMediaNodeByUUID (n_uuid n) (ad_db a) \<noteq> None" by (auto simp: GetMediaNodeByUUID_def find_None_iff)
  then show ?thesis by (auto simp: LookupNodeByUUID_def)
qed

lemma insert_node_Inr: "insert_node a s = (Inr n, t) \<longleftrightarrow>
    (\<exists>d. InsertMediaNode a (as_db s) = Inr (n, d) \<and> t = s\<lparr>as_tables := (as_tables s)\<lparr>ad_db := d\<rparr>\<rparr>)"
  by (auto simp: insert_node_def asset_def split: sum.splits prod.splits)

lemma insert_node_Inl: "insert_node a s = (Inl e, t) \<Longrightarrow> t = s"
  by (auto simp: insert_node_def asset_def split: sum.splits prod.splits)

lemma dedup_cases:
  assumes "dedup agent u full m s = (r, t)"
  obtains (other) "m s = (r, t)"
  | (same) h ex where "nonempty full = Some h" "GetMediaNodeByFullHash (Some h) (as_db s) = Some ex"
      "ebind (recordContentAlias u (n_uuid ex) agent) (\<lambda>_. ereturn 0) s = (r, t)"
  using assms by (auto simp: dedup_def eread_def split: option.splits)

lemma insert_created_known:
  assumes "insert_created dr agent p s = (Inr i, t)"
    and "\<And>h ex. nonempty (nc_full p) = Some h \<Longrightarrow> GetMediaNodeByFullHash (Some h) (as_db s) \<noteq> Some ex"
  shows "LookupNodeByUUID agent (nc_uuid p) (as_tables t) \<noteq> None"
proof -
  obtain g l where tail: "ecase (insert_node (created_row dr agent p l (db_clock (as_db s))))
       (\<lambda>e. dedup agent (nc_uuid p) (nc_full p) (efail e))
       (\<lambda>n. ebind (record_creation agent (nc_uuid p) n (nonempty (nc_full p))) (\<lambda>_.
          ebind (on_db (writeGPSMetadata dr (n_id n) p)) (\<lambda>_. ereturn (n_id n)))) s = (Inr i, t)"
    using assms(1) keeps_pureD [OF pure_guard] keeps_pureD [OF pure_resolve]
    by (fastforce simp: insert_created_def ebind_Inr eff_Inr)
  obtain r u where ins: "insert_node (created_row dr agent p l (db_clock (as_db s))) s = (r, u)"
    by (cases "insert_node (created_row dr agent p l (db_clock (as_db s))) s")
  show ?thesis
  proof (cases r)
    case (Inl e)
    then have "u = s" using ins insert_node_Inl by blast
    then have "dedup agent (nc_uuid p) (nc_full p) (efail e) s = (Inr i, t)" using tail ins Inl by (simp add: ecase_def)
    then show ?thesis by (cases rule: dedup_cases) (use assms(2) in \<open>auto simp: eff_Inr\<close>)
  next
    case (Inr n)
    obtain d where d: "InsertMediaNode (created_row dr agent p l (db_clock (as_db s))) (as_db s) = Inr (n, d)" "as_db u = d"
      using ins Inr by (auto simp: insert_node_Inr)
    have "keeps (effect (\<lambda>_ _. False) (\<lambda>_. False) (\<lambda>_. True) agent UNIV) (ebind (record_creation agent (nc_uuid p) n (nonempty (nc_full p))) (\<lambda>_.
          ebind (on_db (writeGPSMetadata dr (n_id n) p)) (\<lambda>_. ereturn (n_id n))))"
      by (intro keeps_bind keeps_return effect_transp effect_reflp effect_record_creation effect_gps) simp
    then have "effect (\<lambda>_ _. False) (\<lambda>_. False) (\<lambda>_. True) agent UNIV u t"
      by (rule keepsD) (use tail ins Inr in \<open>simp add: ecase_def\<close>)
    moreover have "n \<in> set (db_nodes (as_db u))" "n_uuid n = nc_uuid p"
      using InsertMediaNode_ok(1,5) [OF d(1)] d(2) by (simp_all add: created_row_def)
    ultimately obtain n' where "n' \<in> set (db_nodes (as_db t))" "n_uuid n' = nc_uuid p"
      unfolding effect_def rows_kept_def row_kept_def by metis
    then show ?thesis using lookup_row by metis
  qed
qed

text \<open>An alias that is recorded makes the uuid known, or was there and changes nothing.\<close>

lemma recordContentAlias_known:
  assumes "recordContentAlias u (n_uuid ex) agent s = (Inr x, t)" "ex \<in> set (db_nodes (as_db s))"
    and "LookupNodeByUUID agent u (as_tables s) = None"
  shows "t = s \<or> LookupNodeByUUID agent u (as_tables t) \<noteq> None"
proof (cases "u = n_uuid ex \<or> GetNodeUUIDAlias u (as_tables s) \<noteq> None")
  case True
  have "t = s" if "u = n_uuid ex" using that assms(1) by (simp add: recordContentAlias_def ereturn_def)
  moreover have "t = s" if "u \<noteq> n_uuid ex" "GetNodeUUIDAlias u (as_tables s) \<noteq> None"
    using that assms(1) by (simp add: recordContentAlias_def asset_def run_sql_def InsertNodeUUIDAlias_def)
  ultimately show ?thesis using True by blast
next
  case False
  let ?al = "\<lparr>na_alias = u, na_node = n_uuid ex, na_agent = agent, na_created = db_clock (as_db s)\<rparr>"
  have "has_uuid (n_uuid ex) (as_db s)" using assms(2) by (simp add: has_uuid_def)
  then have t: "t = s\<lparr>as_tables := (as_tables s)\<lparr>ad_aliases := ad_aliases (as_tables s) @ [?al]\<rparr>\<rparr>"
    using assms(1) False by (auto simp: recordContentAlias_def asset_def run_sql_def InsertNodeUUIDAlias_def)
  have "find (\<lambda>x. na_alias x = u) (xs @ [?al]) = Some ?al" if "find (\<lambda>x. na_alias x = u) xs = None" for xs
    using that by (induction xs) (auto split: if_splits)
  then have "GetNodeUUIDAlias u (as_tables t) = Some ?al"
    using False by (simp add: t GetNodeUUIDAlias_def)
  moreover have "GetMediaNodeByUUID (n_uuid ex) (as_db t) \<noteq> None"
    using assms(2) by (auto simp: t GetMediaNodeByUUID_def find_None_iff)
  ultimately show ?thesis by (auto simp: LookupNodeByUUID_def split: option.splits)
qed

text \<open>A repeated creation changes nothing. A device that resends a creation the server has applied, after
  losing the answer, gets success and leaves the tables as the first one left them, whether the first
  inserted a row, found the content or the uuid already there.\<close>

theorem node_created_idempotent:
  assumes "applyNodeCreated dr ev s = (Inr i, t)"
  shows "applyNodeCreated dr ev t = (Inr 0, t)"
proof -
  obtain p where p: "dr_created dr (ev_payload ev) = Some p"
    using assms by (cases "dr_created dr (ev_payload ev)") (auto simp: applyNodeCreated_def eff_Inr)
  let ?known = "\<lambda>s. LookupNodeByUUID (ev_agent ev) (nc_uuid p) (as_tables s) \<noteq> None"
  let ?new = "\<lambda>s. dedup (ev_agent ev) (nc_uuid p) (nc_full p) (insert_created dr (ev_agent ev) p) s"
  have "ebind (check_created p) (\<lambda>_. eread (\<lambda>s. if ?known s then ereturn 0 else
      dedup (ev_agent ev) (nc_uuid p) (nc_full p) (insert_created dr (ev_agent ev) p))) s = (Inr i, t)"
    using assms p by (simp add: applyNodeCreated_def)
  then obtain x u where checked': "check_created p s = (Inr x, u)"
    and run': "(if ?known u then ereturn 0 u else ?new u) = (Inr i, t)"
    by (auto simp: ebind_Inr eff_Inr split: if_splits)
  note checked = checked' [unfolded check_created_state [OF checked']]
    and run = run' [unfolded check_created_state [OF checked']]
  have again: "applyNodeCreated dr ev u = (if ?known u then ereturn 0 u else ?new u)" for u
    using check_created_again [OF checked] p by (simp add: applyNodeCreated_def ebind_def eread_def)
  have unchanged: ?thesis if "t = s" "i = 0" using that run again by simp
  show ?thesis
  proof (cases "?known s")
    case True
    then show ?thesis using unchanged run by (simp add: ereturn_def)
  next
    case False
    then have new: "?new s = (Inr i, t)" using run by simp
    have aliased: ?thesis
      if "ebind (recordContentAlias (nc_uuid p) (n_uuid ex) (ev_agent ev)) (\<lambda>_. ereturn 0) s = (Inr i, t)"
        "ex \<in> set (db_nodes (as_db s))" for ex
    proof -
      have i: "i = 0" and al: "recordContentAlias (nc_uuid p) (n_uuid ex) (ev_agent ev) s = (Inr (), t)"
        using that(1) by (auto simp: ebind_Inr eff_Inr)
      from recordContentAlias_known [OF al that(2)] False have "t = s \<or> ?known t" by blast
      then show ?thesis using unchanged i again by (auto simp: ereturn_def)
    qed
    from new show ?thesis
    proof (cases rule: dedup_cases)
      case (same h ex)
      then show ?thesis using aliased GetMediaNodeByFullHash_Some by blast
    next
      case other
      show ?thesis
      proof (cases "\<exists>h ex. nonempty (nc_full p) = Some h \<and> GetMediaNodeByFullHash (Some h) (as_db s) = Some ex")
        case True
        then obtain h ex where "nonempty (nc_full p) = Some h" "GetMediaNodeByFullHash (Some h) (as_db s) = Some ex" by blast
        moreover have "ebind (recordContentAlias (nc_uuid p) (n_uuid ex) (ev_agent ev)) (\<lambda>_. ereturn 0) s = (Inr i, t)"
          using new calculation by (simp add: dedup_def eread_def)
        ultimately show ?thesis using aliased GetMediaNodeByFullHash_Some by blast
      next
        case no_content: False
        then have "?known t" using insert_created_known [OF other] by blast
        then show ?thesis using again by (simp add: ereturn_def)
      qed
    qed
  qed
qed

section \<open>Examples\<close>

text \<open>The four at the sample: the phone deletes its own copy, and asserts an edge into it.\<close>

theorem events_respect_ownership_witness:
  "scanned \<in> set (db_nodes (as_db (snd (event_tx phone_drainer delete_event phone_state)))) \<and>
   map n_life (db_nodes (as_db (snd (event_tx phone_drainer delete_event phone_state)))) = [ACTIVE, TRASHED]"
proof -
  have node: "scanned \<in> set (db_nodes (as_db phone_state))" "n_id scanned = 1"
    and foreign: "\<not> owns (ev_agent delete_event) (n_uuid scanned) (as_tables phone_state)"
    by (simp_all add: phone_state_def phone_tables_def scanned_def sample_node_def owns_def GetNodeCreator_def uid_def
        delete_event_def queued_def)
  have "n_id scanned \<notin> cascade_targets (n_id m) (as_db phone_state)" for m
    by (simp add: phone_state_def phone_tables_def cascade_targets_def ListEdgesBySource_def)
  then have "\<exists>n' \<in> set (db_nodes (as_db (snd (event_tx phone_drainer delete_event phone_state)))).
      n_id n' = n_id scanned \<and>
      (n' = scanned \<or> edge_target phone_drainer delete_event (as_tables phone_state) (n_id scanned) \<and> row_same scanned n')"
    by (rule events_respect_ownership [of phone_drainer delete_event phone_state,
        OF prod.collapse [symmetric] node(1) phone_ok foreign, THEN conjunct1])
  moreover have "map n_life (db_nodes (as_db (snd (event_tx phone_drainer delete_event phone_state)))) = [ACTIVE, TRASHED]"
    by code_simp
  moreover have "\<not> edge_target phone_drainer delete_event (as_tables phone_state) (n_id scanned)"
    by (simp add: edge_target_def delete_event_def queued_def)
  ultimately show ?thesis by blast
qed

theorem device_edges_are_suggestions_witness:
  "acyclic (active_rel (as_db (snd (event_tx phone_drainer attach_event phone_state)))) \<and>
   map e_review (db_edges (as_db (snd (event_tx phone_drainer attach_event phone_state)))) = [AUTO_ACCEPTED]"
proof -
  have "map e_review (db_edges (as_db (snd (event_tx phone_drainer attach_event phone_state)))) = [AUTO_ACCEPTED]"
    by code_simp
  then show ?thesis
    using device_edges_are_suggestions [of phone_drainer attach_event phone_state, OF prod.collapse [symmetric] phone_ok phone_acyclic]
    by simp
qed

theorem devices_never_vouch_witness:
  "server_hashes (as_db (snd (event_tx phone_drainer attach_event phone_state))) = {}"
  using devices_never_vouch [of phone_drainer attach_event phone_state, OF prod.collapse [symmetric]]
  by (simp add: server_hashes_def phone_state_def phone_tables_def)

text \<open>The phone sends content the archive already holds, twice: the second time nothing is added.\<close>

theorem node_created_idempotent_witness:
  "applyNodeCreated phone_drainer create_event (snd (applyNodeCreated phone_drainer create_event phone_state)) =
     (Inr 0, snd (applyNodeCreated phone_drainer create_event phone_state)) \<and>
   map na_alias (ad_aliases (as_tables (snd (applyNodeCreated phone_drainer create_event phone_state)))) = [uid (CHR ''3'')]"
proof -
  have "fst (applyNodeCreated phone_drainer create_event phone_state) = Inr 0" by code_simp
  then have "applyNodeCreated phone_drainer create_event phone_state =
      (Inr 0, snd (applyNodeCreated phone_drainer create_event phone_state))" by (metis prod.collapse)
  moreover have "map na_alias (ad_aliases (as_tables (snd (applyNodeCreated phone_drainer create_event phone_state)))) = [uid (CHR ''3'')]"
    by code_simp
  ultimately show ?thesis using node_created_idempotent by blast
qed

end
