(* ===== verification/DrainQueue.thy ===== *)
theory DrainQueue
  imports DrainerProps
begin

text \<open>
  The life of a queued event. \<open>queue_step\<close> is what one attempt may do to an event; a batch makes one
  such step for each event it lists and leaves the other events verbatim, whatever the events do to the
  rest of the tables. \<open>DrainAll\<close>, the loop over batches, terminates because a batch that settles an event
  leaves fewer pending ones.
\<close>

section \<open>One attempt\<close>

inductive queue_step :: "drainer \<Rightarrow> agent_event \<Rightarrow> agent_event \<Rightarrow> bool" for dr :: drainer where
  processed: "ev_status e = EvPending \<Longrightarrow>
    queue_step dr e (e\<lparr>ev_status := EvProcessed, ev_processed := Some now, ev_error := None\<rparr>)"
| failed: "ev_status e = EvPending \<Longrightarrow> isFatal dr err \<or> dr_max dr \<le> ev_retry e + 1 \<Longrightarrow>
    queue_step dr e (e\<lparr>ev_status := EvFailed, ev_processed := Some now, ev_error := Some (dr_text dr err)\<rparr>)"
| deferred: "ev_status e = EvPending \<Longrightarrow> \<not> isFatal dr err \<Longrightarrow> ev_retry e + 1 < dr_max dr \<Longrightarrow>
    queue_step dr e (e\<lparr>ev_retry := ev_retry e + 1, ev_error := Some (dr_text dr err),
      ev_next := now + RetryDelay (ev_retry e + 1) div 1000000000\<rparr>)"

inductive_cases queue_stepE: "queue_step dr e e'"

lemma queue_step_pending: "queue_step dr e e' \<Longrightarrow> ev_status e = EvPending"
  by (erule queue_stepE) simp_all

lemma queue_step_id [simp]: "queue_step dr e e' \<Longrightarrow> ev_id e' = ev_id e"
  by (erule queue_stepE) simp_all

text \<open>\<open>on_event i f\<close> is the queue in which the event \<open>i\<close> has become \<open>f\<close> of itself.\<close>

abbreviation events :: "asset_state \<Rightarrow> agent_event list" where
  "events s \<equiv> ad_events (as_tables s)"

definition on_event :: "int \<Rightarrow> (agent_event \<Rightarrow> agent_event) \<Rightarrow> agent_event list \<Rightarrow> agent_event list" where
  "on_event i f = map (\<lambda>e. if ev_id e = i then f e else e)"

lemma update_events_events [simp]: "ad_events (update_events i f a) = on_event i f (ad_events a)"
  by (simp add: update_events_def on_event_def)

lemma pass_time_events [simp]: "events (pass_time dr s) = events s"
  by (simp add: pass_time_def on_tables_def)

lemma resolve_created_events [simp]: "events (resolve_created dr i s) = events s"
  by (simp add: resolve_created_def on_tables_def split: option.splits)

lemma event_tx_events:
  assumes "event_tx dr ev s = (r, t)"
  shows "case r of Inl _ \<Rightarrow> events t = events s
    | Inr _ \<Rightarrow> \<exists>now. events t = on_event (ev_id ev)
        (\<lambda>e. e\<lparr>ev_status := EvProcessed, ev_processed := Some now, ev_error := None\<rparr>) (events s)"
proof -
  obtain t' where t': "attach_effect (edge_target dr ev (as_tables s)) (ev_agent ev) s t'" "as_tables t = (case r of Inl e \<Rightarrow> as_tables s
      | Inr x \<Rightarrow> MarkAgentEventProcessed (ev_id ev) (as_tables t'))"
    using event_tx_effect [OF assms] by blast
  then have "events t' = events s" by (auto simp: attach_effect_def event_effect_def effect_def)
  then show ?thesis using t'(2) by (cases r) (auto simp: MarkAgentEventProcessed_def)
qed

text \<open>The three ways an attempt ends, with what they do to the counts.\<close>

definition attempt :: "drainer \<Rightarrow> agent_event \<Rightarrow> (agent_event \<Rightarrow> agent_event) \<Rightarrow> nat \<Rightarrow> nat \<Rightarrow> bool" where
  "attempt dr ev f p q \<longleftrightarrow>
     (\<exists>now. f = (\<lambda>e. e\<lparr>ev_status := EvProcessed, ev_processed := Some now, ev_error := None\<rparr>) \<and> p = 1 \<and> q = 0) \<or>
     (\<exists>now err. (isFatal dr err \<or> dr_max dr \<le> ev_retry ev + 1) \<and> p = 0 \<and> q = 1 \<and>
       f = (\<lambda>e. e\<lparr>ev_status := EvFailed, ev_processed := Some now, ev_error := Some (dr_text dr err)\<rparr>)) \<or>
     (\<exists>now err. \<not> isFatal dr err \<and> ev_retry ev + 1 < dr_max dr \<and> p = 0 \<and> q = 0 \<and>
       f = (\<lambda>e. e\<lparr>ev_retry := ev_retry e + 1, ev_error := Some (dr_text dr err),
         ev_next := now + RetryDelay (ev_retry ev + 1) div 1000000000\<rparr>))"

lemma attemptI:
  "attempt dr ev (\<lambda>e. e\<lparr>ev_status := EvProcessed, ev_processed := Some now, ev_error := None\<rparr>) 1 0"
  "isFatal dr err \<or> dr_max dr \<le> ev_retry ev + 1 \<Longrightarrow> attempt dr ev
     (\<lambda>e. e\<lparr>ev_status := EvFailed, ev_processed := Some now, ev_error := Some (dr_text dr err)\<rparr>) 0 1"
  "\<not> isFatal dr err \<Longrightarrow> ev_retry ev + 1 < dr_max dr \<Longrightarrow> attempt dr ev
     (\<lambda>e. e\<lparr>ev_retry := ev_retry e + 1, ev_error := Some (dr_text dr err),
         ev_next := now + RetryDelay (ev_retry ev + 1) div 1000000000\<rparr>) 0 0"
  unfolding attempt_def by blast+

lemma process_event_attempt:
  assumes "process_event dr ev (st, s) = (st', t)"
  shows "\<exists>f p q. attempt dr ev f p q \<and> events t = on_event (ev_id ev) f (events s) \<and>
    ds_processed st' = ds_processed st + p \<and> ds_failed st' = ds_failed st + q"
proof -
  obtain r u where tx: "event_tx dr ev (pass_time dr s) = (r, u)" by (cases "event_tx dr ev (pass_time dr s)")
  note eff = event_tx_events [OF tx]
  have result: ?thesis if "attempt dr ev f p q" "events t = on_event (ev_id ev) f (events s)"
    "ds_processed st' = ds_processed st + p" "ds_failed st' = ds_failed st + q" for f p q
    using that by blast
  show ?thesis
  proof (cases r)
    case (Inr x)
    then obtain now where "events t = on_event (ev_id ev)
        (\<lambda>e. e\<lparr>ev_status := EvProcessed, ev_processed := Some now, ev_error := None\<rparr>) (events s)"
      "ds_processed st' = ds_processed st + 1" "ds_failed st' = ds_failed st"
      using eff assms tx by (auto simp: process_event_def split: prod.splits)
    then show ?thesis by (intro result [OF attemptI(1)]) simp_all
  next
    case (Inl e)
    then have u: "events u = events s" using eff by simp
    show ?thesis
    proof (cases "isFatal dr e \<or> dr_max dr \<le> ev_retry ev + 1")
      case True
      then have "events t = on_event (ev_id ev)
          (\<lambda>x. x\<lparr>ev_status := EvFailed, ev_processed := Some (db_clock (as_db u)), ev_error := Some (dr_text dr e)\<rparr>) (events s)"
        "ds_processed st' = ds_processed st" "ds_failed st' = ds_failed st + 1"
        using assms tx Inl u by (auto simp: process_event_def settle_error_def on_tables_def MarkAgentEventFailed_def)
      then show ?thesis by (intro result [OF attemptI(2) [OF True]]) simp_all
    next
      case False
      then have "events t = on_event (ev_id ev) (\<lambda>x. x\<lparr>ev_retry := ev_retry x + 1, ev_error := Some (dr_text dr e),
          ev_next := db_clock (as_db u) + RetryDelay (ev_retry ev + 1) div 1000000000\<rparr>) (events s)"
        "ds_processed st' = ds_processed st" "ds_failed st' = ds_failed st"
        using assms tx Inl u by (auto simp: process_event_def settle_error_def on_tables_def ScheduleAgentEventRetry_def)
      moreover have "\<not> isFatal dr e" "ev_retry ev + 1 < dr_max dr" using False by auto
      ultimately show ?thesis by (intro result [OF attemptI(3)]) simp_all
    qed
  qed
qed

lemma attempt_step: "attempt dr ev f p q \<Longrightarrow> ev_status ev = EvPending \<Longrightarrow> queue_step dr ev (f ev)"
  unfolding attempt_def by (elim disjE exE conjE) (auto intro: queue_step.intros)

lemma attempt_id: "attempt dr ev f p q \<Longrightarrow> ev_id (f e) = ev_id e"
  by (auto simp: attempt_def)



section \<open>One batch\<close>

definition pending :: "agent_event list \<Rightarrow> nat" where
  "pending es = length (filter (\<lambda>e. ev_status e = EvPending) es)"

lemma CountPending_pending: "CountPendingAgentEvents a = pending (ad_events a)"
  by (simp add: CountPendingAgentEvents_def pending_def)

lemma on_event_ids: "(\<And>e. ev_id (f e) = ev_id e) \<Longrightarrow> map ev_id (on_event i f es) = map ev_id es"
  by (induction es) (simp_all add: on_event_def)

lemma on_event_absent: "i \<notin> ev_id ` set es \<Longrightarrow> on_event i f es = es"
  by (induction es) (auto simp: on_event_def)



lemma listed: "ev \<in> set (ListPendingAgentEvents now k a) \<Longrightarrow> ev \<in> set (ad_events a) \<and> ev_status ev = EvPending \<and> ev_next ev \<le> now"
  by (auto simp: ListPendingAgentEvents_def due_def dest: in_set_takeD)


section \<open>The loop over batches\<close>






section \<open>Properties\<close>

text \<open>The batch implements the step relation, event by event.\<close>

definition batch_of :: "drainer \<Rightarrow> agent_event set \<Rightarrow> agent_event \<Rightarrow> agent_event \<Rightarrow> bool" where
  "batch_of dr E e e' \<longleftrightarrow> (if e \<in> E then queue_step dr e e' else e' = e)"

lemma list_all2_on_event:
  "(\<And>e. e \<in> set es \<Longrightarrow> P e (if ev_id e = i then f e else e)) \<Longrightarrow> list_all2 P es (on_event i f es)"
  by (induction es) (auto simp: on_event_def)

lemma same_event_id: "distinct (map ev_id es) \<Longrightarrow> e \<in> set es \<Longrightarrow> e' \<in> set es \<Longrightarrow> ev_id e = ev_id e' \<Longrightarrow> e = e'"
  by (metis distinct_map inj_onD)

lemma on_event_settles:
  "distinct (map ev_id es) \<Longrightarrow> e \<in> set es \<Longrightarrow> ev_status e = EvPending \<Longrightarrow>
   pending (on_event (ev_id e) f es) + (if ev_status (f e) = EvPending then 0 else 1) = pending es"
proof (induction es)
  case (Cons x es)
  show ?case
  proof (cases "x = e")
    case True
    then have "on_event (ev_id e) f (x # es) = f e # es"
      using Cons.prems(1) on_event_absent [of "ev_id e" es f] by (simp add: on_event_def)
    then show ?thesis using Cons.prems(3) True by (simp add: pending_def)
  next
    case False
    then have "e \<in> set es" "ev_id x \<noteq> ev_id e" using Cons.prems(1,2) by auto
    then show ?thesis using Cons by (simp add: pending_def on_event_def)
  qed
qed simp

lemma batch_steps:
  assumes "fold (process_event dr) evs (st, s) = (st', t)" "distinct evs" "set evs \<subseteq> set (events s)"
    "\<forall>e \<in> set evs. ev_status e = EvPending" "distinct (map ev_id (events s))"
  shows "list_all2 (batch_of dr (set evs)) (events s) (events t) \<and> distinct (map ev_id (events t)) \<and>
    pending (events t) + (ds_processed st' + ds_failed st') = pending (events s) + (ds_processed st + ds_failed st)"
  using assms
proof (induction evs arbitrary: st s)
  case Nil
  then show ?case by (auto simp: batch_of_def intro: list_all2_refl)
next
  case (Cons ev evs)
  obtain st1 s1 where one: "process_event dr ev (st, s) = (st1, s1)" by (cases "process_event dr ev (st, s)")
  obtain f p q where f: "attempt dr ev f p q" "events s1 = on_event (ev_id ev) f (events s)"
    "ds_processed st1 = ds_processed st + p" "ds_failed st1 = ds_failed st + q"
    using process_event_attempt [OF one] by blast
  note ids = Cons.prems(5)
  have ev: "ev \<in> set (events s)" "ev_status ev = EvPending" "ev \<notin> set evs" using Cons.prems(2,3,4) by auto
  have same: "ev_id e = ev_id ev \<longleftrightarrow> e = ev" if "e \<in> set (events s)" for e
    using same_event_id [OF ids that ev(1)] by auto
  have later: "e \<in> set (events s1)" if "e \<in> set evs" for e
    using that Cons.prems(3) ev(3) same f(2) by (force simp: on_event_def)
  have ids1: "distinct (map ev_id (events s1))"
    using ids f(2) on_event_ids [of f "ev_id ev" "events s"] attempt_id [OF f(1)] by simp
  have rest: "fold (process_event dr) evs (st1, s1) = (st', t)" using Cons.prems(1) one by simp
  have step: "list_all2 (\<lambda>e e'. e' = (if e = ev then f ev else e) \<and> e \<in> set (events s)) (events s) (events s1)"
    unfolding f(2) by (rule list_all2_on_event) (use same in auto)
  have settled: "pending (events s1) + (p + q) = pending (events s)"
    using on_event_settles [OF ids ev(1,2), of f] f(1,2) ev(2) by (auto simp: attempt_def)
  have rest_ok: "list_all2 (batch_of dr (set evs)) (events s1) (events t) \<and> distinct (map ev_id (events t)) \<and>
    pending (events t) + (ds_processed st' + ds_failed st') = pending (events s1) + (ds_processed st1 + ds_failed st1)"
    by (rule Cons.IH [OF rest]) (use Cons.prems(2,4) later ids1 in auto)
  have "batch_of dr (set (ev # evs)) e e''"
    if "e' = (if e = ev then f ev else e) \<and> e \<in> set (events s)" "batch_of dr (set evs) e' e''" for e e' e''
  proof (cases "e = ev")
    case True
    have "f ev \<notin> set evs"
    proof
      assume "f ev \<in> set evs"
      then have "f ev \<in> set (events s)" using Cons.prems(3) by auto
      then have "f ev = ev" using same [of "f ev"] attempt_id [OF f(1)] by simp
      then show False using \<open>f ev \<in> set evs\<close> ev(3) by simp
    qed
    then show ?thesis using that True attempt_step [OF f(1) ev(2)] by (simp add: batch_of_def)
  next
    case False
    then show ?thesis using that by (simp add: batch_of_def)
  qed
  then have "list_all2 (batch_of dr (set (ev # evs))) (events s) (events t)"
    by (rule list_all2_trans [OF _ step]) (use rest_ok in blast)+
  then show ?case using settled rest_ok f(3,4) by simp
qed


lemma listed_distinct: "distinct (map ev_id (ad_events a)) \<Longrightarrow> distinct (ListPendingAgentEvents now k a)"
  by (simp add: ListPendingAgentEvents_def distinct_take distinct_map)

lemma ProcessPending_steps:
  assumes "ProcessPending dr k s = (st, t)" "distinct (map ev_id (events s))"
  shows "list_all2 (batch_of dr (set (ListPendingAgentEvents (db_clock (as_db s)) (nat (if k \<le> 0 then 50 else k)) (as_tables s))))
      (events s) (events t)"
    and "distinct (map ev_id (events t))"
    and "pending (events t) + (ds_processed st + ds_failed st) = pending (events s)"
proof -
  let ?evs = "ListPendingAgentEvents (db_clock (as_db s)) (nat (if k \<le> 0 then 50 else k)) (as_tables s)"
  have "fold (process_event dr) ?evs (no_stats, s) = (st, t)" using assms(1) by (simp add: ProcessPending_def)
  moreover have "set ?evs \<subseteq> set (events s)" "\<forall>e \<in> set ?evs. ev_status e = EvPending"
    using listed [of _ "db_clock (as_db s)" _ "as_tables s"] by blast+
  ultimately have "list_all2 (batch_of dr (set ?evs)) (events s) (events t) \<and> distinct (map ev_id (events t)) \<and>
    pending (events t) + (ds_processed st + ds_failed st) = pending (events s) + (ds_processed no_stats + ds_failed no_stats)"
    using listed_distinct [OF assms(2)] assms(2) by (intro batch_steps)
  then show "list_all2 (batch_of dr (set ?evs)) (events s) (events t)" "distinct (map ev_id (events t))"
    "pending (events t) + (ds_processed st + ds_failed st) = pending (events s)"
    by (simp_all add: no_stats_def)
qed




text \<open>C3. A batch attempts each event it lists exactly once, oldest first, and one event's failure keeps no other
  event from its attempt: the queue after the batch is the queue before it with one step of the status
  machine for every listed event and every other event verbatim.\<close>

theorem batch_refines_steps:
  assumes "ProcessPending dr k s = (st, t)" "distinct (map ev_id (events s))"
  shows "list_all2 (\<lambda>e e'.
      if e \<in> set (ListPendingAgentEvents (db_clock (as_db s)) (nat (if k \<le> 0 then 50 else k)) (as_tables s))
      then queue_step dr e e' else e' = e) (events s) (events t)"
  using ProcessPending_steps(1) [OF assms] by (simp add: batch_of_def [abs_def])

text \<open>Chains of attempts.\<close>

lemma attempts:
  "(queue_step dr ^^ n) e e' \<Longrightarrow>
   (ev_status e' = EvPending \<longrightarrow> ev_retry e' = ev_retry e + int n \<and> (n > 0 \<longrightarrow> ev_retry e' < dr_max dr)) \<and>
   (n > 1 \<longrightarrow> ev_retry e + int n \<le> dr_max dr)"
proof (induction n arbitrary: e')
  case (Suc n)
  then obtain y where y: "(queue_step dr ^^ n) e y" "queue_step dr y e'" by auto
  have "ev_status y = EvPending" using y(2) by (rule queue_step_pending)
  then have "ev_retry y = ev_retry e + int n" "n > 0 \<Longrightarrow> ev_retry y < dr_max dr" using Suc.IH [OF y(1)] by auto
  then show ?case using y(2) by (auto elim!: queue_stepE)
qed auto

text \<open>No event stays in the queue for ever. A fresh event that has been attempted as often as the limit says
  is settled: chains of attempts are never longer than the limit, and one that is still pending after
  \<open>n\<close> attempts has \<open>n\<close> retries on its row.\<close>

theorem attempts_are_bounded:
  assumes "(queue_step dr ^^ n) e e'" "ev_retry e = 0" "1 \<le> dr_max dr"
  shows "int n \<le> dr_max dr \<and> (int n = dr_max dr \<longrightarrow> ev_status e' \<noteq> EvPending) \<and>
    (ev_status e' = EvPending \<longrightarrow> ev_retry e' = int n)"
  using attempts [OF assms(1)] assms(2,3) by (cases "n > 1"; cases "ev_status e'") auto

section \<open>The retry delay\<close>

lemma retry_loop_closed:
  "d < DefaultRetryMaxDelay \<Longrightarrow> retry_loop k d = min (d * 2 ^ k) DefaultRetryMaxDelay \<or> k = 0 \<and> retry_loop k d = d"
  for d :: int
proof (induction k arbitrary: d)
  case (Suc k)
  show ?case
  proof (cases "DefaultRetryMaxDelay \<le> d * 2")
    case True
    have "d * 2 * 1 \<le> d * 2 * 2 ^ k"
      by (rule mult_left_mono) (use True in \<open>simp_all add: DefaultRetryMaxDelay_def\<close>)
    then have "DefaultRetryMaxDelay \<le> d * 2 * 2 ^ k" using True by simp
    then show ?thesis using True by (simp add: mult.assoc)
  next
    case False
    then have "retry_loop (Suc k) d = retry_loop k (d * 2)" by simp
    moreover have "retry_loop k (d * 2) = min (d * 2 * 2 ^ k) DefaultRetryMaxDelay"
      using Suc.IH [of "d * 2"] False by auto
    ultimately show ?thesis by (simp add: mult.assoc)
  qed
qed simp

text \<open>The delay doubles from five seconds with each attempt and is capped at an hour.\<close>

theorem retry_delay_doubles:
  "RetryDelay n = min (5000000000 * 2 ^ nat (n - 1)) 3600000000000"
  using retry_loop_closed [of DefaultRetryBaseDelay "nat (n - 1)"]
  by (auto simp: RetryDelay_def DefaultRetryBaseDelay_def DefaultRetryMaxDelay_def)


section \<open>Examples\<close>

text \<open>The phone's three events: the edge and its own deletion are applied, the foreign deletion fails.\<close>

lemma phone_distinct: "distinct (map ev_id (events phone_state))"
  by code_simp


theorem batch_refines_steps_witness:
  "list_all2 (queue_step phone_drainer) (events phone_state) (events (snd (ProcessPending phone_drainer 0 phone_state))) \<and>
   map ev_status (events (snd (ProcessPending phone_drainer 0 phone_state))) = [EvProcessed, EvProcessed, EvFailed]"
proof -
  have "map ev_status (events (snd (ProcessPending phone_drainer 0 phone_state))) = [EvProcessed, EvProcessed, EvFailed]"
    by code_simp
  moreover have "events phone_state = ListPendingAgentEvents (db_clock (as_db phone_state)) 50 (as_tables phone_state)"
    by code_simp
  then have "\<forall>e \<in> set (events phone_state).
    e \<in> set (ListPendingAgentEvents (db_clock (as_db phone_state)) (nat (if (0::int) \<le> 0 then 50 else 0)) (as_tables phone_state))"
    by simp
  then have "list_all2 (queue_step phone_drainer) (events phone_state) (events (snd (ProcessPending phone_drainer 0 phone_state)))"
    using batch_refines_steps [of phone_drainer 0 phone_state, OF prod.collapse [symmetric] phone_distinct]
    by (auto elim!: list.rel_mono_strong)
  ultimately show ?thesis by blast
qed

theorem attempts_are_bounded_witness:
  "\<exists>e. (queue_step (SetMaxRetries 2 phone_drainer) ^^ 2) foreign_event e \<and> ev_retry e = 1 \<and> ev_status e = EvProcessed \<and>
     int 2 \<le> dr_max (SetMaxRetries 2 phone_drainer)"
proof -
  let ?dr = "SetMaxRetries 2 phone_drainer"
  let ?e1 = "foreign_event\<lparr>ev_retry := ev_retry foreign_event + 1, ev_error := Some (dr_text ?dr ErrNodeNotFound),
      ev_next := 0 + RetryDelay (ev_retry foreign_event + 1) div 1000000000\<rparr>"
  have "\<not> isFatal ?dr ErrNodeNotFound" by code_simp
  then have "queue_step ?dr foreign_event ?e1"
    by (intro queue_step.deferred) (simp_all add: foreign_event_def queued_def SetMaxRetries_def phone_drainer_def)
  moreover have "queue_step ?dr ?e1 (?e1\<lparr>ev_status := EvProcessed, ev_processed := Some 9, ev_error := None\<rparr>)"
    by (rule queue_step.processed) (simp add: foreign_event_def queued_def)
  ultimately have two: "(queue_step ?dr ^^ 2) foreign_event (?e1\<lparr>ev_status := EvProcessed, ev_processed := Some 9, ev_error := None\<rparr>)"
    by (auto simp: numeral_2_eq_2)
  moreover have "int 2 \<le> dr_max ?dr"
    using attempts_are_bounded [OF two] by (simp add: foreign_event_def queued_def SetMaxRetries_def)
  moreover have "ev_retry (?e1\<lparr>ev_status := EvProcessed, ev_processed := Some 9, ev_error := None\<rparr>) = 1"
    "ev_status (?e1\<lparr>ev_status := EvProcessed, ev_processed := Some 9, ev_error := None\<rparr>) = EvProcessed"
    by (simp_all add: foreign_event_def queued_def)
  ultimately show ?thesis by blast
qed

end
