(* ===== verification/TrashNames.thy ===== *)
theory TrashNames
  imports Trash DrainerSample
begin

text \<open>
  The names of trashed copies (\<open>trashPathFor\<close>, \<open>nodeUUIDFromTrashName\<close>) and the retention clock they carry:
  a copy's name says whose it is, no two nodes share one, and the purge that asks \<open>TrashTimeLookup\<close> keeps
  a copy until the retention has passed since its node was trashed.
\<close>

lemma last_index_append:
  "last_index (x @ y) c = (case last_index y c of Some i \<Rightarrow> Some (length x + i) | None \<Rightarrow> last_index x c)"
  by (induction x) (auto split: option.splits)

section \<open>Extensions\<close>

lemma path_ext_name:
  assumes "CHR ''/'' \<notin> set b"
  shows "(CHR ''.'' \<notin> set b \<and> path_ext b = []) \<or>
    (\<exists>s e. b = s @ CHR ''.'' # e \<and> CHR ''.'' \<notin> set e \<and> path_ext b = CHR ''.'' # e)"
proof (cases "last_index b (CHR ''.'')")
  case None
  then have "path_ext b = []" by (simp add: path_ext_def)
  then show ?thesis using None last_index_None [of b "CHR ''.''"] by simp
next
  case (Some i)
  note i = last_index_Some [OF Some]
  have "drop i b = CHR ''.'' # drop (Suc i) b" using i by (metis Cons_nth_drop_Suc)
  moreover have "CHR ''/'' \<notin> set (drop i b)" using assms by (auto dest: in_set_dropD)
  ultimately have "path_ext b = CHR ''.'' # drop (Suc i) b" "b = take i b @ CHR ''.'' # drop (Suc i) b"
    using Some by (simp_all add: path_ext_def) (metis append_take_drop_id)
  then show ?thesis using i by blast
qed

lemma path_ext_dot: "CHR ''.'' \<notin> set e \<Longrightarrow> CHR ''/'' \<notin> set e \<Longrightarrow> path_ext (s @ CHR ''.'' # e) = CHR ''.'' # e"
  using last_index_None [of e "CHR ''.''"] by (simp add: path_ext_def last_index_append)

lemma path_ext_none: "CHR ''.'' \<notin> set b \<Longrightarrow> path_ext b = []"
  using last_index_None [of b "CHR ''.''"] by (simp add: path_ext_def)

lemma path_ext_under: "CHR ''/'' \<notin> set b \<Longrightarrow> path_ext (x @ CHR ''/'' # b) = path_ext b"
proof -
  assume b: "CHR ''/'' \<notin> set b"
  have "last_index (x @ CHR ''/'' # b) (CHR ''.'') = (case last_index b (CHR ''.'') of
      Some i \<Rightarrow> Some (length x + Suc i) | None \<Rightarrow> last_index x (CHR ''.''))"
    by (simp add: last_index_append split: option.splits)
  then show ?thesis
    by (cases "last_index b (CHR ''.'')"; cases "last_index x (CHR ''.'')")
      (auto simp: path_ext_def dest: last_index_Some in_set_dropD)
qed

lemma join_slash_snoc: "join_slash (d @ [b]) = (if d = [] then b else join_slash d @ CHR ''/'' # b)"
  using join_slash_append [of d "[b]"] by simp

definition trash_name :: "string \<Rightarrow> string \<Rightarrow> string" where
  "trash_name b u = trim_suffix b (path_ext b) @ ''.'' @ u @ path_ext b"

section \<open>Where a copy lies\<close>

lemma common_prefix_append: "common_prefix xs (xs @ ys) = length xs"
  by (induction xs) simp_all

lemma path_rel_under:
  "list_all proper r \<Longrightarrow> list_all proper xs \<Longrightarrow> xs \<noteq> [] \<Longrightarrow> path_rel (abs_path r) (abs_path (r @ xs)) = join_slash xs"
  by (simp add: path_rel_def clean_comps_abs_path common_prefix_append)

lemma uuid_chars:
  assumes "isUUID u" "c \<in> set u"
  shows "c = CHR ''-'' \<or> is_hex c"
proof -
  obtain i where i: "i < length u" "u ! i = c" using assms(2) by (auto simp: in_set_conv_nth)
  have "\<forall>i \<in> set [0..<36]. if i \<in> {8, 13, 18, 23} then u ! i = CHR ''-'' else is_hex (u ! i)" "length u = 36"
    using assms(1) unfolding isUUID_def list_all_iff by blast+
  moreover have "i \<in> set [0..<36]" using i(1) calculation(2) by (simp del: upt_rec_numeral)
  ultimately have "if i \<in> {8, 13, 18, 23} then u ! i = CHR ''-'' else is_hex (u ! i)" by blast
  then show ?thesis using i(2) by (auto split: if_splits)
qed

lemma not_hex: "\<not> is_hex (CHR ''.'')" "\<not> is_hex (CHR ''/'')"
  by (simp_all add: is_hex_def)

lemma uuid_clean: "isUUID u \<Longrightarrow> CHR ''.'' \<notin> set u" "isUUID u \<Longrightarrow> CHR ''/'' \<notin> set u" "isUUID u \<Longrightarrow> length u = 36"
  using uuid_chars [of u "CHR ''.''"] uuid_chars [of u "CHR ''/''"] not_hex by (auto simp: isUUID_def)

lemma trim_ext: "CHR ''/'' \<notin> set b \<Longrightarrow> trim_suffix b (path_ext b) @ path_ext b = b"
  using path_ext_name [of b] trim_suffix_append [of b "[]"] by fastforce

lemma trash_name_proper:
  assumes "proper b" "isUUID u"
  shows "proper (trash_name b u)"
proof -
  have b: "CHR ''/'' \<notin> set b" using assms(1) by (simp add: proper_def)
  then have "set (trash_name b u) \<subseteq> set b \<union> set u \<union> {CHR ''.''}"
    using trim_ext [OF b] by (auto simp: trash_name_def) (metis Un_iff set_append)+
  moreover have "length (trash_name b u) > 36" using uuid_clean(3) [OF assms(2)] by (simp add: trash_name_def)
  ultimately show ?thesis using b uuid_clean(2) [OF assms(2)] by (auto simp: proper_def dot_def dotdot_def)
qed

lemma trash_path:
  assumes "list_all proper r" "r \<noteq> []" "list_all proper d" "proper b" "isUUID u"
  shows "trashPathFor (abs_path r) (path_rel (abs_path r) (abs_path (r @ d @ [b]))) u =
    abs_path (r @ ''.trash'' # d @ [trash_name b u])"
proof -
  have b: "CHR ''/'' \<notin> set b" using assms(4) by (simp add: proper_def)
  let ?rel = "join_slash (d @ [b])"
  have rel: "path_rel (abs_path r) (abs_path (r @ d @ [b])) = ?rel"
    using assms(1,3,4) by (intro path_rel_under) simp_all
  have ext: "path_ext ?rel = path_ext b" using path_ext_under [OF b] by (simp add: join_slash_snoc)
  have "?rel = join_slash (d @ [trim_suffix b (path_ext b)]) @ path_ext b"
    using trim_ext [OF b] by (simp add: join_slash_snoc)
  then have "trim_suffix ?rel (path_ext b) = join_slash (d @ [trim_suffix b (path_ext b)])"
    using trim_suffix_append by metis
  then have "trim_suffix ?rel (path_ext b) @ ''.'' @ u @ path_ext b = join_slash (d @ [trash_name b u])"
    by (simp add: join_slash_snoc trash_name_def)
  moreover have "abs_path r @ ''/.trash/'' @ join_slash (d @ [trash_name b u]) = abs_path (r @ ''.trash'' # d @ [trash_name b u])"
    using abs_path_append [OF assms(2), of "''.trash'' # d @ [trash_name b u]"] join_slash_append [of "[''.trash'']" "d @ [trash_name b u]"]
    by simp
  moreover have "list_all proper (r @ ''.trash'' # d @ [trash_name b u])"
    using assms trash_name_proper [OF assms(4,5)] by (simp add: proper_def dot_def dotdot_def)
  ultimately show ?thesis by (simp add: trashPathFor_def rel ext in_trash_def path_clean_abs)
qed

lemma path_base_abs:
  assumes "proper n"
  shows "path_base (abs_path (xs @ [n])) = n"
proof -
  obtain x where x: "abs_path (xs @ [n]) = x @ CHR ''/'' # n"
    by (cases "xs = []") (auto simp: abs_path_def join_slash_snoc)
  have n: "n \<noteq> []" "CHR ''/'' \<notin> set n" using assms by (auto simp: proper_def)
  have "dropWhile (\<lambda>c. c = CHR ''/'') (rev n @ CHR ''/'' # rev x) = rev n @ CHR ''/'' # rev x"
    using n by (cases "rev n") auto
  then show ?thesis
    using n last_index_None [of n "CHR ''/''"] by (simp add: path_base_def x last_index_append)
qed

section \<open>The name gives the node back\<close>

lemma uuid_of_trash_name:
  assumes "proper b" "isUUID u" "\<not> isUUID (drop 1 (path_ext b))"
  shows "nodeUUIDFromTrashName (abs_path (xs @ [trash_name b u])) = Some u"
proof -
  have b: "CHR ''/'' \<notin> set b" using assms(1) by (simp add: proper_def)
  note u = uuid_clean [OF assms(2)]
  have base: "path_base (abs_path (xs @ [trash_name b u])) = trash_name b u"
    by (rule path_base_abs [OF trash_name_proper [OF assms(1,2)]])
  from path_ext_name [OF b] consider (none) "CHR ''.'' \<notin> set b" "path_ext b = []"
    | (ext) s e where "b = s @ CHR ''.'' # e" "CHR ''.'' \<notin> set e" "path_ext b = CHR ''.'' # e"
    by blast
  then show ?thesis
  proof cases
    case none
    have "trim_suffix b [] = b" using trim_suffix_append [of b "[]"] by simp
    then have "trash_name b u = b @ CHR ''.'' # u" using none(2) by (simp add: trash_name_def)
    then show ?thesis
      using path_ext_dot [OF u(1,2)] assms(2) base by (simp add: nodeUUIDFromTrashName_def trim_prefix_def)
  next
    case ext
    have "trim_suffix b (CHR ''.'' # e) = s" using ext(1) trim_suffix_append by metis
    then have name: "trash_name b u = (s @ CHR ''.'' # u) @ CHR ''.'' # e" using ext(3) by (simp add: trash_name_def)
    have "CHR ''/'' \<notin> set e" using b ext(1) by simp
    then have e: "path_ext (trash_name b u) = CHR ''.'' # e" unfolding name by (rule path_ext_dot [OF ext(2)])
    have "trim_suffix (trash_name b u) (CHR ''.'' # e) = s @ CHR ''.'' # u" unfolding name by (rule trim_suffix_append)
    moreover have "\<not> isUUID e" using assms(3) ext(3) by simp
    ultimately show ?thesis
      using u(3) assms(2) base e by (simp add: nodeUUIDFromTrashName_def trim_prefix_def nth_append)
  qed
qed


section \<open>No two nodes share a copy\<close>

lemma trash_name_cases:
  assumes "CHR ''/'' \<notin> set b"
  obtains (none) "CHR ''.'' \<notin> set b" "trash_name b u = b @ CHR ''.'' # u"
  | (ext) s e where "b = s @ CHR ''.'' # e" "CHR ''.'' \<notin> set e" "CHR ''/'' \<notin> set e"
      "trash_name b u = (s @ CHR ''.'' # u) @ CHR ''.'' # e"
proof -
  have whole: "trim_suffix b [] = b" using trim_suffix_append [of b "[]"] by simp
  have cut: "trim_suffix (s @ CHR ''.'' # e) (CHR ''.'' # e) = s" for s e by (rule trim_suffix_append)
  from path_ext_name [OF assms] show thesis
    using none ext whole cut assms by (auto simp: trash_name_def)
qed

lemma trash_name_inject:
  assumes "proper b" "isUUID u" "proper b'" "isUUID u'" "trash_name b u = trash_name b' u'"
  shows "b = b' \<and> u = u'"
proof -
  have slash: "CHR ''/'' \<notin> set b" "CHR ''/'' \<notin> set b'" using assms(1,3) by (simp_all add: proper_def)
  note u = uuid_clean [OF assms(2)] and u' = uuid_clean [OF assms(4)]
  have no_mix: False
    if "CHR ''.'' \<notin> set x" "x @ CHR ''.'' # v = (s @ CHR ''.'' # w) @ CHR ''.'' # e" "CHR ''.'' \<notin> set e"
      "CHR ''/'' \<notin> set e" "isUUID v" for x v s w e
  proof -
    have "CHR ''.'' # v = CHR ''.'' # e"
      using path_ext_dot [OF uuid_clean(1,2) [OF that(5)], of x] path_ext_dot [OF that(3,4), of "s @ CHR ''.'' # w"] that(2)
      by metis
    then show False using that(1,2) by simp
  qed
  show ?thesis
  proof (rule trash_name_cases [OF slash(1), of u])
    assume b: "CHR ''.'' \<notin> set b" "trash_name b u = b @ CHR ''.'' # u"
    show ?thesis
    proof (rule trash_name_cases [OF slash(2), of u'])
      assume "CHR ''.'' \<notin> set b'" "trash_name b' u' = b' @ CHR ''.'' # u'"
      then show ?thesis using b assms(5) u(3) u'(3) by simp
    next
      fix s e
      assume ext: "b' = s @ CHR ''.'' # e" "CHR ''.'' \<notin> set e" "CHR ''/'' \<notin> set e"
        "trash_name b' u' = (s @ CHR ''.'' # u') @ CHR ''.'' # e"
      then have "b @ CHR ''.'' # u = (s @ CHR ''.'' # u') @ CHR ''.'' # e" using b(2) assms(5) by metis
      then show ?thesis using no_mix b(1) ext(2,3) assms(2) by blast
    qed
  next
    fix s e
    assume b: "b = s @ CHR ''.'' # e" "CHR ''.'' \<notin> set e" "CHR ''/'' \<notin> set e"
      "trash_name b u = (s @ CHR ''.'' # u) @ CHR ''.'' # e"
    show ?thesis
    proof (rule trash_name_cases [OF slash(2), of u'])
      assume none: "CHR ''.'' \<notin> set b'" "trash_name b' u' = b' @ CHR ''.'' # u'"
      then have "b' @ CHR ''.'' # u' = (s @ CHR ''.'' # u) @ CHR ''.'' # e" using b(4) assms(5) by metis
      then show ?thesis using no_mix none(1) b(2,3) assms(4) by blast
    next
      fix s' e'
      assume ext: "b' = s' @ CHR ''.'' # e'" "CHR ''.'' \<notin> set e'" "CHR ''/'' \<notin> set e'"
        "trash_name b' u' = (s' @ CHR ''.'' # u') @ CHR ''.'' # e'"
      have eq: "(s @ CHR ''.'' # u) @ CHR ''.'' # e = (s' @ CHR ''.'' # u') @ CHR ''.'' # e'" using ext(4) b(4) assms(5) by metis
      then have "CHR ''.'' # e = CHR ''.'' # e'"
        using path_ext_dot [OF b(2,3), of "s @ CHR ''.'' # u"] path_ext_dot [OF ext(2,3), of "s' @ CHR ''.'' # u'"] by metis
      then have "s @ CHR ''.'' # u = s' @ CHR ''.'' # u'" "e = e'" using eq by simp_all
      then show ?thesis using b(1) ext(1) u(3) u'(3) by simp
    qed
  qed
qed

text \<open>No two nodes share a trashed copy: a copy's path determines the file it was and the uuid of the node,
  so that the same path can be trashed for one node after another, and each copy can be restored.\<close>

theorem trash_copies_distinct:
  assumes "list_all proper r" "r \<noteq> []" "list_all proper d" "proper b" "isUUID u"
    and "list_all proper d'" "proper b'" "isUUID u'"
    and "trashPathFor (abs_path r) (path_rel (abs_path r) (abs_path (r @ d @ [b]))) u =
      trashPathFor (abs_path r) (path_rel (abs_path r) (abs_path (r @ d' @ [b']))) u'"
  shows "d = d' \<and> b = b' \<and> u = u'"
proof -
  have "abs_path (r @ ''.trash'' # d @ [trash_name b u]) = abs_path (r @ ''.trash'' # d' @ [trash_name b' u'])"
    using assms(9) trash_path [OF assms(1-5)] trash_path [OF assms(1,2,6,7,8)] by simp
  moreover have "proper ''.trash''" by (simp add: proper_def dot_def dotdot_def)
  ultimately have "d @ [trash_name b u] = d' @ [trash_name b' u']"
    using abs_path_inject [of "r @ ''.trash'' # d @ [trash_name b u]" "r @ ''.trash'' # d' @ [trash_name b' u']"]
      assms(1,3,4,5,6,7,8) by (simp add: trash_name_proper)
  then show ?thesis using trash_name_inject [OF assms(4,5,7,8)] by simp
qed

section \<open>The retention clock\<close>

text \<open>What the purge relies on: for a copy whose time is recorded, the lookup returns that time.\<close>

locale trash_clock =
  fixes times :: "string \<Rightarrow> string \<Rightarrow> string + int option"
    and recorded :: "string list \<Rightarrow> string list \<Rightarrow> int \<Rightarrow> bool"
  assumes finds: "recorded r p t \<Longrightarrow> times (abs_path r) (abs_path p) = Inr (Some t)"
begin

lemma kept_in_retention:
  assumes "0 < days" "days \<le> 106751" "list_all proper rs" "rs \<noteq> []" "real_dir fs rs" "wf_tree fs"
    and "recorded rs q t" "now - days * 86400000000000 \<le> t" "\<not> is_directory (look fs q)"
  shows "look (snd (PurgeTrash g (abs_path rs) days now (Some times) fs)) q = look fs q"
proof (rule ccontr)
  assume "look (snd (PurgeTrash g (abs_path rs) days now (Some times) fs)) q \<noteq> look fs q"
  from PurgeTrash_expired [OF assms(1-6) this]
  have "expired_at days now (Some times) (abs_path rs) fs q" by blast
  then show False using finds [OF assms(7)] assms(8,9) by (auto simp: expired_at_def trashed_at_def)
qed

end

lemma local_names:
  assumes "list_all proper xs" "xs \<noteq> []"
  shows "is_local (join_slash xs)"
proof -
  have split: "split_slash (join_slash xs) = xs"
    using assms by (intro split_join) (auto simp: list_all_iff proper_def)
  have "xs = [dotdot]" if "join_slash xs = ''..''" using split that by (simp add: dotdot_def)
  moreover have "hd xs = dotdot" if "has_prefix (join_slash xs) ''../''"
    using split that by (auto simp: has_prefix_append dotdot_def split: list.splits)
  ultimately show ?thesis using assms by (cases xs) (auto simp: is_local_def proper_def)
qed

text \<open>The copy of a trashed node whose file was \<open>d/b\<close> below the root.\<close>

definition recorded_copy :: "asset_db \<Rightarrow> string list \<Rightarrow> string list \<Rightarrow> int \<Rightarrow> bool" where
  "recorded_copy a r p t \<longleftrightarrow> (\<exists>i d b u now. list_all proper r \<and> r \<noteq> [] \<and> list_all proper d \<and> proper b \<and> isUUID u \<and>
     \<not> isUUID (drop 1 (path_ext b)) \<and> GetTrashedNodeTrashTime u a = Some (i, abs_path (r @ d @ [b]), now) \<and>
     p = r @ ''.trash'' # d @ [trash_name b u] \<and> t = now * 1000000000)"

lemma TrashTimeLookup_finds:
  assumes "recorded_copy a r p t"
  shows "TrashTimeLookup a (abs_path r) (abs_path p) = Inr (Some t)"
proof -
  obtain i d b u now where n: "list_all proper r" "r \<noteq> []" "list_all proper d" "proper b" "isUUID u"
    "\<not> isUUID (drop 1 (path_ext b))" "GetTrashedNodeTrashTime u a = Some (i, abs_path (r @ d @ [b]), now)"
    "p = r @ ''.trash'' # d @ [trash_name b u]" "t = now * 1000000000"
    using assms by (auto simp: recorded_copy_def)
  have "nodeUUIDFromTrashName (abs_path p) = Some u"
    using uuid_of_trash_name [OF n(4,5,6), of "r @ ''.trash'' # d"] n(8) by simp
  moreover have "is_local (path_rel (abs_path r) (abs_path (r @ d @ [b])))"
    using path_rel_under [OF n(1), of "d @ [b]"] local_names [of "d @ [b]"] n(3,4) by simp
  moreover have "path_clean (abs_path p) = abs_path p"
    unfolding n(8) by (rule path_clean_abs) (use n(1,3,4,5) trash_name_proper in \<open>simp add: proper_def dot_def dotdot_def\<close>)
  ultimately show ?thesis
    using n(7,8,9) trash_path [OF n(1-5)] by (simp add: TrashTimeLookup_def)
qed

interpretation clock: trash_clock "TrashTimeLookup a" "recorded_copy a" for a
  by unfold_locales (rule TrashTimeLookup_finds)

text \<open>C26. A trashed file stays restorable for the whole retention: the purge, run with the lookup the server
  gives it, leaves the copy of a trashed node alone until the retention has passed since the node was
  trashed, whatever modification time the copy has and whatever else it deletes. This covers files
  that carry the full uuid of their node in their name, of files whose own extension is not a uuid, and
  nodes whose trash time is recorded (a copy without a record is purged by its modification time), for
  a retention of 1 to 106751 days (a longer one wraps round, as the cutoff theorem says), in an existing
  location directory on a well-formed tree.\<close>

theorem purge_waits_for_retention:
  assumes "0 < days" "days \<le> 106751" "list_all proper rs" "rs \<noteq> []" "real_dir fs rs" "wf_tree fs"
    and "list_all proper d" "proper b" "isUUID u" "\<not> isUUID (drop 1 (path_ext b))"
    and "GetTrashedNodeTrashTime u a = Some (i, abs_path (rs @ d @ [b]), t)"
    and "now - days * 86400000000000 \<le> t * 1000000000"
    and "\<not> is_directory (look fs (rs @ ''.trash'' # d @ [trash_name b u]))"
  shows "look (snd (PurgeTrash g (abs_path rs) days now (Some (TrashTimeLookup a)) fs)) (rs @ ''.trash'' # d @ [trash_name b u]) =
    look fs (rs @ ''.trash'' # d @ [trash_name b u])"
  by (rule clock.kept_in_retention [OF assms(1-6) _ assms(12,13)]) (use assms in \<open>auto simp: recorded_copy_def\<close>)

text \<open>A copy's name gives back the uuid of its node, unless the file's extension is itself a uuid.\<close>

theorem trash_name_round_trip:
  assumes "list_all proper r" "r \<noteq> []" "list_all proper d" "proper b" "isUUID u" "\<not> isUUID (drop 1 (path_ext b))"
  shows "nodeUUIDFromTrashName (trashPathFor (abs_path r) (path_rel (abs_path r) (abs_path (r @ d @ [b]))) u) = Some u"
  using uuid_of_trash_name [OF assms(4-6), of "r @ ''.trash'' # d"] trash_path [OF assms(1-5)] by simp


section \<open>Examples\<close>

text \<open>A camera's file that was trashed at 100000 seconds, in a location \<open>/rw\<close>.\<close>

definition binned_tables :: asset_db where
  "binned_tables = phone_tables\<lparr>ad_db := (ad_db phone_tables)\<lparr>db_nodes := [uploaded\<lparr>n_path := ''/rw/b.jpg'', n_life := TRASHED\<rparr>]\<rparr>,
     ad_times := [(2, Some 100000)]\<rparr>"

definition binned :: fs where
  "binned = \<lparr>fs_tree = [([''rw''], Directory 1 0), ([''rw'', ''.trash''], Directory 1 0),
     ([''rw'', ''.trash'', trash_name ''b.jpg'' (uid (CHR ''2''))], Regular 5 ''bytes'')], fs_now = 100\<rparr>"

lemma binned_root: "real_dir binned [''rw'']"
proof -
  have "proper ''rw''" "is_directory (look binned [''rw''])" by code_simp+
  then show ?thesis using real_dir_snoc [of binned "[]"] by auto
qed

theorem purge_waits_for_retention_witness:
  "look (snd (PurgeTrash two (abs_path [''rw'']) 1 (150000 * 1000000000) (Some (TrashTimeLookup binned_tables)) binned))
     [''rw'', ''.trash'', trash_name ''b.jpg'' (uid (CHR ''2''))] = Some (Regular 5 ''bytes'')"
proof -
  have "list_all proper [''rw'']" "wf_tree binned" "proper ''b.jpg''" "isUUID (uid (CHR ''2''))"
    "\<not> isUUID (drop 1 (path_ext ''b.jpg''))"
    "GetTrashedNodeTrashTime (uid (CHR ''2'')) binned_tables = Some (2, abs_path ([''rw''] @ [] @ [''b.jpg'']), 100000)"
    "look binned ([''rw''] @ ''.trash'' # [] @ [trash_name ''b.jpg'' (uid (CHR ''2''))]) = Some (Regular 5 ''bytes'')"
    by code_simp+
  from purge_waits_for_retention [OF _ _ this(1) _ binned_root this(2) _ this(3,4,5,6), of 1 "150000 * 1000000000" two] this(7)
  show ?thesis by simp
qed

theorem trash_copies_distinct_witness:
  "trashPathFor ''/rw'' (path_rel ''/rw'' ''/rw/b.jpg'') (uid (CHR ''1'')) \<noteq>
   trashPathFor ''/rw'' (path_rel ''/rw'' ''/rw/b.jpg'') (uid (CHR ''2''))"
proof -
  have names: "list_all proper [''rw'']" "proper ''b.jpg''" "isUUID (uid (CHR ''1''))" "isUUID (uid (CHR ''2''))" by code_simp+
  have "abs_path [''rw''] = ''/rw''" "abs_path ([''rw''] @ [] @ [''b.jpg'']) = ''/rw/b.jpg''" by code_simp+
  moreover have "uid (CHR ''1'') \<noteq> uid (CHR ''2'')" by code_simp
  ultimately show ?thesis
    using trash_copies_distinct [OF names(1) _ _ names(2,3) _ names(2,4), of "[]" "[]"] by fastforce
qed

theorem trash_name_round_trip_witness:
  "nodeUUIDFromTrashName (trashPathFor ''/rw'' (path_rel ''/rw'' ''/rw/b.jpg'') (uid (CHR ''1''))) = Some (uid (CHR ''1''))"
proof -
  have names: "list_all proper [''rw'']" "proper ''b.jpg''" "isUUID (uid (CHR ''1''))" "\<not> isUUID (drop 1 (path_ext ''b.jpg''))"
    by code_simp+
  have "abs_path [''rw''] = ''/rw''" "abs_path ([''rw''] @ [] @ [''b.jpg'']) = ''/rw/b.jpg''" by code_simp+
  then show ?thesis using trash_name_round_trip [OF names(1) _ _ names(2-4), of "[]"] by simp
qed

end
