(* ===== verification/TrashContainment.thy ===== *)
theory TrashContainment
  imports TrashNames
begin

text \<open>
  Trashing an asset changes nothing outside writable locations that are no master archive, whether it
  succeeds or is undone. The guard alone would let a write into a writable Tier-3 location pass; the
  checks of \<open>trash.go\<close> do not. The guard \<open>strict g\<close> is \<open>g\<close> with its archives made read-only: every operation
  of \<open>trash.go\<close> that \<open>g\<close> admits is one that \<open>strict g\<close> admits as well.
\<close>

section \<open>Trees without links\<close>

definition unlinked :: "fs \<Rightarrow> bool" where
  "unlinked fs \<longleftrightarrow> (\<forall>q. \<not> is_symlink (look fs q))"

lemma unlinked_walk:
  "unlinked fs \<Longrightarrow> list_all proper cs \<Longrightarrow> walk m fs n d cs = Inr (q, k) \<Longrightarrow> q = d @ cs"
proof (induction cs arbitrary: d n)
  case (Cons c cs)
  have c: "named c" using Cons.prems(2) proper_named by simp
  show ?case
  proof (cases "look fs (d @ [c])")
    case None
    then show ?thesis using Cons.prems(3) c by (simp add: walk_missing split: if_splits)
  next
    case (Some e)
    then have "\<not> is_symlink (Some e)" using Cons.prems(1) unfolding unlinked_def by metis
    then show ?thesis
      using Cons.IH [of n "d @ [c]"] Cons.prems Some c
      by (cases e) (auto simp: walk_directory walk_regular split: if_splits)
  qed
qed simp

lemma unlinked_namei: "unlinked fs \<Longrightarrow> list_all proper cs \<Longrightarrow> namei m fs cs = Inr q \<Longrightarrow> q = cs"
  by (cases "walk m fs 40 [] cs") (auto simp: namei_def dest: unlinked_walk)

lemma unlinked_EvalSymlinks: "unlinked fs \<Longrightarrow> list_all proper cs \<Longrightarrow> EvalSymlinks fs cs = Inr q \<Longrightarrow> q = cs"
  by (cases "walk Must fs 255 [] cs") (auto simp: EvalSymlinks_def dest: unlinked_walk)

lemma unlinked_canon: "unlinked fs \<Longrightarrow> list_all proper cs \<Longrightarrow> canon fs cs rest = Inr q \<Longrightarrow> q = cs @ rest"
proof (induction cs arbitrary: rest rule: rev_induct)
  case Nil
  then show ?case by (simp add: canon_found)
next
  case (snoc c xs)
  then show ?case
    using unlinked_EvalSymlinks [OF snoc.prems(1,2)] by (auto simp: canon_snoc split: sum.splits if_splits)
qed

lemma unlinked_plain: "unlinked fs \<Longrightarrow> clean p \<Longrightarrow> plain fs p"
  by (auto simp: plain_def leaf_link_def unlinked_def split: sum.splits)

section \<open>Places\<close>

text \<open>Where a clean path lies in a tree without links: lexically, in a virtual location or in its zone.\<close>

definition physical :: "guard \<Rightarrow> string list \<Rightarrow> location \<Rightarrow> bool" where
  "physical g cs l \<longleftrightarrow> find (\<lambda>l. gl_virtual l \<and> under (abs_path cs) l) g = None \<and> zone g cs = Some l"

lemma Resolve_physical:
  assumes "Resolve g fs (abs_path cs) = Inr l" "list_all proper cs" "unlinked fs" "\<not> gl_virtual l"
  shows "physical g cs l"
proof (cases "find (\<lambda>l. gl_virtual l \<and> under (abs_path cs) l) g")
  case None
  obtain full where full: "canon fs cs [] = Inr full" "zone g full = Some l"
    using assms(1) None unfolding Resolve_def clean_resolve [OF assms(2)]
    by (auto simp: result_simps split: option.splits)
  then show ?thesis using unlinked_canon [OF assms(3,2) full(1)] None by (simp add: physical_def)
next
  case (Some l')
  then have "l' = l" using assms(1) unfolding Resolve_def clean_resolve [OF assms(2)] by (simp add: result_simps)
  then show ?thesis using Some assms(4) by (auto simp: find_Some_iff)
qed

text \<open>No location is rooted inside a \<open>.trash\<close>: a file's copy is in the location of the file.\<close>

definition roots_outside_trash :: "guard \<Rightarrow> bool" where
  "roots_outside_trash g \<longleftrightarrow> (\<forall>l \<in> set g. ''.trash'' \<notin> set (clean_comps (gl_root l)))"

lemma under_trash:
  assumes "wf_guard g" "roots_outside_trash g" "y \<in> set g" "list_all proper (rs @ xs)" "list_all proper (rs @ ''.trash'' # ys)"
    and "under (abs_path (rs @ ''.trash'' # ys)) y"
  shows "under (abs_path (rs @ xs)) y"
proof -
  let ?r = "clean_comps (gl_root y)"
  have wf: "wf_location y" using assms(1,3) by (simp add: wf_guard_def)
  have r: "prefix ?r (rs @ ''.trash'' # ys)" using assms(6) under_prefix [OF wf assms(5)] by simp
  have "prefix ?r rs"
  proof (rule ccontr)
    assume "\<not> prefix ?r rs"
    then have "strict_prefix rs ?r"
      using r prefix_same_cases [of ?r "rs @ ''.trash'' # ys" rs] by (auto simp: strict_prefix_def)
    then obtain z zs where "?r = rs @ z # zs" by (auto simp: strict_prefix_def prefix_def neq_Nil_conv)
    moreover from this have "z = ''.trash''" using r by simp
    ultimately show False using assms(2,3) by (auto simp: roots_outside_trash_def)
  qed
  then show ?thesis using under_prefix [OF wf assms(4)] by (simp add: prefix_order.trans [OF _ prefixI])
qed

lemma physical_trash:
  assumes "wf_guard g" "roots_outside_trash g" "physical g (rs @ xs) l" "clean_comps (gl_root l) = rs"
    and "list_all proper (rs @ xs)" "list_all proper (rs @ ''.trash'' # ys)"
  shows "physical g (rs @ ''.trash'' # ys) l"
proof -
  note inside = under_trash [OF assms(1,2) _ assms(5,6)]
  have "find (\<lambda>l. gl_virtual l \<and> under (abs_path (rs @ ''.trash'' # ys)) l) g = None"
    using assms(3) inside by (auto simp: physical_def find_None_iff)
  moreover have l: "l \<in> set g" "\<not> gl_virtual l"
    using assms(3) zone_Some [OF assms(1) _ assms(5)] by (auto simp: physical_def)
  have "zone g (rs @ ''.trash'' # ys) = Some l"
    unfolding zone_def
  proof (rule find_first_same)
    show "find (\<lambda>l. \<not> gl_virtual l \<and> under (abs_path (rs @ xs)) l) g = Some l"
      using assms(3) by (simp add: physical_def zone_def)
    have "wf_location l" using assms(1) l by (simp add: wf_guard_def)
    then show "\<not> gl_virtual l \<and> under (abs_path (rs @ ''.trash'' # ys)) l"
      using l(2) assms(4) under_prefix [OF _ assms(6)] by simp
  qed (use inside in auto)
  ultimately show ?thesis by (simp add: physical_def)
qed

section \<open>The strict guard\<close>

definition harden :: "location \<Rightarrow> location" where
  "harden l = (if gl_tier l = TIER3_MASTER_ARCHIVE then l\<lparr>gl_readonly := True\<rparr> else l)"

definition strict :: "guard \<Rightarrow> guard" where
  "strict g = map harden g"

lemma harden_sel [simp]: "gl_root (harden l) = gl_root l" "gl_virtual (harden l) = gl_virtual l" "gl_id (harden l) = gl_id l"
  "gl_readonly (harden l) = protected_tier l"
  by (auto simp: harden_def protected_tier_def)

lemma under_harden [simp]: "under p (harden l) = under p l"
  by (simp add: under_def)

lemma find_map_harden: "(\<And>l. P (harden l) = P l) \<Longrightarrow> find P (map harden g) = map_option harden (find P g)"
  by (induction g) simp_all

lemma strict_zone: "zone (strict g) q = map_option harden (zone g q)"
  by (simp add: zone_def strict_def find_map_harden)

lemma strict_wf: "wf_guard g \<Longrightarrow> wf_guard (strict g)"
  by (auto simp: wf_guard_def strict_def wf_location_def protected_tier_def)

lemma strict_roots: "roots_present (strict g) fs = roots_present g fs"
  by (simp add: roots_present_def strict_def)

definition spare :: "guard \<Rightarrow> string list \<Rightarrow> bool" where
  "spare g q \<longleftrightarrow> (\<exists>l. zone g q = Some l \<and> \<not> protected_tier l)"

lemma strict_writable: "writable (strict g) q = spare g q"
  by (auto simp: writable_iff strict_zone spare_def)

text \<open>A clean path in an unprotected physical location is one that the strict guard admits.\<close>

definition open_place :: "guard \<Rightarrow> string list \<Rightarrow> bool" where
  "open_place g cs \<longleftrightarrow> list_all proper cs \<and> (\<exists>l. physical g cs l \<and> \<not> protected_tier l)"

lemma strict_CheckWrite:
  assumes "CheckWrite g fs (abs_path cs) = Inr ()" "open_place g cs" "unlinked fs"
  shows "CheckWrite (strict g) fs (abs_path cs) = Inr ()"
proof -
  obtain l where l: "physical g cs l" "\<not> protected_tier l" and cs: "list_all proper cs"
    using assms(2) by (auto simp: open_place_def)
  have v: "find (\<lambda>l. gl_virtual l \<and> under (abs_path cs) l) g = None" using l(1) by (simp add: physical_def)
  then have v': "find (\<lambda>l. gl_virtual l \<and> under (abs_path cs) l) (strict g) = None"
    by (simp add: strict_def find_map_harden)
  obtain full where full: "canon fs cs [] = Inr full"
    using assms(1) v unfolding CheckWrite_def Resolve_def clean_resolve [OF cs] by (auto simp: result_simps)
  then have "full = cs" using unlinked_canon [OF assms(3) cs] by force
  then show ?thesis
    using full v' l by (simp add: CheckWrite_def Resolve_def clean_resolve [OF cs] strict_zone physical_def)
qed


section \<open>What the operations do to the tree\<close>

lemma mkdir_all_abs: "list_all proper cs \<Longrightarrow> os_mkdir_all (abs_path cs) fs = mkdir_all_names cs fs"
proof -
  assume cs: "list_all proper cs"
  have "filter (\<lambda>c. c \<noteq> []) cs = cs" using cs by (induction cs) (auto simp: proper_def)
  moreover have "split_slash (abs_path cs) = [] # cs" if "cs \<noteq> []"
    using that cs split_join [of cs] by (simp add: abs_path_def proper_def list_all_iff)
  ultimately have "filter (\<lambda>c. c \<noteq> []) (split_slash (abs_path cs)) = cs"
    by (cases "cs = []") (simp_all add: abs_path_def)
  then show ?thesis by (simp add: os_mkdir_all_def)
qed

lemma path_dir_abs:
  assumes "list_all proper xs" "proper n"
  shows "path_dir (abs_path (xs @ [n])) = abs_path xs"
proof -
  have n: "CHR ''/'' \<notin> set n" using assms(2) by (simp add: proper_def)
  define x where "x = (if xs = [] then [] else abs_path xs)"
  have p: "abs_path (xs @ [n]) = x @ CHR ''/'' # n" by (auto simp: x_def abs_path_def join_slash_snoc)
  have "last_index (x @ CHR ''/'' # n) (CHR ''/'') = Some (length x)"
    using n last_index_None [of n "CHR ''/''"] by (simp add: last_index_append)
  then have "path_dir (abs_path (xs @ [n])) = path_clean (x @ ''/'')" by (simp add: path_dir_def p)
  also have "\<dots> = abs_path xs"
  proof (cases "xs = []")
    case True
    then show ?thesis using path_clean_abs [of "[]"] by (simp add: x_def abs_path_def)
  next
    case False
    have snoc: "split_slash (y @ ''/'') = split_slash y @ [[]]" for y by (induction y) (auto split: list.splits)
    have "clean_comps (abs_path xs @ ''/'') = clean_comps (abs_path xs)"
      by (simp add: clean_comps_def snoc clean_push_def is_abs_def abs_path_def)
    moreover have "is_abs (abs_path xs @ ''/'')" by (simp add: is_abs_def abs_path_def)
    ultimately show ?thesis using False clean_comps_abs_path [OF assms(1)] by (simp add: x_def path_clean_def)
  qed
  finally show ?thesis .
qed

text \<open>A step that makes directories only inside a \<open>.trash\<close>, where nothing was, removes none, and loses nothing
  that lies in a \<open>.trash\<close>.\<close>

definition gentle :: "guard \<Rightarrow> fs \<Rightarrow> fs \<Rightarrow> bool" where
  "gentle g fs fs' \<longleftrightarrow> changes_only (spare g) fs fs' \<and> unlinked fs' \<and>
     (\<forall>q. is_directory (look fs' q) \<longrightarrow> is_directory (look fs q) \<or> ''.trash'' \<in> set q \<and> look fs q = None) \<and>
     (\<forall>q. is_directory (look fs q) \<longrightarrow> is_directory (look fs' q)) \<and>
     (\<forall>q. ''.trash'' \<in> set q \<longrightarrow> look fs q \<noteq> None \<longrightarrow> look fs' q \<noteq> None)"

lemma gentle_mkdir:
  assumes "MkdirAll g (abs_path (rs @ ''.trash'' # d)) fs = Inr fs'" "open_place g (rs @ ''.trash'' # d)" "unlinked fs"
    and "wf_guard g" "roots_present g fs" "real_dir fs rs"
  shows "gentle g fs fs'"
proof -
  let ?cs = "rs @ ''.trash'' # d"
  have cs: "list_all proper ?cs" using assms(2) by (simp add: open_place_def)
  have ok: "CheckWrite g fs (abs_path ?cs) = Inr ()" "os_mkdir_all (abs_path ?cs) fs = Inr fs'"
    using assms(1) by (simp_all add: MkdirAll_def gate_Inr)
  have "changes_only (writable (strict g)) fs fs'"
    by (rule mkdir_all_contained [OF strict_CheckWrite [OF ok(1) assms(2,3)] _ strict_wf [OF assms(4)] _ ok(2)])
      (use path_clean_abs [OF cs] assms(5) in \<open>simp_all add: clean_def strict_roots\<close>)
  then have spares: "changes_only (spare g) fs fs'" by (simp add: strict_writable [abs_def])
  obtain full where full: "canon fs ?cs [] = Inr full" "namei Must fs' ?cs = Inr full" "is_directory (look fs' full)"
    "changes_only (\<lambda>p. prefix p full \<and> look fs p = None) fs fs'"
    using mkdir_all_names_result [OF ok(2) [unfolded mkdir_all_abs [OF cs]] cs] by blast
  then have f: "full = ?cs" using unlinked_canon [OF assms(3) cs full(1)] by simp
  obtain k where "walk Must fs' 40 [] ?cs = Inr (full, k)"
    using full(2) by (cases "walk Must fs' 40 [] ?cs") (auto simp: namei_def)
  from walk_real [OF this real_dir_Nil proper_no_slash [OF cs]] have real: "real_dir fs' ?cs" using full(3) f by auto
  have new: "look fs q = None \<and> is_directory (look fs' q) \<and> ''.trash'' \<in> set q" if "look fs' q \<noteq> look fs q" for q
  proof -
    have q: "prefix q ?cs" "look fs q = None" using full(4) that f by (auto simp: changes_only_def)
    have "q = take (length q) p \<and> length q \<le> length p" if "prefix q p" for p
      using that by (auto simp: prefix_def)
    from this [OF q(1)] have take: "q = take (length q) ?cs" "length q \<le> length ?cs" by blast+
    then have "is_directory (look fs' q)" using real unfolding real_dir_def by metis
    moreover have "\<not> length q \<le> length rs"
    proof
      assume l: "length q \<le> length rs"
      then have "q = take (length q) rs" using take(1) by simp
      then have "is_directory (look fs q)" using assms(6) l unfolding real_dir_def by metis
      then show False using q(2) by simp
    qed
    then have "take (length q) ?cs ! length rs = ''.trash''" "length rs < length q" by (simp_all del: take_append)
    then have "''.trash'' \<in> set q" using take(1) nth_mem by metis
    ultimately show ?thesis using q(2) by simp
  qed
  have "unlinked fs'"
    unfolding unlinked_def
  proof
    fix q
    show "\<not> is_symlink (look fs' q)"
      using new [of q] assms(3) directory_not_symlink unfolding unlinked_def by (cases "look fs' q = look fs q") auto
  qed
  then show ?thesis using spares new unfolding gentle_def by (metis entry_kinds(1))
qed

lemma rename_result:
  assumes "Rename g (abs_path cs) (abs_path ct) fs = Inr fs'" "list_all proper cs" "list_all proper ct"
    and "unlinked fs" "\<not> is_directory (look fs cs)"
  obtains e where "look fs cs = Some e" "\<not> is_directory (look fs ct)" "cs \<noteq> []" "ct \<noteq> []"
    "fs' = (if cs = ct then fs else put ct e (cut cs fs))"
proof -
  have ren: "os_rename (abs_path cs) (abs_path ct) fs = Inr fs'"
    using assms(1) by (simp add: Rename_def result_simps gate_Inr)
  then obtain po pn where n: "namei NoFollow fs (split_slash (abs_path cs)) = Inr po"
    "namei NoFollow fs (split_slash (abs_path ct)) = Inr pn"
    by (auto simp: os_rename_def result_simps)
  then have p: "po = cs" "pn = ct"
    using unlinked_namei [OF assms(4)] assms(2,3) unfolding namei_abs_path [OF assms(2)] namei_abs_path [OF assms(3)] by auto
  obtain e where e: "look fs cs = Some e" using ren n p by (cases "look fs cs") (auto simp: os_rename_def split: if_splits)
  have "\<not> is_directory (look fs ct)" "fs' = (if cs = ct then fs else put ct e (cut cs fs))"
    using ren n p e assms(5) by (cases e; auto simp: os_rename_def split: if_splits)+
  moreover have "cs \<noteq> []" "ct \<noteq> []" using assms(5) calculation(1) by (auto simp: look_root)
  ultimately show thesis using that e by blast
qed

lemma gentle_rename:
  assumes "Rename g (abs_path cs) (abs_path ct) fs = Inr fs'" "open_place g cs" "open_place g ct"
    and "unlinked fs" "\<not> is_directory (look fs cs)" "''.trash'' \<notin> set cs"
  shows "gentle g fs fs' \<and> look fs' ct \<noteq> None \<and> \<not> is_directory (look fs' ct)"
proof -
  have pr: "list_all proper cs" "list_all proper ct" using assms(2,3) by (simp_all add: open_place_def)
  obtain e where e: "look fs cs = Some e" "\<not> is_directory (look fs ct)" "cs \<noteq> []" "ct \<noteq> []"
    "fs' = (if cs = ct then fs else put ct e (cut cs fs))"
    by (rule rename_result [OF assms(1) pr assms(4,5)])
  have look': "look fs' q = (if q = ct then Some e else if q = cs then None else look fs q)" for q
    using e by (auto simp: look_put look_cut)
  have "spare g cs" "spare g ct" using assms(2,3) by (auto simp: open_place_def physical_def spare_def)
  then have "changes_only (spare g) fs fs'" by (auto simp: changes_only_def look')
  moreover have "\<not> is_directory (Some e)" "\<not> is_symlink (Some e)" using assms(4,5) e(1) unfolding unlinked_def by metis+
  ultimately show ?thesis
    using assms(4,5,6) e(2) by (auto simp: gentle_def unlinked_def look')
qed

lemma kinds_set_mtime [simp]: "is_directory (Some (set_mtime t e)) = is_directory (Some e)"
  "is_symlink (Some (set_mtime t e)) = is_symlink (Some e)"
  by (cases e; simp)+

lemma gentle_chtimes:
  assumes "Chtimes g (abs_path ct) t fs = Inr fs'" "open_place g ct" "unlinked fs"
  shows "gentle g fs fs'"
proof -
  have pr: "list_all proper ct" and sp: "spare g ct"
    using assms(2) by (auto simp: open_place_def physical_def spare_def)
  have "os_chtimes (abs_path ct) t fs = Inr fs'" using assms(1) by (simp add: Chtimes_def gate_Inr)
  then obtain q e where q: "namei Must fs ct = Inr q" "look fs q = Some e" "fs' = (if q = [] then fs else put q (set_mtime t e) fs)"
    unfolding os_chtimes_def namei_abs_path [OF pr] by (auto simp: result_simps split: option.splits)
  then have "q = ct" using unlinked_namei [OF assms(3) pr] by simp
  then have look': "look fs' p = (if p = ct \<and> ct \<noteq> [] then Some (set_mtime t e) else look fs p)" for p
    using q by (simp add: look_put)
  moreover have "\<not> is_symlink (Some e)" using assms(3) q(2) unfolding unlinked_def by metis
  ultimately show ?thesis
    using sp assms(3) q(2) \<open>q = ct\<close>
    by (auto simp: gentle_def changes_only_def unlinked_def split: if_splits)
qed


section \<open>States\<close>

text \<open>The paths and uuids of the nodes, which trashing does not change; uuids are uuids and paths clean.\<close>

definition file_of :: "media_node \<Rightarrow> string \<times> string" where
  "file_of n = (n_path n, n_uuid n)"

definition node_file :: "fs \<Rightarrow> string \<Rightarrow> bool" where
  "node_file fs p \<longleftrightarrow> p = [] \<or>
     (\<exists>cs. p = abs_path cs \<and> list_all proper cs \<and> ''.trash'' \<notin> set cs \<and> \<not> is_directory (look fs cs))"

definition logged :: "guard \<Rightarrow> fs \<Rightarrow> string \<times> string \<Rightarrow> bool" where
  "logged g fs = (\<lambda>(f, t). \<exists>cs ct. f = abs_path cs \<and> t = abs_path ct \<and> open_place g cs \<and> open_place g ct \<and>
     ''.trash'' \<in> set ct \<and> look fs ct \<noteq> None \<and> \<not> is_directory (look fs ct))"

definition ready :: "guard \<Rightarrow> (string \<times> string) set \<Rightarrow> asset_state \<Rightarrow> bool" where
  "ready g N s \<longleftrightarrow> unlinked (as_fs s) \<and> roots_present g (as_fs s) \<and> file_of ` set (db_nodes (as_db s)) \<subseteq> N \<and>
     (\<forall>f \<in> N. node_file (as_fs s) (fst f) \<and> isUUID (snd f)) \<and> (\<forall>m \<in> set (as_moves s). logged g (as_fs s) m)"

definition spares :: "guard \<Rightarrow> (string \<times> string) set \<Rightarrow> asset_state \<Rightarrow> asset_state \<Rightarrow> bool" where
  "spares g N s t \<longleftrightarrow> (ready g N s \<longrightarrow> ready g N t \<and> changes_only (spare g) (as_fs s) (as_fs t) \<and>
     (\<forall>q. is_directory (look (as_fs s) q) \<longrightarrow> is_directory (look (as_fs t) q)))"

lemma spares_reflp [simp]: "reflp (spares g N)"
  by (simp add: reflp_def spares_def)

lemma spares_transp [simp]: "transp (spares g N)"
  by (auto simp: transp_def spares_def intro: changes_only_trans)

lemma gentle_roots: "gentle g fs fs' \<Longrightarrow> roots_present g' fs \<Longrightarrow> roots_present g' fs'"
  by (auto simp: gentle_def roots_present_def real_dir_def)

lemma gentle_file: "gentle g fs fs' \<Longrightarrow> node_file fs p \<Longrightarrow> node_file fs' p"
  by (auto simp: gentle_def node_file_def)

lemma gentle_logged:
  assumes "gentle g fs fs'" "logged g fs m"
  shows "logged g fs' m"
proof -
  obtain cs ct where m: "m = (abs_path cs, abs_path ct)" "open_place g cs" "open_place g ct" "''.trash'' \<in> set ct"
    "look fs ct \<noteq> None" "\<not> is_directory (look fs ct)"
    using assms(2) by (auto simp: logged_def split: prod.splits)
  moreover have "look fs' ct \<noteq> None" "\<not> is_directory (look fs' ct)"
    using assms(1) m(4,5,6) by (auto simp: gentle_def)
  ultimately show ?thesis by (auto simp: logged_def)
qed

lemma gentle_ready:
  assumes "gentle g (as_fs s) fs'" "ready g N s"
  shows "ready g N (s\<lparr>as_fs := fs'\<rparr>)"
proof -
  have "unlinked fs'" using assms(1) by (simp add: gentle_def)
  moreover have "roots_present g fs'" using gentle_roots assms by (auto simp: ready_def)
  ultimately show ?thesis
    using assms(2) gentle_file [OF assms(1)] gentle_logged [OF assms(1)] by (simp add: ready_def)
qed

lemma spares_disk:
  assumes "\<And>s fs'. ready g N s \<Longrightarrow> f (as_fs s) = Inr fs' \<Longrightarrow> gentle g (as_fs s) fs'"
  shows "keeps (spares g N) (on_disk f)"
proof (rule keeps_on_disk [OF spares_reflp])
  fix s :: asset_state and fs' assume f: "f (as_fs s) = Inr fs'"
  show "spares g N s (s\<lparr>as_fs := fs'\<rparr>)"
    unfolding spares_def using assms [OF _ f] gentle_ready by (auto simp: gentle_def)
qed

text \<open>Statements and the like: same files, same log, no new paths.\<close>

lemma spares_tables:
  assumes "as_fs t = as_fs s" "as_moves t = as_moves s" "file_of ` set (db_nodes (as_db t)) \<subseteq> file_of ` set (db_nodes (as_db s))"
  shows "spares g N s t"
  using assms by (auto simp: spares_def ready_def)

lemma spares_run_sql:
  "(\<And>a a'. f a = Inr a' \<Longrightarrow> ad_db a' = ad_db a) \<Longrightarrow> keeps (spares g N) (run_sql f)"
  by (intro keeps_run_sql spares_tables) auto

lemma spares_on_tables: "(\<And>a. ad_db (f a) = ad_db a) \<Longrightarrow> keeps (spares g N) (emod (on_tables f))"
  by (intro keeps_mod spares_tables) (simp_all add: on_tables_def)

lemma spares_mark: "keeps (spares g N) (markTrashed i)"
  unfolding markTrashed_def
  by (intro keeps_bind spares_transp spares_run_sql keeps_node_sql spares_reflp spares_tables)
    (auto simp: MarkNodeTrashed_def update_nodes_Inr file_of_def RecordNodeTrashed_def split: if_splits)

lemma keeps_read_ready: "(\<And>s. ready g N s \<Longrightarrow> keeps (spares g N) (f s)) \<Longrightarrow> keeps (spares g N) (eread f)"
  by (auto simp: keeps_def eread_def spares_def)

lemma never_ready: "(\<And>s. \<not> ready g N s) \<Longrightarrow> keeps (spares g N) m"
  by (simp add: keeps_def spares_def)

section \<open>Moving a file into the trash\<close>

lemma ebind_assoc: "ebind m (\<lambda>x. ebind (f x) h) = ebind (ebind m f) h"
  by (rule ext) (simp add: ebind_def split: prod.splits sum.splits)

lemma spares_rename:
  assumes "open_place g cs" "open_place g ct" "''.trash'' \<notin> set cs" "''.trash'' \<in> set ct" "(abs_path cs, u) \<in> N"
  shows "keeps (spares g N) (ebind (on_disk (Rename g (abs_path cs) (abs_path ct))) (\<lambda>_. emod (record_move (abs_path cs) (abs_path ct))))"
proof (rule keepsI)
  fix s r t
  assume run: "ebind (on_disk (Rename g (abs_path cs) (abs_path ct))) (\<lambda>_. emod (record_move (abs_path cs) (abs_path ct))) s = (r, t)"
  show "spares g N s t"
  proof (cases "Rename g (abs_path cs) (abs_path ct) (as_fs s)")
    case (Inl e)
    then show ?thesis using run by (simp add: ebind_def on_disk_def spares_def)
  next
    case (Inr fs')
    then have t: "t = record_move (abs_path cs) (abs_path ct) (s\<lparr>as_fs := fs'\<rparr>)"
      using run by (simp add: ebind_def on_disk_def emod_def)
    have "ready g N t \<and> changes_only (spare g) (as_fs s) (as_fs t) \<and>
        (\<forall>q. is_directory (look (as_fs s) q) \<longrightarrow> is_directory (look (as_fs t) q))" if s: "ready g N s"
    proof -
      have cs: "list_all proper cs" using assms(1) by (simp add: open_place_def)
      have "node_file (as_fs s) (abs_path cs)" using s assms(5) by (force simp: ready_def)
      moreover have "abs_path cs \<noteq> []" by (simp add: abs_path_def)
      ultimately have "\<not> is_directory (look (as_fs s) cs)"
        using abs_path_inject cs by (auto simp: node_file_def)
      moreover have "unlinked (as_fs s)" using s by (simp add: ready_def)
      ultimately have g: "gentle g (as_fs s) fs'" "look fs' ct \<noteq> None" "\<not> is_directory (look fs' ct)"
        using gentle_rename [OF Inr assms(1,2)] assms(3) by blast+
      have "ready g N (s\<lparr>as_fs := fs'\<rparr>)" using gentle_ready [OF g(1) s] .
      moreover have "logged g fs' (abs_path cs, abs_path ct)" using g assms(1,2,4) by (auto simp: logged_def)
      ultimately have "ready g N t" by (auto simp: t ready_def record_move_def)
      then show ?thesis using g(1) by (simp add: t record_move_def gentle_def)
    qed
    then show ?thesis by (simp add: spares_def)
  qed
qed


lemma spares_stamp: "open_place g ct \<Longrightarrow> keeps (spares g N) (stamp g (abs_path ct))"
  unfolding stamp_def
  by (intro keeps_try keeps_read spares_disk gentle_chtimes) (auto simp: ready_def)

lemma root_not_file:
  assumes "wf_guard g" "l \<in> set g" "\<not> gl_virtual l" "(abs_path (clean_comps (gl_root l)), u) \<in> N"
  shows "\<not> ready g N s"
proof
  assume s: "ready g N s"
  let ?r = "clean_comps (gl_root l)"
  have "wf_location l" using assms(1,2) by (simp add: wf_guard_def)
  then have r: "list_all proper ?r" by (auto simp: wf_location_def clean_comps_abs_path)
  have "real_dir (as_fs s) ?r" using s assms(2,3) by (auto simp: ready_def roots_present_def)
  then have "is_directory (look (as_fs s) (take (length ?r) ?r))" unfolding real_dir_def by blast
  moreover have "node_file (as_fs s) (abs_path ?r)" using s assms(4) by (force simp: ready_def)
  moreover have "abs_path ?r \<noteq> []" by (simp add: abs_path_def)
  ultimately show False using abs_path_inject r by (auto simp: node_file_def)
qed

lemma spares_move:
  assumes "wf_guard g" "roots_outside_trash g" "physical g cs l" "\<not> protected_tier l" "list_all proper cs"
    and "''.trash'' \<notin> set cs" "isUUID u" "(abs_path cs, u) \<in> N"
  shows "keeps (spares g N) (moveToTrashLogged g (gl_root l) (abs_path cs) u)"
proof -
  have zl: "zone g cs = Some l" using assms(3) by (simp add: physical_def)
  note l = zone_Some [OF assms(1) zl assms(5)]
  obtain rs where rs: "gl_root l = abs_path rs" "list_all proper rs" "rs \<noteq> []"
    using l(1) assms(1) by (auto simp: wf_guard_def wf_location_def)
  then have root: "clean_comps (gl_root l) = rs" by (simp add: clean_comps_abs_path)
  obtain xs where xs: "cs = rs @ xs" using l(3) root by (auto simp: prefix_def)
  show ?thesis
  proof (cases xs rule: rev_cases)
    case Nil
    then have "(abs_path (clean_comps (gl_root l)), u) \<in> N" using assms(8) xs root by simp
    then show ?thesis using root_not_file [OF assms(1) l(1,2)] by (intro never_ready)
  next
    case (snoc d b)
    have pr: "list_all proper d" "proper b" using assms(5) xs snoc by auto
    let ?dir = "rs @ ''.trash'' # d" and ?copy = "rs @ ''.trash'' # d @ [trash_name b u]"
    have dots: "proper ''.trash''" by (simp add: proper_def dot_def dotdot_def)
    have names: "list_all proper ?dir" "list_all proper ?copy"
      using rs(2) pr dots trash_name_proper [OF pr(2) assms(7)] by simp_all
    have copy: "trashPathFor (abs_path rs) (path_rel (abs_path rs) (abs_path cs)) u = abs_path ?copy"
      using trash_path [OF rs(2,3) pr assms(7)] xs snoc by simp
    have dir: "path_dir (abs_path ?copy) = abs_path ?dir"
      using path_dir_abs [OF names(1) trash_name_proper [OF pr(2) assms(7)]] by simp
    have "physical g ys l" if "ys \<in> {?dir, ?copy}" for ys
      using that physical_trash [OF assms(1,2) _ root] assms(3,5) names xs by auto
    then have places: "open_place g cs" "open_place g ?dir" "open_place g ?copy"
      using assms(3,4,5) names by (auto simp: open_place_def)
    have mkdir: "keeps (spares g N) (on_disk (MkdirAll g (abs_path ?dir)))"
    proof (rule spares_disk)
      fix s :: asset_state and fs' assume s: "ready g N s" "MkdirAll g (abs_path ?dir) (as_fs s) = Inr fs'"
      have "real_dir (as_fs s) rs" using s(1) l(1,2) root by (auto simp: ready_def roots_present_def)
      then show "gentle g (as_fs s) fs'" using gentle_mkdir [OF s(2) places(2) _ assms(1)] s(1) by (simp add: ready_def)
    qed
    have rename: "keeps (spares g N) (ebind (on_disk (Rename g (abs_path cs) (abs_path ?copy))) (\<lambda>_.
        ebind (emod (record_move (abs_path cs) (abs_path ?copy))) (\<lambda>_. stamp g (abs_path ?copy))))"
      unfolding ebind_assoc
      by (rule keeps_bind [OF spares_transp spares_rename [OF places(1,3) assms(6) _ assms(8)] spares_stamp [OF places(3)]]) simp
    show ?thesis
      unfolding moveToTrashLogged_def Let_def rs(1) copy dir
      by (auto intro!: keeps_bind keeps_read keeps_fail keeps_return mkdir rename split: sum.splits)
  qed
qed

section \<open>Trashing\<close>

lemma spares_row: "keeps (spares g N) (trash_export_row parent i)"
  unfolding trash_export_row_def
  by (intro keeps_bind spares_transp spares_mark spares_run_sql spares_on_tables)
    (auto simp: RecordTrashCascade_def DeleteRemoteSyncStateForNode_def split: if_splits)

text \<open>A location that \<open>Resolve\<close> finds for a node's file, and that is neither virtual nor protected.\<close>

lemma spares_move_node:
  assumes "wf_guard g" "roots_outside_trash g" "ready g N s" "n \<in> set (db_nodes (as_db s))" "n_path n \<noteq> []"
    and "Resolve g (as_fs s) (n_path n) = Inr l" "\<not> gl_virtual l" "\<not> protected_tier l"
  shows "keeps (spares g N) (moveToTrashLogged g (gl_root l) (n_path n) (n_uuid n))"
proof -
  have N: "(n_path n, n_uuid n) \<in> N" using assms(3,4) by (auto simp: ready_def file_of_def)
  then have "node_file (as_fs s) (n_path n)" "isUUID (n_uuid n)" using assms(3) by (force simp: ready_def)+
  then obtain cs where cs: "n_path n = abs_path cs" "list_all proper cs" "''.trash'' \<notin> set cs"
    using assms(5) by (auto simp: node_file_def)
  have "unlinked (as_fs s)" using assms(3) by (simp add: ready_def)
  then have "physical g cs l" using Resolve_physical assms(6,7) cs(1,2) by metis
  then show ?thesis using spares_move [OF assms(1,2) _ assms(8) cs(2,3) \<open>isUUID (n_uuid n)\<close>] N cs(1) by simp
qed

lemma GetMediaNodeByID_in: "GetMediaNodeByID i d = Some n \<Longrightarrow> n \<in> set (db_nodes d) \<and> n_id n = i"
  by (auto simp: GetMediaNodeByID_def dest: find_SomeD)

lemma spares_export:
  assumes "wf_guard g" "roots_outside_trash g" "ready g N s" "ex \<in> set (db_nodes (as_db s))"
  shows "keeps (spares g N) (trash_export (Some g) parent ex)"
proof (cases "n_path ex = []")
  case True
  then show ?thesis by (simp add: trash_export_def spares_row)
next
  case False
  have N: "ex \<in> set (db_nodes (as_db s))" by fact
  have "keeps (spares g N) (case Resolve g (as_fs u) (n_path ex) of
      Inl _ \<Rightarrow> ereturn ()
    | Inr l \<Rightarrow>
        if gl_readonly l \<or> gl_virtual l \<or> gl_tier l = TIER3_MASTER_ARCHIVE then ereturn ()
        else ebind (moveToTrashLogged g (gl_root l) (n_path ex) (n_uuid ex)) (\<lambda>_. trash_export_row parent (n_id ex)))"
    if u: "ready g N u" for u
  proof (cases "Resolve g (as_fs u) (n_path ex)")
    case (Inr l)
    let ?u = "u\<lparr>as_tables := as_tables s\<rparr>"
    have "ready g N ?u" using u assms(3) by (simp add: ready_def)
    then have "keeps (spares g N) (moveToTrashLogged g (gl_root l) (n_path ex) (n_uuid ex))"
      if "\<not> gl_virtual l" "\<not> protected_tier l"
      using spares_move_node [OF assms(1,2) _ _ False _ that, of N ?u] assms(4) Inr by simp
    then show ?thesis
      using Inr by (auto intro!: keeps_bind keeps_return spares_row simp: protected_tier_def)
  qed (simp add: keeps_return)
  then show ?thesis using False by (simp add: trash_export_def keeps_read_ready)
qed

lemma spares_exports:
  assumes "wf_guard g" "roots_outside_trash g"
  shows "keeps (spares g N) (purgeLinkedExports (Some g) i)"
proof -
  have "keeps (spares g N) (purge_edge (Some g) i e)" for e
    unfolding purge_edge_def
    by (auto intro!: keeps_read_ready keeps_return spares_export [OF assms] dest: GetMediaNodeByID_in split: option.splits)
  then show ?thesis unfolding purgeLinkedExports_def by (intro keeps_read keeps_fold spares_reflp spares_transp)
qed

lemma spares_purge_sync: "keeps (spares g N) (emod (on_tables (purgeRemoteSyncStateForLinkedExports i)))"
proof (rule spares_on_tables)
  have "ad_db (fold (\<lambda>e. DeleteRemoteSyncStateForNode (e_target e)) es a) = ad_db a" for es a
    by (induction es arbitrary: a) (simp_all add: DeleteRemoteSyncStateForNode_def)
  then show "ad_db (purgeRemoteSyncStateForLinkedExports i a) = ad_db a" for a
    by (simp add: purgeRemoteSyncStateForLinkedExports_def)
qed

lemma spares_finish: "keeps (spares g N) (finish_trash i keep)"
  unfolding finish_trash_def
  by (intro keeps_bind keeps_when spares_transp spares_reflp spares_mark spares_on_tables spares_purge_sync keeps_load)
    (simp add: DeleteRemoteSyncStateForNode_def)

lemma spares_master:
  assumes "wf_guard g" "roots_outside_trash g" "ready g N s" "m \<in> set (db_nodes (as_db s))"
  shows "keeps (spares g N) (trash_master_file (Some g) m)"
proof (cases "n_path m = []")
  case False
  have "keeps (spares g N) (case Resolve g (as_fs u) (n_path m) of
      Inl e \<Rightarrow> efail (GuardRefused e)
    | Inr l \<Rightarrow> if gl_virtual l then ereturn () else if protected_tier l then ereturn ()
        else moveToTrashLogged g (gl_root l) (n_path m) (n_uuid m))" if u: "ready g N u" for u
  proof (cases "Resolve g (as_fs u) (n_path m)")
    case (Inr l)
    have "ready g N (u\<lparr>as_tables := as_tables s\<rparr>)" using u assms(3) by (simp add: ready_def)
    then show ?thesis
      using spares_move_node [OF assms(1,2) _ _ False, of N "u\<lparr>as_tables := as_tables s\<rparr>" l] assms(4) Inr
      by (simp add: keeps_return)
  qed (simp add: keeps_fail)
  then show ?thesis using False by (simp add: trash_master_file_def keeps_read_ready)
qed (simp add: trash_master_file_def keeps_return)

lemma spares_trash:
  assumes "wf_guard g" "roots_outside_trash g"
  shows "keeps (spares g N) (trashAssetTx (Some g) i keep)"
proof -
  let ?rest = "\<lambda>m. if n_life m = TRASHED then ereturn m
       else if n_life m = ARCHIVED then efail (ErrAssetNotTrashed i)
       else ebind (trash_master_file (Some g) m) (\<lambda>_.
         ebind (ewhen (\<not> keep) (purgeLinkedExports (Some g) (n_id m))) (\<lambda>_. finish_trash (n_id m) keep))"
  have eq: "trashAssetTx (Some g) i keep = eread (\<lambda>s. case GetMediaNodeByID i (as_db s) of
      None \<Rightarrow> efail (Sql NoRows) | Some m \<Rightarrow> ?rest m)"
    by (rule ext) (simp add: trashAssetTx_def load_node_def ebind_def eread_def efail_def ereturn_def split: option.splits)
  show ?thesis
    unfolding eq
  proof (rule keeps_read_ready)
    fix s assume s: "ready g N s"
    show "keeps (spares g N) (case GetMediaNodeByID i (as_db s) of None \<Rightarrow> efail (Sql NoRows) | Some m \<Rightarrow> ?rest m)"
    proof (cases "GetMediaNodeByID i (as_db s)")
      case (Some m)
      then have "keeps (spares g N) (trash_master_file (Some g) m)" using spares_master [OF assms s] GetMediaNodeByID_in by blast
      then show ?thesis
        using Some by (auto intro!: keeps_return keeps_fail keeps_bind keeps_when spares_exports [OF assms] spares_finish)
    qed (simp add: keeps_fail)
  qed
qed

section \<open>Undoing\<close>

lemma undo_spares:
  "unlinked fs \<Longrightarrow> \<forall>m \<in> set ms. logged g fs0 m \<Longrightarrow> (\<And>q. \<not> is_directory (look fs0 q) \<Longrightarrow> \<not> is_directory (look fs q)) \<Longrightarrow>
   changes_only (spare g) fs (fold (undo_move (Some g)) ms fs)"
proof (induction ms arbitrary: fs)
  case (Cons m ms)
  obtain cs ct where m: "m = (abs_path cs, abs_path ct)" "open_place g cs" "open_place g ct" "\<not> is_directory (look fs ct)"
    using Cons.prems(2,3) by (force simp: logged_def split: prod.splits)
  have pr: "list_all proper cs" "list_all proper ct" using m(2,3) by (simp_all add: open_place_def)
  show ?case
  proof (cases "Rename g (abs_path ct) (abs_path cs) fs")
    case (Inl e)
    then show ?thesis using Cons by (simp add: m(1) undo_move_def)
  next
    case (Inr fs')
    obtain e where e: "look fs ct = Some e" "\<not> is_directory (look fs cs)" "ct \<noteq> []" "cs \<noteq> []"
      "fs' = (if ct = cs then fs else put cs e (cut ct fs))"
      by (rule rename_result [OF Inr pr(2,1) Cons.prems(1) m(4)])
    have look': "look fs' q = (if q = cs then Some e else if q = ct then None else look fs q)" for q
      using e by (auto simp: look_put look_cut)
    have kinds: "\<not> is_directory (Some e)" "\<not> is_symlink (Some e)"
      using m(4) e(1) Cons.prems(1) unfolding unlinked_def by metis+
    have "unlinked fs'" using Cons.prems(1) kinds by (auto simp: unlinked_def look')
    moreover have "\<not> is_directory (look fs' q)" if "\<not> is_directory (look fs0 q)" for q
      using Cons.prems(3) [OF that] kinds by (simp add: look')
    ultimately have "changes_only (spare g) fs' (fold (undo_move (Some g)) ms fs')" using Cons by simp
    moreover have "spare g cs" "spare g ct" using m(2,3) by (auto simp: open_place_def physical_def spare_def)
    then have "changes_only (spare g) fs fs'" by (auto simp: changes_only_def look')
    ultimately show ?thesis using Inr changes_only_trans by (simp add: m(1) undo_move_def)
  qed
qed simp

text \<open>C25. Trashing spares the archive. Whether it succeeds, fails or is undone, trashing an asset, with its
  exports or without, changes nothing at a path of a read-only location, of a Tier-3 master archive
  (which the guard itself lets be written) or of no location: on a tree without symbolic links, for
  nodes with clean paths outside \<open>.trash\<close> and proper uuids.\<close>

theorem trash_spares_archive:
  assumes "wf_guard g" "roots_outside_trash g" "roots_present g (as_fs s)" "unlinked (as_fs s)"
    and "\<forall>n \<in> set (db_nodes (as_db s)). isUUID (n_uuid n) \<and> node_file (as_fs s) (n_path n)"
    and "look (as_fs (snd (TrashAsset (Some g) i keep s))) q \<noteq> look (as_fs s) q"
  shows "\<exists>l. zone g q = Some l \<and> \<not> gl_readonly l \<and> gl_tier l \<noteq> TIER3_MASTER_ARCHIVE"
proof -
  let ?s = "s\<lparr>as_moves := []\<rparr>" and ?N = "file_of ` set (db_nodes (as_db s))"
  obtain r t where run: "trashAssetTx (Some g) i keep ?s = (r, t)" by (cases "trashAssetTx (Some g) i keep ?s")
  have "ready g ?N ?s" using assms(3-5) by (auto simp: ready_def file_of_def)
  moreover have "spares g ?N ?s t" by (rule keepsD [OF spares_trash [OF assms(1,2)] run])
  ultimately have t: "ready g ?N t" "changes_only (spare g) (as_fs s) (as_fs t)" by (simp_all add: spares_def)
  then have "changes_only (spare g) (as_fs t) (fold (undo_move (Some g)) (rev (as_moves t)) (as_fs t))"
    by (intro undo_spares [where fs0 = "as_fs t"]) (simp_all add: ready_def)
  then have "changes_only (spare g) (as_fs s) (as_fs (snd (TrashAsset (Some g) i keep s)))"
    using run t(2) changes_only_trans by (cases r) (simp_all add: TrashAsset_def with_undo_def asset_tx_def undo_def)
  then show ?thesis using assms(6) by (auto simp: changes_only_def spare_def protected_tier_def)
qed


section \<open>An example\<close>

lemma unlinkedI: "list_all (\<lambda>(p, e). \<not> is_symlink (Some e)) (fs_tree fs) \<Longrightarrow> unlinked fs"
  by (fastforce simp: unlinked_def look_def list_all_iff dest: map_of_SomeD elim: is_symlink.elims)

definition desk :: asset_state where
  "desk = \<lparr>as_tables = phone_tables\<lparr>ad_db := (ad_db phone_tables)\<lparr>db_nodes := [uploaded\<lparr>n_path := ''/rw/b.jpg''\<rparr>]\<rparr>\<rparr>,
     as_fs = \<lparr>fs_tree = [([''rw''], Directory 1 0), ([''archive''], Directory 1 0), ([''rw'', ''b.jpg''], Regular 5 ''bytes'')], fs_now = 100\<rparr>,
     as_moves = []\<rparr>"

lemma desk_roots: "roots_present two (as_fs desk)"
proof -
  have "proper ''rw''" "is_directory (look (as_fs desk) [''rw''])" "proper ''archive''" "is_directory (look (as_fs desk) [''archive''])"
    "list_all (\<lambda>l. clean_comps (gl_root l) \<in> {[''rw''], [''archive'']}) two"
    by code_simp+
  then show ?thesis
    using real_dir_snoc [of "as_fs desk" "[]"] by (auto simp: roots_present_def list_all_iff)
qed

theorem trash_spares_archive_witness:
  "(\<exists>l. zone two [''rw'', ''b.jpg''] = Some l \<and> \<not> gl_readonly l \<and> gl_tier l \<noteq> TIER3_MASTER_ARCHIVE) \<and>
   look (as_fs (snd (TrashAsset (Some two) 2 False desk))) [''rw'', ''.trash'', trash_name ''b.jpg'' (uid (CHR ''2''))] =
     Some (Regular 100 ''bytes'')"
proof
  have "(look (as_fs (snd (TrashAsset (Some two) 2 False desk))) [''rw'', ''b.jpg''] = look (as_fs desk) [''rw'', ''b.jpg'']) = False"
    "list_all (\<lambda>l. ''.trash'' \<notin> set (clean_comps (gl_root l))) two"
    "list_all (\<lambda>(p, e). \<not> is_symlink (Some e)) (fs_tree (as_fs desk))"
    by code_simp+
  moreover have "list_all (\<lambda>n. isUUID (n_uuid n) \<and> n_path n = abs_path [''rw'', ''b.jpg'']) (db_nodes (as_db desk))"
    "list_all proper [''rw'', ''b.jpg'']" "\<not> is_directory (look (as_fs desk) [''rw'', ''b.jpg''])" "''.trash'' \<notin> set [''rw'', ''b.jpg'']"
    by code_simp+
  then have "\<forall>n \<in> set (db_nodes (as_db desk)). isUUID (n_uuid n) \<and> node_file (as_fs desk) (n_path n)"
    unfolding node_file_def list_all_iff by blast
  ultimately show "\<exists>l. zone two [''rw'', ''b.jpg''] = Some l \<and> \<not> gl_readonly l \<and> gl_tier l \<noteq> TIER3_MASTER_ARCHIVE"
    using trash_spares_archive [OF two_wf _ desk_roots unlinkedI] by (simp add: roots_outside_trash_def list_all_iff)
  show "look (as_fs (snd (TrashAsset (Some two) 2 False desk))) [''rw'', ''.trash'', trash_name ''b.jpg'' (uid (CHR ''2''))] =
     Some (Regular 100 ''bytes'')"
    by code_simp
qed

end
