(* ===== verification/TrashProps.thy ===== *)
theory TrashProps
  imports TrashContainment DrainerEffects
begin

text \<open>
  Where trashing fails: a master whose export was exported again over itself. The second part of the
  example shows what the attempt does to the disk on its way: the bytes at the path are those of the new
  export; they are moved to the trash under the old one's name and put back, with a new modification time.
\<close>

section \<open>A re-exported export blocks the trash\<close>

lemma GetMediaNodeByID_map:
  "(\<And>n. n_id (f n) = n_id n) \<Longrightarrow> find (\<lambda>n. n_id n = i) (map f ns) = map_option f (find (\<lambda>n. n_id n = i) ns)"
  by (induction ns) simp_all

lemma MarkNodeTrashed_superseded:
  assumes "MarkNodeTrashed j d = Inr d'" "GetMediaNodeByID i d = Some n" "n_superseded n \<noteq> None"
  shows "j \<noteq> i \<and> GetMediaNodeByID i d' = Some n"
proof -
  let ?f = "\<lambda>n. if n_id n = j then n\<lparr>n_life := TRASHED, n_updated := db_clock d\<rparr> else n"
  have d': "d' = d\<lparr>db_nodes := map ?f (db_nodes d)\<rparr>" "node_violation d' = None"
    using assms(1) by (auto simp: MarkNodeTrashed_def update_nodes_Inr)
  have found: "GetMediaNodeByID i d' = Some (?f n)"
    using assms(2) by (simp add: d'(1) GetMediaNodeByID_def GetMediaNodeByID_map)
  then have "?f n \<in> set (db_nodes d')" by (auto simp: GetMediaNodeByID_def dest: find_SomeD)
  then have "node_check (?f n)" using d'(2) by (simp add: node_violation_None)
  then have "n_id n \<noteq> j" using assms(3) by (auto simp: node_check_def split: if_splits)
  moreover have "n_id n = i" using assms(2) by (auto simp: GetMediaNodeByID_def dest: find_SomeD)
  ultimately show ?thesis using found by simp
qed

lemma trash_export_row_superseded:
  assumes "trash_export_row parent j s = (Inr (), t)" "GetMediaNodeByID i (as_db s) = Some n" "n_superseded n \<noteq> None"
  shows "j \<noteq> i \<and> GetMediaNodeByID i (as_db t) = Some n"
proof -
  obtain d where d: "MarkNodeTrashed j (as_db s) = Inr d" "as_db t = d"
    using assms(1)
    by (auto simp: trash_export_row_def markTrashed_def ebind_Inr eff_Inr sql_Inr RecordNodeTrashed_def RecordTrashCascade_def
        on_tables_def DeleteRemoteSyncStateForNode_def split: if_splits)
  then show ?thesis using MarkNodeTrashed_superseded [OF d(1) assms(2,3)] by simp
qed

text \<open>Moving the bytes first changes nothing of this.\<close>

lemma moved_export_superseded:
  assumes "ebind (moveToTrashLogged g rt file u) (\<lambda>_. trash_export_row parent j) s = (Inr (), t)"
    and "GetMediaNodeByID i (as_db s) = Some n" "n_superseded n \<noteq> None"
  shows "j \<noteq> i \<and> GetMediaNodeByID i (as_db t) = Some n"
proof -
  obtain x v where v: "moveToTrashLogged g rt file u s = (Inr x, v)" "trash_export_row parent j v = (Inr (), t)"
    using assms(1) by (auto simp: ebind_Inr)
  have "as_tables v = as_tables s" using keepsD [OF same_move v(1)] by (simp add: tables_same_def)
  then show ?thesis using trash_export_row_superseded [OF v(2)] assms(2,3) by simp
qed

section \<open>Where the guard lets the export be trashed\<close>

text \<open>
  An export that the cascade trashes rather than skips: in a writable location that is not virtual and
  not Tier 3, in a directory that exists. On a tree without links this does not depend on the files.
\<close>

definition exportable :: "guard \<Rightarrow> fs \<Rightarrow> string \<Rightarrow> bool" where
  "exportable g fs p \<longleftrightarrow> p = [] \<or> (\<exists>d c l. p = abs_path (d @ [c]) \<and> proper c \<and> real_dir fs d \<and>
     physical g (d @ [c]) l \<and> \<not> gl_readonly l \<and> gl_tier l \<noteq> TIER3_MASTER_ARCHIVE)"

lemma unlinked_Resolve:
  assumes "unlinked fs" "real_dir fs d" "proper c" "physical g (d @ [c]) l"
  shows "Resolve g fs (abs_path (d @ [c])) = Inr l \<and> \<not> gl_virtual l"
proof -
  have pr: "list_all proper (d @ [c])" using assms(2,3) real_dir_proper by simp
  have "walk Must fs 255 [] d = Inr (d, 255)" using walk_real_dir [of fs "[]" d Must 255 "[]"] assms(2) by simp
  then have "canon fs d [] = Inr d" using canon_found [of fs d d "[]"] by (simp add: EvalSymlinks_def)
  moreover have "is_directory (look fs d)" using assms(2) unfolding real_dir_def by (metis order_refl take_all)
  ultimately have "canon fs (d @ [c]) [] = Inr (d @ [c])"
    using canon_extend assms(1,3) real_dir_proper [OF assms(2)] by (simp add: unlinked_def)
  moreover have "\<not> gl_virtual l" using assms(4) by (auto simp: physical_def zone_def find_Some_iff)
  ultimately show ?thesis
    using assms(4) by (simp add: Resolve_def clean_resolve [OF pr] physical_def zone_def split: option.splits)
qed

lemma exportable_mono:
  assumes "exportable g fs p" "\<forall>q. is_directory (look fs q) \<longrightarrow> is_directory (look fs' q)"
  shows "exportable g fs' p"
  using assms unfolding exportable_def real_dir_def by blast

lemma trash_export_superseded:
  assumes "trash_export g parent ex s = (Inr (), t)"
    and "GetMediaNodeByID i (as_db s) = Some n" "n_superseded n \<noteq> None"
  shows "GetMediaNodeByID i (as_db t) = Some n \<and>
    (n_id ex = i \<longrightarrow> (\<exists>h. g = Some h \<and> \<not> (unlinked (as_fs s) \<and> exportable h (as_fs s) (n_path ex))))"
proof -
  note row = trash_export_row_superseded [OF _ assms(2,3)]
  show ?thesis
  proof (cases g)
    case None
    then show ?thesis using row assms(1) by (auto simp: trash_export_def)
  next
    case (Some h)
    show ?thesis
    proof (cases "n_path ex = []")
      case True
      then show ?thesis using row assms(1) Some by (auto simp: trash_export_def)
    next
      case path: False
      show ?thesis
      proof (cases "\<exists>l. Resolve h (as_fs s) (n_path ex) = Inr l \<and> \<not> gl_readonly l \<and> \<not> gl_virtual l \<and> gl_tier l \<noteq> TIER3_MASTER_ARCHIVE")
        case True
        then obtain l where l: "Resolve h (as_fs s) (n_path ex) = Inr l" "\<not> gl_readonly l" "\<not> gl_virtual l"
            "gl_tier l \<noteq> TIER3_MASTER_ARCHIVE" by blast
        have "ebind (moveToTrashLogged h (gl_root l) (n_path ex) (n_uuid ex)) (\<lambda>_. trash_export_row parent (n_id ex)) s
            = (Inr (), t)"
          using assms(1) Some path l by (simp add: trash_export_def eread_def)
        then show ?thesis using moved_export_superseded assms(2,3) by blast
      next
        case False
        then have "t = s" using assms(1) Some path
          by (auto simp: trash_export_def eread_def ereturn_def split: sum.splits if_splits)
        moreover have "\<not> (unlinked (as_fs s) \<and> exportable h (as_fs s) (n_path ex))"
        proof
          assume *: "unlinked (as_fs s) \<and> exportable h (as_fs s) (n_path ex)"
          then obtain d c l where "n_path ex = abs_path (d @ [c])" "proper c" "real_dir (as_fs s) d"
              "physical h (d @ [c]) l" "\<not> gl_readonly l" "gl_tier l \<noteq> TIER3_MASTER_ARCHIVE"
            using path by (auto simp: exportable_def)
          then show False using unlinked_Resolve False * by metis
        qed
        ultimately show ?thesis using assms(2) Some by simp
      qed
    qed
  qed
qed

text \<open>The cascade, up to the edge of the re-exported export.\<close>

definition reaching :: "guard option \<Rightarrow> (string \<times> string) set \<Rightarrow> string \<Rightarrow> asset_state \<Rightarrow> bool" where
  "reaching g N p s \<longleftrightarrow> (case g of None \<Rightarrow> True
     | Some h \<Rightarrow> wf_guard h \<and> roots_outside_trash h \<and> ready h N s \<and> exportable h (as_fs s) p)"

lemma reaching_spares:
  assumes "reaching g N p s" "\<And>h. g = Some h \<Longrightarrow> spares h N s t"
  shows "reaching g N p t"
  using assms exportable_mono by (auto simp: reaching_def spares_def split: option.splits)

lemma spares_edge:
  assumes "wf_guard h" "roots_outside_trash h"
  shows "keeps (spares h N) (purge_edge (Some h) i e)"
  unfolding purge_edge_def
  by (auto intro!: keeps_read_ready keeps_return spares_export [OF assms] dest: GetMediaNodeByID_in split: option.splits)

lemma reaching_step:
  assumes "purge_edge g i e s = (r, t)" "reaching g N p s"
  shows "reaching g N p t"
proof (rule reaching_spares [OF assms(2)])
  fix h assume h: "g = Some h"
  then have "wf_guard h" "roots_outside_trash h" using assms(2) by (simp_all add: reaching_def)
  then show "spares h N s t" using keepsD [OF spares_edge] assms(1) h by blast
qed

lemma purge_edge_superseded:
  assumes "purge_edge g parent e s = (Inr (), t)" "reaching g N (n_path n) s"
    and "GetMediaNodeByID i (as_db s) = Some n" "n_superseded n \<noteq> None" "n_life n = ARCHIVED"
  shows "GetMediaNodeByID i (as_db t) = Some n \<and> (isCascadeExportEdge e \<longrightarrow> e_target e \<noteq> i)"
proof (cases "isCascadeExportEdge e \<and> (\<exists>ex. GetMediaNodeByID (e_target e) (as_db s) = Some ex \<and>
    n_life ex \<noteq> TRASHED \<and> n_life ex \<noteq> MISSING)")
  case False
  then have "t = s" "isCascadeExportEdge e \<longrightarrow> e_target e \<noteq> i"
    using assms(1,3,5) by (auto simp: purge_edge_def eread_def ereturn_def split: if_splits option.splits)
  then show ?thesis using assms(3) by simp
next
  case True
  then obtain ex where ex: "isCascadeExportEdge e" "GetMediaNodeByID (e_target e) (as_db s) = Some ex"
    "trash_export g parent ex s = (Inr (), t)"
    using assms(1) by (auto simp: purge_edge_def eread_def)
  note step = trash_export_superseded [OF ex(3) assms(3,4)]
  have "e_target e \<noteq> i"
  proof
    assume "e_target e = i"
    then have "ex = n" "n_id n = i" using ex(2) assms(3) GetMediaNodeByID_in by auto
    then obtain h where "g = Some h" "\<not> (unlinked (as_fs s) \<and> exportable h (as_fs s) (n_path n))" using step by blast
    then show False using assms(2) by (simp add: reaching_def ready_def)
  qed
  with step show ?thesis by simp
qed

lemma purge_edges_superseded:
  "efold (purge_edge g parent) es s = (Inr (), t) \<Longrightarrow> reaching g N (n_path n) s \<Longrightarrow>
   GetMediaNodeByID i (as_db s) = Some n \<Longrightarrow> n_superseded n \<noteq> None \<Longrightarrow> n_life n = ARCHIVED \<Longrightarrow>
   \<forall>e \<in> set es. isCascadeExportEdge e \<longrightarrow> e_target e \<noteq> i"
proof (induction es arbitrary: s)
  case (Cons e es)
  then obtain u where u: "purge_edge g parent e s = (Inr (), u)" "efold (purge_edge g parent) es u = (Inr (), t)"
    by (auto simp: ebind_Inr)
  note step = purge_edge_superseded [OF u(1) Cons.prems(2-5)]
  with Cons.IH [OF u(2) reaching_step [OF u(1) Cons.prems(2)] conjunct1 [OF step]] Cons.prems show ?case by simp
qed simp

lemma reaching_master:
  assumes "trash_master_file g m s = (r, t)" "reaching g N p s" "m \<in> set (db_nodes (as_db s))"
  shows "reaching g N p t"
proof (rule reaching_spares [OF assms(2)])
  fix h assume h: "g = Some h"
  then have "wf_guard h" "roots_outside_trash h" "ready h N s" using assms(2) by (simp_all add: reaching_def)
  then show "spares h N s t" using keepsD [OF spares_master] assms(1,3) h by blast
qed

text \<open>C27. A master cannot be trashed with its exports once one of them has been exported again over the same
  path: the old version's row is \<open>ARCHIVED\<close> with a successor, the cascade does not skip it, and marking it
  violates the table's \<open>CHECK\<close>. The operation fails and the tables stay as they were. With a guard this
  is so whenever the export is one the cascade trashes: in an existing directory of a writable location
  that is neither virtual nor Tier 3, on a tree without symbolic links, where the roots of the locations
  exist, no root lies in a \<open>.trash\<close>, and the nodes have proper uuids and clean paths outside \<open>.trash\<close>
  that are not directories. (An export elsewhere is skipped, and trashing goes on.)\<close>

theorem superseded_export_blocks_trash:
  assumes "GetMediaNodeByID i (as_db s) = Some m" "n_life m \<noteq> TRASHED"
    and "e \<in> set (ListEdgesBySource i (as_db s))" "isCascadeExportEdge e"
    and "GetMediaNodeByID (e_target e) (as_db s) = Some ex" "n_life ex = ARCHIVED" "n_superseded ex \<noteq> None"
    and "\<And>h. g = Some h \<Longrightarrow> wf_guard h \<and> roots_outside_trash h \<and> roots_present h (as_fs s) \<and> unlinked (as_fs s) \<and>
      exportable h (as_fs s) (n_path ex)"
    and "g \<noteq> None \<Longrightarrow> \<forall>n \<in> set (db_nodes (as_db s)). isUUID (n_uuid n) \<and> node_file (as_fs s) (n_path n)"
  shows "\<exists>err t. TrashAsset g i False s = (Inl err, t) \<and> as_tables t = as_tables s"
proof -
  have i: "m \<in> set (db_nodes (as_db s))" "n_id m = i" using assms(1) GetMediaNodeByID_in by blast+
  let ?s = "s\<lparr>as_moves := []\<rparr>" and ?N = "file_of ` set (db_nodes (as_db s))"
  have start: "reaching g ?N (n_path ex) ?s"
    using assms(8,9) by (auto simp: reaching_def ready_def file_of_def split: option.splits)
  obtain r t where run: "trashAssetTx g i False ?s = (r, t)" by (cases "trashAssetTx g i False ?s")
  have "isl r"
  proof (rule ccontr)
    assume "\<not> isl r"
    then obtain n where "trashAssetTx g i False ?s = (Inr n, t)" using run by (cases r) auto
    then obtain x u v where u: "trash_master_file g m ?s = (Inr x, u)" and v: "purgeLinkedExports g i u = (Inr (), v)"
      using assms(1,2) i
      by (auto simp: trashAssetTx_def ebind_Inr eff_Inr sql_Inr ewhen_def split: if_splits)
    have same: "as_tables u = as_tables s" using keepsD [OF same_master u] by (simp add: tables_same_def)
    have "efold (purge_edge g i) (ListEdgesBySource i (as_db s)) u = (Inr (), v)"
      using v same by (simp add: purgeLinkedExports_def eread_def)
    moreover have "reaching g ?N (n_path ex) u" using reaching_master [OF u start] i(1) by simp
    ultimately show False using purge_edges_superseded [of g i _ u v ?N ex "e_target e"] assms(3-7) same by auto
  qed
  then show ?thesis using run by (cases r) (auto simp: TrashAsset_def with_undo_def asset_tx_def undo_def)
qed

section \<open>An example\<close>

text \<open>A raw original whose export was exported again over itself.\<close>

definition reexported :: asset_state where
  "reexported = \<lparr>as_tables = phone_tables\<lparr>ad_db := (ad_db phone_tables)\<lparr>
       db_nodes := [scanned, uploaded\<lparr>n_path := ''/rw/b.jpg'', n_life := ARCHIVED, n_superseded := Some 3\<rparr>,
         uploaded\<lparr>n_id := 3, n_uuid := uid (CHR ''3''), n_path := ''/rw/b.jpg''\<rparr>],
       db_edges := [sample_edge 1 1 2 ''FINAL_EXPORT'' AUTO_ACCEPTED]\<rparr>\<rparr>,
     as_fs = \<lparr>fs_tree = [([''rw''], Directory 1 0), ([''archive''], Directory 1 0), ([''archive'', ''a.arw''], Regular 5 ''raw''),
       ([''rw'', ''b.jpg''], Regular 5 ''new'')], fs_now = 100\<rparr>,
     as_moves = []\<rparr>"

lemma two_physical: "physical two [''rw'', ''b.jpg''] (the (zone two [''rw'', ''b.jpg'']))"
  "gl_readonly (the (zone two [''rw'', ''b.jpg''])) = False"
  "(gl_tier (the (zone two [''rw'', ''b.jpg''])) = TIER3_MASTER_ARCHIVE) = False"
  unfolding physical_def by code_simp+

lemma reexported_exportable: "exportable two (as_fs reexported) ''/rw/b.jpg''"
proof -
  have "abs_path ([''rw''] @ [''b.jpg'']) = ''/rw/b.jpg''" "proper ''b.jpg''" "proper ''rw''"
    "is_directory (look (as_fs reexported) [''rw''])"
    by code_simp+
  moreover from this have "real_dir (as_fs reexported) [''rw'']" using real_dir_snoc [of "as_fs reexported" "[]"] by simp
  ultimately show ?thesis unfolding exportable_def using two_physical by fastforce
qed

lemma reexported_roots: "roots_present two (as_fs reexported)"
proof -
  have "proper ''rw''" "is_directory (look (as_fs reexported) [''rw''])" "proper ''archive''"
    "is_directory (look (as_fs reexported) [''archive''])" "list_all (\<lambda>l. clean_comps (gl_root l) \<in> {[''rw''], [''archive'']}) two"
    by code_simp+
  then show ?thesis
    using real_dir_snoc [of "as_fs reexported" "[]"] by (auto simp: roots_present_def list_all_iff)
qed

lemma reexported_files: "\<forall>n \<in> set (db_nodes (as_db reexported)). isUUID (n_uuid n) \<and> node_file (as_fs reexported) (n_path n)"
proof -
  have "list_all (\<lambda>n. isUUID (n_uuid n) \<and> (n_path n = abs_path [''rw'', ''b.jpg''] \<or> n_path n = abs_path [''archive'', ''a.arw'']))
      (db_nodes (as_db reexported))"
    "list_all proper [''rw'', ''b.jpg'']" "\<not> is_directory (look (as_fs reexported) [''rw'', ''b.jpg''])" "''.trash'' \<notin> set [''rw'', ''b.jpg'']"
    "list_all proper [''archive'', ''a.arw'']" "\<not> is_directory (look (as_fs reexported) [''archive'', ''a.arw''])"
    "''.trash'' \<notin> set [''archive'', ''a.arw'']"
    by code_simp+
  then show ?thesis unfolding node_file_def list_all_iff by blast
qed

theorem superseded_export_blocks_trash_witness:
  "(\<exists>err t. TrashAsset (Some two) 1 False reexported = (Inl err, t) \<and> as_tables t = as_tables reexported) \<and>
   fst (TrashAsset (Some two) 1 False reexported) = Inl (Sql NodeCheck) \<and>
   look (as_fs (snd (TrashAsset (Some two) 1 False reexported))) [''rw'', ''b.jpg''] = Some (Regular 100 ''new'')"
proof (intro conjI)
  let ?ex = "uploaded\<lparr>n_path := ''/rw/b.jpg'', n_life := ARCHIVED, n_superseded := Some 3\<rparr>"
  let ?e = "sample_edge 1 1 2 ''FINAL_EXPORT'' AUTO_ACCEPTED"
  have facts: "GetMediaNodeByID 1 (as_db reexported) = Some scanned" "(n_life scanned = TRASHED) = False"
    "?e \<in> set (ListEdgesBySource 1 (as_db reexported))" "isCascadeExportEdge ?e"
    "GetMediaNodeByID (e_target ?e) (as_db reexported) = Some ?ex" "n_life ?ex = ARCHIVED" "(n_superseded ?ex = None) = False"
    by code_simp+
  have "list_all (\<lambda>l. ''.trash'' \<notin> set (clean_comps (gl_root l))) two"
    "list_all (\<lambda>(p, e). \<not> is_symlink (Some e)) (fs_tree (as_fs reexported))"
    by code_simp+
  then have disk: "roots_outside_trash two" "unlinked (as_fs reexported)"
    by (auto simp: roots_outside_trash_def list_all_iff intro: unlinkedI)
  show "\<exists>err t. TrashAsset (Some two) 1 False reexported = (Inl err, t) \<and> as_tables t = as_tables reexported"
    by (rule superseded_export_blocks_trash [OF facts(1) _ facts(3-6)])
      (use facts(2,7) disk two_wf reexported_roots reexported_exportable reexported_files in simp_all)
  show "fst (TrashAsset (Some two) 1 False reexported) = Inl (Sql NodeCheck)"
    "look (as_fs (snd (TrashAsset (Some two) 1 False reexported))) [''rw'', ''b.jpg''] = Some (Regular 100 ''new'')"
    by code_simp+
qed

end
