(* ===== verification/Rehash.thy ===== *)
theory Rehash
  imports Samples Guard
begin

text \<open>
  \<open>internal/rehash/worker.go\<close>: the worker that re-reads Tier-3 files whose full hash a paired
  device only asserted, with the statements it runs (\<open>db/sqlcgen/full_hash_provenance.sql.go\<close>).

  Times are integers in nanoseconds (\<open>time.Duration\<close>, the monotonic clock), \<open>unix_seconds\<close> is
  \<open>Time.Unix\<close>. What happens around the worker while it runs is the record \<open>rehash_env\<close>: the file
  system when it reads the \<open>k\<close>-th file of a batch, its clock, what other transactions did to the
  database while that file was read, and whether the context is cancelled at each of the two
  checks per file. BLAKE3 is the parameter \<open>blake\<close> from the bytes to the 64 hexadecimal digits.
\<close>

section \<open>Statements\<close>

record rehash_row =
  rc_id :: int
  rc_uuid :: string
  rc_path :: string
  rc_full :: "string option"
  rc_size :: int
  rc_mismatches :: int

text \<open>The third conjunct of the claim query: never tried, or a failed try whose wait is over.\<close>

definition rehash_due :: "int \<Rightarrow> int \<Rightarrow> hash_provenance \<Rightarrow> bool" where
  "rehash_due retry_before now p \<longleftrightarrow>
     (case p_rehash_state p of
        None \<Rightarrow> True
      | Some st \<Rightarrow>
          st = ''ERROR'' \<and> (case p_rehash_checked p of None \<Rightarrow> False | Some t \<Rightarrow> t < retry_before) \<or>
          st = ''MISMATCH'' \<and> (case p_rehash_retry p of None \<Rightarrow> False | Some t \<Rightarrow> t \<le> now))"

definition rehash_claim :: "int \<Rightarrow> int \<Rightarrow> int \<Rightarrow> hash_provenance \<Rightarrow> media_node \<Rightarrow> storage_location \<Rightarrow> bool" where
  "rehash_claim after retry_before now p n s \<longleftrightarrow>
     n_id n = p_node p \<and> l_id s = n_loc n \<and> p_source p = AGENT \<and> after < p_node p \<and>
     n_full n = Some (p_full p) \<and> rehash_due retry_before now p \<and>
     l_tier s = TIER3_MASTER_ARCHIVE \<and> visible n"

definition rehash_row_of :: "hash_provenance \<Rightarrow> media_node \<Rightarrow> rehash_row" where
  "rehash_row_of p n = \<lparr>rc_id = n_id n, rc_uuid = n_uuid n, rc_path = n_path n, rc_full = n_full n,
     rc_size = n_size n, rc_mismatches = p_rehash_mismatches p\<rparr>"

definition rehash_candidates :: "int \<Rightarrow> int \<Rightarrow> int \<Rightarrow> db \<Rightarrow> rehash_row list" where
  "rehash_candidates after retry_before now d = sort_key rc_id
     (concat (map (\<lambda>p. concat (map (\<lambda>n.
        map (\<lambda>s. rehash_row_of p n) (filter (rehash_claim after retry_before now p n) (db_locs d)))
        (db_nodes d))) (db_provs d)))"

definition ListRehashCandidates :: "int \<Rightarrow> int \<Rightarrow> int \<Rightarrow> int \<Rightarrow> db \<Rightarrow> rehash_row list" where
  "ListRehashCandidates after retry_before now limit d =
     take (nat limit) (rehash_candidates after retry_before now d)"

definition rehash_hit :: "int \<Rightarrow> string \<Rightarrow> hash_provenance \<Rightarrow> bool" where
  "rehash_hit i h p \<longleftrightarrow> p_node p = i \<and> p_full p = h \<and> p_source p = AGENT"

definition RecordRehashError :: "int \<Rightarrow> string \<Rightarrow> db \<Rightarrow> nat \<times> db" where
  "RecordRehashError i h d =
     (length (filter (rehash_hit i h) (db_provs d)),
      d\<lparr>db_provs := map (\<lambda>p. if rehash_hit i h p then p\<lparr>p_rehash_state := Some ''ERROR'',
          p_rehash_retry := None, p_rehash_checked := Some (db_clock d),
          p_rehash_attempts := p_rehash_attempts p + 1\<rparr> else p) (db_provs d)\<rparr>)"

definition RecordRehashMismatch :: "int \<Rightarrow> string \<Rightarrow> string option \<Rightarrow> int option \<Rightarrow> db \<Rightarrow> db_error + (nat \<times> db)" where
  "RecordRehashMismatch i h computed retry d =
     (if list_ex (rehash_hit i h) (db_provs d) \<and> \<not> opt_len 64 computed then Inl ProvenanceCheck
      else Inr (length (filter (rehash_hit i h) (db_provs d)),
        d\<lparr>db_provs := map (\<lambda>p. if rehash_hit i h p then p\<lparr>p_rehash_state := Some ''MISMATCH'',
            p_rehash_computed := computed, p_rehash_mismatches := p_rehash_mismatches p + 1,
            p_rehash_retry := retry, p_rehash_checked := Some (db_clock d),
            p_rehash_attempts := p_rehash_attempts p + 1\<rparr> else p) (db_provs d)\<rparr>))"

section \<open>The worker\<close>

definition second :: int where "second = 1000000000"
definition hour :: int where "hour = 3600 * second"

definition unix_seconds :: "int \<Rightarrow> int" where
  "unix_seconds t = t div second"

definition DefaultBatchSize :: int where "DefaultBatchSize = 16"
definition DefaultBatchPause :: int where "DefaultBatchPause = 2 * second"
definition DefaultRetryAfter :: int where "DefaultRetryAfter = hour"
definition DefaultMismatchRetryAfter :: int where "DefaultMismatchRetryAfter = 24 * hour"
definition MaxMismatchRetryAfter :: int where "MaxMismatchRetryAfter = 30 * (24 * hour)"

record rehash_worker =
  w_batchSize :: int
  w_batchPause :: int
  w_retryAfter :: int
  w_mismatchRetryAfter :: int
  w_cursor :: int

datatype rehash_option = WithBatchSize int | WithBatchPause int | WithRetryAfter int | WithMismatchRetryAfter int

fun apply_option :: "rehash_option \<Rightarrow> rehash_worker \<Rightarrow> rehash_worker" where
  "apply_option (WithBatchSize n) w = (if n > 0 then w\<lparr>w_batchSize := n\<rparr> else w)"
| "apply_option (WithBatchPause t) w = (if t \<ge> 0 then w\<lparr>w_batchPause := t\<rparr> else w)"
| "apply_option (WithRetryAfter t) w = (if t \<ge> 0 then w\<lparr>w_retryAfter := t\<rparr> else w)"
| "apply_option (WithMismatchRetryAfter t) w =
     (if t \<ge> 0 then w\<lparr>w_mismatchRetryAfter := min t MaxMismatchRetryAfter\<rparr> else w)"

definition NewWorker :: "rehash_option list \<Rightarrow> rehash_worker" where
  "NewWorker opts = fold apply_option opts
     \<lparr>w_batchSize = DefaultBatchSize, w_batchPause = DefaultBatchPause, w_retryAfter = DefaultRetryAfter,
      w_mismatchRetryAfter = DefaultMismatchRetryAfter, w_cursor = 0\<rparr>"

definition worker_ok :: "rehash_worker \<Rightarrow> bool" where
  "worker_ok w \<longleftrightarrow> 0 < w_batchSize w \<and> 0 \<le> w_batchPause w \<and> 0 \<le> w_retryAfter w \<and>
     0 \<le> w_mismatchRetryAfter w \<and> w_mismatchRetryAfter w \<le> MaxMismatchRetryAfter"

text \<open>The \<open>for\<close> loop of \<open>mismatchBackoff\<close>. It doubles only below the cap, so it stays far from the
  bounds of \<open>int64\<close>.\<close>

function backoff_loop :: "int \<Rightarrow> int \<Rightarrow> int \<Rightarrow> int" where
  "backoff_loop i mismatches wait =
     (if i < mismatches \<and> wait < MaxMismatchRetryAfter
      then backoff_loop (i + 1) mismatches (wait * 2) else wait)"
  by pat_completeness auto
termination by (relation "measure (\<lambda>(i, m, _). nat (m - i))") auto

declare backoff_loop.simps [simp del]

definition mismatchBackoff :: "int \<Rightarrow> int \<Rightarrow> int" where
  "mismatchBackoff base mismatches =
     (let wait = backoff_loop 1 mismatches base
      in if wait > MaxMismatchRetryAfter \<and> base \<le> MaxMismatchRetryAfter
         then MaxMismatchRetryAfter else wait)"

record rehash_stats =
  rs_matched :: nat
  rs_mismatched :: nat
  rs_errored :: nat
  rs_more :: bool

datatype rehash_error = NotConfigured | Cancelled | RecordFailed db_error

record rehash_env =
  re_guard :: "guard option"
  re_fs :: "nat \<Rightarrow> fs"
  re_now :: "nat \<Rightarrow> int"
  re_others :: "nat \<Rightarrow> db \<Rightarrow> db"
  re_cancelled :: "nat \<Rightarrow> bool"

definition hashFile :: "(string \<Rightarrow> string) \<Rightarrow> guard \<Rightarrow> fs \<Rightarrow> string \<Rightarrow> guard_error + string" where
  "hashFile blake g fs path = rbind (OpenRead g path fs) (\<lambda>(q, e).
     case e of Regular t bytes \<Rightarrow> Inr (blake bytes) | _ \<Rightarrow> Inl (SystemCall IsDir))"

text \<open>The three outcomes of a read that was not interrupted, each recorded in its own transaction.
  An error of the statement is returned, and its transaction rolled back.\<close>

definition record_outcome :: "rehash_worker \<Rightarrow> int \<Rightarrow> rehash_row \<Rightarrow> string \<Rightarrow> guard_error + string \<Rightarrow>
    rehash_stats \<Rightarrow> db \<Rightarrow> rehash_error option \<times> rehash_stats \<times> db" where
  "record_outcome w now row asserted res st d =
     (case res of
        Inl _ \<Rightarrow> (None, st\<lparr>rs_errored := Suc (rs_errored st)\<rparr>, snd (RecordRehashError (rc_id row) asserted d))
      | Inr computed \<Rightarrow>
          if computed = asserted
          then (None, st\<lparr>rs_matched := Suc (rs_matched st)\<rparr>, snd (MarkRehashMatched (rc_id row) asserted d))
          else
            (let wait = mismatchBackoff (w_mismatchRetryAfter w) (rc_mismatches row + 1);
                 st' = st\<lparr>rs_mismatched := Suc (rs_mismatched st)\<rparr>
             in case RecordRehashMismatch (rc_id row) asserted (Some computed)
                       (Some (unix_seconds (now + wait))) d of
                  Inl e \<Rightarrow> (Some (RecordFailed e), st', d)
                | Inr (_, d') \<Rightarrow> (None, st', d')))"

definition processOne :: "(string \<Rightarrow> string) \<Rightarrow> rehash_env \<Rightarrow> guard \<Rightarrow> rehash_worker \<Rightarrow> nat \<Rightarrow> rehash_row \<Rightarrow>
    rehash_stats \<Rightarrow> db \<Rightarrow> rehash_error option \<times> rehash_stats \<times> db" where
  "processOne blake env g w k row st d =
     (case rc_full row of
        None \<Rightarrow> (None, st, d)
      | Some asserted \<Rightarrow>
          let res = hashFile blake g (re_fs env k) (rc_path row); d1 = re_others env k d
          in if re_cancelled env (2 * k + 1) then (Some Cancelled, st, d1)
             else record_outcome w (re_now env (Suc k)) row asserted res st d1)"

fun process_rows :: "(string \<Rightarrow> string) \<Rightarrow> rehash_env \<Rightarrow> guard \<Rightarrow> nat \<Rightarrow> rehash_row list \<Rightarrow>
    rehash_worker \<Rightarrow> rehash_stats \<Rightarrow> db \<Rightarrow> rehash_error option \<times> rehash_worker \<times> rehash_stats \<times> db" where
  "process_rows blake env g k [] w st d = (None, w, st, d)"
| "process_rows blake env g k (row # rows) w st d =
     (if re_cancelled env (2 * k) then (Some Cancelled, w, st, d)
      else case processOne blake env g w k row st d of
        (Some e, st', d') \<Rightarrow> (Some e, w, st', d')
      | (None, st', d') \<Rightarrow> process_rows blake env g (Suc k) rows (w\<lparr>w_cursor := rc_id row\<rparr>) st' d')"

definition no_rehash_stats :: rehash_stats where
  "no_rehash_stats = \<lparr>rs_matched = 0, rs_mismatched = 0, rs_errored = 0, rs_more = False\<rparr>"

definition ProcessBatch :: "(string \<Rightarrow> string) \<Rightarrow> rehash_env \<Rightarrow> rehash_worker \<Rightarrow> db \<Rightarrow>
    rehash_error option \<times> rehash_worker \<times> rehash_stats \<times> db" where
  "ProcessBatch blake env w d =
     (case re_guard env of
        None \<Rightarrow> (Some NotConfigured, w, no_rehash_stats, d)
      | Some g \<Rightarrow>
          let rows = ListRehashCandidates (w_cursor w) (unix_seconds (re_now env 0 - w_retryAfter w))
                       (unix_seconds (re_now env 0)) (w_batchSize w) d
          in case process_rows blake env g 0 rows w no_rehash_stats d of
               (Some e, w', st, d') \<Rightarrow> (Some e, w', st, d')
             | (None, w', st, d') \<Rightarrow>
                 let more = (int (length rows) = w_batchSize w')
                 in (None, if more then w' else w'\<lparr>w_cursor := 0\<rparr>, st\<lparr>rs_more := more\<rparr>, d'))"

text \<open>The loop of \<open>run\<close>: one batch after the other, until the context is cancelled. The pause between
  two batches shows as the clock of the next environment.\<close>

fun run_loop :: "(string \<Rightarrow> string) \<Rightarrow> rehash_env list \<Rightarrow> rehash_worker \<Rightarrow> db \<Rightarrow> rehash_worker \<times> db" where
  "run_loop blake [] w d = (w, d)"
| "run_loop blake (env # envs) w d =
     (case ProcessBatch blake env w d of
        (Some Cancelled, w', _, d') \<Rightarrow> (w', d')
      | (_, w', _, d') \<Rightarrow> run_loop blake envs w' d')"

end
