(* ===== verification/RehashProps.thy ===== *)
theory RehashProps
  imports Rehash
begin

text \<open>
  What the re-hash worker guarantees: the wait after a mismatch, that only bytes it read make a
  hash vouched for, and that a worker left in peace verifies every good master.
\<close>

section \<open>The wait after a mismatch\<close>

lemma backoff_loop_min:
  "0 \<le> wait \<Longrightarrow> min (backoff_loop i m wait) MaxMismatchRetryAfter =
     min (wait * 2 ^ nat (m - i)) MaxMismatchRetryAfter"
proof (induction i m wait rule: backoff_loop.induct)
  case (1 i m wait)
  show ?case
  proof (cases "i < m \<and> wait < MaxMismatchRetryAfter")
    case True
    then have "nat (m - i) = Suc (nat (m - (i + 1)))" by auto
    then show ?thesis using 1 True by (simp add: backoff_loop.simps [of i m wait] mult.assoc)
  next
    case False
    show ?thesis
    proof (cases "i < m")
      case True
      have "wait * 1 \<le> wait * 2 ^ nat (m - i)"
        by (rule mult_left_mono) (use 1(2) in auto)
      with False True show ?thesis by (simp add: backoff_loop.simps [of i m wait])
    qed (simp add: backoff_loop.simps [of i m wait])
  qed
qed

lemma mismatchBackoff_closed:
  "0 \<le> base \<Longrightarrow> base \<le> MaxMismatchRetryAfter \<Longrightarrow>
     mismatchBackoff base n = min (base * 2 ^ nat (n - 1)) MaxMismatchRetryAfter"
  using backoff_loop_min [of base 1 n] by (auto simp: mismatchBackoff_def Let_def min_def split: if_splits)

lemma worker_ok_option: "worker_ok w \<Longrightarrow> worker_ok (apply_option opt w)"
  by (cases opt) (auto simp: worker_ok_def MaxMismatchRetryAfter_def hour_def second_def)

lemma worker_ok_new: "worker_ok (NewWorker opts)"
proof -
  have "worker_ok w \<Longrightarrow> worker_ok (fold apply_option opts w)" for w
    by (induction opts arbitrary: w) (simp_all add: worker_ok_option)
  then show ?thesis
    by (simp add: NewWorker_def worker_ok_def DefaultBatchSize_def DefaultBatchPause_def
        DefaultRetryAfter_def DefaultMismatchRetryAfter_def MaxMismatchRetryAfter_def hour_def second_def)
qed

lemma find_updated:
  "distinct (map k xs) \<Longrightarrow> x \<in> set xs \<Longrightarrow> (\<And>y. k (f y) = k y) \<Longrightarrow> find (\<lambda>y. k y = k x) (map f xs) = Some (f x)"
  by (induction xs) force+

section \<open>What one outcome changes\<close>

text \<open>Nothing but the bookkeeping and the source of asserted rows: a row the server vouches for is
  kept as it is, and no row changes its node or its hash.\<close>

definition kept_prov :: "hash_provenance \<Rightarrow> hash_provenance \<Rightarrow> bool" where
  "kept_prov p q \<longleftrightarrow> p_node q = p_node p \<and> p_full q = p_full p \<and> (p_source p = SERVER \<longrightarrow> q = p)"

definition rehash_frame :: "db \<Rightarrow> db \<Rightarrow> bool" where
  "rehash_frame d d' \<longleftrightarrow> db_nodes d' = db_nodes d \<and> db_locs d' = db_locs d \<and>
     list_all2 kept_prov (db_provs d) (db_provs d')"

lemma kept_prov_refl [simp]: "kept_prov p p"
  by (simp add: kept_prov_def)

lemma rehash_frame_refl [simp]: "rehash_frame d d"
  by (simp add: rehash_frame_def list.rel_refl)

lemma kept_prov_trans: "kept_prov p q \<Longrightarrow> kept_prov q r \<Longrightarrow> kept_prov p r"
  by (auto simp: kept_prov_def)

lemma rehash_frame_trans: "rehash_frame a b \<Longrightarrow> rehash_frame b c \<Longrightarrow> rehash_frame a c"
  unfolding rehash_frame_def using list_all2_trans [of kept_prov kept_prov kept_prov, OF kept_prov_trans]
  by fastforce

lemma rehash_frame_map:
  "(\<And>p. kept_prov p (f p)) \<Longrightarrow> rehash_frame d (d\<lparr>db_provs := map f (db_provs d)\<rparr>)"
  by (simp add: rehash_frame_def list.rel_map list.rel_refl)

lemma record_outcome_frame:
  "record_outcome w now row h res st d = (err, st', d') \<Longrightarrow> rehash_frame d d'"
  by (auto simp: record_outcome_def RecordRehashError_def MarkRehashMatched_def RecordRehashMismatch_def
      Let_def rehash_hit_def kept_prov_def intro!: rehash_frame_map split: sum.splits if_splits)

lemma rehash_frame_vouched: "rehash_frame d d' \<Longrightarrow> vouched d n \<Longrightarrow> vouched d' n"
  by (fastforce simp: rehash_frame_def vouched_iff kept_prov_def list_all2_conv_all_nth set_conv_nth)

text \<open>Only a read that gave the asserted hash makes it vouched for.\<close>

lemma record_outcome_vouched:
  assumes "record_outcome w now row h res st d = (err, st', d')" and "vouched d' n" and "\<not> vouched d n"
  shows "res = Inr h \<and> n_id n = rc_id row \<and> n_full n = Some h"
  using assms
  by (auto simp: record_outcome_def RecordRehashError_def MarkRehashMatched_def RecordRehashMismatch_def
      Let_def rehash_hit_def vouched_iff split: sum.splits if_splits)

section \<open>Batches\<close>

lemma hashFile_Inr:
  "hashFile blake g fs path = Inr h \<longleftrightarrow>
     (\<exists>q t bytes. OpenRead g path fs = Inr (q, Regular t bytes) \<and> h = blake bytes)"
  by (cases "OpenRead g path fs") (auto simp: hashFile_def split: prod.splits entry.splits)

lemma processOne_vouched:
  assumes "processOne blake env g w k row st d = (err, st', d')" and "vouched d' n"
    and "\<not> vouched (re_others env k d) n" and "\<not> vouched d n"
  shows "rc_id row = n_id n \<and> rc_full row = n_full n \<and>
    (\<exists>q t bytes. OpenRead g (rc_path row) (re_fs env k) = Inr (q, Regular t bytes) \<and> n_full n = Some (blake bytes))"
proof -
  obtain h where h: "rc_full row = Some h" using assms by (auto simp: processOne_def split: option.splits)
  have "record_outcome w (re_now env (Suc k)) row h (hashFile blake g (re_fs env k) (rc_path row)) st
      (re_others env k d) = (err, st', d')"
    using assms h by (auto simp: processOne_def Let_def split: if_splits)
  from record_outcome_vouched [OF this assms(2,3)] h show ?thesis
    by (auto dest: hashFile_Inr [THEN iffD1])
qed

lemma process_rows_vouched:
  assumes "process_rows blake env g k rows w st d = (err, w', st', d')"
    and "vouched d' n" and "\<not> vouched d n"
    and others: "\<forall>k x. vouched (re_others env k x) n \<longrightarrow> vouched x n"
  shows "\<exists>row \<in> set rows. \<exists>j q t bytes. rc_id row = n_id n \<and> rc_full row = n_full n \<and>
    OpenRead g (rc_path row) (re_fs env j) = Inr (q, Regular t bytes) \<and> n_full n = Some (blake bytes)"
  using assms(1-3)
proof (induction rows arbitrary: k w st d)
  case (Cons row rows)
  show ?case
  proof (cases "re_cancelled env (2 * k)")
    case False
    obtain e st1 d1 where one: "processOne blake env g w k row st d = (e, st1, d1)" by (metis prod_cases3)
    show ?thesis
    proof (cases "vouched d1 n")
      case True
      then show ?thesis using processOne_vouched [OF one] others Cons.prems(3) by fastforce
    next
      case d1: False
      then have "e = None" using Cons.prems one False by (auto split: option.splits)
      then have "process_rows blake env g (Suc k) rows (w\<lparr>w_cursor := rc_id row\<rparr>) st1 d1 = (err, w', st', d')"
        using Cons.prems(1) one False by simp
      from Cons.IH [OF this Cons.prems(2) d1] show ?thesis by (meson list.set_intros(2))
    qed
  qed (use Cons.prems in auto)
qed simp

lemma rehash_candidates_iff:
  "row \<in> set (rehash_candidates after rb now d) \<longleftrightarrow>
     (\<exists>p \<in> set (db_provs d). \<exists>n \<in> set (db_nodes d). \<exists>s \<in> set (db_locs d).
        rehash_claim after rb now p n s \<and> row = rehash_row_of p n)"
  by (auto simp: rehash_candidates_def)

lemma ListRehashCandidates_claim:
  assumes "row \<in> set (ListRehashCandidates after rb now limit d)"
  obtains p n s where "p \<in> set (db_provs d)" "n \<in> set (db_nodes d)" "s \<in> set (db_locs d)"
    "rehash_claim after rb now p n s" "row = rehash_row_of p n"
  using assms by (auto simp: ListRehashCandidates_def rehash_candidates_iff dest!: in_set_takeD)

lemma ProcessBatch_rows:
  assumes "ProcessBatch blake env w d = (err, w', st, d')" and "re_guard env = Some g"
  obtains rows w1 st1 where "rows = ListRehashCandidates (w_cursor w) (unix_seconds (re_now env 0 - w_retryAfter w))
       (unix_seconds (re_now env 0)) (w_batchSize w) d"
    "process_rows blake env g 0 rows w no_rehash_stats d = (err, w1, st1, d')"
  using assms by (auto simp: ProcessBatch_def Let_def split: prod.splits option.splits)

section \<open>A worker left in peace\<close>

text \<open>An environment in which no one else writes, nothing is cancelled and the files stay as they are;
  the clock runs freely.\<close>

definition quiet :: "guard \<Rightarrow> fs \<Rightarrow> rehash_env \<Rightarrow> bool" where
  "quiet g fs env \<longleftrightarrow> re_guard env = Some g \<and> re_fs env = (\<lambda>_. fs) \<and> re_others env = (\<lambda>_. id) \<and>
     re_cancelled env = (\<lambda>_. False)"

lemma processOne_quiet:
  assumes "quiet g fs env" and "\<forall>x. length (blake x) = 64"
  obtains st' d' where "processOne blake env g w k row st d = (None, st', d')" "rehash_frame d d'"
proof -
  obtain e st' d' where one: "processOne blake env g w k row st d = (e, st', d')" by (metis prod_cases3)
  have "e = None \<and> rehash_frame d d'"
  proof (cases "rc_full row")
    case None
    then show ?thesis using one by (auto simp: processOne_def)
  next
    case (Some h)
    then have out: "record_outcome w (re_now env (Suc k)) row h (hashFile blake g fs (rc_path row)) st d = (e, st', d')"
      using one assms(1) by (auto simp: processOne_def Let_def quiet_def)
    moreover have "e = None"
      using out assms(2) by (auto simp: record_outcome_def RecordRehashMismatch_def opt_len_def Let_def
          hashFile_Inr split: sum.splits if_splits)
    ultimately show ?thesis by (blast intro: record_outcome_frame)
  qed
  with one that show thesis by blast
qed

lemma MarkRehashMatched_vouches:
  assumes "n_full n = Some h" "length h = 64" "p \<in> set (db_provs d)" "p_node p = n_id n" "p_full p = h"
  shows "vouched (snd (MarkRehashMatched (n_id n) h d)) n"
proof -
  let ?f = "\<lambda>p. if p_node p = n_id n \<and> p_full p = h \<and> p_source p = AGENT then p\<lparr>p_source := SERVER,
      p_recorded := db_clock d, p_rehash_state := None, p_rehash_computed := None, p_rehash_mismatches := 0,
      p_rehash_retry := None, p_rehash_checked := Some (db_clock d),
      p_rehash_attempts := p_rehash_attempts p + 1\<rparr> else p"
  have provs: "db_provs (snd (MarkRehashMatched (n_id n) h d)) = map ?f (db_provs d)"
    by (simp add: MarkRehashMatched_def Let_def)
  have "?f p \<in> set (map ?f (db_provs d))" using assms(3) by (auto simp del: if_split)
  moreover have "p_node (?f p) = n_id n \<and> p_source (?f p) = SERVER \<and> p_full (?f p) = h"
    using assms(4,5) by (cases "p_source p") auto
  ultimately show ?thesis using assms(1,2) unfolding vouched_iff provs by blast
qed

text \<open>The database holds a row, of either source, that names the node's current hash.\<close>

definition asserted :: "media_node \<Rightarrow> db \<Rightarrow> bool" where
  "asserted n d \<longleftrightarrow> (\<exists>p \<in> set (db_provs d). p_node p = n_id n \<and> n_full n = Some (p_full p))"

lemma rehash_frame_asserted: "rehash_frame d d' \<Longrightarrow> asserted n d \<Longrightarrow> asserted n d'"
  by (fastforce simp: rehash_frame_def asserted_def kept_prov_def list_all2_conv_all_nth set_conv_nth)

lemma process_rows_quiet:
  assumes "quiet g fs env" and "\<forall>x. length (blake x) = 64"
  shows "\<exists>st' d'. process_rows blake env g k rows w st d =
       (None, if rows = [] then w else w\<lparr>w_cursor := rc_id (last rows)\<rparr>, st', d') \<and> rehash_frame d d' \<and>
     (\<forall>n h. asserted n d \<longrightarrow> n_full n = Some h \<longrightarrow> length h = 64 \<longrightarrow> hashFile blake g fs (n_path n) = Inr h \<longrightarrow>
        (\<exists>row \<in> set rows. rc_id row = n_id n \<and> rc_full row = n_full n \<and> rc_path row = n_path n) \<longrightarrow> vouched d' n) \<and>
     (\<forall>p \<in> set (db_provs d). p_node p \<notin> rc_id ` set rows \<longrightarrow> p \<in> set (db_provs d'))"
proof (induction rows arbitrary: k w st d)
  case (Cons row rows)
  obtain st1 d1 where one: "processOne blake env g w k row st d = (None, st1, d1)" "rehash_frame d d1"
    using processOne_quiet [OF assms] .
  obtain st' d' where rest: "process_rows blake env g (Suc k) rows (w\<lparr>w_cursor := rc_id row\<rparr>) st1 d1 =
      (None, if rows = [] then w\<lparr>w_cursor := rc_id row\<rparr> else w\<lparr>w_cursor := rc_id (last rows)\<rparr>, st', d')"
    "rehash_frame d1 d'"
    "\<And>n h. asserted n d1 \<Longrightarrow> n_full n = Some h \<Longrightarrow> length h = 64 \<Longrightarrow> hashFile blake g fs (n_path n) = Inr h \<Longrightarrow>
        (\<exists>row \<in> set rows. rc_id row = n_id n \<and> rc_full row = n_full n \<and> rc_path row = n_path n) \<Longrightarrow> vouched d' n"
    "\<And>p. p \<in> set (db_provs d1) \<Longrightarrow> p_node p \<notin> rc_id ` set rows \<Longrightarrow> p \<in> set (db_provs d')"
    using Cons.IH [of "Suc k" "w\<lparr>w_cursor := rc_id row\<rparr>" st1 d1] by auto
  have all: "process_rows blake env g k (row # rows) w st d = (None, w\<lparr>w_cursor := rc_id (last (row # rows))\<rparr>, st', d')"
    using one(1) rest(1) assms(1) by (simp add: quiet_def)
  have here: "vouched d1 n" if "asserted n d" "n_full n = Some h" "length h = 64" "hashFile blake g fs (n_path n) = Inr h"
    "rc_id row = n_id n" "rc_full row = n_full n" "rc_path row = n_path n" for n h
  proof -
    have "d1 = snd (MarkRehashMatched (n_id n) h d)"
      using one(1) that assms(1) by (auto simp: processOne_def record_outcome_def quiet_def)
    then show ?thesis using that MarkRehashMatched_vouches [of n h] by (auto simp: asserted_def)
  qed
  have other: "p \<in> set (db_provs d1)" if "p \<in> set (db_provs d)" "p_node p \<noteq> rc_id row" for p
    using one(1) that assms(1)
    by (force simp: processOne_def record_outcome_def quiet_def Let_def RecordRehashError_def MarkRehashMatched_def
        RecordRehashMismatch_def rehash_hit_def split: option.splits sum.splits if_splits)
  show ?case
  proof (intro exI conjI)
    show "process_rows blake env g k (row # rows) w st d =
        (None, if row # rows = [] then w else w\<lparr>w_cursor := rc_id (last (row # rows))\<rparr>, st', d')"
      using all by simp
    show "rehash_frame d d'" using one(2) rest(2) by (rule rehash_frame_trans)
    show "\<forall>n h. asserted n d \<longrightarrow> n_full n = Some h \<longrightarrow> length h = 64 \<longrightarrow> hashFile blake g fs (n_path n) = Inr h \<longrightarrow>
        (\<exists>row \<in> set (row # rows). rc_id row = n_id n \<and> rc_full row = n_full n \<and> rc_path row = n_path n) \<longrightarrow> vouched d' n"
      using here rest(2,3) rehash_frame_vouched rehash_frame_asserted [OF one(2)] by (metis set_ConsD)
    show "\<forall>p \<in> set (db_provs d). p_node p \<notin> rc_id ` set (row # rows) \<longrightarrow> p \<in> set (db_provs d')"
      using other rest(4) by simp
  qed
qed simp

lemma ProcessBatch_quiet:
  assumes "quiet g fs env" and "\<forall>x. length (blake x) = 64"
  obtains rows st' d' where
    "rows = ListRehashCandidates (w_cursor w) (unix_seconds (re_now env 0 - w_retryAfter w))
       (unix_seconds (re_now env 0)) (w_batchSize w) d"
    "ProcessBatch blake env w d = (None,
       if int (length rows) = w_batchSize w then (if rows = [] then w else w\<lparr>w_cursor := rc_id (last rows)\<rparr>)
       else w\<lparr>w_cursor := 0\<rparr>, st', d')"
    "rehash_frame d d'"
    "\<And>n h. asserted n d \<Longrightarrow> n_full n = Some h \<Longrightarrow> length h = 64 \<Longrightarrow> hashFile blake g fs (n_path n) = Inr h \<Longrightarrow>
       \<exists>row \<in> set rows. rc_id row = n_id n \<and> rc_full row = n_full n \<and> rc_path row = n_path n \<Longrightarrow> vouched d' n"
    "\<And>p. p \<in> set (db_provs d) \<Longrightarrow> p_node p \<notin> rc_id ` set rows \<Longrightarrow> p \<in> set (db_provs d')"
proof -
  define rows where "rows = ListRehashCandidates (w_cursor w) (unix_seconds (re_now env 0 - w_retryAfter w))
       (unix_seconds (re_now env 0)) (w_batchSize w) d"
  obtain st' d' where run: "process_rows blake env g 0 rows w no_rehash_stats d =
       (None, if rows = [] then w else w\<lparr>w_cursor := rc_id (last rows)\<rparr>, st', d')" and
    rest: "rehash_frame d d'"
    "\<forall>n h. asserted n d \<longrightarrow> n_full n = Some h \<longrightarrow> length h = 64 \<longrightarrow> hashFile blake g fs (n_path n) = Inr h \<longrightarrow>
       (\<exists>row \<in> set rows. rc_id row = n_id n \<and> rc_full row = n_full n \<and> rc_path row = n_path n) \<longrightarrow> vouched d' n"
    "\<forall>p \<in> set (db_provs d). p_node p \<notin> rc_id ` set rows \<longrightarrow> p \<in> set (db_provs d')"
    using process_rows_quiet [OF assms] by blast
  have "ProcessBatch blake env w d = (None,
      if int (length rows) = w_batchSize w then (if rows = [] then w else w\<lparr>w_cursor := rc_id (last rows)\<rparr>)
      else w\<lparr>w_cursor := 0\<rparr>, st'\<lparr>rs_more := (int (length rows) = w_batchSize w)\<rparr>, d')"
    using run assms(1) unfolding ProcessBatch_def rows_def [symmetric] quiet_def by (simp add: Let_def)
  then show thesis by (rule that [OF rows_def]) (use rest in blast)+
qed

lemma run_loop_vouched:
  assumes "\<forall>env \<in> set envs. quiet g fs env" and "\<forall>x. length (blake x) = 64" and "vouched d n"
  shows "vouched (snd (run_loop blake envs w d)) n"
  using assms
proof (induction envs arbitrary: w d)
  case (Cons env envs)
  then have "quiet g fs env" by simp
  from ProcessBatch_quiet [OF this Cons.prems(2), of w d] obtain w' st' d'
    where batch: "ProcessBatch blake env w d = (None, w', st', d')" and "rehash_frame d d'" by metis
  with Cons.prems(3) have "vouched d' n" by (simp add: rehash_frame_vouched)
  with Cons.IH [of d' w'] Cons.prems(1,2) show ?case by (simp add: batch)
qed simp

text \<open>A live master on the archive whose hash only a device asserted, not yet re-read, and whose file
  hashes to it.\<close>

definition pending_master :: "(string \<Rightarrow> string) \<Rightarrow> guard \<Rightarrow> fs \<Rightarrow> db \<Rightarrow> media_node \<Rightarrow> bool" where
  "pending_master blake g fs d n \<longleftrightarrow>
     n \<in> set (db_nodes d) \<and> 0 < n_id n \<and> visible n \<and>
     (\<exists>s \<in> set (db_locs d). l_id s = n_loc n \<and> l_tier s = TIER3_MASTER_ARCHIVE) \<and>
     (\<exists>p \<in> set (db_provs d). p_node p = n_id n \<and> p_source p = AGENT \<and> p_rehash_state p = None \<and>
        n_full n = Some (p_full p) \<and> length (p_full p) = 64 \<and> hashFile blake g fs (n_path n) = Inr (p_full p))"

definition above :: "int \<Rightarrow> db \<Rightarrow> nat" where
  "above c d = length (filter (\<lambda>p. c < p_node p) (db_provs d))"

lemma above_frame: "rehash_frame d d' \<Longrightarrow> above c d' = above c d"
proof -
  assume "rehash_frame d d'"
  then have "map p_node (db_provs d') = map p_node (db_provs d)"
    by (auto simp: rehash_frame_def kept_prov_def list_all2_conv_all_nth intro!: nth_equalityI)
  moreover have "above c x = length (filter ((<) c) (map p_node (db_provs x)))" for x
    by (simp add: above_def filter_map o_def)
  ultimately show ?thesis by (simp only:)
qed

lemma above_less:
  assumes "p \<in> set (db_provs d)" and "c < p_node p" and "p_node p \<le> c'" and "c \<le> c'"
  shows "above c' d < above c d"
proof -
  have "filter (\<lambda>q. c' < p_node q) (db_provs d) = filter (\<lambda>q. c' < p_node q) (filter (\<lambda>q. c < p_node q) (db_provs d))"
    using assms(4) by (auto simp: filter_filter intro!: filter_cong)
  moreover have "length (filter (\<lambda>q. c' < p_node q) (filter (\<lambda>q. c < p_node q) (db_provs d))) <
      length (filter (\<lambda>q. c < p_node q) (db_provs d))"
    by (rule length_filter_less [of p]) (use assms in auto)
  ultimately show ?thesis by (simp add: above_def)
qed

text \<open>One batch verifies the master, or stops short of it with the cursor moved on.\<close>

lemma batch_progress:
  assumes quiet: "quiet g fs env" and blake: "\<forall>x. length (blake x) = 64" and "0 < w_batchSize w"
    and ids: "distinct (map n_id (db_nodes d))" and n: "pending_master blake g fs d n" "w_cursor w < n_id n"
  obtains w' st' d' where "ProcessBatch blake env w d = (None, w', st', d')" "rehash_frame d d'"
    "vouched d' n \<or> pending_master blake g fs d' n \<and> w_cursor w' < n_id n \<and>
       w_batchSize w' = w_batchSize w \<and> above (w_cursor w') d < above (w_cursor w) d"
proof -
  let ?rb = "unix_seconds (re_now env 0 - w_retryAfter w)" and ?now = "unix_seconds (re_now env 0)"
  obtain p s where p: "p \<in> set (db_provs d)" "p_node p = n_id n" "p_source p = AGENT" "p_rehash_state p = None"
      "n_full n = Some (p_full p)" "length (p_full p) = 64" "hashFile blake g fs (n_path n) = Inr (p_full p)"
    and s: "s \<in> set (db_locs d)" "l_id s = n_loc n" "l_tier s = TIER3_MASTER_ARCHIVE"
    and live: "n \<in> set (db_nodes d)" "visible n"
    using n(1) by (auto simp: pending_master_def)
  define L where "L = rehash_candidates (w_cursor w) ?rb ?now d"
  obtain rows st' d' where rows: "rows = take (nat (w_batchSize w)) L"
    and batch: "ProcessBatch blake env w d = (None,
       if int (length rows) = w_batchSize w then (if rows = [] then w else w\<lparr>w_cursor := rc_id (last rows)\<rparr>)
       else w\<lparr>w_cursor := 0\<rparr>, st', d')"
    and frame: "rehash_frame d d'"
    and hit: "\<And>n h. asserted n d \<Longrightarrow> n_full n = Some h \<Longrightarrow> length h = 64 \<Longrightarrow>
       hashFile blake g fs (n_path n) = Inr h \<Longrightarrow>
       \<exists>row \<in> set rows. rc_id row = n_id n \<and> rc_full row = n_full n \<and> rc_path row = n_path n \<Longrightarrow> vouched d' n"
    and kept: "\<And>p. p \<in> set (db_provs d) \<Longrightarrow> p_node p \<notin> rc_id ` set rows \<Longrightarrow> p \<in> set (db_provs d')"
    using ProcessBatch_quiet [OF quiet blake, of w d] unfolding ListRehashCandidates_def L_def by metis
  have inL: "rehash_row_of p n \<in> set L"
    unfolding L_def rehash_candidates_iff rehash_claim_def rehash_due_def
    using p s live n(2) by force
  have sortedL: "sorted (map rc_id L)" by (simp add: L_def rehash_candidates_def)
  have claimed: "\<exists>q \<in> set (db_provs d). \<exists>m \<in> set (db_nodes d). row = rehash_row_of q m \<and> n_id m = p_node q \<and>
      w_cursor w < p_node q" if "row \<in> set rows" for row
    using in_set_takeD [OF that [unfolded rows]] unfolding L_def rehash_candidates_iff rehash_claim_def by blast
  show thesis
  proof (cases "\<exists>row \<in> set rows. rc_id row = n_id n")
    case True
    then obtain row where row: "row \<in> set rows" "rc_id row = n_id n" by blast
    with claimed obtain q m where m: "m \<in> set (db_nodes d)" "row = rehash_row_of q m" by blast
    with row(2) have "m = n" using ids live(1) by (auto simp: rehash_row_of_def distinct_map dest: inj_onD)
    with m(2) have "rc_full row = n_full n" "rc_path row = n_path n" by (simp_all add: rehash_row_of_def)
    with row p have "vouched d' n" by (intro hit [of n "p_full p"]) (auto simp: asserted_def)
    with batch frame that show ?thesis by blast
  next
    case False
    let ?k = "nat (w_batchSize w)"
    have short: "rehash_row_of p n \<notin> set rows" using False by (auto simp: rehash_row_of_def)
    then have long: "?k < length L" using inL rows by (metis leI take_all)
    then have full: "int (length rows) = w_batchSize w" and ne: "rows \<noteq> []"
      using rows assms(3) by auto
    have "rehash_row_of p n \<in> set (drop ?k L)"
      using inL short rows by (metis append_take_drop_id set_append Un_iff)
    moreover have last: "last rows \<in> set rows" using ne by simp
    moreover have "sorted (map rc_id rows @ map rc_id (drop ?k L))"
      using sortedL unfolding rows by (simp flip: map_append)
    ultimately have "rc_id (last rows) \<le> rc_id (rehash_row_of p n)"
      unfolding sorted_append by simp
    then have "rc_id (last rows) \<le> n_id n" by (simp add: rehash_row_of_def)
    moreover have "rc_id (last rows) \<noteq> n_id n" using False last by blast
    ultimately have lt: "rc_id (last rows) < n_id n" by simp
    obtain q m where q: "q \<in> set (db_provs d)" "last rows = rehash_row_of q m" "n_id m = p_node q" "w_cursor w < p_node q"
      using claimed [OF last] by blast
    then have id: "rc_id (last rows) = p_node q" by (simp add: rehash_row_of_def)
    have "p_node p \<notin> rc_id ` set rows" using False p(2) by (metis imageE)
    with kept [OF p(1)] have "p \<in> set (db_provs d')" by blast
    moreover have same: "db_nodes d' = db_nodes d" "db_locs d' = db_locs d"
      using frame by (simp_all add: rehash_frame_def)
    ultimately have "pending_master blake g fs d' n"
      using n(1) p s unfolding pending_master_def same by blast
    moreover have "above (rc_id (last rows)) d < above (w_cursor w) d"
      by (rule above_less [OF q(1,4)]) (use id q(4) in auto)
    ultimately show ?thesis using batch frame full ne lt by (intro that) auto
  qed
qed

lemma run_loop_verifies:
  assumes "\<forall>env \<in> set envs. quiet g fs env" and "\<forall>x. length (blake x) = 64" and "0 < w_batchSize w"
    and "distinct (map n_id (db_nodes d))" and "pending_master blake g fs d n" "w_cursor w < n_id n"
    and "above (w_cursor w) d < length envs"
  shows "vouched (snd (run_loop blake envs w d)) n"
  using assms
proof (induction envs arbitrary: w d)
  case (Cons env envs)
  obtain w' st' d' where batch: "ProcessBatch blake env w d = (None, w', st', d')" "rehash_frame d d'"
    and next_state: "vouched d' n \<or> pending_master blake g fs d' n \<and> w_cursor w' < n_id n \<and>
       w_batchSize w' = w_batchSize w \<and> above (w_cursor w') d < above (w_cursor w) d"
    using batch_progress [OF _ Cons.prems(2-6)] Cons.prems(1) by (metis list.set_intros(1))
  have "vouched (snd (run_loop blake envs w' d')) n"
    using next_state
  proof
    assume "vouched d' n"
    then show ?thesis using run_loop_vouched Cons.prems(1,2) by (metis list.set_intros(2))
  next
    assume "pending_master blake g fs d' n \<and> w_cursor w' < n_id n \<and>
       w_batchSize w' = w_batchSize w \<and> above (w_cursor w') d < above (w_cursor w) d"
    then show ?thesis
      using Cons.prems above_frame [OF batch(2)] batch(2) by (intro Cons.IH) (auto simp: rehash_frame_def)
  qed
  then show ?case by (simp add: batch(1))
qed simp


section \<open>Properties\<close>

text \<open>C15. A batch of the worker makes a hash authorise only after reading it. If the server vouches for the
  hash of node \<open>n\<close> after one \<open>ProcessBatch\<close> but did not before, and no other transaction that runs
  beside the batch starts vouching for \<open>n\<close> (a scan that reads the file may, and so may an event that
  stores a hash again which an old provenance row still names), then the claim query returned the row of
  \<open>n\<close> on the Tier-3 archive, and the worker read a regular file through the guard at its path whose bytes
  hash to exactly the recorded value. Errors and cancellations, and writers that change anything
  else, are included.\<close>

theorem rehash_vouches_only_read_bytes:
  assumes "ProcessBatch blake env w d = (err, w', st, d')"
    and "\<not> vouched d n" and "vouched d' n"
    and "\<forall>k x. vouched (re_others env k x) n \<longrightarrow> vouched x n"
  shows "\<exists>g m s k q t bytes. re_guard env = Some g \<and> m \<in> set (db_nodes d) \<and> n_id m = n_id n \<and> visible m \<and>
    s \<in> set (db_locs d) \<and> l_id s = n_loc m \<and> l_tier s = TIER3_MASTER_ARCHIVE \<and>
    OpenRead g (n_path m) (re_fs env k) = Inr (q, Regular t bytes) \<and> n_full n = Some (blake bytes)"
proof -
  obtain g where g: "re_guard env = Some g"
    using assms(1-3) by (auto simp: ProcessBatch_def split: option.splits)
  from ProcessBatch_rows [OF assms(1) g] obtain rows w1 st1 where
    rows: "rows = ListRehashCandidates (w_cursor w) (unix_seconds (re_now env 0 - w_retryAfter w))
       (unix_seconds (re_now env 0)) (w_batchSize w) d" and
    run: "process_rows blake env g 0 rows w no_rehash_stats d = (err, w1, st1, d')" .
  obtain row j q t bytes where row: "row \<in> set rows" "rc_id row = n_id n"
      "OpenRead g (rc_path row) (re_fs env j) = Inr (q, Regular t bytes)" "n_full n = Some (blake bytes)"
    using process_rows_vouched [OF run assms(3,2,4)] by (elim bexE exE conjE)
  obtain p m s where m: "m \<in> set (db_nodes d)" "s \<in> set (db_locs d)" "row = rehash_row_of p m" and
    claim: "rehash_claim (w_cursor w) (unix_seconds (re_now env 0 - w_retryAfter w)) (unix_seconds (re_now env 0)) p m s"
    using ListRehashCandidates_claim [OF row(1) [unfolded rows]] by metis
  have "n_id m = n_id n" "visible m" "l_id s = n_loc m" "l_tier s = TIER3_MASTER_ARCHIVE"
    "OpenRead g (n_path m) (re_fs env j) = Inr (q, Regular t bytes)"
    using claim row m(3) by (simp_all add: rehash_claim_def rehash_row_of_def)
  with g m(1,2) row(4) show ?thesis by blast
qed

text \<open>C16. Every good master that was not tried before is verified. Left in peace, a worker with any options
  reads every live Tier-3 file whose hash a device asserted and which it has not attempted yet: after one
  batch more than there are provenance rows, the server vouches for each of them whose file, read
  through the guard, hashes to the recorded value, however many other files are unreadable or do not
  match. (One that was attempted and failed waits for its time to retry, and is not covered.)\<close>

theorem every_good_master_is_verified:
  assumes "\<forall>env \<in> set envs. quiet g fs env" and "\<forall>x. length (blake x) = 64"
    and "db_ok d" and "pending_master blake g fs d n" and "length (db_provs d) < length envs"
  shows "vouched (snd (run_loop blake envs (NewWorker opts) d)) n"
proof (rule run_loop_verifies [OF assms(1,2)])
  have "w_cursor (apply_option opt w) = w_cursor w" for opt w by (cases opt) simp_all
  then have cursor: "w_cursor (fold apply_option opts w) = w_cursor w" for w
    by (induction opts arbitrary: w) simp_all
  show "0 < w_batchSize (NewWorker opts)" using worker_ok_new by (simp add: worker_ok_def)
  show "distinct (map n_id (db_nodes d))" using assms(3) by (simp add: db_ok_def node_violation_None)
  show "pending_master blake g fs d n" by fact
  show "w_cursor (NewWorker opts) < n_id n"
    using assms(4) by (simp add: NewWorker_def cursor pending_master_def)
  have "above c d \<le> length (db_provs d)" for c by (simp add: above_def)
  then show "above (w_cursor (NewWorker opts)) d < length envs" using assms(5) by (meson le_less_trans)
qed

text \<open>C17. A file that does not match keeps authorising nothing and is left alone for the wait. When the
  read gives another value, the row stays a device's, counts one mismatch more and keeps the value
  read; it is due again exactly when the worker's clock has moved on by the first wait doubled once
  per earlier mismatch, at most thirty days. No node row changes.\<close>

theorem mismatch_waits:
  assumes "worker_ok w" and "distinct (map p_node (db_provs d))"
    and "p \<in> set (db_provs d)" and "p_node p = rc_id row" and "p_full p = h" and "p_source p = AGENT"
    and "rc_mismatches row = p_rehash_mismatches p" and "0 \<le> p_rehash_mismatches p"
    and "length c = 64" and "c \<noteq> h"
  shows "\<exists>st' d' p'. record_outcome w now row h (Inr c) st d = (None, st', d') \<and> db_nodes d' = db_nodes d \<and>
    GetFullHashProvenance (rc_id row) d' = Some p' \<and> p_full p' = h \<and> p_source p' = AGENT \<and>
    p_rehash_computed p' = Some c \<and> p_rehash_mismatches p' = p_rehash_mismatches p + 1 \<and>
    (\<forall>rb later. rehash_due rb later p' = (unix_seconds
       (now + min (w_mismatchRetryAfter w * 2 ^ nat (p_rehash_mismatches p)) MaxMismatchRetryAfter) \<le> later))"
proof -
  let ?f = "\<lambda>q. if rehash_hit (rc_id row) h q then q\<lparr>p_rehash_state := Some ''MISMATCH'',
      p_rehash_computed := Some c, p_rehash_mismatches := p_rehash_mismatches q + 1,
      p_rehash_retry := Some (unix_seconds (now + mismatchBackoff (w_mismatchRetryAfter w) (p_rehash_mismatches p + 1))),
      p_rehash_checked := Some (db_clock d), p_rehash_attempts := p_rehash_attempts q + 1\<rparr> else q"
  let ?d = "d\<lparr>db_provs := map ?f (db_provs d)\<rparr>"
  have hit: "rehash_hit (rc_id row) h p" using assms(4-6) by (simp add: rehash_hit_def)
  have out: "record_outcome w now row h (Inr c) st d = (None, st\<lparr>rs_mismatched := Suc (rs_mismatched st)\<rparr>, ?d)"
    using assms(7,9,10) by (simp add: record_outcome_def RecordRehashMismatch_def opt_len_def Let_def)
  have found: "GetFullHashProvenance (rc_id row) ?d = Some (?f p)"
    using find_updated [OF assms(2,3), of "?f"] assms(4) by (simp add: GetFullHashProvenance_def)
  have "mismatchBackoff (w_mismatchRetryAfter w) (p_rehash_mismatches p + 1) =
      min (w_mismatchRetryAfter w * 2 ^ nat (p_rehash_mismatches p)) MaxMismatchRetryAfter"
    using mismatchBackoff_closed [of "w_mismatchRetryAfter w"] assms(1) by (simp add: worker_ok_def)
  with out found hit assms(5,6) show ?thesis
    by (intro exI [of _ "st\<lparr>rs_mismatched := Suc (rs_mismatched st)\<rparr>"] exI [of _ ?d] exI [of _ "?f p"])
      (simp add: rehash_due_def)
qed

section \<open>Concrete instances\<close>

definition sample_blake :: "string \<Rightarrow> string" where
  "sample_blake bytes = replicate 64 (if bytes = ''raw'' then CHR ''b'' else CHR ''c'')"

definition sample_hash :: string where "sample_hash = sample_blake ''raw''"

definition master :: media_node where "master = original\<lparr>n_full := Some sample_hash\<rparr>"

text \<open>A master on the archive, whose hash a device asserted.\<close>

definition claimed_db :: db where
  "claimed_db = \<lparr>db_nodes = [master], db_edges = [], db_provs = [new_prov 1 sample_hash AGENT 10],
     db_meta = [], db_locs = [sample_loc 1 ''/archive'' TIER3_MASTER_ARCHIVE True], db_users = [], db_clock = 2000\<rparr>"

definition archive_guard :: guard where
  "archive_guard = [\<lparr>gl_id = 1, gl_name = ''archive'', gl_root = ''/archive'', gl_tier = TIER3_MASTER_ARCHIVE,
     gl_readonly = True, gl_virtual = False\<rparr>]"

definition archive_fs :: fs where
  "archive_fs = \<lparr>fs_tree = [([''archive''], Directory 0 0), ([''archive'', ''a.arw''], Regular 7 ''raw'')], fs_now = 9\<rparr>"

definition calm_env :: rehash_env where
  "calm_env = \<lparr>re_guard = Some archive_guard, re_fs = (\<lambda>_. archive_fs), re_now = (\<lambda>_. 3000 * second),
     re_others = (\<lambda>_. id), re_cancelled = (\<lambda>_. False)\<rparr>"

lemma calm_quiet: "quiet archive_guard archive_fs calm_env"
  by (simp add: quiet_def calm_env_def)

lemma sample_blake_length: "\<forall>x. length (sample_blake x) = 64"
  by (simp add: sample_blake_def)

lemma claimed_ok: "db_ok claimed_db"
  by (simp add: db_ok_def node_violation_None edge_violation_None claimed_db_def unique_on_def node_check_def
      opt_len_def node_fk_def master_def sample_defs sample_hash_def sample_blake_def)

lemma claimed_read: "hashFile sample_blake archive_guard archive_fs (n_path master) = Inr sample_hash"
  by code_simp

lemma claimed_pending: "pending_master sample_blake archive_guard archive_fs claimed_db master"
  using claimed_read
  by (simp add: pending_master_def claimed_db_def new_prov_def sample_hash_def sample_blake_def master_def
      sample_defs visible_def)

theorem every_good_master_is_verified_witness:
  "vouched (snd (run_loop sample_blake [calm_env, calm_env] (NewWorker [WithBatchSize 1]) claimed_db)) master"
  by (rule every_good_master_is_verified [OF _ sample_blake_length claimed_ok claimed_pending])
    (simp_all add: calm_quiet, simp add: claimed_db_def)

theorem rehash_vouches_only_read_bytes_witness:
  "\<exists>g m s k q t bytes. re_guard calm_env = Some g \<and> m \<in> set (db_nodes claimed_db) \<and> n_id m = n_id master \<and>
    visible m \<and> s \<in> set (db_locs claimed_db) \<and> l_id s = n_loc m \<and> l_tier s = TIER3_MASTER_ARCHIVE \<and>
    OpenRead g (n_path m) (re_fs calm_env k) = Inr (q, Regular t bytes) \<and> n_full master = Some (sample_blake bytes)"
proof -
  obtain err w' st d' where batch: "ProcessBatch sample_blake calm_env (NewWorker []) claimed_db = (err, w', st, d')"
    by (metis prod_cases4)
  have "vouched (case ProcessBatch sample_blake calm_env (NewWorker []) claimed_db of (_, _, _, x) \<Rightarrow> x) master"
    by code_simp
  then have "vouched d' master" by (simp add: batch)
  moreover have "\<not> vouched claimed_db master" by code_simp
  ultimately show ?thesis
    using rehash_vouches_only_read_bytes [OF batch] by (simp add: calm_env_def)
qed

theorem mismatch_waits_witness:
  "\<exists>st' d' p'. record_outcome (NewWorker []) 0 (rehash_row_of (new_prov 1 sample_hash AGENT 10) master) sample_hash
      (Inr (sample_blake ''bad'')) no_rehash_stats claimed_db = (None, st', d') \<and> db_nodes d' = db_nodes claimed_db \<and>
    GetFullHashProvenance 1 d' = Some p' \<and> p_source p' = AGENT \<and>
    rehash_due 0 86399 p' = False \<and> rehash_due 0 86400 p' = True"
proof -
  let ?p = "new_prov 1 sample_hash AGENT 10" and ?c = "sample_blake ''bad''"
  let ?row = "rehash_row_of ?p master"
  have diff: "?c \<noteq> sample_hash" by (simp add: sample_hash_def sample_blake_def)
  have db: "distinct (map p_node (db_provs claimed_db))" "?p \<in> set (db_provs claimed_db)"
    by (simp_all add: claimed_db_def)
  have row: "p_node ?p = rc_id ?row" "p_full ?p = sample_hash" "p_source ?p = AGENT"
    "rc_mismatches ?row = p_rehash_mismatches ?p" "0 \<le> p_rehash_mismatches ?p" "length ?c = 64" "rc_id ?row = 1"
    "p_rehash_mismatches ?p = 0"
    by (simp_all add: new_prov_def rehash_row_of_def master_def sample_defs sample_blake_def)
  have wait: "unix_seconds (0 + min (w_mismatchRetryAfter (NewWorker []) * 2 ^ nat 0) MaxMismatchRetryAfter) = 86400"
    by (simp add: NewWorker_def DefaultMismatchRetryAfter_def MaxMismatchRetryAfter_def hour_def second_def
        unix_seconds_def)
  obtain st' d' p' where out: "record_outcome (NewWorker []) 0 ?row sample_hash (Inr ?c) no_rehash_stats claimed_db = (None, st', d')"
      "db_nodes d' = db_nodes claimed_db" "GetFullHashProvenance 1 d' = Some p'" "p_source p' = AGENT"
      "\<forall>rb later. rehash_due rb later p' = (86400 \<le> later)"
    using mismatch_waits [OF worker_ok_new [of "[]"] db row(1-6) diff, of 0 no_rehash_stats] unfolding row(7,8) wait by blast
  then have "rehash_due 0 86399 p' = False" "rehash_due 0 86400 p' = True" by simp_all
  with out show ?thesis by blast
qed

end
