(* ===== verification/Hashing.thy ===== *)
theory Hashing
  imports Secrets
begin

text \<open>
  \<open>internal/hashing/hashing.go\<close>: the sampled fingerprint of a file. xxHash64 is the parameter \<open>xx\<close>
  from the bytes written to the hasher to its 64-bit sum; sizes are \<open>int64\<close> values as integers.
\<close>

definition fastHashSampleSize :: int where
  "fastHashSampleSize = 2 * 1024 * 1024"

text \<open>The inner function \<open>clamp\<close>, and the three windows as pairs of start and end.\<close>

definition clamp :: "int \<Rightarrow> int \<Rightarrow> int" where
  "clamp sz v = (if v < 0 then 0 else if v > sz then sz else v)"

definition sampleRegions :: "int \<Rightarrow> (int \<times> int) list" where
  "sampleRegions sz =
     (if sz \<le> 0 then [(0, 0), (0, 0), (0, 0)]
      else let middleStart = clamp sz (sz div 2 - fastHashSampleSize div 2)
           in [(0, clamp sz fastHashSampleSize),
               (middleStart, clamp sz (middleStart + fastHashSampleSize)),
               (clamp sz (sz - fastHashSampleSize), sz)])"

text \<open>One \<open>ReadAt\<close> of a region: a read that comes up short is an error.\<close>

definition read_region :: "string \<Rightarrow> int \<times> int \<Rightarrow> unit + string" where
  "read_region bytes reg =
     (case reg of (a, b) \<Rightarrow>
        let part = take (nat (b - a)) (drop (nat a) bytes)
        in if int (length part) = b - a then Inr part else Inl ())"

fun read_regions :: "string \<Rightarrow> (int \<times> int) list \<Rightarrow> unit + string" where
  "read_regions bytes [] = Inr []"
| "read_regions bytes (reg # regs) =
     rbind (if snd reg - fst reg = 0 then Inr [] else read_region bytes reg)
       (\<lambda>s. rbind (read_regions bytes regs) (\<lambda>t. Inr (s @ t)))"

definition big_endian :: "64 word \<Rightarrow> string" where
  "big_endian w = map (\<lambda>i. char_of (unat (drop_bit (8 * (7 - i)) w) mod 256 :: nat)) [0..<8]"

text \<open>\<open>fmt.Sprintf("%016x", sum)\<close>: the eight bytes, most significant first, two digits each.\<close>

definition hash_text :: "64 word \<Rightarrow> string" where
  "hash_text w = hex_encode (big_endian w)"

definition FastHash :: "(string \<Rightarrow> 64 word) \<Rightarrow> string \<Rightarrow> int \<Rightarrow> unit + string" where
  "FastHash xx bytes sz =
     rbind (read_regions bytes (sampleRegions sz))
       (\<lambda>s. Inr (hash_text (xx (s @ big_endian (word_of_int sz)))))"

section \<open>What is sampled\<close>

lemma length_hash_text [simp]: "length (hash_text w) = 16"
  by (simp add: hash_text_def big_endian_def)

text \<open>The windows lie inside the file, so hashing a file at its own size never fails.\<close>

lemma sampleRegions_within:
  "(a, b) \<in> set (sampleRegions sz) \<Longrightarrow> 0 \<le> a \<and> a \<le> b \<and> b \<le> max 0 sz"
  by (auto simp: sampleRegions_def clamp_def fastHashSampleSize_def Let_def split: if_splits)

lemma read_regions_total:
  assumes "\<forall>(a, b) \<in> set regs. 0 \<le> a \<and> a \<le> b \<and> b \<le> int (length bytes)"
  shows "read_regions bytes regs = Inr (concat (map (\<lambda>(a, b). take (nat (b - a)) (drop (nat a) bytes)) regs))"
  using assms by (induction regs) (auto simp: read_region_def Let_def)

lemma FastHash_own_size:
  "FastHash xx bytes (int (length bytes)) = Inr (hash_text (xx (concat (map (\<lambda>(a, b). take (nat (b - a)) (drop (nat a) bytes))
     (sampleRegions (int (length bytes)))) @ big_endian (word_of_int (int (length bytes))))))"
proof -
  have "read_regions bytes (sampleRegions (int (length bytes))) =
      Inr (concat (map (\<lambda>(a, b). take (nat (b - a)) (drop (nat a) bytes)) (sampleRegions (int (length bytes)))))"
    by (rule read_regions_total) (use sampleRegions_within in fastforce)
  then show ?thesis by (simp add: FastHash_def)
qed


section \<open>The text of a sum names the sum\<close>

lemma hex_byte_inject: "hex_byte a = hex_byte b \<Longrightarrow> a = b"
proof -
  assume eq: "hex_byte a = hex_byte b"
  have digit: "hex_digit m = hex_digit n \<Longrightarrow> m = n" if "m < 16" "n < 16" for m n
  proof -
    have "distinct ''0123456789abcdef''" by simp
    then show "hex_digit m = hex_digit n \<Longrightarrow> m = n"
      using that unfolding hex_digit_def by (subst (asm) nth_eq_iff_index_eq) simp_all
  qed
  have "(of_char a :: nat) < 256" "(of_char b :: nat) < 256" by simp_all
  then have small: "of_char a div 16 < (16 :: nat)" "of_char b div 16 < (16 :: nat)" by linarith+
  then have "of_char a div 16 = (of_char b div 16 :: nat)" "of_char a mod 16 = (of_char b mod 16 :: nat)"
    using eq small by (auto simp: hex_byte_def Let_def intro!: digit)
  then have "(of_char a :: nat) = of_char b" by (metis div_mult_mod_eq)
  then show "a = b" by (simp add: of_char_eq_iff)
qed

lemma hex_encode_inject: "hex_encode s = hex_encode t \<Longrightarrow> s = t"
proof (induction s arbitrary: t)
  case Nil
  then show ?case by (metis length_0_conv length_hex_encode list.size(3) mult_eq_0_iff zero_neq_numeral)
next
  case (Cons c s)
  then show ?case
  proof (cases t)
    case Nil
    with Cons.prems show ?thesis by (simp add: hex_encode_def hex_byte_def Let_def)
  next
    case (Cons d t')
    with Cons.prems have "hex_byte c @ hex_encode s = hex_byte d @ hex_encode t'" by (simp add: hex_encode_def)
    moreover have "length (hex_byte c) = length (hex_byte d)" by (simp add: hex_byte_def Let_def)
    ultimately show ?thesis using Cons.IH [of t'] Cons hex_byte_inject by (simp add: append_eq_append_conv)
  qed
qed

lemma big_endian_inject: "big_endian v = big_endian w \<Longrightarrow> v = w"
proof (rule bit_word_eqI)
  fix n
  assume eq: "big_endian v = big_endian w" and n: "n < LENGTH(64)"
  define i where "i = 7 - n div 8"
  have i: "i < 8" "8 * (7 - i) + n mod 8 = n" using n by (auto simp: i_def)
  have byte: "big_endian x ! i = char_of (unat (drop_bit (8 * (7 - i)) x) mod 256)" for x
    using i(1) by (simp add: big_endian_def)
  have "char_of (unat (drop_bit (8 * (7 - i)) v) mod 256 :: nat) = char_of (unat (drop_bit (8 * (7 - i)) w) mod 256 :: nat)"
    unfolding byte [symmetric] eq ..
  then have "unat (drop_bit (8 * (7 - i)) v) mod 256 = unat (drop_bit (8 * (7 - i)) w) mod 256"
    by (metis of_char_of mod_mod_trivial)
  then have "take_bit 8 (unat (drop_bit (8 * (7 - i)) v)) = take_bit 8 (unat (drop_bit (8 * (7 - i)) w))"
    by (simp add: take_bit_eq_mod)
  then have "bit (take_bit 8 (unat (drop_bit (8 * (7 - i)) v))) (n mod 8) = bit (take_bit 8 (unat (drop_bit (8 * (7 - i)) w))) (n mod 8)"
    by simp
  then show "bit v n = bit w n"
    using i n by (simp add: bit_take_bit_iff bit_unsigned_iff bit_drop_bit_eq)
qed

lemma hash_text_inject: "hash_text v = hash_text w \<Longrightarrow> v = w"
  unfolding hash_text_def by (blast dest: hex_encode_inject big_endian_inject)

section \<open>Small files are sampled whole\<close>

lemma small_covered:
  assumes "0 \<le> i" "i < sz" "sz \<le> 3 * fastHashSampleSize"
  shows "\<exists>(a, b) \<in> set (sampleRegions sz). a \<le> i \<and> i < b"
  using assms by (auto simp: sampleRegions_def clamp_def fastHashSampleSize_def Let_def)

lemma sampled_inject:
  assumes len: "length xs = length ys" and small: "int (length xs) \<le> 3 * fastHashSampleSize"
    and eq: "concat (map (\<lambda>(a, b). take (nat (b - a)) (drop (nat a) xs)) (sampleRegions (int (length xs)))) =
       concat (map (\<lambda>(a, b). take (nat (b - a)) (drop (nat a) ys)) (sampleRegions (int (length xs))))"
  shows "xs = ys"
proof (rule nth_equalityI)
  show "length xs = length ys" by fact
  fix i
  assume i: "i < length xs"
  let ?rs = "sampleRegions (int (length xs))"
  have same: "map (\<lambda>(a, b). take (nat (b - a)) (drop (nat a) xs)) ?rs = map (\<lambda>(a, b). take (nat (b - a)) (drop (nat a) ys)) ?rs"
    using eq by (subst (asm) concat_eq_concat_iff) (auto simp: len set_zip split: prod.split)
  obtain a b where ab: "(a, b) \<in> set ?rs" "a \<le> int i" "int i < b"
    using small_covered [of "int i" "int (length xs)"] i small by auto
  have nn: "0 \<le> a" using sampleRegions_within [OF ab(1)] by simp
  from same ab(1) have "take (nat (b - a)) (drop (nat a) xs) = take (nat (b - a)) (drop (nat a) ys)" by auto
  then have "take (nat (b - a)) (drop (nat a) xs) ! (i - nat a) = take (nat (b - a)) (drop (nat a) ys) ! (i - nat a)" by simp
  then show "xs ! i = ys ! i" using nn ab i len by (simp add: nat_le_iff)
qed

text \<open>What \<open>FastHash\<close> feeds to xxHash64: the bytes of the three windows, then the size.\<close>

definition fed :: "string \<Rightarrow> string" where
  "fed bs = concat (map (\<lambda>(a, b). take (nat (b - a)) (drop (nat a) bs)) (sampleRegions (int (length bs)))) @
     big_endian (word_of_int (int (length bs)))"

lemma fed_inject:
  assumes "fed xs = fed ys" "length xs \<le> 6 * 1024 * 1024" "length ys \<le> 6 * 1024 * 1024"
  shows "xs = ys"
proof -
  let ?part = "\<lambda>zs. concat (map (\<lambda>(a, b). take (nat (b - a)) (drop (nat a) zs)) (sampleRegions (int (length zs))))"
  have "length (big_endian u) = length (big_endian v)" for u v by (simp add: big_endian_def)
  with assms(1) have parts: "?part xs = ?part ys"
      and "big_endian (word_of_int (int (length xs))) = big_endian (word_of_int (int (length ys)))"
    by (simp_all add: fed_def append_eq_append_conv)
  then have "(word_of_int (int (length xs)) :: 64 word) = word_of_int (int (length ys))" by (blast dest: big_endian_inject)
  then have "length xs = length ys"
    using assms(2,3) by (simp add: word_of_nat_eq_iff take_bit_eq_mod)
  then show ?thesis
    by (rule sampled_inject) (use assms(2) parts \<open>length xs = length ys\<close> in \<open>simp_all add: fastHashSampleSize_def\<close>)
qed

text \<open>C21. The fast hash of a small file speaks for all of its bytes. The fast hash of a file, taken at its
  own size, is the text of the xxHash64 sum of its three windows and its size; for files of at most
  6 MiB, where the windows leave no byte out, this input is another one for every other file. So two
  different such files share a fast hash exactly when xxHash64 maps their two, different, inputs to
  the same sum.\<close>

theorem small_file_fast_hash:
  assumes "length xs \<le> 6 * 1024 * 1024" "length ys \<le> 6 * 1024 * 1024" "xs \<noteq> ys"
  shows "FastHash xx xs (int (length xs)) = Inr (hash_text (xx (fed xs))) \<and> fed xs \<noteq> fed ys \<and>
    (FastHash xx xs (int (length xs)) = FastHash xx ys (int (length ys)) \<longleftrightarrow> xx (fed xs) = xx (fed ys))"
  using assms fed_inject [of xs ys] by (auto simp: FastHash_own_size [folded fed_def] dest: hash_text_inject)

theorem small_file_fast_hash_witness:
  "fed ''a'' = ''aaa'' @ big_endian 1 \<and> fed ''a'' \<noteq> fed ''b''"
proof -
  have one: "sampleRegions 1 = [(0, 1), (0, 1), (0, 1)]"
    by (simp add: sampleRegions_def clamp_def fastHashSampleSize_def)
  show ?thesis using small_file_fast_hash [of "''a''" "''b''" "\<lambda>s. word_of_nat (length s)"] one by (simp add: fed_def)
qed

end
