(* ===== verification/Inherit.thy ===== *)
theory Inherit
  imports Commit Guard Hashing
begin

text \<open>
  \<open>internal/pipeline/inherit.go\<close> with \<open>internal/metadata/plan.go\<close>: copying identity metadata from the
  winning parent of a file into the file itself, by an in-place write of exiftool, and bringing the
  row up to date with the changed bytes. The external programs are the record \<open>tools\<close>: whether
  exiftool is there, what its write does to the file system, what its read and the xxHash64 of the
  rewritten file give, and how the file system changes while the re-open waits. Deadlines and the
  lock that serialises writes to one node are not modelled.
\<close>

section \<open>The winning parent\<close>

definition ValidParentRelationships :: "string list" where
  "ValidParentRelationships = [''DERIVED_FROM'', ''FINAL_EXPORT'', ''PROXY_OF'']"

definition resolved_edge :: "media_edge \<Rightarrow> bool" where
  "resolved_edge e \<longleftrightarrow> e_review e = AUTO_ACCEPTED \<or> e_review e = CONFIRMED"

definition eligible_parent :: "media_edge \<Rightarrow> bool" where
  "eligible_parent e \<longleftrightarrow> resolved_edge e \<and> e_tier e \<noteq> 3 \<and> e_rel e \<in> set ValidParentRelationships"

definition manual :: "media_edge \<Rightarrow> bool" where
  "manual e \<longleftrightarrow> e_resolver e = ''manual''"

definition isBetterParent :: "media_edge \<Rightarrow> media_edge \<Rightarrow> bool" where
  "isBetterParent e best =
     (if e_conf e > e_conf best then True
      else if e_conf e < e_conf best then False
      else if manual e \<noteq> manual best then manual e
      else if manual e \<and> manual best then e_id e > e_id best
      else e_id e < e_id best)"

definition pick_step :: "media_edge option \<Rightarrow> media_edge \<Rightarrow> media_edge option" where
  "pick_step best e =
     (if \<not> eligible_parent e then best
      else case best of None \<Rightarrow> Some e | Some b \<Rightarrow> if isBetterParent e b then Some e else best)"

definition PickWinningParent :: "media_edge list \<Rightarrow> media_edge option" where
  "PickWinningParent edges = foldl pick_step None edges"

definition HasResolvedButIneligibleParent :: "media_edge list \<Rightarrow> bool" where
  "HasResolvedButIneligibleParent edges = list_ex resolved_edge edges"

section \<open>Planning the tags\<close>

record tag_set =
  ts_date :: string
  ts_offset :: string
  ts_lat :: "float64 option"
  ts_lon :: "float64 option"
  ts_make :: string
  ts_model :: string
  ts_lens :: string
  ts_serial :: string
  ts_identifier :: string
  ts_derived :: string

definition inherit_tag :: "string \<Rightarrow> string \<Rightarrow> string \<Rightarrow> kv \<Rightarrow> kv" where
  "inherit_tag tag parentVal childVal tags =
     (if parentVal \<noteq> [] \<and> childVal = [] then kv_set tag parentVal tags else tags)"

definition plan_dates :: "tag_set \<Rightarrow> tag_set \<Rightarrow> kv \<Rightarrow> kv" where
  "plan_dates p c tags =
     (if ts_date p \<noteq> [] \<and> ts_date c = []
      then inherit_tag ''EXIF:OffsetTimeOriginal'' (ts_offset p) (ts_offset c)
             (kv_set ''EXIF:DateTimeOriginal'' (ts_date p) tags)
      else tags)"

definition plan_gps :: "tag_set \<Rightarrow> tag_set \<Rightarrow> kv \<Rightarrow> kv" where
  "plan_gps p c tags =
     (case (ts_lat p, ts_lon p, ts_lat c, ts_lon c) of
        (Some lat, Some lon, None, None) \<Rightarrow>
          kv_set ''Composite:GPSLongitude'' (format_float lon) (kv_set ''Composite:GPSLatitude'' (format_float lat) tags)
      | _ \<Rightarrow> tags)"

definition plan_identity :: "tag_set \<Rightarrow> kv \<Rightarrow> kv" where
  "plan_identity c tags =
     (let tags1 = (if ts_identifier c \<noteq> [] then kv_set ''XMP-dc:Identifier'' (ts_identifier c) tags else tags)
      in if ts_derived c \<noteq> [] then kv_set ''XMP-xmpMM:DerivedFrom'' (ts_derived c) tags1 else tags1)"

definition plan_tags :: "tag_set \<Rightarrow> tag_set \<Rightarrow> kv" where
  "plan_tags p c =
     plan_identity c (plan_gps p c
       (inherit_tag ''EXIF:SerialNumber'' (ts_serial p) (ts_serial c)
       (inherit_tag ''EXIF:LensModel'' (ts_lens p) (ts_lens c)
       (inherit_tag ''EXIF:Model'' (ts_model p) (ts_model c)
       (inherit_tag ''EXIF:Make'' (ts_make p) (ts_make c)
       (plan_dates p c []))))))"

section \<open>What a node has already\<close>

text \<open>\<open>strconv.ParseFloat\<close> of a decimal: sign, digits, fraction, exponent; rounded once. The column only
  ever receives texts of this form; hexadecimal floats, underscores, infinities and NaN, which Go
  parses too, are errors here.\<close>

fun digits_value :: "string \<Rightarrow> nat \<Rightarrow> nat" where
  "digits_value [] n = n"
| "digits_value (c # cs) n = digits_value cs (10 * n + (of_char c - 48))"

definition parse_exponent :: "string \<Rightarrow> int option" where
  "parse_exponent s =
     (case s of
        [] \<Rightarrow> Some 0
      | c # r \<Rightarrow>
          if c \<noteq> CHR ''e'' \<and> c \<noteq> CHR ''E'' then None
          else let neg = (r \<noteq> [] \<and> hd r = CHR ''-'');
                   ds = (if r \<noteq> [] \<and> (hd r = CHR ''-'' \<or> hd r = CHR ''+'') then tl r else r)
               in if ds = [] \<or> \<not> list_all is_digit ds then None
                  else Some (if neg then - int (digits_value ds 0) else int (digits_value ds 0)))"

definition parse_float :: "string \<Rightarrow> float64 option" where
  "parse_float s =
     (let neg = (s \<noteq> [] \<and> hd s = CHR ''-'');
          r = (if s \<noteq> [] \<and> (hd s = CHR ''-'' \<or> hd s = CHR ''+'') then tl s else s);
          whole = takeWhile is_digit r;
          r1 = dropWhile is_digit r;
          dotted = (r1 \<noteq> [] \<and> hd r1 = CHR ''.'');
          frac = (if dotted then takeWhile is_digit (tl r1) else []);
          r2 = (if dotted then dropWhile is_digit (tl r1) else r1)
      in if whole @ frac = [] then None
         else case parse_exponent r2 of
           None \<Rightarrow> None
         | Some e \<Rightarrow>
             let k = e - int (length frac);
                 m = of_nat (digits_value (whole @ frac) 0) :: rat;
                 q = (if 0 \<le> k then m * 10 ^ nat k else m / 10 ^ nat (- k))
             in Some (f64 (if neg then - q else q)))"

text \<open>\<open>time.Unix(t, 0).UTC().Format("2006:01:02 15:04:05")\<close>: the date from the count of days, with the
  years counted from March.\<close>

definition civil_date :: "int \<Rightarrow> int \<times> int \<times> int" where
  "civil_date days =
     (let z = days + 719468; era = z div 146097; doe = z mod 146097;
          yoe = (doe - doe div 1460 + doe div 36524 - doe div 146096) div 365;
          doy = doe - (365 * yoe + yoe div 4 - yoe div 100);
          mp = (5 * doy + 2) div 153;
          day = doy - (153 * mp + 2) div 5 + 1;
          month = (if mp < 10 then mp + 3 else mp - 9)
      in (yoe + era * 400 + (if month \<le> 2 then 1 else 0), month, day))"

definition pad :: "nat \<Rightarrow> int \<Rightarrow> string" where
  "pad k n = (let s = itoa n in replicate (k - length s) (CHR ''0'') @ s)"

definition exif_time :: "int \<Rightarrow> string" where
  "exif_time t =
     (let days = t div 86400; s = t mod 86400
      in case civil_date days of (y, m, d) \<Rightarrow>
           pad 4 y @ '':'' @ pad 2 m @ '':'' @ pad 2 d @ '' '' @
           pad 2 (s div 3600) @ '':'' @ pad 2 (s div 60 mod 60) @ '':'' @ pad 2 (s mod 60))"

definition load_tag :: "tag_set \<Rightarrow> node_metadatum \<Rightarrow> tag_set" where
  "load_tag ts r =
     (if md_source r \<noteq> ''exiftool'' then ts
      else if md_key r = ''EXIF:Make'' then ts\<lparr>ts_make := md_value r\<rparr>
      else if md_key r = ''EXIF:LensModel'' then ts\<lparr>ts_lens := md_value r\<rparr>
      else if md_key r = ''EXIF:SerialNumber'' then ts\<lparr>ts_serial := md_value r\<rparr>
      else if md_key r = ''EXIF:DateTimeOriginal'' then ts\<lparr>ts_date := md_value r\<rparr>
      else if md_key r = ''EXIF:OffsetTimeOriginal'' then ts\<lparr>ts_offset := md_value r\<rparr>
      else if md_key r = ''Composite:GPSLatitude''
        then (case parse_float (md_value r) of None \<Rightarrow> ts | Some f \<Rightarrow> ts\<lparr>ts_lat := Some f\<rparr>)
      else if md_key r = ''Composite:GPSLongitude''
        then (case parse_float (md_value r) of None \<Rightarrow> ts | Some f \<Rightarrow> ts\<lparr>ts_lon := Some f\<rparr>)
      else ts)"

definition LoadTagSet :: "media_node \<Rightarrow> db \<Rightarrow> tag_set" where
  "LoadTagSet n d =
     (let ts = foldl load_tag
            \<lparr>ts_date = [], ts_offset = [], ts_lat = None, ts_lon = None, ts_make = [],
             ts_model = or_empty (n_camera n), ts_lens = [], ts_serial = [], ts_identifier = n_uuid n,
             ts_derived = or_empty (n_derived n)\<rparr> (ListNodeMetadata (n_id n) d)
      in case n_captured n of
           None \<Rightarrow> ts
         | Some t \<Rightarrow> if ts_date ts = [] then ts\<lparr>ts_date := exif_time t, ts_offset := ''+00:00''\<rparr> else ts)"

section \<open>Statements\<close>

definition RefreshMediaNodeAfterInPlaceWrite :: "int \<Rightarrow> int \<Rightarrow> int \<Rightarrow> string option \<Rightarrow> db \<Rightarrow> db_error + db" where
  "RefreshMediaNodeAfterInPlaceWrite i sz mtime fast d = update_nodes (\<lambda>n. n_id n = i)
     (\<lambda>n. n\<lparr>n_size := sz, n_mtime := mtime, n_fast := fast, n_full := None,
            n_indexing := (if n_indexing n = INDEXED_FULL then INDEXED_SHALLOW else n_indexing n),
            n_last_seen := db_clock d, n_updated := db_clock d\<rparr>) d"

definition InvalidateThumbnail :: "int \<Rightarrow> db \<Rightarrow> db_error + db" where
  "InvalidateThumbnail i d = update_nodes (\<lambda>n. n_id n = i)
     (\<lambda>n. n\<lparr>n_thumb := THUMB_PENDING, n_attempts := 0, n_updated := db_clock d\<rparr>) d"

section \<open>Which files are project files\<close>

definition normalizeFilenameOrExt :: "string \<Rightarrow> string" where
  "normalizeFilenameOrExt filename =
     (let f = to_lower (trim_space filename)
      in if has_suffix f ''.dam.json'' then ''dam.json''
         else if has_suffix f ''.drp'' then ''drp''
         else if has_suffix f ''.fcpxml'' then ''fcpxml''
         else if has_suffix f ''.edl'' then ''edl''
         else if has_suffix f ''.prproj'' then ''prproj''
         else if has_suffix f ''.xmp'' then ''xmp''
         else case last_index f (CHR ''.'') of None \<Rightarrow> f | Some i \<Rightarrow> drop (Suc i) f)"

text \<open>The extensions the shipped parsers register.\<close>

definition project_registry :: "string list" where
  "project_registry = [''dam.json'', ''drp'', ''edl'', ''fcpxml'', ''prproj'', ''xmp'']"

definition has_parser :: "string \<Rightarrow> bool" where
  "has_parser path \<longleftrightarrow> normalizeFilenameOrExt path \<in> set project_registry"

section \<open>The operations\<close>

record tools =
  tl_exiftool :: bool
  tl_write :: "string \<Rightarrow> kv \<Rightarrow> fs \<Rightarrow> bool \<times> fs"
  tl_exif :: "string \<Rightarrow> fs \<Rightarrow> file_result option"
  tl_xx :: "string \<Rightarrow> 64 word"
  tl_wait :: "fs \<Rightarrow> fs"

datatype inherit_error =
    ErrAssetNotFound
  | ErrIsProjectFile
  | ErrNoParent
  | ErrIneligibleParent
  | ErrChildMissing
  | ErrChildTrashed
  | ErrChildFileNotFound
  | ErrChildFileUnreadable
  | ErrParentUnavailable lifecycle
  | ErrParentRow
  | ErrToolUnavailable
  | ErrTagNotAllowed string
  | ErrWriteFailed
  | ErrGuard guard_error
  | ErrPostWriteRefreshFailed

record inherit_plan =
  ip_child :: media_node
  ip_parent :: media_node
  ip_tags :: kv

definition loadInheritChild :: "guard option \<Rightarrow> int \<Rightarrow> fs \<Rightarrow> db \<Rightarrow> inherit_error + media_node" where
  "loadInheritChild g childID fs d =
     (case get_node childID d of
        None \<Rightarrow> Inl ErrAssetNotFound
      | Some child \<Rightarrow>
          if n_life child = ARCHIVED then Inl ErrAssetNotFound
          else if n_life child = MISSING then Inl ErrChildMissing
          else if n_life child = TRASHED then Inl ErrChildTrashed
          else if has_parser (n_path child) then Inl ErrIsProjectFile
          else case g of
            None \<Rightarrow> Inr child
          | Some g \<Rightarrow> (case CheckWrite g fs (n_path child) of Inl e \<Rightarrow> Inl (ErrGuard e) | Inr _ \<Rightarrow> Inr child))"

definition settled_tags :: "media_node \<Rightarrow> media_node \<Rightarrow> kv \<Rightarrow> kv" where
  "settled_tags child parent tags =
     (if n_derived child = Some (n_uuid parent) \<and> length tags \<le> 2 then [] else tags)"

definition planInheritFor :: "media_node \<Rightarrow> db \<Rightarrow> inherit_error + inherit_plan" where
  "planInheritFor child d =
     (let parents = ListEdgesByTarget (n_id child) d
      in case PickWinningParent parents of
        None \<Rightarrow> Inl (if HasResolvedButIneligibleParent parents then ErrIneligibleParent else ErrNoParent)
      | Some winning \<Rightarrow>
          case get_node (e_source winning) d of
            None \<Rightarrow> Inl ErrParentRow
          | Some parent \<Rightarrow>
              if n_life parent = ARCHIVED \<or> n_life parent = MISSING then Inl (ErrParentUnavailable (n_life parent))
              else let childTags = (LoadTagSet child d)\<lparr>ts_derived := n_uuid parent\<rparr>
                   in Inr \<lparr>ip_child = child, ip_parent = parent,
                           ip_tags = settled_tags child parent (plan_tags (LoadTagSet parent d) childTags)\<rparr>)"

definition checkTagWritePossible :: "tools \<Rightarrow> media_node \<Rightarrow> fs \<Rightarrow> inherit_error + unit" where
  "checkTagWritePossible tk child fs =
     (if \<not> tl_exiftool tk then Inl ErrToolUnavailable
      else case os_open (n_path child) fs of
        Inl NotExist \<Rightarrow> Inl ErrChildFileNotFound
      | Inl _ \<Rightarrow> Inl ErrChildFileUnreadable
      | Inr _ \<Rightarrow> Inr ())"

definition PlanInheritMetadata :: "tools \<Rightarrow> guard option \<Rightarrow> int \<Rightarrow> fs \<Rightarrow> db \<Rightarrow> inherit_error + inherit_plan" where
  "PlanInheritMetadata tk g childID fs d =
     rbind (loadInheritChild g childID fs d) (\<lambda>child.
     rbind (planInheritFor child d) (\<lambda>plan.
       if ip_tags plan \<noteq> [] then rbind (checkTagWritePossible tk child fs) (\<lambda>_. Inr plan) else Inr plan))"

text \<open>\<open>probe.WriteTags\<close>: every tag on the closed list, or nothing is run.\<close>

definition exiftoolWriteAllowlist :: "string list" where
  "exiftoolWriteAllowlist = [''EXIF:DateTimeOriginal'', ''EXIF:OffsetTimeOriginal'', ''Composite:GPSLatitude'',
     ''Composite:GPSLongitude'', ''EXIF:Make'', ''EXIF:Model'', ''EXIF:LensModel'', ''EXIF:SerialNumber'',
     ''XMP-dc:Identifier'', ''XMP-xmpMM:DerivedFrom'']"

definition exiftoolWriteArgs :: "kv \<Rightarrow> string \<Rightarrow> inherit_error + string list" where
  "exiftoolWriteArgs tags path =
     (let keys = sort (map fst tags)
      in case find (\<lambda>k. k \<notin> set exiftoolWriteAllowlist) keys of
           Some k \<Rightarrow> Inl (ErrTagNotAllowed k)
         | None \<Rightarrow> Inr ([''-overwrite_original''] @
             map (\<lambda>k. ''-'' @ k @ ''='' @ or_empty (map_of tags k)) keys @ [''--'', path]))"

definition WriteTags :: "tools \<Rightarrow> string \<Rightarrow> kv \<Rightarrow> fs \<Rightarrow> (inherit_error + unit) \<times> fs" where
  "WriteTags tk path tags fs =
     (if \<not> tl_exiftool tk then (Inl ErrToolUnavailable, fs)
      else case exiftoolWriteArgs tags path of
        Inl e \<Rightarrow> (Inl e, fs)
      | Inr _ \<Rightarrow> (case tl_write tk path tags fs of (ok, fs') \<Rightarrow> (if ok then Inr () else Inl ErrWriteFailed, fs')))"

text \<open>The re-open: three attempts with waits between them; the file system at the attempt that
  succeeded, or after the last.\<close>

definition open_child :: "guard option \<Rightarrow> string \<Rightarrow> fs \<Rightarrow> guard_error + (string list \<times> entry)" where
  "open_child g path fs = (case g of Some g \<Rightarrow> OpenRead g path fs | None \<Rightarrow> lift_os (os_open path fs))"

fun reopen :: "nat \<Rightarrow> tools \<Rightarrow> guard option \<Rightarrow> string \<Rightarrow> fs \<Rightarrow> (guard_error + entry) \<times> fs" where
  "reopen k tk g path fs =
     (case open_child g path fs of
        Inr (_, e) \<Rightarrow> (Inr e, fs)
      | Inl err \<Rightarrow> (case k of 0 \<Rightarrow> (Inl err, fs) | Suc k' \<Rightarrow> reopen k' tk g path (tl_wait tk fs)))"

definition refresh_row :: "media_node \<Rightarrow> int \<Rightarrow> int \<Rightarrow> string \<Rightarrow> db \<Rightarrow> db_error + db" where
  "refresh_row n sz mtime fast d =
     rbind (RefreshMediaNodeAfterInPlaceWrite (n_id n) sz mtime (Some fast) d) (InvalidateThumbnail (n_id n))"

definition RefreshNodeAfterInPlaceWrite ::
  "tools \<Rightarrow> guard option \<Rightarrow> media_node \<Rightarrow> fs \<Rightarrow> db \<Rightarrow> (unit + unit) \<times> fs \<times> db" where
  "RefreshNodeAfterInPlaceWrite tk g n fs d =
     (case reopen 2 tk g (n_path n) fs of
        (Inl _, fs') \<Rightarrow> (Inl (), fs', d)
      | (Inr e, fs') \<Rightarrow>
          (case e of
             Regular mtime bytes \<Rightarrow>
               (case FastHash (tl_xx tk) bytes (entry_size e) of
                  Inl _ \<Rightarrow> (Inl (), fs', d)
                | Inr fast \<Rightarrow> (case refresh_row n (entry_size e) mtime fast d of
                    Inl _ \<Rightarrow> (Inl (), fs', d) | Inr d' \<Rightarrow> (Inr (), fs', d')))
           | _ \<Rightarrow> (Inl (), fs', d)))"

definition fill_text :: "string option \<Rightarrow> string \<Rightarrow> string option" where
  "fill_text stored now = (if or_empty stored = [] \<and> now \<noteq> [] then Some now else stored)"

definition inherited_columns :: "media_node \<Rightarrow> media_node \<Rightarrow> file_result \<Rightarrow> promoted" where
  "inherited_columns child parent exif =
     \<lparr>pc_origdoc = n_origdoc child, pc_doc = n_doc child,
      pc_derived = (if n_uuid parent \<noteq> [] then Some (n_uuid parent) else n_derived child),
      pc_camera = fill_text (n_camera child) (r_camera exif), pc_serial = fill_text (n_serial child) (r_serial exif),
      pc_lens = fill_text (n_lens child) (r_lens exif),
      pc_captured = (case n_captured child of Some t \<Rightarrow> Some t | None \<Rightarrow> r_captured exif)\<rparr>"

definition backfill :: "tools \<Rightarrow> media_node \<Rightarrow> media_node \<Rightarrow> fs \<Rightarrow> db \<Rightarrow> db" where
  "backfill tk child parent fs d =
     (case tl_exif tk (n_path child) fs of
        None \<Rightarrow> d
      | Some exif \<Rightarrow>
          let d1 = PersistExifMetadata (n_id child) (Some exif) d
          in case UpdateMediaNodePromotedColumns (n_id child) (inherited_columns child parent exif) d1 of
               Inl _ \<Rightarrow> d1 | Inr d2 \<Rightarrow> d2)"

definition InheritMetadata :: "tools \<Rightarrow> guard option \<Rightarrow> int \<Rightarrow> fs \<times> db \<Rightarrow> (inherit_error + kv) \<times> fs \<times> db" where
  "InheritMetadata tk g childID s =
     (case s of (fs, d) \<Rightarrow>
        case rbind (loadInheritChild g childID fs d) (\<lambda>child. planInheritFor child d) of
          Inl e \<Rightarrow> (Inl e, fs, d)
        | Inr plan \<Rightarrow>
            if ip_tags plan = [] then (Inr [], fs, d)
            else case checkTagWritePossible tk (ip_child plan) fs of
              Inl e \<Rightarrow> (Inl e, fs, d)
            | Inr _ \<Rightarrow>
                (case WriteTags tk (n_path (ip_child plan)) (ip_tags plan) fs of
                   (Inl e, fs1) \<Rightarrow> (Inl e, fs1, d)
                 | (Inr _, fs1) \<Rightarrow>
                     (case RefreshNodeAfterInPlaceWrite tk g (ip_child plan) fs1 d of
                        (Inl _, fs2, d2) \<Rightarrow> (Inl ErrPostWriteRefreshFailed, fs2, d2)
                      | (Inr _, fs2, d2) \<Rightarrow>
                          (Inr (ip_tags plan), fs2, backfill tk (ip_child plan) (ip_parent plan) fs2 d2))))"

text \<open>\<open>httpapi.autoInherit\<close>: after an edge is confirmed; a failed refresh is tried once more on the row as it is now.\<close>

definition autoInherit :: "bool \<Rightarrow> tools \<Rightarrow> guard option \<Rightarrow> int \<Rightarrow> fs \<times> db \<Rightarrow> fs \<times> db" where
  "autoInherit enabled tk g childID s =
     (if \<not> enabled then s
      else case InheritMetadata tk g childID s of
        (Inl ErrPostWriteRefreshFailed, fs, d) \<Rightarrow>
          (case get_node childID d of None \<Rightarrow> (fs, d) | Some n \<Rightarrow> snd (RefreshNodeAfterInPlaceWrite tk g n fs d))
      | (_, s') \<Rightarrow> s')"

end
