(* ===== verification/InheritProps.thy ===== *)
theory InheritProps
  imports Inherit CommitProps Drainer
begin

text \<open>
  What metadata inheritance guarantees: which parent wins, which tags may be written, that the preview
  is what the write does, and that the write leaves a row the next scan recognises.
\<close>

declare reopen.simps [simp del]

section \<open>The winning parent\<close>

lemma better_total: "e_id a \<noteq> e_id b \<Longrightarrow> isBetterParent a b \<or> isBetterParent b a"
  by (auto simp: isBetterParent_def)

lemma better_antisym: "isBetterParent a b \<Longrightarrow> \<not> isBetterParent b a"
  by (auto simp: isBetterParent_def split: if_splits)

lemma better_trans: "isBetterParent a b \<Longrightarrow> isBetterParent b c \<Longrightarrow> isBetterParent a c"
  by (auto simp: isBetterParent_def split: if_splits)

lemma pick_snoc: "PickWinningParent (es @ [e]) = pick_step (PickWinningParent es) e"
  by (simp add: PickWinningParent_def)

lemma pick_none: "PickWinningParent es = None \<longleftrightarrow> (\<forall>e \<in> set es. \<not> eligible_parent e)"
proof (induction es rule: rev_induct)
  case Nil
  then show ?case by (simp add: PickWinningParent_def)
next
  case (snoc e es)
  then show ?case by (auto simp: pick_snoc pick_step_def split: option.splits if_splits)
qed

lemma pick_some:
  assumes "PickWinningParent es = Some w" and "distinct (map e_id es)"
  shows "w \<in> set es \<and> eligible_parent w \<and> (\<forall>e \<in> set es. eligible_parent e \<longrightarrow> e = w \<or> isBetterParent w e)"
  using assms
proof (induction es arbitrary: w rule: rev_induct)
  case Nil
  then show ?case by (simp add: PickWinningParent_def)
next
  case (snoc e es)
  show ?case
  proof (cases "PickWinningParent es")
    case None
    then have "\<forall>x \<in> set es. \<not> eligible_parent x" by (simp add: pick_none)
    moreover have "eligible_parent e \<and> w = e" using snoc.prems(1) by (simp add: pick_snoc pick_step_def None split: if_splits)
    ultimately show ?thesis by auto
  next
    case (Some b)
    have b: "b \<in> set es" "eligible_parent b" "\<forall>x \<in> set es. eligible_parent x \<longrightarrow> x = b \<or> isBetterParent b x"
      using snoc.IH [OF Some] snoc.prems(2) by auto
    then have "e_id e \<noteq> e_id b" using snoc.prems(2) by auto
    then have "isBetterParent e b \<or> isBetterParent b e" by (rule better_total)
    with b Some snoc.prems(1) show ?thesis
      by (auto simp: pick_snoc pick_step_def split: if_splits intro: better_trans)
  qed
qed

text \<open>The parent a file inherits from is determined by its edges, not by their order: it is the
  one accepted or confirmed ancestry edge below tier 3 that beats every other one, by confidence,
  then a human's edge over a resolver's, then the newest of the human's or the oldest of the
  resolvers'. Weaker edges, pending suggestions and tier-3 guesses beside it change nothing.\<close>

theorem winning_parent_unique:
  assumes "distinct (map e_id es)"
  shows "PickWinningParent es = Some w \<longleftrightarrow> w \<in> set es \<and> eligible_parent w \<and>
    (\<forall>e \<in> set es. eligible_parent e \<longrightarrow> e = w \<or> isBetterParent w e)"
proof
  assume "PickWinningParent es = Some w"
  then show "w \<in> set es \<and> eligible_parent w \<and> (\<forall>e \<in> set es. eligible_parent e \<longrightarrow> e = w \<or> isBetterParent w e)"
    using assms by (rule pick_some)
next
  assume w: "w \<in> set es \<and> eligible_parent w \<and> (\<forall>e \<in> set es. eligible_parent e \<longrightarrow> e = w \<or> isBetterParent w e)"
  then obtain v where v: "PickWinningParent es = Some v" using pick_none by (metis option.exhaust)
  with pick_some [OF v assms] w better_antisym have "v = w" by blast
  with v show "PickWinningParent es = Some w" by simp
qed

section \<open>The planned tags\<close>

text \<open>The text of a tag a node has; empty when it has none.\<close>

definition tag_value :: "tag_set \<Rightarrow> string \<Rightarrow> string" where
  "tag_value t k =
     (if k = ''EXIF:DateTimeOriginal'' then ts_date t
      else if k = ''EXIF:OffsetTimeOriginal'' then ts_offset t
      else if k = ''EXIF:Make'' then ts_make t
      else if k = ''EXIF:Model'' then ts_model t
      else if k = ''EXIF:LensModel'' then ts_lens t
      else if k = ''EXIF:SerialNumber'' then ts_serial t
      else if k = ''Composite:GPSLatitude'' then (case ts_lat t of None \<Rightarrow> [] | Some x \<Rightarrow> format_float x)
      else if k = ''Composite:GPSLongitude'' then (case ts_lon t of None \<Rightarrow> [] | Some x \<Rightarrow> format_float x)
      else if k = ''XMP-dc:Identifier'' then ts_identifier t
      else if k = ''XMP-xmpMM:DerivedFrom'' then ts_derived t
      else [])"

lemma inherit_tag_Some:
  "map_of (inherit_tag tag p c tags) k = Some v \<Longrightarrow> map_of tags k = Some v \<or> k = tag \<and> v = p \<and> p \<noteq> [] \<and> c = []"
  by (simp add: inherit_tag_def split: if_splits)

lemma plan_dates_Some:
  "map_of (plan_dates p c tags) k = Some v \<Longrightarrow> map_of tags k = Some v \<or> ts_date p \<noteq> [] \<and> ts_date c = [] \<and>
     (k = ''EXIF:DateTimeOriginal'' \<and> v = ts_date p \<or>
      k = ''EXIF:OffsetTimeOriginal'' \<and> v = ts_offset p \<and> ts_offset p \<noteq> [] \<and> ts_offset c = [])"
  unfolding plan_dates_def
  by (auto dest!: inherit_tag_Some simp del: list.inject char.inject split: if_splits)

lemma plan_gps_Some:
  "map_of (plan_gps p c tags) k = Some v \<Longrightarrow> map_of tags k = Some v \<or>
     (\<exists>x y. ts_lat p = Some x \<and> ts_lon p = Some y \<and> ts_lat c = None \<and> ts_lon c = None \<and>
        (k = ''Composite:GPSLatitude'' \<and> v = format_float x \<or> k = ''Composite:GPSLongitude'' \<and> v = format_float y))"
  unfolding plan_gps_def
  by (simp split: option.splits if_splits del: list.inject char.inject)

lemma plan_identity_Some:
  "map_of (plan_identity c tags) k = Some v \<Longrightarrow> map_of tags k = Some v \<or>
     k = ''XMP-dc:Identifier'' \<and> v = ts_identifier c \<or> k = ''XMP-xmpMM:DerivedFrom'' \<and> v = ts_derived c"
  unfolding plan_identity_def Let_def
  by (simp split: if_splits del: list.inject char.inject)

lemma planned_cases:
  assumes "map_of (plan_tags p c) k = Some v"
  obtains (date) "k = ''EXIF:DateTimeOriginal''" "v = ts_date p" "ts_date c = []"
    | (offset) "k = ''EXIF:OffsetTimeOriginal''" "v = ts_offset p" "ts_offset c = []" "ts_date c = []" "ts_date p \<noteq> []"
    | (make) "k = ''EXIF:Make''" "v = ts_make p" "ts_make c = []"
    | (model) "k = ''EXIF:Model''" "v = ts_model p" "ts_model c = []"
    | (lens) "k = ''EXIF:LensModel''" "v = ts_lens p" "ts_lens c = []"
    | (serial) "k = ''EXIF:SerialNumber''" "v = ts_serial p" "ts_serial c = []"
    | (lat) x y where "k = ''Composite:GPSLatitude''" "v = format_float x" "ts_lat p = Some x" "ts_lon p = Some y"
        "ts_lat c = None" "ts_lon c = None"
    | (lon) x y where "k = ''Composite:GPSLongitude''" "v = format_float y" "ts_lat p = Some x" "ts_lon p = Some y"
        "ts_lat c = None" "ts_lon c = None"
    | (identity) "k = ''XMP-dc:Identifier''" "v = ts_identifier c"
    | (derived) "k = ''XMP-xmpMM:DerivedFrom''" "v = ts_derived c"
proof -
  let ?t1 = "plan_dates p c []"
  let ?t2 = "inherit_tag ''EXIF:Make'' (ts_make p) (ts_make c) ?t1"
  let ?t3 = "inherit_tag ''EXIF:Model'' (ts_model p) (ts_model c) ?t2"
  let ?t4 = "inherit_tag ''EXIF:LensModel'' (ts_lens p) (ts_lens c) ?t3"
  let ?t5 = "inherit_tag ''EXIF:SerialNumber'' (ts_serial p) (ts_serial c) ?t4"
  have start: "map_of (plan_identity c (plan_gps p c ?t5)) k = Some v" using assms by (simp only: plan_tags_def)
  note id = plan_identity_Some [OF start]
  show thesis
  proof (cases "map_of (plan_gps p c ?t5) k = Some v")
    case False
    with id identity derived show ?thesis by meson
  next
    case True
    note gps = plan_gps_Some [OF this]
    show ?thesis
    proof (cases "map_of ?t5 k = Some v")
      case False
      with gps obtain x y where g: "ts_lat p = Some x" "ts_lon p = Some y" "ts_lat c = None" "ts_lon c = None"
        and keys: "k = ''Composite:GPSLatitude'' \<and> v = format_float x \<or> k = ''Composite:GPSLongitude'' \<and> v = format_float y"
        by blast
      from keys show ?thesis
      proof (elim disjE conjE)
        assume "k = ''Composite:GPSLatitude''" "v = format_float x"
        then show ?thesis by (rule lat [OF _ _ g])
      next
        assume "k = ''Composite:GPSLongitude''" "v = format_float y"
        then show ?thesis by (rule lon [OF _ _ g])
      qed
    next
      case True
      note five = inherit_tag_Some [OF this]
      show ?thesis
      proof (cases "map_of ?t2 k = Some v")
        case True
        have "map_of ?t1 k = Some v \<or> k = ''EXIF:Make'' \<and> v = ts_make p \<and> ts_make p \<noteq> [] \<and> ts_make c = []"
          by (rule inherit_tag_Some [OF True])
        then show ?thesis
        proof
          assume "map_of ?t1 k = Some v"
          from plan_dates_Some [OF this] show ?thesis using date offset by (simp only: map_of.simps option.distinct) meson
        next
          assume "k = ''EXIF:Make'' \<and> v = ts_make p \<and> ts_make p \<noteq> [] \<and> ts_make c = []"
          then show ?thesis using make by meson
        qed
      next
        case False
        with five inherit_tag_Some [of "''EXIF:Model''" "ts_model p" "ts_model c" ?t2 k v]
          inherit_tag_Some [of "''EXIF:LensModel''" "ts_lens p" "ts_lens c" ?t3 k v] model lens serial
        show ?thesis by meson
      qed
    qed
  qed
qed

lemma map_of_inherit_tag:
  "map_of (inherit_tag t pv cv tags) k = (if k = t \<and> pv \<noteq> [] \<and> cv = [] then Some pv else map_of tags k)"
  by (simp add: inherit_tag_def)

lemma map_of_plan_identity:
  "k \<noteq> ''XMP-dc:Identifier'' \<Longrightarrow> k \<noteq> ''XMP-xmpMM:DerivedFrom'' \<Longrightarrow> map_of (plan_identity c tags) k = map_of tags k"
  by (simp add: plan_identity_def Let_def del: list.inject char.inject)

lemma map_of_plan_gps:
  "k \<noteq> ''Composite:GPSLatitude'' \<Longrightarrow> k \<noteq> ''Composite:GPSLongitude'' \<Longrightarrow> map_of (plan_gps p c tags) k = map_of tags k"
  by (simp add: plan_gps_def split: option.split del: list.inject char.inject)

text \<open>A position is planned as a whole, and a time zone only beside the capture time it belongs to.\<close>

lemma gps_planned_whole:
  assumes "ts_lat p = Some x" "ts_lon p = Some y" "ts_lat c = None" "ts_lon c = None"
  shows "map_of (plan_tags p c) ''Composite:GPSLatitude'' = Some (format_float x)"
    "map_of (plan_tags p c) ''Composite:GPSLongitude'' = Some (format_float y)"
  by (simp_all add: plan_tags_def map_of_plan_identity plan_gps_def assms)

lemma date_planned:
  assumes "ts_date p \<noteq> []" "ts_date c = []"
  shows "map_of (plan_tags p c) ''EXIF:DateTimeOriginal'' = Some (ts_date p)"
  by (simp add: plan_tags_def map_of_plan_identity map_of_plan_gps map_of_inherit_tag plan_dates_def assms)

text \<open>C19. Inheriting never overwrites what a file says of itself. Every planned tag is on the closed list
  exiftool may write. The two tags that name the file and its parent (\<open>XMP-dc:Identifier\<close> and
  \<open>XMP-xmpMM:DerivedFrom\<close>) carry those identities, whatever the file held in them; every other planned
  tag is one the child has no value for, and gets the parent's value. A coordinate is planned only
  when both are, for a child that has neither, and a time zone only beside the parent's capture time,
  for a child without a capture time of its own.\<close>

theorem plan_never_overwrites:
  assumes "map_of (plan_tags p c) k = Some v"
  shows "k \<in> set exiftoolWriteAllowlist \<and>
    (k = ''XMP-dc:Identifier'' \<and> v = ts_identifier c \<or> k = ''XMP-xmpMM:DerivedFrom'' \<and> v = ts_derived c \<or>
     tag_value c k = [] \<and> v = tag_value p k) \<and>
    (k = ''EXIF:OffsetTimeOriginal'' \<longrightarrow>
       ts_date c = [] \<and> map_of (plan_tags p c) ''EXIF:DateTimeOriginal'' = Some (ts_date p)) \<and>
    (k = ''Composite:GPSLatitude'' \<or> k = ''Composite:GPSLongitude'' \<longrightarrow>
       ts_lat c = None \<and> ts_lon c = None \<and>
       (\<exists>x y. ts_lat p = Some x \<and> map_of (plan_tags p c) ''Composite:GPSLatitude'' = Some (format_float x) \<and>
          ts_lon p = Some y \<and> map_of (plan_tags p c) ''Composite:GPSLongitude'' = Some (format_float y)))"
  using assms
  by (cases rule: planned_cases) (simp_all add: exiftoolWriteAllowlist_def tag_value_def gps_planned_whole date_planned)

lemma plan_allowed: "\<exists>args. exiftoolWriteArgs (plan_tags p c) path = Inr args"
proof -
  have "k \<in> set exiftoolWriteAllowlist" if "k \<in> fst ` set (plan_tags p c)" for k
  proof -
    from that obtain v where "map_of (plan_tags p c) k = Some v" by (metis map_of_eq_None_iff option.exhaust)
    then show ?thesis by (cases rule: planned_cases) (simp_all add: exiftoolWriteAllowlist_def)
  qed
  then have "find (\<lambda>k. k \<notin> set exiftoolWriteAllowlist) (sort (map fst (plan_tags p c))) = None"
    by (auto simp: find_None_iff)
  then show ?thesis by (simp add: exiftoolWriteArgs_def Let_def)
qed

section \<open>The preview\<close>

lemma settled_allowed:
  assumes "planInheritFor child d = Inr plan"
  shows "\<exists>args. exiftoolWriteArgs (ip_tags plan) path = Inr args"
proof -
  obtain parent where "ip_tags plan = settled_tags child parent
      (plan_tags (LoadTagSet parent d) ((LoadTagSet child d)\<lparr>ts_derived := n_uuid parent\<rparr>))"
    using assms by (auto simp: planInheritFor_def Let_def split: option.splits if_splits)
  then have "ip_tags plan = [] \<or> (\<exists>p c. ip_tags plan = plan_tags p c)" by (auto simp: settled_tags_def)
  moreover have "\<exists>args. exiftoolWriteArgs [] path = Inr args" by (simp add: exiftoolWriteArgs_def)
  ultimately show ?thesis using plan_allowed by auto
qed

lemma plan_child: "planInheritFor child d = Inr plan \<Longrightarrow> ip_child plan = child"
  by (auto simp: planInheritFor_def Let_def split: option.splits if_splits)

text \<open>The preview is what the write does. Where the preview refuses, the write refuses with the same
  error and changes nothing; where the preview plans nothing, the write writes nothing; and where it
  plans tags, the write hands exactly those tags to exiftool, so that it either reports them as
  written or fails in exiftool or in the refresh after it: never for a tag off the list, and never
  for a check the preview had passed.\<close>

theorem preview_is_what_is_written:
  "case PlanInheritMetadata tk g i fs d of
     Inl e \<Rightarrow> InheritMetadata tk g i (fs, d) = (Inl e, fs, d)
   | Inr plan \<Rightarrow>
       if ip_tags plan = [] then InheritMetadata tk g i (fs, d) = (Inr [], fs, d)
       else (case tl_write tk (n_path (ip_child plan)) (ip_tags plan) fs of (ok, fs1) \<Rightarrow>
         if ok then fst (InheritMetadata tk g i (fs, d)) \<in> {Inr (ip_tags plan), Inl ErrPostWriteRefreshFailed}
         else InheritMetadata tk g i (fs, d) = (Inl ErrWriteFailed, fs1, d))"
proof (cases "rbind (loadInheritChild g i fs d) (\<lambda>child. planInheritFor child d)")
  case (Inl e)
  then have "PlanInheritMetadata tk g i fs d = Inl e"
    by (auto simp: PlanInheritMetadata_def result_simps)
  with Inl show ?thesis by (simp add: InheritMetadata_def)
next
  case (Inr plan)
  then obtain child where child: "loadInheritChild g i fs d = Inr child" "planInheritFor child d = Inr plan"
    by (auto simp: result_simps)
  note plan_child [OF this(2), simp]
  obtain args where args: "exiftoolWriteArgs (ip_tags plan) (n_path child) = Inr args"
    using settled_allowed [OF child(2)] by blast
  show ?thesis
  proof (cases "ip_tags plan = []")
    case True
    with Inr child show ?thesis by (simp add: PlanInheritMetadata_def InheritMetadata_def)
  next
    case False
    show ?thesis
    proof (cases "checkTagWritePossible tk child fs")
      case (Inl e)
      with False Inr child show ?thesis by (simp add: PlanInheritMetadata_def InheritMetadata_def)
    next
      case (Inr u)
      then have tool: "tl_exiftool tk" by (auto simp: checkTagWritePossible_def split: if_splits)
      have pre: "PlanInheritMetadata tk g i fs d = Inr plan"
        using False Inr child by (simp add: PlanInheritMetadata_def)
      obtain ok fs1 where wr: "tl_write tk (n_path child) (ip_tags plan) fs = (ok, fs1)" by fastforce
      have "WriteTags tk (n_path child) (ip_tags plan) fs = (if ok then Inr () else Inl ErrWriteFailed, fs1)"
        using tool args wr by (simp add: WriteTags_def)
      then show ?thesis
        using False Inr child wr by (auto simp: pre InheritMetadata_def split: sum.splits prod.splits)
    qed
  qed
qed

section \<open>The row after the write\<close>

lemma update_row:
  assumes "update_nodes (\<lambda>n. n_id n = i) F d = Inr d'" and "n \<in> set (db_nodes d)" and "n_id n = i"
  shows "F n \<in> set (db_nodes d') \<and> node_violation d' = None"
  using assms by (auto simp: update_nodes_Inr)

text \<open>The row of the child after the refresh and the backfill, up to the columns the scan does not look at.\<close>

definition rewritten :: "media_node \<Rightarrow> string \<Rightarrow> media_node \<Rightarrow> bool" where
  "rewritten n fast m \<longleftrightarrow> n_id m = n_id n \<and> n_uuid m = n_uuid n \<and> n_path m = n_path n \<and> n_life m = n_life n \<and>
     n_fast m = Some fast \<and> n_full m = None"

lemma refresh_rewritten:
  assumes "refresh_row n sz mt fast d = Inr d'" and "n \<in> set (db_nodes d)"
  shows "\<exists>m \<in> set (db_nodes d'). rewritten n fast m \<and> node_violation d' = None"
proof -
  obtain d1 where d1: "RefreshMediaNodeAfterInPlaceWrite (n_id n) sz mt (Some fast) d = Inr d1"
    and d2: "InvalidateThumbnail (n_id n) d1 = Inr d'"
    using assms(1) by (auto simp: refresh_row_def result_simps)
  from update_row [OF d1 [unfolded RefreshMediaNodeAfterInPlaceWrite_def] assms(2) refl]
  obtain m where m: "m \<in> set (db_nodes d1)" "rewritten n fast m" by (auto simp: rewritten_def)
  then have "n_id m = n_id n" by (simp add: rewritten_def)
  note row = update_row [OF d2 [unfolded InvalidateThumbnail_def] m(1) this]
  show ?thesis by (rule bexI [OF _ conjunct1 [OF row]]) (use m(2) row in \<open>simp add: rewritten_def\<close>)
qed

lemma backfill_rewritten:
  assumes "m \<in> set (db_nodes d)" and "rewritten n fast m" and "node_violation d = None"
  shows "\<exists>m \<in> set (db_nodes (backfill tk n parent fs d)). rewritten n fast m \<and>
    node_violation (backfill tk n parent fs d) = None"
proof (cases "tl_exif tk (n_path n) fs")
  case None
  with assms show ?thesis by (auto simp: backfill_def)
next
  case (Some exif)
  let ?d1 = "PersistExifMetadata (n_id n) (Some exif) d"
  have meta: "meta_only d ?d1" by (simp add: PersistExifMetadata_def persist_meta_only)
  then have same: "db_nodes ?d1 = db_nodes d" "node_violation ?d1 = None"
    using assms(3) node_violation_cong [of ?d1 d] by (auto simp: meta_only_def)
  show ?thesis
  proof (cases "UpdateMediaNodePromotedColumns (n_id n) (inherited_columns n parent exif) ?d1")
    case (Inl e)
    then have "backfill tk n parent fs d = ?d1" using Some by (simp add: backfill_def Let_def)
    with assms same show ?thesis by auto
  next
    case (Inr d2)
    then have "backfill tk n parent fs d = d2" using Some by (simp add: backfill_def Let_def)
    moreover have m: "m \<in> set (db_nodes ?d1)" "n_id m = n_id n" using assms same by (auto simp: rewritten_def)
    moreover note row = update_row [OF Inr [unfolded UpdateMediaNodePromotedColumns_def] m]
    ultimately show ?thesis
      by (simp only:) (rule bexI [OF _ conjunct1 [OF row]], use assms(2) row in \<open>simp add: rewritten_def\<close>)
  qed
qed

lemma live_row_found:
  assumes "node_violation d = None" and "m \<in> set (db_nodes d)" and "\<not> retired m"
  shows "GetLiveNodeByPath (n_path m) d = Some m"
proof (cases "GetLiveNodeByPath (n_path m) d")
  case None
  with assms(2,3) GetLiveNodeByPath_None show ?thesis by blast
next
  case (Some k)
  then have k: "k \<in> set (db_nodes d)" "n_path k = n_path m" "\<not> retired k" by (simp_all add: GetLiveNodeByPath_Some)
  have "unique_on (\<lambda>n. \<not> retired n) n_path (db_nodes d)" using assms(1) by (simp add: node_violation_None)
  then have "n_id k = n_id m" using k assms(2,3) by (auto elim: unique_onD)
  with node_same_id [OF assms(1) k(1) assms(2)] Some show ?thesis by simp
qed

lemma reopen_open: "fst (reopen k tk g path fs) = Inr e \<Longrightarrow> \<exists>q. open_child g path (snd (reopen k tk g path fs)) = Inr (q, e)"
proof (induction k arbitrary: fs)
  case 0
  then show ?case by (auto simp: reopen.simps [of 0] split: sum.splits)
next
  case (Suc k)
  then show ?case by (auto simp: reopen.simps [of "Suc k"] split: sum.splits)
qed

lemma inherit_written:
  assumes "InheritMetadata tk g i (fs, d) = (Inr tags, fs', d')" and "tags \<noteq> []"
  obtains child plan fs1 d2 where "loadInheritChild g i fs d = Inr child" "planInheritFor child d = Inr plan"
    "RefreshNodeAfterInPlaceWrite tk g child fs1 d = (Inr (), fs', d2)" "d' = backfill tk child (ip_parent plan) fs' d2"
proof (cases "rbind (loadInheritChild g i fs d) (\<lambda>child. planInheritFor child d)")
  case (Inl e)
  with assms show ?thesis by (simp add: InheritMetadata_def)
next
  case (Inr plan)
  then obtain child where child: "loadInheritChild g i fs d = Inr child" "planInheritFor child d = Inr plan"
    by (auto simp: result_simps)
  note plan_child [OF this(2), simp]
  obtain fs1 d2 where "RefreshNodeAfterInPlaceWrite tk g child fs1 d = (Inr (), fs', d2)"
    "d' = backfill tk child (ip_parent plan) fs' d2"
    using assms Inr unfolding InheritMetadata_def by (auto split: sum.splits prod.splits if_splits)
  with child that show ?thesis by blast
qed

text \<open>C18. A write into a file makes no new version of it. After a successful inheritance that wrote tags,
  the row of the file is still the live row at its path, with the same identity; it carries the fast hash
  of the bytes now on disk, no longer vouches for a full hash, and the next scan that finds these
  bytes refreshes that row instead of archiving it and minting a new one.\<close>

theorem inherited_file_keeps_identity:
  assumes "InheritMetadata tk g i (fs, d) = (Inr tags, fs', d')" and "tags \<noteq> []" and "get_node i d = Some n"
  shows "\<exists>q mtime bytes fast m. open_child g (n_path n) fs' = Inr (q, Regular mtime bytes) \<and>
    FastHash (tl_xx tk) bytes (int (length bytes)) = Inr fast \<and>
    GetLiveNodeByPath (n_path n) d' = Some m \<and> n_id m = i \<and> n_uuid m = n_uuid n \<and> n_full m = None \<and>
    (\<forall>mint loc user r st. r_path r = n_path n \<longrightarrow> r_fast r = fast \<longrightarrow>
       commitOne mint loc user r (st, d') = commitTouched m r (st, d'))"
proof -
  obtain child plan fs1 d2 where load: "loadInheritChild g i fs d = Inr child" and "planInheritFor child d = Inr plan"
    and refresh0: "RefreshNodeAfterInPlaceWrite tk g child fs1 d = (Inr (), fs', d2)"
    and d0: "d' = backfill tk child (ip_parent plan) fs' d2"
    using inherit_written [OF assms(1,2)] .
  have child: "child = n" "n_life n = ACTIVE \<or> n_life n = HIDDEN"
    using load assms(3) by (cases "n_life n"; auto simp: loadInheritChild_def split: option.splits if_splits sum.splits)+
  note refresh = refresh0 [unfolded child(1)] and d' = d0 [unfolded child(1)]
  have n: "n \<in> set (db_nodes d)" "n_id n = i" using assms(3) by (auto simp: get_node_def dest: find_SomeD)
  obtain mtime bytes fast where
    e: "fst (reopen 2 tk g (n_path n) fs1) = Inr (Regular mtime bytes)" "snd (reopen 2 tk g (n_path n) fs1) = fs'"
    and fast: "FastHash (tl_xx tk) bytes (int (length bytes)) = Inr fast"
    and row: "refresh_row n (int (length bytes)) mtime fast d = Inr d2"
    using refresh by (auto simp: RefreshNodeAfterInPlaceWrite_def split: prod.splits sum.splits entry.splits)
  obtain q where opened: "open_child g (n_path n) fs' = Inr (q, Regular mtime bytes)"
    using reopen_open [OF e(1)] e(2) by auto
  obtain m where m: "m \<in> set (db_nodes d')" "rewritten n fast m" "node_violation d' = None"
    using refresh_rewritten [OF row n(1)] backfill_rewritten d' by blast
  have "GetLiveNodeByPath (n_path m) d' = Some m"
    by (rule live_row_found [OF m(3,1)]) (use m(2) child(2) in \<open>auto simp: rewritten_def retired_def\<close>)
  then have live: "GetLiveNodeByPath (n_path n) d' = Some m" using m(2) by (simp add: rewritten_def)
  have "commitOne mint loc user r (st, d') = commitTouched m r (st, d')" if "r_path r = n_path n" "r_fast r = fast"
    for mint loc user r st
    using that live m(2) by (simp add: commitOne_def fullHashContradicts_def rewritten_def)
  with opened fast live m(2) n(2) show ?thesis unfolding rewritten_def by blast
qed

section \<open>The hash of the bytes that were replaced\<close>

text \<open>C20. A rewritten file can be vouched for with the hash of its old bytes. The refresh clears the full
  hash but leaves the server's provenance row for the old value, which from then on vouches for nothing.
  A device that later reports the old hash for the file is believed, because no hash is stored; its
  own provenance is merged into the server's row, and the file counts as verified again, with
  the old hash and without any byte having been read.\<close>

theorem stale_vouch_revived:
  assumes "n \<in> set (db_nodes d)" and "n_full n = Some h" and "ValidFullHash h" and "vouched d n"
    and "refresh_row n sz mt fast d = Inr d1" and "rb_full p = Some h"
    and "UpdateMediaNodeFullHash (n_id n) (rb_full p) d1 = Inr d2"
  shows "\<exists>m \<in> set (db_nodes d1). n_id m = n_id n \<and> n_fast m = Some fast \<and> \<not> vouched d1 m \<and>
    hash_decision m p = Inr True \<and>
    (\<exists>k \<in> set (db_nodes d2). n_id k = n_id n \<and> n_fast k = Some fast \<and>
       vouched (RecordFullHashSource (n_id n) (rb_full p) AGENT d2) k)"
proof -
  obtain m where m: "m \<in> set (db_nodes d1)" "rewritten n fast m"
    using refresh_rewritten [OF assms(5,1)] by blast
  then have m': "n_id m = n_id n" "n_fast m = Some fast" "n_full m = None" by (simp_all add: rewritten_def)
  then have before: "\<not> vouched d1 m" by (simp add: vouched_iff)
  have h: "length h = 64" using assms(2,4) by (auto simp: vouched_iff)
  then have decided: "hash_decision m p = Inr True"
    using m'(3) assms(3,6) by (cases h) (auto simp: hash_decision_def FullHashUpdate_def nonempty_def)
  let ?k = "m\<lparr>n_full := Some h, n_indexing := INDEXED_FULL, n_updated := db_clock d1\<rparr>"
  have k: "?k \<in> set (db_nodes d2)"
    using update_row [OF assms(7) [unfolded UpdateMediaNodeFullHash_def] m(1) m'(1)] assms(6) by simp
  have "db_provs d1 = db_provs d" "db_provs d2 = db_provs d1"
    using assms(5,7) by (auto simp: refresh_row_def RefreshMediaNodeAfterInPlaceWrite_def InvalidateThumbnail_def
        UpdateMediaNodeFullHash_def update_nodes_Inr result_simps)
  then have "vouched d2 ?k" using assms(2,4) m'(1) by (auto simp: vouched_iff)
  then have "vouched (RecordFullHashProvenance (n_id n) h AGENT d2) ?k"
    by (rule RecordFullHashProvenance_keeps) (simp add: m'(1))
  then have "vouched (RecordFullHashSource (n_id n) (rb_full p) AGENT d2) ?k"
    using h assms(6) by (simp add: RecordFullHashSource_def)
  with m m' before decided k show ?thesis
    by (intro bexI [OF _ m(1)] conjI bexI [OF _ k]) simp_all
qed

section \<open>Concrete instances\<close>

definition parent_edge :: "int \<Rightarrow> string \<Rightarrow> review_state \<Rightarrow> media_edge" where
  "parent_edge i r st = (sample_edge i 1 2 r st)\<lparr>e_resolver := ''xmp''\<rparr>"

text \<open>An original whose export inherits from it, and the same archive after the server hashed the export.\<close>

definition inherit_db :: db where
  "inherit_db = studio\<lparr>db_edges := [parent_edge 1 ''DERIVED_FROM'' AUTO_ACCEPTED]\<rparr>"

definition old_hash :: string where "old_hash = replicate 64 (CHR ''b'')"

definition hashed_export :: media_node where "hashed_export = export\<lparr>n_full := Some old_hash\<rparr>"

definition hashed_db :: db where
  "hashed_db = inherit_db\<lparr>db_nodes := [original, hashed_export], db_edges := [], db_provs := [new_prov 2 old_hash SERVER 5]\<rparr>"

definition rebased_again :: path_rebased where
  "rebased_again = \<lparr>rb_uuid = ''u2'', rb_path = ''/exports/b.jpg'', rb_name = [], rb_mtime = 0,
     rb_fast = None, rb_full = Some old_hash, rb_size = 100\<rparr>"

definition export_fs :: fs where
  "export_fs = \<lparr>fs_tree = [([''exports''], Directory 0 0), ([''exports'', ''b.jpg''], Regular 7 ''old'')], fs_now = 9\<rparr>"

definition sample_tools :: tools where
  "sample_tools = \<lparr>tl_exiftool = True,
     tl_write = (\<lambda>path tags fs. (True, put [''exports'', ''b.jpg''] (Regular 8 ''new'') fs)),
     tl_exif = (\<lambda>_ _. None), tl_xx = (\<lambda>_. 3), tl_wait = id\<rparr>"

definition exports_guard :: guard where
  "exports_guard = [\<lparr>gl_id = 2, gl_name = ''exports'', gl_root = ''/exports'', gl_tier = TIER2_EXPORTS,
     gl_readonly = False, gl_virtual = False\<rparr>]"

theorem winning_parent_unique_witness:
  "PickWinningParent [parent_edge 1 ''DUPLICATE_OF'' CONFIRMED, parent_edge 3 ''PROXY_OF'' AUTO_ACCEPTED,
     parent_edge 2 ''DERIVED_FROM'' CONFIRMED] = Some (parent_edge 2 ''DERIVED_FROM'' CONFIRMED)"
  by (subst winning_parent_unique)
    (simp_all add: parent_edge_def sample_edge_def eligible_parent_def resolved_edge_def ValidParentRelationships_def
      isBetterParent_def manual_def)

theorem plan_never_overwrites_witness:
  "\<exists>p c. map_of (plan_tags p c) ''EXIF:Make'' = Some ''Sony'' \<and> ts_make c = [] \<and> ts_make p = ''Sony''"
proof -
  let ?p = "(LoadTagSet original inherit_db)\<lparr>ts_make := ''Sony''\<rparr>" and ?c = "LoadTagSet export inherit_db"
  have planned: "map_of (plan_tags ?p ?c) ''EXIF:Make'' = Some ''Sony''" by code_simp
  from plan_never_overwrites [OF this] have "ts_make ?c = []" "ts_make ?p = ''Sony''"
    by (simp_all add: tag_value_def)
  with planned show ?thesis by blast
qed

theorem inherited_file_keeps_identity_witness:
  "\<exists>fs' d' m. snd (InheritMetadata sample_tools (Some exports_guard) 2 (export_fs, inherit_db)) = (fs', d') \<and>
     GetLiveNodeByPath ''/exports/b.jpg'' d' = Some m \<and> n_id m = 2 \<and> n_uuid m = ''u2''"
proof -
  let ?run = "InheritMetadata sample_tools (Some exports_guard) 2 (export_fs, inherit_db)"
  have "fst ?run = Inr [(''XMP-dc:Identifier'', ''u2''), (''XMP-xmpMM:DerivedFrom'', ''u1'')]" by code_simp
  then obtain fs' d' where run: "?run = (Inr [(''XMP-dc:Identifier'', ''u2''), (''XMP-xmpMM:DerivedFrom'', ''u1'')], fs', d')"
    by (metis prod.collapse)
  have node: "get_node 2 inherit_db = Some export" by code_simp
  have "n_path export = ''/exports/b.jpg''" "n_uuid export = ''u2''" by (simp_all add: sample_defs)
  then show ?thesis using inherited_file_keeps_identity [OF run _ node] run by auto
qed

theorem stale_vouch_revived_witness:
  "\<exists>d1 d2 k. refresh_row hashed_export 120 9 ''0123456789abcdef'' hashed_db = Inr d1 \<and>
     UpdateMediaNodeFullHash 2 (Some old_hash) d1 = Inr d2 \<and> k \<in> set (db_nodes d2) \<and>
     n_fast k = Some ''0123456789abcdef'' \<and> vouched (RecordFullHashSource 2 (Some old_hash) AGENT d2) k"
proof -
  have "\<not> isl (rbind (refresh_row hashed_export 120 9 ''0123456789abcdef'' hashed_db)
      (UpdateMediaNodeFullHash 2 (Some old_hash)))" by code_simp
  then obtain d2 where "rbind (refresh_row hashed_export 120 9 ''0123456789abcdef'' hashed_db)
      (UpdateMediaNodeFullHash 2 (Some old_hash)) = Inr d2" by (metis sum.collapse(2))
  then obtain d1 where d: "refresh_row hashed_export 120 9 ''0123456789abcdef'' hashed_db = Inr d1"
      "UpdateMediaNodeFullHash 2 (Some old_hash) d1 = Inr d2" by (auto simp: result_simps)
  have id: "n_id hashed_export = 2" "rb_full rebased_again = Some old_hash" "n_full hashed_export = Some old_hash"
    by (simp_all add: hashed_export_def rebased_again_def sample_defs)
  have "hashed_export \<in> set (db_nodes hashed_db)" "ValidFullHash old_hash" "vouched hashed_db hashed_export"
    by code_simp+
  from stale_vouch_revived [OF this(1) id(3) this(2,3) d(1) id(2)] d id show ?thesis by auto
qed

end
