(* ===== verification/ScanJobs.thy ===== *)
theory ScanJobs
  imports Prelude
begin

text \<open>
  The \<open>scan_jobs\<close> table with the statements of \<open>internal/db/sqlcgen/scan_jobs.sql.go\<close>, and
  \<open>createScanJob\<close> of \<open>internal/pipeline/scan.go\<close>, which refuses a second job of the same kind on a
  location. \<open>now\<close> is \<open>unixepoch()\<close>. The paged listings are not modelled.
\<close>

datatype job_kind = FULL_SCAN | INCREMENTAL | WATCH
datatype job_state = RUNNING | COMPLETED | CANCELLED | FAILED

record scan_job =
  j_id :: int
  j_loc :: "int option"
  j_kind :: job_kind
  j_state :: job_state
  j_seen :: int
  j_hashed :: int
  j_failed :: int
  j_edges :: int
  j_started :: int
  j_finished :: "int option"
  j_error :: "string option"
  j_updated :: int
  j_user :: "int option"

definition update_jobs :: "(scan_job \<Rightarrow> bool) \<Rightarrow> (scan_job \<Rightarrow> scan_job) \<Rightarrow> scan_job list \<Rightarrow> scan_job list" where
  "update_jobs P f jobs = map (\<lambda>j. if P j then f j else j) jobs"

definition next_job :: "scan_job list \<Rightarrow> int" where
  "next_job jobs = fold max (map j_id jobs) 0 + 1"

definition CountRunningScansForLocationByKind :: "int \<Rightarrow> job_kind \<Rightarrow> scan_job list \<Rightarrow> nat" where
  "CountRunningScansForLocationByKind loc kind jobs =
     length (filter (\<lambda>j. j_loc j = Some loc \<and> j_kind j = kind \<and> j_state j = RUNNING) jobs)"

definition CreateScanJob :: "int option \<Rightarrow> job_kind \<Rightarrow> int option \<Rightarrow> int \<Rightarrow> scan_job list \<Rightarrow> scan_job \<times> scan_job list" where
  "CreateScanJob loc kind user now jobs =
     (let j = \<lparr>j_id = next_job jobs, j_loc = loc, j_kind = kind, j_state = RUNNING, j_seen = 0, j_hashed = 0,
               j_failed = 0, j_edges = 0, j_started = now, j_finished = None, j_error = None, j_updated = now,
               j_user = user\<rparr>
      in (j, jobs @ [j]))"

definition finish_job :: "int \<Rightarrow> job_state \<Rightarrow> string option \<Rightarrow> int \<Rightarrow> scan_job list \<Rightarrow> scan_job list" where
  "finish_job i st err now = update_jobs (\<lambda>j. j_id j = i)
     (\<lambda>j. j\<lparr>j_state := st, j_finished := Some now, j_updated := now,
            j_error := (case err of None \<Rightarrow> j_error j | Some e \<Rightarrow> Some e)\<rparr>)"

definition CancelScanJob :: "int \<Rightarrow> int \<Rightarrow> scan_job list \<Rightarrow> scan_job list" where
  "CancelScanJob i = finish_job i CANCELLED None"

definition CompleteScanJob :: "int \<Rightarrow> int \<Rightarrow> scan_job list \<Rightarrow> scan_job list" where
  "CompleteScanJob i = finish_job i COMPLETED None"

definition CompleteScanJobWithWarning :: "int \<Rightarrow> string \<Rightarrow> int \<Rightarrow> scan_job list \<Rightarrow> scan_job list" where
  "CompleteScanJobWithWarning i msg = finish_job i COMPLETED (Some msg)"

definition FailScanJob :: "int \<Rightarrow> string \<Rightarrow> int \<Rightarrow> scan_job list \<Rightarrow> scan_job list" where
  "FailScanJob i msg = finish_job i FAILED (Some msg)"

definition UpdateScanJobProgress :: "int \<Rightarrow> int \<Rightarrow> int \<Rightarrow> int \<Rightarrow> int \<Rightarrow> int \<Rightarrow> scan_job list \<Rightarrow> scan_job list" where
  "UpdateScanJobProgress i seen hashed failed edges now = update_jobs (\<lambda>j. j_id j = i)
     (\<lambda>j. j\<lparr>j_seen := seen, j_hashed := hashed, j_failed := failed, j_edges := edges, j_updated := now\<rparr>)"

definition ReconcileOrphanedScanJobs :: "string \<Rightarrow> int \<Rightarrow> scan_job list \<Rightarrow> scan_job list" where
  "ReconcileOrphanedScanJobs msg now = update_jobs (\<lambda>j. j_state j = RUNNING)
     (\<lambda>j. j\<lparr>j_state := FAILED, j_finished := Some now, j_updated := now, j_error := Some msg\<rparr>)"

definition PruneOldZeroEventWatchJobs :: "int \<Rightarrow> scan_job list \<Rightarrow> scan_job list" where
  "PruneOldZeroEventWatchJobs cutoff =
     filter (\<lambda>j. \<not> (j_kind j = WATCH \<and> j_state j \<in> {CANCELLED, FAILED} \<and> j_seen j = 0 \<and>
                    (case j_finished j of None \<Rightarrow> False | Some t \<Rightarrow> t < cutoff)))"

text \<open>\<open>Inl ()\<close> is \<open>ErrScanAlreadyRunning\<close>; \<open>WATCH\<close> rows are inserted by the watcher without the check.\<close>

definition createScanJob :: "int \<Rightarrow> job_kind \<Rightarrow> int \<Rightarrow> int \<Rightarrow> scan_job list \<Rightarrow> unit + (scan_job \<times> scan_job list)" where
  "createScanJob loc kind user now jobs =
     (if (kind = FULL_SCAN \<or> kind = INCREMENTAL) \<and> 0 < CountRunningScansForLocationByKind loc kind jobs then Inl ()
      else Inr (CreateScanJob (Some loc) kind (if user = 0 then None else Some user) now jobs))"

section \<open>The steps of the table\<close>

inductive jobs_step :: "scan_job list \<Rightarrow> scan_job list \<Rightarrow> bool" where
  create: "createScanJob loc kind user now jobs = Inr (j, jobs') \<Longrightarrow> kind \<noteq> WATCH \<Longrightarrow> jobs_step jobs jobs'"
| watch: "jobs_step jobs (snd (CreateScanJob loc WATCH user now jobs))"
| progress: "jobs_step jobs (UpdateScanJobProgress i a b c e now jobs)"
| complete: "jobs_step jobs (CompleteScanJob i now jobs)"
| warn: "jobs_step jobs (CompleteScanJobWithWarning i msg now jobs)"
| cancel: "jobs_step jobs (CancelScanJob i now jobs)"
| fail: "jobs_step jobs (FailScanJob i msg now jobs)"
| reconcile: "jobs_step jobs (ReconcileOrphanedScanJobs msg now jobs)"
| prune: "jobs_step jobs (PruneOldZeroEventWatchJobs cutoff jobs)"

definition running :: "int \<Rightarrow> job_kind \<Rightarrow> scan_job list \<Rightarrow> scan_job list" where
  "running loc kind jobs = filter (\<lambda>j. j_loc j = Some loc \<and> j_kind j = kind \<and> j_state j = RUNNING) jobs"

definition exclusive :: "scan_job list \<Rightarrow> bool" where
  "exclusive jobs \<longleftrightarrow> (\<forall>loc kind. kind \<noteq> WATCH \<longrightarrow> length (running loc kind jobs) \<le> 1)"

lemma filter_map_le: "(\<And>x. Q (g x) \<Longrightarrow> Q x) \<Longrightarrow> length (filter Q (map g xs)) \<le> length (filter Q xs)"
  by (induction xs) (simp_all add: le_SucI)

lemma running_update:
  assumes "\<And>j. j_loc (f j) = j_loc j \<and> j_kind (f j) = j_kind j \<and> (j_state (f j) = RUNNING \<longrightarrow> j_state j = RUNNING)"
  shows "length (running loc kind (update_jobs P f jobs)) \<le> length (running loc kind jobs)"
  unfolding running_def update_jobs_def
proof (rule filter_map_le)
  fix j
  show "j_loc (if P j then f j else j) = Some loc \<and> j_kind (if P j then f j else j) = kind \<and>
      j_state (if P j then f j else j) = RUNNING \<Longrightarrow> j_loc j = Some loc \<and> j_kind j = kind \<and> j_state j = RUNNING"
    using assms [of j] by (cases "P j") simp_all
qed

lemma exclusive_update:
  assumes "exclusive jobs"
    "\<And>j. j_loc (f j) = j_loc j \<and> j_kind (f j) = j_kind j \<and> (j_state (f j) = RUNNING \<longrightarrow> j_state j = RUNNING)"
  shows "exclusive (update_jobs P f jobs)"
  unfolding exclusive_def
proof (intro allI impI)
  fix loc kind assume "kind \<noteq> WATCH"
  then have "length (running loc kind jobs) \<le> 1" using assms(1) by (simp add: exclusive_def)
  then show "length (running loc kind (update_jobs P f jobs)) \<le> 1"
    using running_update [OF assms(2), of loc kind P jobs] by linarith
qed

lemma jobs_step_exclusive: "jobs_step jobs jobs' \<Longrightarrow> exclusive jobs \<Longrightarrow> exclusive jobs'"
proof (induction rule: jobs_step.induct)
  case (create loc kind user now jobs j jobs')
  then have "running loc kind jobs = []"
    by (cases kind) (auto simp: createScanJob_def CountRunningScansForLocationByKind_def running_def split: if_splits)
  moreover have "jobs' = jobs @ [j]" "j_loc j = Some loc" "j_kind j = kind"
    using create.hyps(1) by (auto simp: createScanJob_def CreateScanJob_def Let_def split: if_splits)
  ultimately show ?case using create.prems by (auto simp: exclusive_def running_def)
next
  case (watch jobs loc user now)
  then show ?case by (auto simp: exclusive_def running_def CreateScanJob_def Let_def)
next
  case (prune jobs cutoff)
  show ?case
    unfolding exclusive_def
  proof (intro allI impI)
    fix loc kind assume "kind \<noteq> WATCH"
    then have "running loc kind (PruneOldZeroEventWatchJobs cutoff jobs) = running loc kind jobs"
      by (auto simp: running_def PruneOldZeroEventWatchJobs_def intro: filter_cong)
    then show "length (running loc kind (PruneOldZeroEventWatchJobs cutoff jobs)) \<le> 1"
      using prune \<open>kind \<noteq> WATCH\<close> by (simp add: exclusive_def)
  qed
qed (simp_all add: UpdateScanJobProgress_def CompleteScanJob_def CompleteScanJobWithWarning_def CancelScanJob_def
    FailScanJob_def finish_job_def ReconcileOrphanedScanJobs_def exclusive_update)

text \<open>C13. However jobs are created, reported on, ended and reconciled, no storage location ever has two
  running scans of the same kind (the watch rows of the watcher apart).\<close>

theorem one_scan_per_location:
  assumes "jobs_step\<^sup>*\<^sup>* [] jobs" and "kind \<noteq> WATCH"
  shows "CountRunningScansForLocationByKind loc kind jobs \<le> 1"
proof -
  have "exclusive []" by (simp add: exclusive_def running_def)
  with assms(1) have "exclusive jobs"
    by (induction rule: rtranclp_induct) (blast intro: jobs_step_exclusive)+
  then show ?thesis using assms(2) by (simp add: exclusive_def running_def CountRunningScansForLocationByKind_def)
qed

theorem one_scan_per_location_witness:
  "CountRunningScansForLocationByKind 2 FULL_SCAN
     (snd (CreateScanJob (Some 2) WATCH None 9 (snd (CreateScanJob (Some 2) FULL_SCAN None 8 [])))) \<le> 1"
proof (rule one_scan_per_location)
  let ?one = "CreateScanJob (Some 2) FULL_SCAN None 8 []"
  have "createScanJob 2 FULL_SCAN 0 8 [] = Inr (fst ?one, snd ?one)"
    by (simp add: createScanJob_def CountRunningScansForLocationByKind_def)
  then have "jobs_step [] (snd ?one)" by (rule jobs_step.create) simp
  moreover have "jobs_step (snd ?one) (snd (CreateScanJob (Some 2) WATCH None 9 (snd ?one)))" by (rule jobs_step.watch)
  ultimately show "jobs_step\<^sup>*\<^sup>* [] (snd (CreateScanJob (Some 2) WATCH None 9 (snd ?one)))" by simp
qed simp

end
