(* ===== verification/DirWalk.thy ===== *)
theory DirWalk
  imports Paths "HOL-Library.Sublist"
begin

text \<open>
  \<open>internal/indexer/walk.go\<close>: the directory walk of a scan. A \<open>dirent\<close> is what the directory reads
  and \<open>lstat\<close> calls of one walk show below a name: a file, a symbolic link, an entry that cannot be
  examined, a directory with its entries, or a directory that cannot be read. \<open>walk_entry\<close> is the
  callback of \<open>filepath.WalkDir\<close>, which visits the entries of a directory in the order of their
  names; the context and the state that \<open>onFile\<close> changes are explicit.
\<close>

datatype dirent = Plain int int | Link int int | Vanished | Folder "(string \<times> dirent) list" | Unreadable

record file_record =
  w_path :: string
  w_size :: int
  w_mtime :: int
  w_symlink :: bool

datatype walk_error = WalkCanceled | WalkIO

definition path_join :: "string \<Rightarrow> string \<Rightarrow> string" where
  "path_join dir nm = (if dir = ''/'' then dir @ nm else dir @ ''/'' @ nm)"

definition hidden :: "string \<Rightarrow> bool" where
  "hidden nm \<longleftrightarrow> has_prefix nm ''.''"

type_synonym 's visit = "file_record \<Rightarrow> 's \<Rightarrow> walk_error + 's"

definition report :: "'s visit \<Rightarrow> string \<Rightarrow> string \<Rightarrow> int \<Rightarrow> int \<Rightarrow> bool \<Rightarrow> 's \<Rightarrow> walk_error + 's" where
  "report onFile p nm sz mt link s =
     (if hidden nm then Inr s
      else onFile \<lparr>w_path = p, w_size = sz, w_mtime = mt, w_symlink = link\<rparr> s)"

text \<open>
  The callback on a path below the root. \<open>done ctx\<close> says whether the walk's context is cancelled
  when the walk reaches the path; \<open>filepath.SkipDir\<close> is \<open>Inr s\<close> without a visit of the entries.
\<close>

fun walk_entry :: "(string \<Rightarrow> bool) \<Rightarrow> 's visit \<Rightarrow> string \<Rightarrow> string \<Rightarrow> dirent \<Rightarrow> 's \<Rightarrow> walk_error + 's"
and walk_entries :: "(string \<Rightarrow> bool) \<Rightarrow> 's visit \<Rightarrow> string \<Rightarrow> (string \<times> dirent) list \<Rightarrow> 's \<Rightarrow> walk_error + 's" where
  "walk_entry cancelled onFile p nm (Folder es) s =
     (if cancelled p then Inl WalkCanceled else if hidden nm then Inr s
      else walk_entries cancelled onFile p es s)"
| "walk_entry cancelled onFile p nm Unreadable s = (if cancelled p then Inl WalkCanceled else Inr s)"
| "walk_entry cancelled onFile p nm Vanished s = (if cancelled p then Inl WalkCanceled else Inr s)"
| "walk_entry cancelled onFile p nm (Plain sz mt) s =
     (if cancelled p then Inl WalkCanceled else report onFile p nm sz mt False s)"
| "walk_entry cancelled onFile p nm (Link sz mt) s =
     (if cancelled p then Inl WalkCanceled else report onFile p nm sz mt True s)"
| "walk_entries cancelled onFile p [] s = Inr s"
| "walk_entries cancelled onFile p ((nm, e) # es) s =
     rbind (walk_entry cancelled onFile (path_join p nm) nm e s) (walk_entries cancelled onFile p es)"

text \<open>
  \<open>Walk\<close>: a root that is missing (\<open>None\<close>) or unreadable fails the walk, and its own name is not
  tested when it is a directory.
\<close>

definition Walk :: "(string \<Rightarrow> bool) \<Rightarrow> 's visit \<Rightarrow> string \<Rightarrow> dirent option \<Rightarrow> 's \<Rightarrow> walk_error + 's" where
  "Walk cancelled onFile base ent s =
     (case ent of
        None \<Rightarrow> Inl WalkIO
      | Some Unreadable \<Rightarrow> if cancelled base then Inl WalkCanceled else Inl WalkIO
      | Some (Folder es) \<Rightarrow> if cancelled base then Inl WalkCanceled else walk_entries cancelled onFile base es s
      | Some e \<Rightarrow> walk_entry cancelled onFile base (path_base base) e s)"

section \<open>What a walk reports\<close>

text \<open>
  The files a walk is to report: every file and link whose own name and whose directories below
  the root are not hidden. Where a directory cannot be read, nothing below it is in the list.
\<close>

fun files_at :: "string \<Rightarrow> string \<Rightarrow> dirent \<Rightarrow> file_record list"
and files_in :: "string \<Rightarrow> (string \<times> dirent) list \<Rightarrow> file_record list" where
  "files_at p nm (Folder es) = (if hidden nm then [] else files_in p es)"
| "files_at p nm (Plain sz mt) = (if hidden nm then [] else [\<lparr>w_path = p, w_size = sz, w_mtime = mt, w_symlink = False\<rparr>])"
| "files_at p nm (Link sz mt) = (if hidden nm then [] else [\<lparr>w_path = p, w_size = sz, w_mtime = mt, w_symlink = True\<rparr>])"
| "files_at p nm Vanished = []"
| "files_at p nm Unreadable = []"
| "files_in p [] = []"
| "files_in p ((nm, e) # es) = files_at (path_join p nm) nm e @ files_in p es"

fun readable_root :: "dirent option \<Rightarrow> bool" where
  "readable_root None = False"
| "readable_root (Some Unreadable) = False"
| "readable_root (Some _) = True"

definition files_below :: "string \<Rightarrow> dirent option \<Rightarrow> file_record list" where
  "files_below base ent =
     (case ent of None \<Rightarrow> [] | Some (Folder es) \<Rightarrow> files_in base es | Some e \<Rightarrow> files_at base (path_base base) e)"

lemma rfold_append: "rfold f (xs @ ys) s = rbind (rfold f xs s) (rfold f ys)"
proof (induction xs arbitrary: s)
  case Nil
  then show ?case by simp
next
  case (Cons x xs)
  then show ?case by (cases "f x s") auto
qed

lemma rfold_one: "rfold f [x] s = f x s"
  by (cases "f x s") simp_all

lemma report_rfold:
  "report onFile p nm sz mt link s =
     rfold onFile (if hidden nm then [] else [\<lparr>w_path = p, w_size = sz, w_mtime = mt, w_symlink = link\<rparr>]) s"
  by (simp add: report_def rfold_one del: rfold.simps(2))

lemma walk_entry_files:
  "(\<And>q. \<not> cancelled q) \<Longrightarrow> walk_entry cancelled onFile p nm e s = rfold onFile (files_at p nm e) s"
  "(\<And>q. \<not> cancelled q) \<Longrightarrow> walk_entries cancelled onFile p es s = rfold onFile (files_in p es) s"
proof (induction cancelled onFile p nm e s and cancelled onFile p es s rule: walk_entry_walk_entries.induct)
  case (7 cancelled onFile p nm e es s)
  have "walk_entry cancelled onFile (path_join p nm) nm e s = rfold onFile (files_at (path_join p nm) nm e) s"
    using 7 by blast
  then show ?case unfolding walk_entry.simps walk_entries.simps files_in.simps rfold_append
    by (rule rbind_cong) (use 7 in metis)
qed (simp_all add: report_rfold del: rfold.simps(2))

lemma Walk_files:
  assumes "\<And>q. \<not> cancelled q" "readable_root ent"
  shows "Walk cancelled onFile base ent s = rfold onFile (files_below base ent) s"
  using assms(2) walk_entry_files [of cancelled onFile, OF assms(1)] assms(1)
  by (cases ent rule: readable_root.cases) (simp_all add: Walk_def files_below_def report_rfold del: rfold.simps(2))

lemma Walk_unreadable_root: "\<not> readable_root ent \<Longrightarrow> \<exists>e. Walk cancelled onFile base ent s = Inl e"
  by (cases ent rule: readable_root.cases) (simp_all add: Walk_def)

text \<open>C14. A walk that is not cancelled visits, in order and each once, exactly the files and links of the
  readable part of the tree that are not hidden, handing them to the scan until it refuses one; a
  root that is missing or unreadable is an error, never an empty tree.\<close>

theorem walk_visits_files:
  "Walk (\<lambda>_. False) onFile base ent s =
    (if readable_root ent then rfold onFile (files_below base ent) s else Inl WalkIO)"
proof (cases "readable_root ent")
  case True
  then show ?thesis using Walk_files [of "\<lambda>_. False" ent onFile base s] by simp
next
  case False
  then show ?thesis by (cases ent rule: readable_root.cases) (simp_all add: Walk_def)
qed

end
