(* ===== verification/Scan.thy ===== *)
theory Scan
  imports ScanJobs DirWalk Engine Inherit Trash
begin

text \<open>
  One pass over a storage location: \<open>internal/pipeline/scan.go\<close> and \<open>sweep.go\<close>. The walk, the
  workers of the pool and the committing loop run concurrently and share the database with the rest
  of the server, so a pass is a state (\<open>scan\<close>) and one function per atomic action: a file the walk
  reports (\<open>on_file\<close>), a worker that ends (\<open>finish_work\<close>), a job the pool abandons, a result taken
  from the channel, a flush, the end of the walk, and the closing sequence (\<open>finish_scan\<close>). What the
  operating system, the tools and the pool answer is an argument of the action; \<open>lost\<close> says that a
  transaction failed for a reason outside the model (busy database, cancelled context).
\<close>

section \<open>Extensions that are probed\<close>

definition videoExts :: "string list" where
  "videoExts = [''mp4'', ''mov'', ''m4v'', ''mkv'', ''avi'', ''webm'', ''wmv'', ''mts'', ''m2ts'', ''ts'', ''3gp'',
     ''flv'', ''mpg'', ''mpeg'', ''lrf'']"

definition imageExts :: "string list" where
  "imageExts = [''jpg'', ''jpeg'', ''png'', ''gif'', ''webp'', ''tif'', ''tiff'', ''bmp'', ''heic'', ''heif'',
     ''arw'', ''cr2'', ''cr3'', ''nef'', ''dng'', ''raf'', ''rw2'', ''orf'', ''pef'', ''srw'']"

definition probed_video :: "string \<Rightarrow> bool" where
  "probed_video ext \<longleftrightarrow> to_lower (trim_prefix ext ''.'') \<in> set videoExts"

definition probed_image :: "string \<Rightarrow> bool" where
  "probed_image ext \<longleftrightarrow> to_lower (trim_prefix ext ''.'') \<in> set imageExts"

section \<open>The pass\<close>

definition batchSize :: nat where "batchSize = 64"

record scan_deps =
  dp_loc :: int
  dp_root :: string
  dp_tier :: storage_tier
  dp_job :: int
  dp_start :: int
  dp_differential :: bool
  dp_user :: int
  dp_mint :: minter
  dp_engine :: "resolver list option"
  dp_inherit :: bool
  dp_tools :: tools
  dp_guard :: "guard option"
  dp_policy :: string
  dp_nophash :: bool
  dp_blake :: "string \<Rightarrow> string"

record touch =
  t_id :: int
  t_path :: string
  t_mtime :: int

record scan =
  sn_fs :: fs
  sn_db :: db
  sn_jobs :: "scan_job list"
  sn_touches :: "touch list"
  sn_pending :: "file_record list"
  sn_results :: "file_result list"
  sn_buf :: "file_result list"
  sn_uncertain :: "string set"
  sn_seen :: nat
  sn_failed :: nat
  sn_interrupted :: bool
  sn_flushed :: nat
  sn_total :: stats
  sn_edges :: nat
  sn_sidecars :: "string list"
  sn_reported :: int

definition new_scan :: "fs \<Rightarrow> db \<Rightarrow> scan_job list \<Rightarrow> scan" where
  "new_scan fs d jobs = \<lparr>sn_fs = fs, sn_db = d, sn_jobs = jobs, sn_touches = [], sn_pending = [], sn_results = [],
     sn_buf = [], sn_uncertain = {}, sn_seen = 0, sn_failed = 0, sn_interrupted = False, sn_flushed = 0,
     sn_total = no_stats, sn_edges = 0, sn_sidecars = [], sn_reported = - 1\<rparr>"

definition give_up :: "string \<Rightarrow> scan \<Rightarrow> scan" where
  "give_up p s = s\<lparr>sn_uncertain := insert p (sn_uncertain s), sn_failed := sn_failed s + 1\<rparr>"

definition interrupt :: "bool \<Rightarrow> scan \<Rightarrow> scan" where
  "interrupt b s = s\<lparr>sn_interrupted := sn_interrupted s \<or> b\<rparr>"

section \<open>Unchanged files of a differential pass\<close>

definition sweepUnchanged :: "file_record \<Rightarrow> db \<Rightarrow> media_node option" where
  "sweepUnchanged rec d =
     (case GetLiveNodeByPath (w_path rec) d of
        None \<Rightarrow> None
      | Some n \<Rightarrow> if n_life n = ACTIVE \<and> n_mtime n = w_mtime rec \<and> n_size n = w_size rec then Some n else None)"

definition touch_rows :: "touch list \<Rightarrow> db \<Rightarrow> db_error + db" where
  "touch_rows ts d = rfold (\<lambda>t. TouchMediaNode (t_id t) (t_mtime t)) ts d"

text \<open>\<open>touchBatcher.flush\<close>: one transaction for all entries; on failure every path is uncertain.\<close>

definition flush_touches :: "bool \<Rightarrow> scan \<Rightarrow> scan" where
  "flush_touches lost s =
     (let ts = sn_touches s; s = s\<lparr>sn_touches := []\<rparr>
      in if ts = [] then s
         else case (if lost then None else (case touch_rows ts (sn_db s) of Inl _ \<Rightarrow> None | Inr d \<Rightarrow> Some d)) of
           None \<Rightarrow> s\<lparr>sn_failed := sn_failed s + length ts, sn_uncertain := sn_uncertain s \<union> t_path ` set ts\<rparr>
         | Some d \<Rightarrow> s\<lparr>sn_db := d, sn_flushed := sn_flushed s + length ts\<rparr>)"

definition add_touch :: "bool \<Rightarrow> touch \<Rightarrow> scan \<Rightarrow> scan" where
  "add_touch lost t s =
     (let s = s\<lparr>sn_touches := sn_touches s @ [t]\<rparr>
      in if batchSize \<le> length (sn_touches s) then flush_touches lost s else s)"

section \<open>The walk's callback\<close>

text \<open>What \<open>Pool.SubmitWait\<close> answers; a refusal is seen with the shutdown channel closed or not.\<close>

datatype submission = Accepted | Refused bool

definition submit :: "submission \<Rightarrow> file_record \<Rightarrow> scan \<Rightarrow> scan" where
  "submit sub rec s =
     (case sub of
        Accepted \<Rightarrow> s\<lparr>sn_pending := sn_pending s @ [rec]\<rparr>
      | Refused shut \<Rightarrow> interrupt shut (give_up (w_path rec) s))"

definition on_file :: "scan_deps \<Rightarrow> submission \<Rightarrow> bool \<Rightarrow> file_record \<Rightarrow> scan \<Rightarrow> scan" where
  "on_file dp sub lost rec s =
     (if w_symlink rec then s
      else let s = s\<lparr>sn_seen := sn_seen s + 1\<rparr>
           in case (if dp_differential dp then sweepUnchanged rec (sn_db s) else None) of
                Some n \<Rightarrow> add_touch lost \<lparr>t_id = n_id n, t_path = w_path rec, t_mtime = w_mtime rec\<rparr> s
              | None \<Rightarrow> submit sub rec s)"

section \<open>Processing one file\<close>

text \<open>
  What a worker observes: the bytes of the first read (\<open>None\<close> when the guard refuses the file), size
  and time of the open handle, whether the handle can be rewound, the bytes of the second read, size
  and time after it, and what the tools report (\<open>None\<close> when a tool is absent or fails).
\<close>

record file_view =
  fv_bytes :: "string option"
  fv_stat :: "(int \<times> int) option"
  fv_seek :: bool
  fv_again :: "string option"
  fv_stat_again :: "(int \<times> int) option"
  fv_exif :: "file_result option"
  fv_phash :: "64 word option"
  fv_ffprobe :: "ffprobe option"

datatype process_error = ErrOpen | ErrFastHash | ErrFileChangedDuringHash | ErrSeek

definition moved_on :: "(int \<times> int) option \<Rightarrow> file_record \<Rightarrow> bool" where
  "moved_on st rec \<longleftrightarrow> (case st of None \<Rightarrow> False | Some (sz, mt) \<Rightarrow> sz \<noteq> w_size rec \<or> mt \<noteq> w_mtime rec)"

definition needsFullHash :: "string \<Rightarrow> storage_tier \<Rightarrow> bool \<Rightarrow> bool" where
  "needsFullHash policy tier hasCollision =
     (if policy = ''always'' then True
      else if policy = ''never'' then False
      else tier = TIER3_MASTER_ARCHIVE \<or> hasCollision)"

definition ListLiveNodesByFastHash :: "string \<Rightarrow> db \<Rightarrow> media_node list" where
  "ListLiveNodesByFastHash h d = nodes_where (\<lambda>n. n_fast n = Some h \<and> \<not> retired n) d"

definition fullHashStillValid :: "file_record \<Rightarrow> db \<Rightarrow> bool" where
  "fullHashStillValid rec d =
     (case GetLiveNodeByPath (w_path rec) d of
        None \<Rightarrow> False
      | Some n \<Rightarrow> n_full n \<noteq> None \<and> n_full n \<noteq> Some [] \<and> n_size n = w_size rec \<and> n_mtime n = w_mtime rec)"

definition file_ext :: "string \<Rightarrow> string" where
  "file_ext p = trim_prefix (to_lower (path_ext p)) ''.''"

definition full_hash_of :: "scan_deps \<Rightarrow> file_record \<Rightarrow> file_view \<Rightarrow> bool \<Rightarrow> db \<Rightarrow> process_error + string" where
  "full_hash_of dp rec v hasCollision d =
     (if needsFullHash (dp_policy dp) (dp_tier dp) hasCollision \<and>
         (dp_policy dp = ''always'' \<or> \<not> fullHashStillValid rec d) then
        (if \<not> fv_seek v then Inl ErrSeek
         else case fv_again v of
           None \<Rightarrow> Inr []
         | Some bytes \<Rightarrow> if moved_on (fv_stat_again v) rec then Inl ErrFileChangedDuringHash
                         else Inr (dp_blake dp bytes))
      else Inr [])"

definition probed_result :: "scan_deps \<Rightarrow> file_record \<Rightarrow> file_view \<Rightarrow> string \<Rightarrow> string \<Rightarrow> file_result" where
  "probed_result dp rec v fast full =
     (let ext = file_ext (w_path rec);
          tag = (\<lambda>f. case fv_exif v of None \<Rightarrow> [] | Some x \<Rightarrow> f x);
          coord = (\<lambda>f. case fv_exif v of None \<Rightarrow> None | Some x \<Rightarrow> f x)
      in \<lparr>r_path = w_path rec, r_name = path_base (w_path rec), r_ext = ext, r_size = w_size rec,
          r_mtime = w_mtime rec, r_fast = fast, r_full = full,
          r_phash = (if probed_image ext \<and> \<not> dp_nophash dp then fv_phash v else None),
          r_origdoc = tag r_origdoc, r_doc = tag r_doc, r_derived = tag r_derived, r_captured = Option.bind (fv_exif v) r_captured,
          r_camera = tag r_camera, r_make = tag r_make, r_lens = tag r_lens, r_serial = tag r_serial,
          r_lat = coord r_lat, r_lon = coord r_lon,
          r_exifraw = (case fv_exif v of None \<Rightarrow> [] | Some x \<Rightarrow> selectExifRaw (r_exifraw x)),
          r_ffprobe = (if probed_video ext then fv_ffprobe v else None)\<rparr>)"

definition processFile :: "scan_deps \<Rightarrow> file_record \<Rightarrow> file_view \<Rightarrow> db \<Rightarrow> process_error + file_result" where
  "processFile dp rec v d =
     (case fv_bytes v of
        None \<Rightarrow> Inl ErrOpen
      | Some bytes \<Rightarrow>
          (case FastHash (tl_xx (dp_tools dp)) bytes (w_size rec) of
             Inl _ \<Rightarrow> Inl ErrFastHash
           | Inr fast \<Rightarrow>
               let hasCollision = (\<exists>n \<in> set (ListLiveNodesByFastHash fast d). n_path n \<noteq> w_path rec)
               in if moved_on (fv_stat v) rec then Inl ErrFileChangedDuringHash
                  else rbind (full_hash_of dp rec v hasCollision d) (\<lambda>full. Inr (probed_result dp rec v fast full))))"

text \<open>
  The end of the job's \<open>Run\<close>: \<open>shut\<close> is whether the pool's context is done, \<open>delivered\<close> whether the
  result went into the channel before that.
\<close>

definition finish_work :: "file_record \<Rightarrow> process_error + file_result \<Rightarrow> bool \<Rightarrow> bool \<Rightarrow> scan \<Rightarrow> scan" where
  "finish_work rec out shut delivered s =
     (let s = s\<lparr>sn_pending := remove1 rec (sn_pending s)\<rparr>
      in case out of
           Inl e \<Rightarrow>
             if e = ErrFileChangedDuringHash then s\<lparr>sn_uncertain := insert (w_path rec) (sn_uncertain s)\<rparr>
             else interrupt shut (give_up (w_path rec) s)
         | Inr r \<Rightarrow>
             if delivered then s\<lparr>sn_results := sn_results s @ [r]\<rparr>
             else interrupt True (give_up (w_path rec) s))"

definition abandon :: "file_record \<Rightarrow> scan \<Rightarrow> scan" where
  "abandon rec s =
     interrupt True (give_up (w_path rec) (s\<lparr>sn_pending := remove1 rec (sn_pending s)\<rparr>))"

section \<open>Edges of committed files\<close>

definition hasEligibleInheritanceParent :: "media_edge list \<Rightarrow> bool" where
  "hasEligibleInheritanceParent edges \<longleftrightarrow>
     (\<exists>e \<in> set edges. (e_review e = AUTO_ACCEPTED \<or> e_review e = CONFIRMED) \<and> e_tier e \<noteq> 3 \<and>
        e_rel e \<in> set ValidParentRelationships)"

text \<open>The automatic inheritance of a pass; the second refresh is of the row as it was resolved.\<close>

definition inherit_after_resolve :: "scan_deps \<Rightarrow> media_node \<Rightarrow> media_edge list \<Rightarrow> fs \<times> db \<Rightarrow> fs \<times> db" where
  "inherit_after_resolve dp n edges s =
     (if dp_inherit dp \<and> hasEligibleInheritanceParent edges then
        (case InheritMetadata (dp_tools dp) (dp_guard dp) (n_id n) s of
           (Inl ErrPostWriteRefreshFailed, fs, d) \<Rightarrow> snd (RefreshNodeAfterInPlaceWrite (dp_tools dp) (dp_guard dp) n fs d)
         | (_, s') \<Rightarrow> s')
      else s)"

text \<open>The siblings that share the stem; \<open>revisited\<close> is \<open>None\<close> where Go passes a nil map.\<close>

fun revisit :: "resolver list \<Rightarrow> media_node \<Rightarrow> media_node list \<Rightarrow> int list option \<Rightarrow> db \<Rightarrow> nat \<times> int list option \<times> db" where
  "revisit rs n [] revisited d = (0, revisited, d)"
| "revisit rs n (sib # sibs) revisited d =
     (if n_id sib = n_id n \<or> n_loc sib \<noteq> n_loc n \<or> n_graph sib \<noteq> UNLINKED \<or>
         (case revisited of None \<Rightarrow> False | Some ids \<Rightarrow> n_id sib \<in> set ids)
      then revisit rs n sibs revisited d
      else
        let revisited = map_option (\<lambda>ids. n_id sib # ids) revisited;
            (r, d) = ResolveAndCommit rs (dbLookup d) (ToNode sib) d;
            k = (case r of Inl _ \<Rightarrow> 0 | Inr (_, k) \<Rightarrow> k);
            (k', revisited, d) = revisit rs n sibs revisited d
        in (k + k', revisited, d))"

declare revisit.simps [simp del]

definition resolveNodeEdges ::
  "scan_deps \<Rightarrow> resolver list \<Rightarrow> string \<Rightarrow> int list option \<Rightarrow> fs \<times> db \<Rightarrow> nat \<times> int list option \<times> fs \<times> db" where
  "resolveNodeEdges dp rs p revisited s =
     (case s of (fs, d) \<Rightarrow>
      case GetLiveNodeByPath p d of
        None \<Rightarrow> (0, revisited, fs, d)
      | Some n \<Rightarrow>
          (case ResolveAndCommit rs (dbLookup d) (ToNode n) d of
             (Inl _, d) \<Rightarrow> (0, revisited, fs, d)
           | (Inr (edges, k), d) \<Rightarrow>
               (case inherit_after_resolve dp n edges (fs, d) of (fs, d) \<Rightarrow>
                if n_stem n = None \<or> n_stem n = Some [] then (k, revisited, fs, d)
                else case revisit rs n (ListLiveNodesByFilenameStem (or_empty (n_stem n)) FilenameStemCandidateCap d)
                            revisited d of
                  (k', revisited, d) \<Rightarrow> (k + k', revisited, fs, d))))"

fun resolve_paths ::
  "scan_deps \<Rightarrow> resolver list \<Rightarrow> string list \<Rightarrow> int list option \<Rightarrow> fs \<times> db \<Rightarrow> nat \<times> int list option \<times> fs \<times> db" where
  "resolve_paths dp rs [] revisited s = (0, revisited, s)"
| "resolve_paths dp rs (p # ps) revisited s =
     (case resolveNodeEdges dp rs p revisited s of
        (k, revisited, s) \<Rightarrow>
          (case resolve_paths dp rs ps revisited s of (k', revisited, s) \<Rightarrow> (k + k', revisited, s)))"

definition resolveEdgesForBatch :: "scan_deps \<Rightarrow> resolver list \<Rightarrow> file_result list \<Rightarrow> scan \<Rightarrow> scan" where
  "resolveEdgesForBatch dp rs buf s =
     (case resolve_paths dp rs (map r_path buf) (Some []) (sn_fs s, sn_db s) of
        (k, _, fs, d) \<Rightarrow>
          s\<lparr>sn_fs := fs, sn_db := d, sn_edges := sn_edges s + k,
            sn_sidecars := sn_sidecars s @ filter has_parser (map r_path buf)\<rparr>)"

section \<open>The committing loop\<close>

definition add_stats :: "stats \<Rightarrow> stats \<Rightarrow> stats" where
  "add_stats a b = a\<lparr>s_inserted := s_inserted a + s_inserted b, s_touched := s_touched a + s_touched b,
     s_collisions := s_collisions a + s_collisions b, s_moved := s_moved a + s_moved b,
     s_metadata := s_metadata a + s_metadata b, s_promoted := s_promoted a + s_promoted b\<rparr>"

definition files_hashed :: "stats \<Rightarrow> int" where
  "files_hashed st = int (s_inserted st + s_touched st + s_collisions st + s_moved st)"

definition report_progress :: "scan_deps \<Rightarrow> scan \<Rightarrow> scan" where
  "report_progress dp s = s\<lparr>sn_jobs := UpdateScanJobProgress (dp_job dp) (int (sn_seen s)) (files_hashed (sn_total s))
     (int (sn_failed s)) (int (sn_edges s)) (db_clock (sn_db s)) (sn_jobs s)\<rparr>"

text \<open>
  The batch of a flush. \<open>partial\<close> is what a failing \<open>Commit\<close> had counted before its error: the code
  adds it to the totals although the transaction is rolled back.
\<close>

definition commit_batch :: "scan_deps \<Rightarrow> bool \<Rightarrow> stats \<Rightarrow> scan \<Rightarrow> scan" where
  "commit_batch dp lost partial s =
     (let buf = sn_buf s; s = s\<lparr>sn_buf := []\<rparr>
      in case (if lost then (Inl MintUuid, sn_db s) else Commit (dp_mint dp) (dp_loc dp) (dp_user dp) buf (sn_db s)) of
           (Inl _, d) \<Rightarrow>
             s\<lparr>sn_db := d, sn_total := add_stats (sn_total s) partial, sn_failed := sn_failed s + length buf,
               sn_uncertain := sn_uncertain s \<union> r_path ` set buf\<rparr>
         | (Inr st, d) \<Rightarrow>
             let s = s\<lparr>sn_db := d, sn_total := add_stats (sn_total s) st\<rparr>
             in case dp_engine dp of None \<Rightarrow> s | Some rs \<Rightarrow> resolveEdgesForBatch dp rs buf s)"

definition flush :: "scan_deps \<Rightarrow> bool \<Rightarrow> stats \<Rightarrow> bool \<Rightarrow> scan \<Rightarrow> scan" where
  "flush dp lost partial unreported s =
     (let committed = (sn_buf s \<noteq> []); s = (if committed then commit_batch dp lost partial s else s)
      in if \<not> committed \<and> int (sn_seen s) = sn_reported s then s
         else if unreported then s
         else (report_progress dp s)\<lparr>sn_reported := int (sn_seen s)\<rparr>)"

definition take_result :: "scan_deps \<Rightarrow> bool \<Rightarrow> stats \<Rightarrow> bool \<Rightarrow> scan \<Rightarrow> scan" where
  "take_result dp lost partial unreported s =
     (case sn_results s of
        [] \<Rightarrow> s
      | r # rs \<Rightarrow>
          let s = s\<lparr>sn_results := rs, sn_buf := sn_buf s @ [r]\<rparr>
          in if batchSize \<le> length (sn_buf s) then flush dp lost partial unreported s else s)"

section \<open>The closing sequence\<close>

definition MarkUnseenNodesMissing :: "int \<Rightarrow> int \<Rightarrow> string set \<Rightarrow> db \<Rightarrow> db_error + db" where
  "MarkUnseenNodesMissing loc t keep d = update_nodes
     (\<lambda>n. n_loc n = loc \<and> n_life n = ACTIVE \<and> n_last_seen n < t \<and> n_path n \<notin> keep)
     (\<lambda>n. n\<lparr>n_life := MISSING, n_updated := db_clock d\<rparr>) d"

definition PruneArchivedNodeMetadata :: "db \<Rightarrow> db" where
  "PruneArchivedNodeMetadata d =
     d\<lparr>db_meta := filter (\<lambda>m. \<not> (\<exists>n \<in> set (db_nodes d). n_id n = md_node m \<and> n_life n = ARCHIVED \<and>
                                    n_superseded n \<noteq> None)) (db_meta d)\<rparr>"

definition prior_active :: "int \<Rightarrow> db \<Rightarrow> nat" where
  "prior_active loc d = length (nodes_where (\<lambda>n. n_life n = ACTIVE \<and> n_loc n = loc \<and> n_superseded n = None) d)"

definition sweep_warning :: "string \<Rightarrow> string" where
  "sweep_warning dir = ''MISSING sweep skipped: scan saw zero files under '' @ dir @
     '' (possible unmounted or misconfigured storage location) -- no nodes were marked MISSING this pass''"

text \<open>The second attempt at the references of project files.\<close>

definition retry_sidecars :: "scan_deps \<Rightarrow> bool \<Rightarrow> scan \<Rightarrow> scan" where
  "retry_sidecars dp lost s =
     (case dp_engine dp of
        None \<Rightarrow> s
      | Some rs \<Rightarrow>
          (case resolve_paths dp rs (sn_sidecars s) None (sn_fs s, sn_db s) of
             (k, _, fs, d) \<Rightarrow>
               let s = s\<lparr>sn_fs := fs, sn_db := d, sn_edges := sn_edges s + k\<rparr>
               in if k = 0 \<or> lost then s else report_progress dp s))"

definition missing_sweep :: "scan_deps \<Rightarrow> bool \<Rightarrow> scan \<Rightarrow> scan" where
  "missing_sweep dp lost s =
     (if sn_seen s = 0 \<or> lost then s
      else case MarkUnseenNodesMissing (dp_loc dp) (dp_start dp)
                  (if sn_uncertain s = {} then {[]} else sn_uncertain s) (sn_db s) of
             Inl _ \<Rightarrow> s
           | Inr d \<Rightarrow> s\<lparr>sn_db := d\<rparr>)"

definition prune_metadata :: "bool \<Rightarrow> scan \<Rightarrow> scan" where
  "prune_metadata lost s = (if lost then s else s\<lparr>sn_db := PruneArchivedNodeMetadata (sn_db s)\<rparr>)"

definition end_job :: "(int \<Rightarrow> scan_job list \<Rightarrow> scan_job list) \<Rightarrow> bool \<Rightarrow> scan \<Rightarrow> scan" where
  "end_job f lost s = (if lost then s else s\<lparr>sn_jobs := f (db_clock (sn_db s)) (sn_jobs s)\<rparr>)"

text \<open>
  Which of the transactions of the closing sequence are lost: the progress after the retry, the
  sweep, the pruning and the write that ends the job.
\<close>

record closing =
  cl_progress :: bool
  cl_sweep :: bool
  cl_prune :: bool
  cl_end :: bool

definition walk_failed :: "scan_deps \<Rightarrow> walk_error \<times> string \<Rightarrow> closing \<Rightarrow> scan \<Rightarrow> scan" where
  "walk_failed dp err cl s =
     (if fst err = WalkCanceled \<or> sn_interrupted s then end_job (CancelScanJob (dp_job dp)) (cl_end cl) s
      else end_job (FailScanJob (dp_job dp) (snd err)) (cl_end cl) s)"

definition walk_complete :: "scan_deps \<Rightarrow> bool \<Rightarrow> closing \<Rightarrow> scan \<Rightarrow> scan" where
  "walk_complete dp canceled cl s =
     (let s = retry_sidecars dp (cl_progress cl) s;
          warn = (sn_seen s = 0 \<and> 0 < prior_active (dp_loc dp) (sn_db s));
          s = prune_metadata (cl_prune cl) (missing_sweep dp (cl_sweep cl) s)
      in end_job (if sn_interrupted s \<or> canceled then CancelScanJob (dp_job dp)
                  else if warn then CompleteScanJobWithWarning (dp_job dp) (sweep_warning (dp_root dp))
                  else CompleteScanJob (dp_job dp)) (cl_end cl) s)"

text \<open>
  \<open>werr\<close> is the walk's error with its text; \<open>canceled\<close> says that the pass's own context is cancelled
  when the job is ended.
\<close>

definition finish_scan :: "scan_deps \<Rightarrow> (walk_error \<times> string) option \<Rightarrow> bool \<Rightarrow> closing \<Rightarrow> scan \<Rightarrow> scan" where
  "finish_scan dp werr canceled cl s =
     (case werr of Some err \<Rightarrow> walk_failed dp err cl s | None \<Rightarrow> walk_complete dp canceled cl s)"

end
