(* ===== verification/Aging.thy ===== *)
theory Aging
  imports Scan CommitProps
begin

text \<open>
  How old an \<open>ACTIVE\<close> row can look. An operation \<open>ages\<close> the node table properly when every row that
  is \<open>ACTIVE\<close> after it and was last seen before \<open>t\<close> was such a row before: rows become \<open>ACTIVE\<close>, or
  change their path, only together with a fresh \<open>last_seen_at\<close>. Every operation of a pass has this
  property (\<open>keeps_age\<close>), the reactivations of the trash (\<open>UntrashNode\<close>) do not.
\<close>

definition ages :: "int \<Rightarrow> db \<Rightarrow> db \<Rightarrow> bool" where
  "ages t d d' \<longleftrightarrow> (\<forall>n' \<in> set (db_nodes d'). n_life n' = ACTIVE \<and> n_last_seen n' < t \<longrightarrow>
     (\<exists>n \<in> set (db_nodes d). n_life n = ACTIVE \<and> n_id n = n_id n' \<and> n_path n = n_path n' \<and> n_loc n = n_loc n' \<and>
        n_last_seen n = n_last_seen n'))"

text \<open>The path has no \<open>ACTIVE\<close> row that was last seen before \<open>t\<close>; all such rows have the id \<open>i\<close>.\<close>

definition fresh_at :: "int \<Rightarrow> string \<Rightarrow> db \<Rightarrow> bool" where
  "fresh_at t p d \<longleftrightarrow> (\<forall>n \<in> set (db_nodes d). n_life n = ACTIVE \<and> n_path n = p \<longrightarrow> t \<le> n_last_seen n)"

definition stale_is :: "int \<Rightarrow> string \<Rightarrow> int \<Rightarrow> db \<Rightarrow> bool" where
  "stale_is t p i d \<longleftrightarrow>
     (\<forall>n \<in> set (db_nodes d). n_life n = ACTIVE \<and> n_path n = p \<and> n_last_seen n < t \<longrightarrow> n_id n = i)"

lemma ages_refl [simp]: "ages t d d"
  by (auto simp: ages_def)

lemma ages_trans: "ages t a b \<Longrightarrow> ages t b c \<Longrightarrow> ages t a c"
  unfolding ages_def by (metis (no_types, lifting))

lemma ages_preserves:
  "ages t d d' \<Longrightarrow> fresh_at t p d \<Longrightarrow> fresh_at t p d'"
  "ages t d d' \<Longrightarrow> stale_is t p i d \<Longrightarrow> stale_is t p i d'"
  unfolding ages_def fresh_at_def stale_is_def by (metis linorder_not_le)+

lemma ages_same_nodes: "db_nodes d' = db_nodes d \<Longrightarrow> ages t d d'"
  by (auto simp: ages_def)

section \<open>Statements\<close>

definition keeps_age :: "int \<Rightarrow> db \<Rightarrow> db \<Rightarrow> bool" where
  "keeps_age t d d' \<longleftrightarrow> (t \<le> db_clock d \<longrightarrow>
     ages t d d' \<and> db_clock d' = db_clock d \<and> (node_violation d = None \<longrightarrow> node_violation d' = None))"

lemma keeps_refl [simp]: "keeps_age t d d"
  by (simp add: keeps_age_def)

lemma keeps_trans [trans]: "keeps_age t a b \<Longrightarrow> keeps_age t b c \<Longrightarrow> keeps_age t a c"
  unfolding keeps_age_def by (metis ages_trans)

lemma keeps_same_nodes:
  "db_nodes d' = db_nodes d \<Longrightarrow> db_locs d' = db_locs d \<Longrightarrow> db_users d' = db_users d \<Longrightarrow> db_clock d' = db_clock d \<Longrightarrow>
   keeps_age t d d'"
  unfolding keeps_age_def using ages_same_nodes node_violation_cong by metis

lemma keeps_update:
  assumes "update_nodes P f d = Inr d'"
    and "\<And>n. P n \<Longrightarrow> n_life (f n) = ACTIVE \<Longrightarrow> n_last_seen (f n) = db_clock d \<or>
      n_life n = ACTIVE \<and> n_id (f n) = n_id n \<and> n_path (f n) = n_path n \<and> n_loc (f n) = n_loc n \<and>
      n_last_seen (f n) = n_last_seen n"
  shows "keeps_age t d d'"
  unfolding keeps_age_def
proof (intro impI conjI)
  assume t: "t \<le> db_clock d"
  show "ages t d d'"
    unfolding ages_def
  proof (intro ballI impI)
    fix n' assume n': "n' \<in> set (db_nodes d')" "n_life n' = ACTIVE \<and> n_last_seen n' < t"
    obtain n where n: "n \<in> set (db_nodes d)" "n' = (if P n then f n else n)" using assms(1) n'(1) by (rule row_origin)
    then show "\<exists>n \<in> set (db_nodes d). n_life n = ACTIVE \<and> n_id n = n_id n' \<and> n_path n = n_path n' \<and>
        n_loc n = n_loc n' \<and> n_last_seen n = n_last_seen n'"
      using n'(2) t assms(2) [of n] by (intro bexI [OF _ n(1)]) (auto split: if_splits)
  qed
  show "db_clock d' = db_clock d" using assms(1) by (simp add: update_nodes_Inr)
  show "node_violation d' = None" using assms(1) [unfolded update_nodes_Inr] by (rule conjunct2)
qed

lemma keeps_insert: "InsertMediaNode a d = Inr (n, d') \<Longrightarrow> keeps_age t d d'"
  by (auto simp: keeps_age_def ages_def InsertMediaNode_def Let_def result_simps node_row_def)

lemma keeps_statements:
  "ArchiveMediaNode i d = Inr d' \<Longrightarrow> keeps_age t d d'"
  "SetSupersededBy i s d = Inr d' \<Longrightarrow> keeps_age t d d'"
  "TouchMediaNode i mt d = Inr d' \<Longrightarrow> keeps_age t d d'"
  "RebaseMissingNodePath i p nm loc mt d = Inr d' \<Longrightarrow> keeps_age t d d'"
  "MarkNodeMissing i d = Inr d' \<Longrightarrow> keeps_age t d d'"
  "UpdateMediaNodeFullHash i h d = Inr d' \<Longrightarrow> keeps_age t d d'"
  "ClearMediaNodeFullHash i d = Inr d' \<Longrightarrow> keeps_age t d d'"
  "UpdateMediaNodeGraphStatus i g d = Inr d' \<Longrightarrow> keeps_age t d d'"
  "UpdateMediaNodePromotedColumns i pc d = Inr d' \<Longrightarrow> keeps_age t d d'"
  "RefreshMediaNodeAfterInPlaceWrite i sz mt fh d = Inr d' \<Longrightarrow> keeps_age t d d'"
  "InvalidateThumbnail i d = Inr d' \<Longrightarrow> keeps_age t d d'"
  "MarkUnseenNodesMissing loc u keep d = Inr d' \<Longrightarrow> keeps_age t d d'"
  "MarkNodeTrashed i d = Inr d' \<Longrightarrow> keeps_age t d d'"
  "RebaseNodePathByUUID uu p nm loc mt d = Inr d' \<Longrightarrow> keeps_age t d d'"
  unfolding statement_defs RebaseMissingNodePath_def MarkNodeMissing_def UpdateMediaNodeGraphStatus_def
    RefreshMediaNodeAfterInPlaceWrite_def InvalidateThumbnail_def MarkUnseenNodesMissing_def MarkNodeTrashed_def
    RebaseNodePathByUUID_def
  by (erule keeps_update, simp split: if_splits)+

lemma keeps_provenance [simp]:
  "keeps_age t d (RecordFullHashSource i h s d)" "keeps_age t d (DeleteFullHashProvenance i v d)"
  "keeps_age t d (InsertNodeMetadata i src k v d)" "keeps_age t d (PruneArchivedNodeMetadata d)"
  by (auto intro!: keeps_same_nodes simp: RecordFullHashSource_def RecordFullHashProvenance_def DeleteFullHashProvenance_def
      InsertNodeMetadata_def PruneArchivedNodeMetadata_def Let_def split: option.splits)

lemma keeps_foldl: "(\<And>d x. keeps_age t d (f d x)) \<Longrightarrow> keeps_age t d (foldl f d xs)"
proof (induction xs arbitrary: d)
  case (Cons x xs)
  have "keeps_age t d (f d x)" "keeps_age t (f d x) (foldl f (f d x) xs)" using Cons by blast+
  then show ?case by (auto intro: keeps_trans)
qed simp

lemma keeps_rfold:
  assumes "rfold f xs d = Inr d'" "\<And>x d d'. f x d = Inr d' \<Longrightarrow> keeps_age t d d'"
  shows "keeps_age t d d'"
  using assms(1) by (rule rfold_rel [where R = "keeps_age t"]) (auto intro: keeps_trans assms(2))

section \<open>Committing a file\<close>

lemma keeps_metadata: "keeps_age t d (persistMetadata i s m k d)" "keeps_age t d (persistAllMetadata i r d)"
proof -
  show *: "keeps_age t d (persistMetadata i s m k d)" for s m k d
    unfolding persistMetadata_def by (rule keeps_foldl) simp
  show "keeps_age t d (persistAllMetadata i r d)"
    unfolding persistAllMetadata_def by (rule keeps_trans [OF * *])
qed

lemma keeps_reconcileMetadata: "keeps_age t d (snd (reconcileMetadata i s m k prior d))"
proof -
  have "keeps_age t d (snd (foldl (\<lambda>(written, d) k.
         let v = or_empty (map_of m k)
         in if prior (s, k) = Some v then (written, d) else (written + 1, InsertNodeMetadata i s k v d)) (w, d) ks))" for w ks
  proof (induction ks arbitrary: d w)
    case (Cons x ks)
    show ?case
      using Cons [of d w] keeps_trans [OF keeps_provenance(3) Cons [of "InsertNodeMetadata i s x (or_empty (map_of m x)) d" "w + 1"]]
      by (simp add: Let_def)
  qed simp
  then show ?thesis by (simp add: reconcileMetadata_def)
qed

lemma keeps_reconcile:
  assumes "reconcileAllMetadata n r (st, d) = Inr (st', d')"
  shows "keeps_age t d d'"
proof -
  let ?prior = "prior_of (n_id n) d"
  let ?da = "snd (reconcileMetadata (n_id n) ''exiftool'' (exifMetadata r) metadataCap ?prior d)"
  let ?db = "snd (reconcileMetadata (n_id n) ''ffprobe'' (ffprobeMetadata r) metadataCap ?prior ?da)"
  define d1 where "d1 = (if exifMetadata r \<noteq> [] \<or> ffprobeMetadata r \<noteq> [] then ?db else d)"
  have "keeps_age t d d1"
    using keeps_trans [OF keeps_reconcileMetadata keeps_reconcileMetadata] by (simp add: d1_def)
  moreover obtain refreshed d2 where "reconcilePromotedColumns n r d1 = Inr (refreshed, d2)" "d' = d2"
    using assms unfolding reconcileAllMetadata_def d1_def
    by (auto simp: Let_def result_simps split: prod.splits if_splits)
  then have "d' = d1 \<or> (\<exists>p. UpdateMediaNodePromotedColumns (n_id n) p d1 = Inr d')"
    by (auto simp: reconcilePromotedColumns_def Let_def result_simps split: if_splits)
  then have "keeps_age t d1 d'" using keeps_statements(9) by auto
  ultimately show ?thesis by (rule keeps_trans)
qed

lemma keeps_insertNewNode:
  assumes "insertNewNode mint loc user r d = Inr (n, d')"
  shows "keeps_age t d d'"
proof -
  obtain uuid d1 where d1: "InsertMediaNode (new_node_of uuid loc r user) d = Inr (n, d1)"
    and d': "d' = persistAllMetadata (n_id n) r (RecordFullHashSource (n_id n) (nullString (r_full r)) SERVER d1)"
    using assms by (auto simp: insertNewNode_def Let_def result_simps split: option.splits)
  show ?thesis
    unfolding d' by (rule keeps_trans [OF keeps_insert [OF d1] keeps_trans [OF keeps_provenance(1) keeps_metadata(2)]])
qed

lemma keeps_touch_hash:
  assumes "touch_hash existing r (st, d) = Inr (st', d')"
  shows "keeps_age t d d'"
proof -
  obtain skip st1 d1 where skip: "skipDuplicateContent r (n_id existing) (st, d) = (skip, st1, d1)"
    by (metis prod.exhaust)
  then have d1: "d1 = d" by simp
  consider "d' = d" | h where "d' = RecordFullHashSource (n_id existing) h SERVER d"
    | d2 h where "ClearMediaNodeFullHash (n_id existing) d = Inr d2" "d' = DeleteFullHashProvenance (n_id existing) h d2"
    | d2 h where "UpdateMediaNodeFullHash (n_id existing) h d = Inr d2" "d' = RecordFullHashSource (n_id existing) h SERVER d2"
    using assms skip d1
    by (auto simp: touch_hash_def clearDisprovedFullHash_def Let_def result_simps split: if_splits option.splits)
  then show ?thesis
  proof cases
    case 3
    then show ?thesis using keeps_trans [OF keeps_statements(7) keeps_provenance(2)] by simp
  next
    case 4
    then show ?thesis using keeps_trans [OF keeps_statements(6) keeps_provenance(1)] by simp
  qed simp_all
qed

lemma keeps_commitTouched:
  assumes "commitTouched existing r (st, d) = Inr (st', d')"
  obtains d1 where "TouchMediaNode (n_id existing) (r_mtime r) d = Inr d1" "keeps_age t d1 d'"
proof -
  obtain d1 st2 d2 where d1: "TouchMediaNode (n_id existing) (r_mtime r) d = Inr d1"
    and d2: "touch_hash existing r (st\<lparr>s_touched := s_touched st + 1\<rparr>, d1) = Inr (st2, d2)"
    and d': "reconcileAllMetadata existing r (st2, d2) = Inr (st', d')"
    using assms by (auto simp: commitTouched_def result_simps)
  show thesis by (rule that [OF d1 keeps_trans [OF keeps_touch_hash [OF d2] keeps_reconcile [OF d']]])
qed

lemma keeps_commitContentChange:
  assumes "commitContentChange mint loc user existing r (st, d) = Inr (st', d')"
  obtains d1 where "ArchiveMediaNode (n_id existing) d = Inr d1" "keeps_age t d1 d'"
proof -
  obtain skip st1 d0 where skip: "skipDuplicateContent r (n_id existing) (st, d) = (skip, st1, d0)"
    by (metis prod.exhaust)
  then have d0: "d0 = d" by simp
  show thesis
  proof (cases skip)
    case True
    with skip d0 assms that show thesis
      by (auto simp: commitContentChange_def archive_duplicate_def result_simps)
  next
    case False
    with skip d0 assms obtain d1 n d2 where d1: "ArchiveMediaNode (n_id existing) d = Inr d1"
      and d2: "insertNewNode mint loc user r d1 = Inr (n, d2)"
      and d': "SetSupersededBy (n_id existing) (Some (n_id n)) d2 = Inr d'"
      by (auto simp: commitContentChange_def commitVersionCollision_def result_simps)
    show thesis by (rule that [OF d1 keeps_trans [OF keeps_insertNewNode [OF d2] keeps_statements(2) [OF d']]])
  qed
qed

lemma keeps_commitInsert:
  assumes "commitInsert mint loc user r (st, d) = Inr (st', d')"
  shows "keeps_age t d d'"
proof -
  obtain skip st1 d0 where skip: "skipDuplicateContent r 0 (st, d) = (skip, st1, d0)" by (metis prod.exhaust)
  then have "d0 = d" by simp
  with skip assms show ?thesis
    by (cases skip) (auto simp: commitInsert_def result_simps intro: keeps_insertNewNode)
qed

lemma keeps_commitArchivedPath:
  assumes "commitArchivedPath mint loc user latest r (st, d) = Inr (st', d')"
  shows "keeps_age t d d'"
proof -
  obtain skip st1 d0 where skip: "skipDuplicateContent r 0 (st, d) = (skip, st1, d0)" by (metis prod.exhaust)
  then have d0: "d0 = d" by simp
  show ?thesis
  proof (cases skip)
    case False
    with skip d0 assms obtain n d2 d3 where d2: "insertNewNode mint loc user r d = Inr (n, d2)"
      and d3: "ArchiveMediaNode (n_id n) d2 = Inr d3" and d': "SetSupersededBy (n_id latest) (Some (n_id n)) d3 = Inr d'"
      by (auto simp: commitArchivedPath_def Let_def result_simps)
    show ?thesis
      by (rule keeps_trans [OF keeps_insertNewNode [OF d2] keeps_trans [OF keeps_statements(1) [OF d3] keeps_statements(2) [OF d']]])
  qed (use skip d0 assms in \<open>simp add: commitArchivedPath_def\<close>)
qed

lemma keeps_commitMove:
  assumes "commitMove loc missing r (st, d) = Inr (st', d')"
  shows "keeps_age t d d'"
proof -
  obtain skip st1 d0 where skip: "skipDuplicateContent r (n_id missing) (st, d) = (skip, st1, d0)" by (metis prod.exhaust)
  then have d0: "d0 = d" by simp
  show ?thesis
  proof (cases skip)
    case False
    with skip d0 assms obtain d1 d2 where
      d1: "RebaseMissingNodePath (n_id missing) (r_path r) (r_name r) loc (r_mtime r) d = Inr d1"
      and d2: "(if r_full r \<noteq> [] then
                 rbind (UpdateMediaNodeFullHash (n_id missing) (Some (r_full r)) d1) (\<lambda>d.
                   Inr (RecordFullHashSource (n_id missing) (Some (r_full r)) SERVER d))
               else if n_full missing \<noteq> None \<and> n_full missing \<noteq> Some [] \<and> n_indexing missing \<noteq> INDEXED_FULL
               then UpdateMediaNodeFullHash (n_id missing) (n_full missing) d1 else Inr d1) = Inr d2"
      and d': "reconcileAllMetadata missing r (st1\<lparr>s_moved := s_moved st1 + 1\<rparr>, d2) = Inr (st', d')"
      unfolding commitMove_def by (auto simp: Let_def result_simps split del: if_split)
    have "keeps_age t d1 d2"
      using d2 keeps_statements(6) keeps_trans [OF keeps_statements(6) keeps_provenance(1)]
      by (auto simp: result_simps split: if_splits)
    then show ?thesis
      by (rule keeps_trans [OF keeps_statements(4) [OF d1] keeps_trans [OF _ keeps_reconcile [OF d']]])
  qed (use skip d0 assms in \<open>simp add: commitMove_def\<close>)
qed

lemma keeps_commitNoLiveNode:
  assumes "commitNoLiveNode mint loc user r (st, d) = Inr (st', d')"
  shows "keeps_age t d d'"
  using assms unfolding commitNoLiveNode_def Let_def
  by (auto split: option.splits if_splits
      intro: keeps_commitMove keeps_commitInsert keeps_commitArchivedPath)

text \<open>A touch leaves no stale row at the path whose stale rows it is for.\<close>

lemma touch_freshens:
  assumes "TouchMediaNode i mt d = Inr d'" "stale_is t p i d" "t \<le> db_clock d"
  shows "fresh_at t p d'"
  unfolding fresh_at_def
proof (intro ballI impI)
  fix n assume n: "n \<in> set (db_nodes d')" "n_life n = ACTIVE \<and> n_path n = p"
  obtain m where m: "m \<in> set (db_nodes d)" "n = (if n_id m = i \<and> \<not> retired m
      then m\<lparr>n_mtime := mt, n_last_seen := db_clock d,
             n_life := (if n_life m = MISSING then ACTIVE else n_life m), n_updated := db_clock d\<rparr> else m)"
    using assms(1) n(1) unfolding TouchMediaNode_def by (rule row_origin)
  show "t \<le> n_last_seen n"
  proof (cases "n_id m = i \<and> \<not> retired m")
    case True
    then show ?thesis using m(2) assms(3) by simp
  next
    case False
    then have "n = m" using m(2) by (simp only: if_False)
    then show ?thesis using assms(2) m(1) n(2) False by (auto simp: stale_is_def retired_def)
  qed
qed

lemma no_live_fresh: "no_live p d \<Longrightarrow> fresh_at t p d"
  by (auto simp: no_live_def fresh_at_def retired_def)

lemma owner_stale: "owner p i d \<Longrightarrow> stale_is t p i d"
  by (auto simp: owner_def stale_is_def retired_def)

lemma keeps_ages: "keeps_age t d d' \<Longrightarrow> t \<le> db_clock d \<Longrightarrow> ages t d d'"
  by (simp add: keeps_age_def)

text \<open>A committed file leaves no \<open>ACTIVE\<close> row at its path that was not seen in this transaction.\<close>

lemma commitOne_keeps:
  assumes "commitOne mint loc user r (st, d) = Inr (st', d')" "node_violation d = None"
  shows "keeps_age t d d' \<and> (t \<le> db_clock d \<longrightarrow> fresh_at t (r_path r) d')"
proof (cases "GetLiveNodeByPath (r_path r) d")
  case None
  then have "no_live (r_path r) d" using GetLiveNodeByPath_None unfolding no_live_def by blast
  moreover have "keeps_age t d d'"
    using None assms(1) keeps_commitNoLiveNode by (simp add: commitOne_def)
  ultimately show ?thesis using no_live_fresh keeps_ages ages_preserves(1) by blast
next
  case (Some existing)
  note e = GetLiveNodeByPath_Some [OF Some]
  have own: "owner (r_path r) (n_id existing) d" using live_owner [OF assms(2)] e by metis
  show ?thesis
  proof (cases "n_fast existing = Some (r_fast r) \<and>
      \<not> (fullHashContradicts (n_full existing) (r_full r) \<and> serverVouchedFullHash d existing)")
    case True
    then have "commitTouched existing r (st, d) = Inr (st', d')"
      using assms(1) Some by (auto simp: commitOne_def split: if_splits)
    then obtain d1 where d1: "TouchMediaNode (n_id existing) (r_mtime r) d = Inr d1" "keeps_age t d1 d'"
      by (rule keeps_commitTouched)
    have k: "keeps_age t d d1" by (rule keeps_statements(3) [OF d1(1)])
    show ?thesis
    proof (intro conjI impI)
      show "keeps_age t d d'" using k d1(2) by (rule keeps_trans)
      assume t: "t \<le> db_clock d"
      then have "t \<le> db_clock d1" using k by (simp add: keeps_age_def)
      then show "fresh_at t (r_path r) d'"
        using ages_preserves(1) [OF keeps_ages [OF d1(2)]] touch_freshens [OF d1(1) owner_stale [OF own] t] by blast
    qed
  next
    case False
    then have "commitContentChange mint loc user existing r (st, d) = Inr (st', d')"
      using assms(1) Some by (auto simp: commitOne_def split: if_splits)
    then obtain d1 where d1: "ArchiveMediaNode (n_id existing) d = Inr d1" "keeps_age t d1 d'"
      by (rule keeps_commitContentChange)
    have k: "keeps_age t d d1" by (rule keeps_statements(1) [OF d1(1)])
    show ?thesis
    proof (intro conjI impI)
      show "keeps_age t d d'" using k d1(2) by (rule keeps_trans)
      assume t: "t \<le> db_clock d"
      then have "t \<le> db_clock d1" using k by (simp add: keeps_age_def)
      then show "fresh_at t (r_path r) d'"
        using ages_preserves(1) [OF keeps_ages [OF d1(2)]] no_live_fresh [OF archive_no_live [OF d1(1) own]] by blast
    qed
  qed
qed

section \<open>Batches\<close>

lemma commit_fold_keeps:
  assumes "rfold (commitOne mint loc user) rs (st, d) = Inr (st', d')" "node_violation d = None" "t \<le> db_clock d"
  shows "keeps_age t d d' \<and> (\<forall>p \<in> r_path ` set rs. fresh_at t p d')"
  using assms
proof (induction rs arbitrary: st d)
  case (Cons r rs)
  then obtain st1 d1 where step: "commitOne mint loc user r (st, d) = Inr (st1, d1)"
    and rest: "rfold (commitOne mint loc user) rs (st1, d1) = Inr (st', d')" by (auto simp: result_simps)
  note one = commitOne_keeps [OF step Cons.prems(2), of t]
  then have d1: "node_violation d1 = None" "t \<le> db_clock d1" using Cons.prems(2,3) by (simp_all add: keeps_age_def)
  note ih = Cons.IH [OF rest d1]
  have "keeps_age t d d'" using one ih by (blast intro: keeps_trans)
  moreover have "fresh_at t (r_path r) d'"
    using one ih Cons.prems(3) keeps_ages [OF _ d1(2)] ages_preserves(1) by blast
  ultimately show ?case using ih by auto
qed simp

lemma Commit_keeps:
  assumes "Commit mint loc user rs d = (Inr st, d')" "node_violation d = None" "t \<le> db_clock d"
  shows "keeps_age t d d'" "p \<in> r_path ` set rs \<Longrightarrow> fresh_at t p d'"
proof -
  have "rfold (commitOne mint loc user) rs (no_stats, d) = Inr (st, d')"
    using assms(1) by (auto simp: Commit_def in_tx_def split: sum.splits prod.splits)
  from commit_fold_keeps [OF this assms(2,3)]
  show "keeps_age t d d'" "p \<in> r_path ` set rs \<Longrightarrow> fresh_at t p d'" by blast+
qed

lemma Commit_failed: "Commit mint loc user rs d = (Inl e, d') \<Longrightarrow> d' = d"
  by (auto simp: Commit_def in_tx_def split: sum.splits prod.splits)

lemma touch_rows_keeps:
  assumes "touch_rows ts d = Inr d'" "t \<le> db_clock d" "\<forall>x \<in> set ts. stale_is t (t_path x) (t_id x) d"
  shows "keeps_age t d d' \<and> (\<forall>p \<in> t_path ` set ts. fresh_at t p d')"
  using assms unfolding touch_rows_def
proof (induction ts arbitrary: d)
  case (Cons x ts)
  then obtain d1 where step: "TouchMediaNode (t_id x) (t_mtime x) d = Inr d1"
    and rest: "rfold (\<lambda>t. TouchMediaNode (t_id t) (t_mtime t)) ts d1 = Inr d'" by (auto simp: result_simps)
  have k: "keeps_age t d d1" by (rule keeps_statements(3) [OF step])
  then have d1: "t \<le> db_clock d1" "ages t d d1" using Cons.prems(2) by (simp_all add: keeps_age_def)
  have "\<forall>x \<in> set ts. stale_is t (t_path x) (t_id x) d1"
    using Cons.prems(3) ages_preserves(2) [OF d1(2)] by simp
  note ih = Cons.IH [OF rest d1(1) this]
  have "fresh_at t (t_path x) d1" using touch_freshens [OF step _ Cons.prems(2)] Cons.prems(3) by simp
  then have "fresh_at t (t_path x) d'" using ih keeps_ages [OF _ d1(1)] ages_preserves(1) by blast
  then show ?case using k ih by (auto intro: keeps_trans)
qed simp

section \<open>Edges and inherited metadata\<close>

text \<open>
  A relation on databases that the statements of the lineage engine and of the metadata inheritance
  respect is respected by everything a pass runs after a commit.
\<close>

locale row_relation =
  fixes R :: "db \<Rightarrow> db \<Rightarrow> bool"
  assumes same: "R d d"
    and comp: "R a b \<Longrightarrow> R b c \<Longrightarrow> R a c"
    and edges: "R d (d\<lparr>db_edges := es\<rparr>)"
    and status: "UpdateMediaNodeGraphStatus i g d = Inr d' \<Longrightarrow> R d d'"
    and promote: "UpdateMediaNodePromotedColumns i pc d = Inr d' \<Longrightarrow> R d d'"
    and refreshed: "RefreshMediaNodeAfterInPlaceWrite i sz mt fh d = Inr d' \<Longrightarrow> R d d'"
    and thumb: "InvalidateThumbnail i d = Inr d' \<Longrightarrow> R d d'"
    and meta: "R d (InsertNodeMetadata i src k v d)"
begin

lemma of_candidate:
  assumes "commit_candidate c (d, cm, k) = Inr (d', cm', k')"
  shows "R d d'"
proof -
  have "d' = d \<or> (\<exists>es. d' = d\<lparr>db_edges := es\<rparr>)"
    using assms
  proof (cases rule: commit_candidate_cases)
    case (wrote e)
    then show ?thesis by (auto simp: UpsertMediaEdge_def update_edges_def Let_def result_simps split: if_splits option.splits)
  qed auto
  then show ?thesis using same edges by auto
qed

lemma of_resolve:
  assumes "ResolveAndCommit rs lk child d = (r, d')"
  shows "R d d'"
  using assms
proof (cases rule: ResolveAndCommit_cases)
  case (committed cm k d1)
  have "R (fst (d, [] :: media_edge list, 0 :: nat)) (fst (d1, cm, k))"
    by (rule rfold_rel [where R = "\<lambda>a b. R (fst a) (fst b)", OF committed(2)])
      (auto intro: same comp of_candidate)
  moreover have "R d1 d'"
    by (rule rfold_rel [where R = R, OF committed(3)])
      (auto simp: RecomputeStatusFromPersistedEdges_def intro: same comp status)
  ultimately show ?thesis by (auto intro: comp)
qed (simp add: same)

lemma of_refresh:
  assumes "RefreshNodeAfterInPlaceWrite tk g n fs d = (r, fs', d')"
  shows "R d d'"
proof -
  have "R a b" if "refresh_row n sz mt fh a = Inr b" for sz mt fh a b
    using that comp [OF refreshed thumb] by (auto simp: refresh_row_def result_simps)
  then show ?thesis
    using assms same
    by (auto simp: RefreshNodeAfterInPlaceWrite_def simp del: reopen.simps split: prod.splits sum.splits entry.splits)
qed

lemma of_backfill: "R d (backfill tk child parent fs d)"
proof (cases "tl_exif tk (n_path child) fs")
  case (Some exif)
  have "R d (foldl (\<lambda>d k. InsertNodeMetadata i src k (or_empty (map_of m k)) d) d ks)" for i src m ks d
    by (induction ks arbitrary: d) (auto intro: same comp [OF meta])
  then have "R d (PersistExifMetadata i (Some exif) d)" for i
    by (simp add: PersistExifMetadata_def persistMetadata_def)
  then show ?thesis
    using Some by (auto simp: backfill_def Let_def split: sum.splits intro: comp promote)
qed (simp add: backfill_def same)

lemma of_inherit:
  assumes "InheritMetadata tk g i (fs, d) = (r, fs', d')"
  shows "R d d'"
  using assms
  by (auto simp: InheritMetadata_def same split: sum.splits prod.splits if_splits
      dest!: of_refresh intro: comp of_backfill)

lemma of_inherit_after:
  assumes "inherit_after_resolve dp n edges (fs, d) = (fs', d')"
  shows "R d d'"
proof -
  obtain r fs1 d1 where i: "InheritMetadata (dp_tools dp) (dp_guard dp) (n_id n) (fs, d) = (r, fs1, d1)"
    by (metis prod.exhaust)
  have k: "R d d1" by (rule of_inherit [OF i])
  obtain q fs2 d2 where f: "RefreshNodeAfterInPlaceWrite (dp_tools dp) (dp_guard dp) n fs1 d1 = (q, fs2, d2)"
    by (metis prod.exhaust)
  have "d' = d \<or> d' = d1 \<or> d' = d2"
    using assms i f by (auto simp: inherit_after_resolve_def split: if_splits sum.splits inherit_error.splits)
  then show ?thesis using k comp [OF k of_refresh [OF f]] same by auto
qed

lemma of_revisit: "revisit rs n sibs rv d = (k, rv', d') \<Longrightarrow> R d d'"
proof (induction rs n sibs rv d arbitrary: k rv' d' rule: revisit.induct)
  case (1 rs n rv d)
  then show ?case by (simp add: revisit.simps same)
next
  case (2 rs n sib sibs rv d)
  let ?skip = "n_id sib = n_id n \<or> n_loc sib \<noteq> n_loc n \<or> n_graph sib \<noteq> UNLINKED \<or>
         (case rv of None \<Rightarrow> False | Some ids \<Rightarrow> n_id sib \<in> set ids)"
  obtain r d1 where r: "ResolveAndCommit rs (dbLookup d) (ToNode sib) d = (r, d1)" by (metis prod.exhaust)
  show ?case
  proof (cases ?skip)
    case True
    then show ?thesis using 2(1) 2(3) by (simp add: revisit.simps)
  next
    case False
    obtain k1 rv1 d2 where t: "revisit rs n sibs (map_option (\<lambda>ids. n_id sib # ids) rv) d1 = (k1, rv1, d2)"
      by (metis prod.exhaust)
    have "d' = d2" using 2(3) False r t by (simp add: revisit.simps Let_def)
    moreover have "R d1 d2" using 2(2) [OF False refl r [symmetric] refl refl] t by blast
    ultimately show ?thesis using of_resolve [OF r] comp by blast
  qed
qed

lemma of_resolveNodeEdges:
  assumes "resolveNodeEdges dp rs p rv (fs, d) = (k, rv', fs', d')"
  shows "R d d'"
proof (cases "GetLiveNodeByPath p d")
  case (Some n)
  obtain r d1 where r: "ResolveAndCommit rs (dbLookup d) (ToNode n) d = (r, d1)" by (metis prod.exhaust)
  have k1: "R d d1" by (rule of_resolve [OF r])
  show ?thesis
  proof (cases r)
    case (Inl e)
    then show ?thesis using assms Some r k1 by (simp add: resolveNodeEdges_def)
  next
    case (Inr x)
    obtain es c where x: "x = (es, c)" by (cases x)
    obtain fs2 d2 where i: "inherit_after_resolve dp n es (fs, d1) = (fs2, d2)" by (metis prod.exhaust)
    obtain k' rv1 d3 where v: "revisit rs n (ListLiveNodesByFilenameStem (or_empty (n_stem n)) FilenameStemCandidateCap d2) rv d2
        = (k', rv1, d3)" by (metis prod.exhaust)
    have "d' = d2 \<or> d' = d3" using assms Some r Inr x i v by (auto simp: resolveNodeEdges_def split: if_splits)
    moreover have "R d d2" using k1 of_inherit_after [OF i] by (rule comp)
    ultimately show ?thesis using of_revisit [OF v] comp by blast
  qed
qed (use assms same in \<open>simp add: resolveNodeEdges_def\<close>)

lemma of_resolve_paths: "resolve_paths dp rs ps rv (fs, d) = (k, rv', fs', d') \<Longrightarrow> R d d'"
proof (induction ps arbitrary: rv fs d k rv' fs' d')
  case (Cons p ps)
  obtain k1 rv1 fs1 d1 where one: "resolveNodeEdges dp rs p rv (fs, d) = (k1, rv1, fs1, d1)" by (metis prod.exhaust)
  obtain k2 rv2 fs2 d2 where more: "resolve_paths dp rs ps rv1 (fs1, d1) = (k2, rv2, fs2, d2)" by (metis prod.exhaust)
  have "d' = d2" using Cons.prems one more by simp
  then show ?case using of_resolveNodeEdges [OF one] Cons.IH [OF more] comp by blast
qed (simp add: same)

lemma of_retry: "R (sn_db s) (sn_db (retry_sidecars dp lost s))"
proof (cases "dp_engine dp")
  case (Some rs)
  obtain k rv fs d where "resolve_paths dp rs (sn_sidecars s) None (sn_fs s, sn_db s) = (k, rv, fs, d)"
    by (metis prod.exhaust)
  with of_resolve_paths [OF this] Some show ?thesis
    by (simp add: retry_sidecars_def Let_def report_progress_def)
qed (simp add: retry_sidecars_def same)

end

interpretation aging: row_relation "keeps_age t" for t
  by unfold_locales
    (auto intro: keeps_trans keeps_statements(8-11) keeps_same_nodes)

text \<open>No row changes its state.\<close>

definition same_life :: "db \<Rightarrow> db \<Rightarrow> bool" where
  "same_life d d' \<longleftrightarrow> map (\<lambda>n. (n_id n, n_path n, n_loc n, n_life n, n_superseded n)) (db_nodes d') =
     map (\<lambda>n. (n_id n, n_path n, n_loc n, n_life n, n_superseded n)) (db_nodes d)"

lemma same_life_update:
  "update_nodes P f d = Inr d' \<Longrightarrow>
   (\<And>n. n_id (f n) = n_id n \<and> n_path (f n) = n_path n \<and> n_loc (f n) = n_loc n \<and> n_life (f n) = n_life n \<and>
      n_superseded (f n) = n_superseded n) \<Longrightarrow>
   same_life d d'"
  by (auto simp: same_life_def update_nodes_Inr)

lemma same_life_statements:
  "UpdateMediaNodeGraphStatus i g d = Inr d' \<Longrightarrow> same_life d d'"
  "UpdateMediaNodePromotedColumns i pc d = Inr d' \<Longrightarrow> same_life d d'"
  "RefreshMediaNodeAfterInPlaceWrite i sz mt fh d = Inr d' \<Longrightarrow> same_life d d'"
  "InvalidateThumbnail i d = Inr d' \<Longrightarrow> same_life d d'"
  unfolding UpdateMediaNodeGraphStatus_def UpdateMediaNodePromotedColumns_def RefreshMediaNodeAfterInPlaceWrite_def
    InvalidateThumbnail_def
  by (erule same_life_update, simp)+

interpretation living: row_relation same_life
proof
  show "same_life a b \<Longrightarrow> same_life b c \<Longrightarrow> same_life a c" for a b c by (simp add: same_life_def)
qed (simp_all add: same_life_def [where d' = "InsertNodeMetadata i src k v d" for i src k v d] same_life_statements
    same_life_def [where d' = d and d = d for d] same_life_def [where d' = "d\<lparr>db_edges := es\<rparr>" for d es])

end
