(* ===== verification/ScanProps.thy ===== *)
theory ScanProps
  imports Aging
begin

text \<open>
  What a pass guarantees while the walk, the workers, the committing loop and the rest of the server
  are interleaved in any order: no file the walk saw is marked missing, and the job ends in the state
  its contract names.
\<close>

section \<open>A pass as a state machine\<close>

text \<open>
  \<open>pass dp seen walking s\<close>: the state \<open>s\<close> can be reached when the walk has reported the files of
  \<open>seen\<close> (links apart) and is still going on or not. \<open>others\<close> is any other transaction in
  between, of another pass, say, that \<open>ages\<close> the rows: it may change every table, but rows only become
  \<open>ACTIVE\<close> or change their path together with a fresh \<open>last_seen_at\<close>, and the clock does not fall behind
  the start of the job. \<open>UntrashNode\<close> and \<open>UnarchiveMediaNode\<close>, which restore rows with the
  \<open>last_seen_at\<close> they had, are not such transactions.
\<close>

inductive pass :: "scan_deps \<Rightarrow> string set \<Rightarrow> bool \<Rightarrow> scan \<Rightarrow> bool" for dp where
  start: "node_violation d = None \<Longrightarrow> dp_start dp \<le> db_clock d \<Longrightarrow> pass dp {} True (new_scan fs d jobs)"
| see: "pass dp seen True s \<Longrightarrow>
    pass dp (if w_symlink rec then seen else insert (w_path rec) seen) True (on_file dp sub lost rec s)"
| stop: "pass dp seen True s \<Longrightarrow> pass dp seen True (interrupt True s)"
| walked: "pass dp seen True s \<Longrightarrow> pass dp seen False (flush_touches lost s)"
| worked: "pass dp seen w s \<Longrightarrow> rec \<in> set (sn_pending s) \<Longrightarrow>
    pass dp seen w (finish_work rec (processFile dp rec v (sn_db s)) shut delivered s)"
| abandoned: "pass dp seen w s \<Longrightarrow> rec \<in> set (sn_pending s) \<Longrightarrow> pass dp seen w (abandon rec s)"
| taken: "pass dp seen w s \<Longrightarrow> pass dp seen w (take_result dp lost partial unreported s)"
| flushed: "pass dp seen w s \<Longrightarrow> pass dp seen w (flush dp lost partial unreported s)"
| others: "pass dp seen w s \<Longrightarrow> ages (dp_start dp) (sn_db s) d \<Longrightarrow> node_violation d = None \<Longrightarrow>
    dp_start dp \<le> db_clock d \<Longrightarrow> pass dp seen w (s\<lparr>sn_fs := fs, sn_db := d, sn_jobs := jobs\<rparr>)"

text \<open>The pass may close once the walk has ended and everything it handed out has been drained.\<close>

definition drained :: "scan \<Rightarrow> bool" where
  "drained s \<longleftrightarrow> sn_pending s = [] \<and> sn_results s = [] \<and> sn_buf s = []"

section \<open>Where a seen path is accounted for\<close>

definition underway :: "scan \<Rightarrow> string set" where
  "underway s = sn_uncertain s \<union> w_path ` set (sn_pending s) \<union> r_path ` set (sn_results s @ sn_buf s) \<union>
     t_path ` set (sn_touches s)"

definition accounted :: "int \<Rightarrow> string set \<Rightarrow> scan \<Rightarrow> bool" where
  "accounted t seen s \<longleftrightarrow> (\<forall>p \<in> seen. p \<in> underway s \<or> fresh_at t p (sn_db s)) \<and>
     (\<forall>x \<in> set (sn_touches s). stale_is t (t_path x) (t_id x) (sn_db s))"

definition sound :: "int \<Rightarrow> string set \<Rightarrow> bool \<Rightarrow> scan \<Rightarrow> bool" where
  "sound t seen w s \<longleftrightarrow> accounted t seen s \<and> node_violation (sn_db s) = None \<and> t \<le> db_clock (sn_db s) \<and>
     (\<not> w \<longrightarrow> sn_touches s = []) \<and> (sn_seen s = 0 \<longrightarrow> seen = {})"

lemmas sound_defs = sound_def accounted_def underway_def

lemma scan_fields [simp]:
  "sn_db (interrupt b s) = sn_db s" "sn_db (give_up p s) = sn_db s"
  "sn_seen (interrupt b s) = sn_seen s" "sn_seen (give_up p s) = sn_seen s"
  "sn_touches (interrupt b s) = sn_touches s" "sn_touches (give_up p s) = sn_touches s"
  "sn_pending (interrupt b s) = sn_pending s" "sn_pending (give_up p s) = sn_pending s"
  "sn_results (interrupt b s) = sn_results s" "sn_results (give_up p s) = sn_results s"
  "sn_buf (interrupt b s) = sn_buf s" "sn_buf (give_up p s) = sn_buf s"
  "sn_uncertain (interrupt b s) = sn_uncertain s" "sn_uncertain (give_up p s) = insert p (sn_uncertain s)"
  "sn_failed (interrupt b s) = sn_failed s" "sn_failed (give_up p s) = sn_failed s + 1"
  by (simp_all add: interrupt_def give_up_def)

text \<open>A change of the tables that ages rows properly keeps the account.\<close>

lemma sound_db:
  assumes "sound t seen w s" "keeps_age t (sn_db s) d"
  shows "sound t seen w (s\<lparr>sn_db := d\<rparr>)"
proof -
  have "ages t (sn_db s) d" "t \<le> db_clock d" "node_violation d = None"
    using assms by (simp_all add: keeps_age_def sound_def)
  then show ?thesis using assms(1) ages_preserves [of t "sn_db s" d] by (fastforce simp: sound_defs)
qed

lemma sound_flush_touches:
  assumes "sound t seen w s"
  shows "sound t seen w' (flush_touches lost s)"
proof (cases "sn_touches s = []")
  case True
  then show ?thesis using assms by (simp add: flush_touches_def sound_defs)
next
  case False
  let ?out = "if lost then None else (case touch_rows (sn_touches s) (sn_db s) of Inl _ \<Rightarrow> None | Inr d \<Rightarrow> Some d)"
  show ?thesis
  proof (cases ?out)
    case None
    then show ?thesis using assms False by (auto simp: flush_touches_def Let_def sound_defs)
  next
    case (Some d)
    then have rows: "\<not> lost" "touch_rows (sn_touches s) (sn_db s) = Inr d" by (auto split: if_splits sum.splits)
    then have k: "keeps_age t (sn_db s) d" "\<forall>p \<in> t_path ` set (sn_touches s). fresh_at t p d"
      using touch_rows_keeps assms by (auto simp: sound_defs)
    have "sound t seen w (s\<lparr>sn_db := d\<rparr>)" by (rule sound_db [OF assms k(1)])
    moreover have "flush_touches lost s = s\<lparr>sn_touches := [], sn_db := d, sn_flushed := sn_flushed s + length (sn_touches s)\<rparr>"
      using False rows by (simp add: flush_touches_def Let_def)
    ultimately show ?thesis using k(2) by (fastforce simp: sound_defs)
  qed
qed

lemma sweepUnchanged_stale:
  assumes "sweepUnchanged rec d = Some n" "node_violation d = None"
  shows "stale_is t (w_path rec) (n_id n) d"
proof -
  have "GetLiveNodeByPath (w_path rec) d = Some n"
    using assms(1) by (auto simp: sweepUnchanged_def split: option.splits if_splits)
  from GetLiveNodeByPath_Some [OF this] have "owner (w_path rec) (n_id n) d"
    using live_owner [OF assms(2), of n] by auto
  then show ?thesis by (rule owner_stale)
qed

lemma sound_on_file:
  assumes "sound t seen True s" "\<not> w_symlink rec"
  shows "sound t (insert (w_path rec) seen) True (on_file dp sub lost rec s)"
proof -
  let ?s = "s\<lparr>sn_seen := sn_seen s + 1\<rparr>"
  show ?thesis
  proof (cases "if dp_differential dp then sweepUnchanged rec (sn_db s) else None")
    case None
    then have "on_file dp sub lost rec s = submit sub rec ?s" using assms(2) by (auto simp: on_file_def split: if_splits)
    then show ?thesis using assms(1) by (cases sub) (auto simp: submit_def sound_defs)
  next
    case (Some n)
    let ?t = "\<lparr>t_id = n_id n, t_path = w_path rec, t_mtime = w_mtime rec\<rparr>"
    let ?a = "?s\<lparr>sn_touches := sn_touches s @ [?t]\<rparr>"
    have unch: "sweepUnchanged rec (sn_db s) = Some n" using Some by (simp split: if_splits)
    have "stale_is t (w_path rec) (n_id n) (sn_db s)"
      by (rule sweepUnchanged_stale [OF unch]) (use assms(1) in \<open>simp add: sound_def\<close>)
    then have a: "sound t (insert (w_path rec) seen) True ?a" using assms(1) by (auto simp: sound_defs)
    have "on_file dp sub lost rec s = (if batchSize \<le> length (sn_touches ?a) then flush_touches lost ?a else ?a)"
      using Some assms(2) unch by (auto simp: on_file_def add_touch_def Let_def split: if_splits)
    then show ?thesis using a sound_flush_touches [OF a] by simp
  qed
qed

lemma processFile_path: "processFile dp rec v d = Inr r \<Longrightarrow> r_path r = w_path rec"
  by (auto simp: processFile_def probed_result_def Let_def result_simps split: option.splits sum.splits if_splits)

lemma in_set_remove1_or: "x \<in> set xs \<Longrightarrow> x = y \<or> x \<in> set (remove1 y xs)"
  by (metis in_set_remove1)

lemma sound_settled:
  assumes "sound t seen w s" "w_path rec \<in> underway (s'\<lparr>sn_pending := remove1 rec (sn_pending s)\<rparr>)"
    and "sn_db s' = sn_db s" "sn_touches s' = sn_touches s" "sn_seen s' = sn_seen s" "sn_buf s' = sn_buf s"
    "set (sn_results s) \<subseteq> set (sn_results s')" "sn_uncertain s \<subseteq> sn_uncertain s'"
    "sn_pending s' = remove1 rec (sn_pending s)"
  shows "sound t seen w s'"
proof -
  have "w_path rec \<in> underway s'" using assms(2,9) by (simp add: underway_def)
  moreover have "w_path ` set (sn_pending s) \<subseteq> insert (w_path rec) (w_path ` set (sn_pending s'))"
    using assms(9) in_set_remove1_or [of _ "sn_pending s" rec] by auto
  then have "underway s \<subseteq> insert (w_path rec) (underway s')"
    unfolding underway_def using assms(4,6-8) by auto
  ultimately have "underway s \<subseteq> underway s'" by blast
  then show ?thesis using assms(1,3-5) by (auto simp: sound_def accounted_def)
qed

lemma sound_worked:
  assumes "sound t seen w s" "\<And>r. out = Inr r \<Longrightarrow> r_path r = w_path rec"
  shows "sound t seen w (finish_work rec out shut delivered s)"
proof (rule sound_settled [OF assms(1)])
  show "w_path rec \<in> underway (finish_work rec out shut delivered s\<lparr>sn_pending := remove1 rec (sn_pending s)\<rparr>)"
    using assms(2) by (cases out) (auto simp: finish_work_def Let_def underway_def)
qed (cases out; simp add: finish_work_def Let_def; auto)+

lemma sound_abandoned: "sound t seen w s \<Longrightarrow> sound t seen w (abandon rec s)"
  by (erule sound_settled [where rec = rec]) (auto simp: abandon_def underway_def)

text \<open>The edges resolved after a batch.\<close>

lemma sound_edges: "sound t seen w s \<Longrightarrow> sound t seen w (resolveEdgesForBatch dp rs buf s)"
proof -
  assume s: "sound t seen w s"
  obtain k rv fs d where r: "resolve_paths dp rs (map r_path buf) (Some []) (sn_fs s, sn_db s) = (k, rv, fs, d)"
    by (metis prod.exhaust)
  have "sound t seen w (s\<lparr>sn_db := d\<rparr>)" by (rule sound_db [OF s aging.of_resolve_paths [OF r]])
  then show ?thesis using r by (simp add: resolveEdgesForBatch_def sound_defs)
qed

lemma sound_commit_batch:
  assumes "sound t seen w s"
  shows "sound t seen w (commit_batch dp lost partial s)"
proof -
  let ?out = "if lost then (Inl MintUuid, sn_db s) else Commit (dp_mint dp) (dp_loc dp) (dp_user dp) (sn_buf s) (sn_db s)"
  obtain r d where out: "?out = (r, d)" by (metis prod.exhaust)
  show ?thesis
  proof (cases r)
    case (Inl e)
    then have "d = sn_db s" using out Commit_failed by (auto split: if_splits)
    then show ?thesis using assms out Inl by (auto simp: commit_batch_def Let_def sound_defs)
  next
    case (Inr st)
    then have c: "Commit (dp_mint dp) (dp_loc dp) (dp_user dp) (sn_buf s) (sn_db s) = (Inr st, d)"
      using out by (auto split: if_splits)
    have nv: "node_violation (sn_db s) = None" "t \<le> db_clock (sn_db s)" using assms by (simp_all add: sound_def)
    note k = Commit_keeps [OF c nv]
    let ?s = "s\<lparr>sn_buf := [], sn_db := d, sn_total := add_stats (sn_total s) st\<rparr>"
    have "sound t seen w (s\<lparr>sn_db := d\<rparr>)" by (rule sound_db [OF assms k(1)])
    then have "sound t seen w ?s" using k(2) by (fastforce simp: sound_defs)
    then show ?thesis
      using out Inr sound_edges by (auto simp: commit_batch_def Let_def split: option.splits)
  qed
qed

lemma sound_flush: "sound t seen w s \<Longrightarrow> sound t seen w (flush dp lost partial unreported s)"
proof -
  assume s: "sound t seen w s"
  let ?c = "if sn_buf s \<noteq> [] then commit_batch dp lost partial s else s"
  have c: "sound t seen w ?c" using s sound_commit_batch by simp
  have "flush dp lost partial unreported s \<in> {?c, (report_progress dp ?c)\<lparr>sn_reported := int (sn_seen ?c)\<rparr>}"
    by (simp add: flush_def Let_def)
  then show ?thesis using c by (auto simp: report_progress_def sound_defs)
qed

lemma sound_taken: "sound t seen w s \<Longrightarrow> sound t seen w (take_result dp lost partial unreported s)"
proof (cases "sn_results s")
  case (Cons r rs)
  assume "sound t seen w s"
  then have "sound t seen w (s\<lparr>sn_results := rs, sn_buf := sn_buf s @ [r]\<rparr>)"
    using Cons by (auto simp: sound_defs)
  then show ?thesis using Cons sound_flush by (simp add: take_result_def Let_def)
qed (simp add: take_result_def)

lemma pass_sound: "pass dp seen w s \<Longrightarrow> sound (dp_start dp) seen w s"
proof (induction rule: pass.induct)
  case (start d fs jobs)
  then show ?case by (simp add: new_scan_def sound_defs)
next
  case (see seen s rec sub lost)
  then show ?case using sound_on_file by (cases "w_symlink rec") (simp_all add: on_file_def)
next
  case (stop seen s)
  then show ?case by (simp add: interrupt_def sound_defs)
next
  case (walked seen s lost)
  then show ?case by (blast intro: sound_flush_touches)
next
  case (worked seen w s rec v shut delivered)
  then show ?case using sound_worked processFile_path by blast
next
  case (abandoned seen w s rec)
  then show ?case by (blast intro: sound_abandoned)
next
  case (taken seen w s lost partial unreported)
  then show ?case by (blast intro: sound_taken)
next
  case (flushed seen w s lost partial unreported)
  then show ?case by (blast intro: sound_flush)
next
  case (others seen w s d fs jobs)
  then have "sound (dp_start dp) seen w s" by simp
  then show ?case using others(2-4) ages_preserves [OF others(2)] by (auto simp: sound_defs)
qed

section \<open>Full hashes of settled files\<close>

text \<open>
  A full hash is reported only for bytes that were read while the handle's size and time were those
  the walk had recorded, both after the sampled read and after the full one.
\<close>

lemma full_hash_of_settled_bytes:
  assumes "processFile dp rec v d = Inr r" "r_full r \<noteq> []"
  shows "\<exists>bytes. fv_again v = Some bytes \<and> r_full r = dp_blake dp bytes \<and>
    \<not> moved_on (fv_stat v) rec \<and> \<not> moved_on (fv_stat_again v) rec \<and> dp_policy dp \<noteq> ''never''"
  using assms
  by (auto simp: processFile_def probed_result_def full_hash_of_def needsFullHash_def Let_def result_simps
      split: option.splits sum.splits if_splits)

section \<open>The closing sequence\<close>

lemma retry_fields [simp]:
  "sn_uncertain (retry_sidecars dp lost s) = sn_uncertain s" "sn_seen (retry_sidecars dp lost s) = sn_seen s"
  "sn_interrupted (retry_sidecars dp lost s) = sn_interrupted s" "sn_touches (retry_sidecars dp lost s) = sn_touches s"
  "sn_pending (retry_sidecars dp lost s) = sn_pending s" "sn_results (retry_sidecars dp lost s) = sn_results s"
  "sn_buf (retry_sidecars dp lost s) = sn_buf s"
  by (auto simp: retry_sidecars_def report_progress_def Let_def split: option.splits prod.splits)

lemma closing_fields [simp]:
  "sn_db (end_job f lost s) = sn_db s" "sn_jobs (prune_metadata lost s) = sn_jobs s"
  "db_nodes (sn_db (prune_metadata lost s)) = db_nodes (sn_db s)"
  "db_clock (sn_db (prune_metadata lost s)) = db_clock (sn_db s)"
  "sn_interrupted (prune_metadata lost s) = sn_interrupted s" "sn_interrupted (missing_sweep dp lost s) = sn_interrupted s"
  "sn_jobs (missing_sweep dp lost s) = sn_jobs s"
  by (auto simp: end_job_def prune_metadata_def PruneArchivedNodeMetadata_def missing_sweep_def split: sum.splits)

lemma walk_complete_nodes:
  "db_nodes (sn_db (walk_complete dp canceled cl s)) =
   db_nodes (sn_db (missing_sweep dp (cl_sweep cl) (retry_sidecars dp (cl_progress cl) s)))"
  by (simp add: walk_complete_def Let_def)

text \<open>A swept row was \<open>ACTIVE\<close>, old, at the location and at no uncertain path.\<close>

lemma missing_sweep_origin:
  assumes "n' \<in> set (db_nodes (sn_db (missing_sweep dp lost s)))"
  obtains n where "n \<in> set (db_nodes (sn_db s))"
    "n' = n \<or> n_loc n = dp_loc dp \<and> n_life n = ACTIVE \<and> n_last_seen n < dp_start dp \<and> n_path n \<notin> sn_uncertain s \<and>
       sn_seen s \<noteq> 0 \<and> n' = n\<lparr>n_life := MISSING, n_updated := db_clock (sn_db s)\<rparr>"
proof (cases "db_nodes (sn_db (missing_sweep dp lost s)) = db_nodes (sn_db s)")
  case True
  then show thesis using assms by (intro that [of n']) simp_all
next
  case False
  let ?keep = "if sn_uncertain s = {} then {[]} else sn_uncertain s"
  obtain d where d: "MarkUnseenNodesMissing (dp_loc dp) (dp_start dp) ?keep (sn_db s) = Inr d"
    and db: "sn_db (missing_sweep dp lost s) = d" and "sn_seen s \<noteq> 0"
    using False by (auto simp: missing_sweep_def split: if_splits sum.splits)
  obtain n where n: "n \<in> set (db_nodes (sn_db s))" "n' = (if n_loc n = dp_loc dp \<and> n_life n = ACTIVE \<and>
      n_last_seen n < dp_start dp \<and> n_path n \<notin> ?keep then n\<lparr>n_life := MISSING, n_updated := db_clock (sn_db s)\<rparr> else n)"
    using d [unfolded MarkUnseenNodesMissing_def] assms [unfolded db] by (rule row_origin)
  show thesis
    by (rule that [OF n(1)]) (use n(2) \<open>sn_seen s \<noteq> 0\<close> in \<open>auto split: if_splits\<close>)
qed

lemma same_life_row:
  assumes "same_life d d'" "n' \<in> set (db_nodes d')"
  obtains n where "n \<in> set (db_nodes d)" "n_id n = n_id n'" "n_path n = n_path n'" "n_loc n = n_loc n'" "n_life n = n_life n'"
proof -
  let ?f = "\<lambda>n. (n_id n, n_path n, n_loc n, n_life n, n_superseded n)"
  have "?f n' \<in> set (map ?f (db_nodes d'))" unfolding set_map using assms(2) by (rule imageI)
  then have "?f n' \<in> set (map ?f (db_nodes d))" using assms(1) by (simp only: same_life_def)
  then show thesis using that by auto
qed

text \<open>C9. A pass never marks missing what it saw. In whatever order the walk, the workers, the committing
  loop and other transactions act, whichever files fail, are dropped or abandoned and whichever
  transactions are lost: when the pass closes, a row at a path that the walk reported is \<open>MISSING\<close> only
  if it was so before. The other transactions (of other passes, the watcher, agents, users) may change
  all tables in any way that makes no row \<open>ACTIVE\<close>, and gives no \<open>ACTIVE\<close> row another path, without a
  \<open>last_seen_at\<close> of at least the start of the job (\<open>ages\<close>), with the clock not behind that start. So the
  two statements that restore a row as it was, \<open>UntrashNode\<close> and \<open>UnarchiveMediaNode\<close>, are excluded: a
  row they restore under a pass that has already seen its path may be swept.\<close>

theorem scan_spares_seen:
  assumes "pass dp seen False s" "drained s"
    and "n' \<in> set (db_nodes (sn_db (finish_scan dp werr canceled cl s)))" "n_path n' \<in> seen" "n_life n' = MISSING"
  shows "\<exists>n \<in> set (db_nodes (sn_db s)). n_id n = n_id n' \<and> n_path n = n_path n' \<and> n_life n = MISSING"
proof (cases werr)
  case (Some err)
  then have "n' \<in> set (db_nodes (sn_db s))" using assms(3) by (simp add: finish_scan_def walk_failed_def split: if_splits)
  then show ?thesis using assms(5) by blast
next
  case None
  let ?s = "retry_sidecars dp (cl_progress cl) s"
  have sound: "sound (dp_start dp) seen False s" by (rule pass_sound [OF assms(1)])
  have "ages (dp_start dp) (sn_db s) (sn_db ?s)"
    using aging.of_retry [of "dp_start dp" s] sound keeps_ages by (simp add: sound_def)
  then have fresh: "n_path n' \<in> sn_uncertain s \<or> fresh_at (dp_start dp) (n_path n') (sn_db ?s)"
    using sound assms(2,4) ages_preserves(1) by (auto simp: sound_defs drained_def)
  have "n' \<in> set (db_nodes (sn_db (missing_sweep dp (cl_sweep cl) ?s)))"
    using assms(3) None by (simp add: finish_scan_def walk_complete_nodes)
  then obtain n where n: "n \<in> set (db_nodes (sn_db ?s))"
    "n' = n \<or> n_loc n = dp_loc dp \<and> n_life n = ACTIVE \<and> n_last_seen n < dp_start dp \<and> n_path n \<notin> sn_uncertain ?s \<and>
       sn_seen ?s \<noteq> 0 \<and> n' = n\<lparr>n_life := MISSING, n_updated := db_clock (sn_db ?s)\<rparr>"
    by (rule missing_sweep_origin)
  have "n' = n"
  proof (rule ccontr)
    assume "n' \<noteq> n"
    with n(2) have "n_life n = ACTIVE" "n_last_seen n < dp_start dp" "n_path n \<notin> sn_uncertain s" "n_path n = n_path n'"
      by auto
    with fresh n(1) show False by (auto simp: fresh_at_def)
  qed
  with n(1) obtain m where "m \<in> set (db_nodes (sn_db s))" "n_id m = n_id n'" "n_path m = n_path n'" "n_life m = n_life n'"
    using same_life_row [OF living.of_retry] by blast
  then show ?thesis using assms(5) by auto
qed

lemma MarkUnseenNodesMissing_total:
  "node_violation d = None \<Longrightarrow> \<exists>d'. MarkUnseenNodesMissing loc t keep d = Inr d'"
proof -
  assume "node_violation d = None"
  moreover have "MarkUnseenNodesMissing loc t keep d = update_nodes
      (\<lambda>n. n_loc n = loc \<and> n_life n = ACTIVE \<and> n_last_seen n < t \<and> n_path n \<notin> keep)
      (\<lambda>n. if visible n then n\<lparr>n_life := MISSING, n_updated := db_clock d\<rparr> else n) d"
    by (simp add: MarkUnseenNodesMissing_def update_nodes_def visible_def cong: if_cong)
  moreover have "tame (\<lambda>n. if visible n then n\<lparr>n_life := MISSING, n_updated := db_clock d\<rparr> else n)"
    by (auto simp: tame_def node_row_props)
  ultimately show ?thesis by (simp add: update_nodes_tame)
qed

text \<open>C10. The sweep is complete: when a pass whose walk ended without an error and saw a file closes, and
  the transaction of its sweep lands (a failed sweep is logged and left to the next pass), every row of
  its location that is still \<open>ACTIVE\<close> was seen since the job started or is at a path the pass could not
  settle, or has the empty path, which is what the code lists as unsettled when nothing is. So a file
  that is gone is marked missing by the next such pass.\<close>

theorem sweep_is_complete:
  assumes "pass dp seen False s" "0 < sn_seen s" "\<not> cl_sweep cl"
    and "n' \<in> set (db_nodes (sn_db (finish_scan dp None canceled cl s)))" "n_loc n' = dp_loc dp" "n_life n' = ACTIVE"
  shows "dp_start dp \<le> n_last_seen n' \<or> n_path n' \<in> sn_uncertain s \<or> n_path n' = []"
proof -
  let ?s = "retry_sidecars dp (cl_progress cl) s"
  let ?keep = "if sn_uncertain s = {} then {[]} else sn_uncertain s"
  have sound: "sound (dp_start dp) seen False s" by (rule pass_sound [OF assms(1)])
  have "node_violation (sn_db ?s) = None"
    using aging.of_retry [of "dp_start dp" s dp "cl_progress cl"] sound by (simp add: sound_def keeps_age_def)
  then obtain d where d: "MarkUnseenNodesMissing (dp_loc dp) (dp_start dp) ?keep (sn_db ?s) = Inr d"
    using MarkUnseenNodesMissing_total by blast
  then have "n' \<in> set (db_nodes d)"
    using assms(2-4) by (simp add: finish_scan_def walk_complete_nodes missing_sweep_def cong: if_cong)
  then obtain n where "n' = (if n_loc n = dp_loc dp \<and> n_life n = ACTIVE \<and> n_last_seen n < dp_start dp \<and>
      n_path n \<notin> ?keep then n\<lparr>n_life := MISSING, n_updated := db_clock (sn_db ?s)\<rparr> else n)"
    using d [unfolded MarkUnseenNodesMissing_def] by (blast elim: row_origin)
  then have "n' = n \<and> \<not> (n_last_seen n < dp_start dp \<and> n_path n \<notin> ?keep)" using assms(5,6) by (auto split: if_splits)
  then show ?thesis by (auto split: if_splits)
qed

text \<open>How the job ends.\<close>

definition job_outcome :: "(walk_error \<times> string) option \<Rightarrow> bool \<Rightarrow> bool \<Rightarrow> job_state" where
  "job_outcome werr interrupted canceled =
     (case werr of
        Some (e, _) \<Rightarrow> if e = WalkCanceled \<or> interrupted then CANCELLED else FAILED
      | None \<Rightarrow> if interrupted \<or> canceled then CANCELLED else COMPLETED)"

lemma finish_job_row:
  assumes "j \<in> set (finish_job i st err now jobs)" "j_id j = i"
  shows "j_state j = st \<and> j_finished j = Some now \<and> (\<forall>e. err = Some e \<longrightarrow> j_error j = Some e)"
proof -
  obtain k where k: "j = (if j_id k = i then k\<lparr>j_state := st, j_finished := Some now, j_updated := now,
      j_error := (case err of None \<Rightarrow> j_error k | Some e \<Rightarrow> Some e)\<rparr> else k)"
    using assms(1) unfolding finish_job_def update_jobs_def set_map by (rule imageE)
  then have "j_id k = i" using assms(2) by (cases "j_id k = i") simp_all
  then show ?thesis using k by simp
qed

lemma prior_active_same: "same_life d d' \<Longrightarrow> prior_active loc d' = prior_active loc d"
proof -
  let ?f = "\<lambda>n. (n_id n, n_path n, n_loc n, n_life n, n_superseded n)"
  let ?Q = "\<lambda>(i, p, l, life, s). life = ACTIVE \<and> l = loc \<and> s = None"
  have count: "prior_active loc d = length (filter ?Q (map ?f (db_nodes d)))" for d
    by (simp add: prior_active_def nodes_where_def filter_map comp_def)
  show "same_life d d' \<Longrightarrow> prior_active loc d' = prior_active loc d"
    unfolding count same_life_def by simp
qed

lemma finish_job_others: "j \<in> set (finish_job i st err now jobs) \<Longrightarrow> j_id j \<noteq> i \<Longrightarrow> j \<in> set jobs"
  by (auto simp: finish_job_def update_jobs_def)

text \<open>A job row whose counters alone may have moved.\<close>

definition job_kept :: "scan_job \<Rightarrow> scan_job \<Rightarrow> bool" where
  "job_kept k j \<longleftrightarrow> j_id j = j_id k \<and> j_state j = j_state k \<and> j_finished j = j_finished k \<and> j_error j = j_error k"

lemma retry_sidecars_jobs:
  assumes "j \<in> set (sn_jobs (retry_sidecars dp lost s))"
  shows "\<exists>k \<in> set (sn_jobs s). job_kept k j \<and> (j_id j \<noteq> dp_job dp \<longrightarrow> k = j)"
  using assms
  by (auto simp: retry_sidecars_def report_progress_def UpdateScanJobProgress_def update_jobs_def job_kept_def Let_def
      split: option.splits prod.splits if_splits) metis

lemma closed_jobs:
  "sn_jobs (prune_metadata l (missing_sweep dp l' s)) = sn_jobs s"
  by (simp add: prune_metadata_def missing_sweep_def split: sum.splits)

lemma no_job_left_running: "k \<in> set (ReconcileOrphanedScanJobs msg now jobs) \<Longrightarrow> j_state k \<noteq> RUNNING"
  by (auto simp: ReconcileOrphanedScanJobs_def update_jobs_def)

lemma finish_scan_jobs:
  assumes "j \<in> set (sn_jobs (finish_scan dp werr canceled cl s))" "j_id j \<noteq> dp_job dp \<or> cl_end cl"
  shows "\<exists>k \<in> set (sn_jobs s). job_kept k j \<and> (j_id j \<noteq> dp_job dp \<longrightarrow> k = j)"
proof (cases werr)
  case (Some err)
  then have "j \<in> set (sn_jobs s)"
    using assms by (cases err) (auto simp: finish_scan_def walk_failed_def end_job_def CancelScanJob_def FailScanJob_def
        dest: finish_job_others split: if_splits)
  then show ?thesis by (intro bexI [of _ j]) (simp_all add: job_kept_def)
next
  case None
  then have "j \<in> set (sn_jobs (retry_sidecars dp (cl_progress cl) s))"
    using assms by (auto simp: finish_scan_def walk_complete_def end_job_def closed_jobs Let_def CancelScanJob_def
        CompleteScanJob_def CompleteScanJobWithWarning_def dest: finish_job_others split: if_splits)
  then show ?thesis by (rule retry_sidecars_jobs)
qed

lemma finish_scan_outcome:
  assumes "\<not> cl_end cl" and "j \<in> set (sn_jobs (finish_scan dp werr canceled cl s))" "j_id j = dp_job dp"
  shows "j_state j = job_outcome werr (sn_interrupted s) canceled \<and> j_finished j \<noteq> None \<and>
    (j_state j = FAILED \<longrightarrow> j_error j = map_option snd werr) \<and>
    (j_state j = COMPLETED \<and> sn_seen s = 0 \<and> 0 < prior_active (dp_loc dp) (sn_db s) \<longrightarrow>
       j_error j = Some (sweep_warning (dp_root dp)))"
proof (cases werr)
  case (Some err)
  then show ?thesis
    using assms by (cases err) (auto simp: finish_scan_def walk_failed_def end_job_def job_outcome_def CancelScanJob_def FailScanJob_def
        dest!: finish_job_row split: if_splits)
next
  case None
  have "prior_active (dp_loc dp) (sn_db (retry_sidecars dp (cl_progress cl) s)) = prior_active (dp_loc dp) (sn_db s)"
    by (rule prior_active_same [OF living.of_retry])
  then show ?thesis
    using assms None by (auto simp: finish_scan_def walk_complete_def end_job_def job_outcome_def Let_def CancelScanJob_def
        CompleteScanJob_def CompleteScanJobWithWarning_def dest!: finish_job_row split: if_splits)
qed

text \<open>C12. How a pass ends its job. When the one write that ends it lands, the job is in the state the
  contract names: \<open>CANCELLED\<close> when the walk was cancelled or work was lost to a shutdown, else \<open>FAILED\<close>
  with the walk's error when the walk failed, else \<open>COMPLETED\<close>, with a warning when the pass saw no file
  at a location that has \<open>ACTIVE\<close> rows. When that write is lost the row keeps its state, \<open>RUNNING\<close> as a
  rule, until the reconciliation of the next start, after which no job is running. Rows of other jobs
  are not touched in either case.\<close>

theorem scan_job_ends:
  assumes "j \<in> set (sn_jobs (finish_scan dp werr canceled cl s))"
  shows "if j_id j \<noteq> dp_job dp then j \<in> set (sn_jobs s)
    else if cl_end cl then (\<exists>k \<in> set (sn_jobs s). job_kept k j) \<and>
      (\<forall>k \<in> set (ReconcileOrphanedScanJobs msg now (sn_jobs (finish_scan dp werr canceled cl s))). j_state k \<noteq> RUNNING)
    else j_state j = job_outcome werr (sn_interrupted s) canceled \<and> j_finished j \<noteq> None \<and>
      (j_state j = FAILED \<longrightarrow> j_error j = map_option snd werr) \<and>
      (j_state j = COMPLETED \<and> sn_seen s = 0 \<and> 0 < prior_active (dp_loc dp) (sn_db s) \<longrightarrow>
         j_error j = Some (sweep_warning (dp_root dp)))"
  using finish_scan_outcome [OF _ assms] finish_scan_jobs [OF assms] no_job_left_running by auto

end
