(* ===== verification/ScanSamples.thy ===== *)
theory ScanSamples
  imports ScanProps
begin

text \<open>
  One schedule of a pass, in which every file is processed and committed as soon as the walk reports
  it, and what it does on a small location: the theorems of \<open>ScanProps\<close> applied, and two hazards of
  the sweep.
\<close>

section \<open>A sequential pass\<close>

definition eager_visit :: "scan_deps \<Rightarrow> (file_record \<Rightarrow> file_view) \<Rightarrow> file_record \<Rightarrow> scan \<Rightarrow> walk_error + scan" where
  "eager_visit dp view rec s =
     (let s = on_file dp Accepted False rec s
      in Inr (if rec \<in> set (sn_pending s)
              then take_result dp False no_stats False
                     (finish_work rec (processFile dp rec (view rec) (sn_db s)) False True s)
              else s))"

definition nothing_lost :: closing where
  "nothing_lost = \<lparr>cl_progress = False, cl_sweep = False, cl_prune = False, cl_end = False\<rparr>"

definition walk_through :: "scan_deps \<Rightarrow> (file_record \<Rightarrow> file_view) \<Rightarrow> string \<Rightarrow> dirent option \<Rightarrow> scan \<Rightarrow> walk_error + scan" where
  "walk_through dp view base ent s =
     rbind (Walk (\<lambda>_. False) (eager_visit dp view) base ent s)
       (\<lambda>s. Inr (flush dp False no_stats False (flush_touches False s)))"

definition run_pass :: "scan_deps \<Rightarrow> (file_record \<Rightarrow> file_view) \<Rightarrow> string \<Rightarrow> dirent option \<Rightarrow> scan \<Rightarrow> scan" where
  "run_pass dp view base ent s =
     (case walk_through dp view base ent s of
        Inl e \<Rightarrow> finish_scan dp (Some (e, [])) False nothing_lost s
      | Inr s \<Rightarrow> finish_scan dp None False nothing_lost s)"

definition seen_paths :: "file_record list \<Rightarrow> string set" where
  "seen_paths recs = w_path ` {rec \<in> set recs. \<not> w_symlink rec}"

lemma seen_paths_simps:
  "seen_paths [] = {}"
  "seen_paths (rec # recs) = (if w_symlink rec then seen_paths recs else insert (w_path rec) (seen_paths recs))"
  by (auto simp: seen_paths_def)

lemma eager_reachable:
  "rfold (eager_visit dp view) recs s = Inr s' \<Longrightarrow> pass dp seen True s \<Longrightarrow> pass dp (seen \<union> seen_paths recs) True s'"
proof (induction recs arbitrary: s seen)
  case (Cons rec recs)
  let ?s1 = "on_file dp Accepted False rec s"
  let ?seen = "if w_symlink rec then seen else insert (w_path rec) seen"
  obtain s2 where s2: "eager_visit dp view rec s = Inr s2" and rest: "rfold (eager_visit dp view) recs s2 = Inr s'"
    using Cons.prems(1) by (auto simp: result_simps)
  have "pass dp ?seen True ?s1" using Cons.prems(2) by (rule pass.see)
  then have "pass dp ?seen True s2"
    using s2 by (auto simp: eager_visit_def Let_def split: if_splits intro: pass.worked pass.taken)
  moreover have "?seen \<union> seen_paths recs = seen \<union> seen_paths (rec # recs)" by (auto simp: seen_paths_def)
  ultimately show ?case using Cons.IH [OF rest, of ?seen] by (simp only:)
qed (simp add: seen_paths_def)

lemma walk_through_reachable:
  assumes "walk_through dp view base ent (new_scan fs d jobs) = Inr s" "node_violation d = None" "dp_start dp \<le> db_clock d"
  shows "pass dp (seen_paths (files_below base ent)) False s"
proof -
  obtain s1 where s1: "Walk (\<lambda>_. False) (eager_visit dp view) base ent (new_scan fs d jobs) = Inr s1"
    and s: "s = flush dp False no_stats False (flush_touches False s1)"
    using assms(1) by (auto simp: walk_through_def result_simps)
  have "readable_root ent"
    using s1 Walk_unreadable_root [of ent "\<lambda>_. False" "eager_visit dp view" base "new_scan fs d jobs"] by auto
  then have "rfold (eager_visit dp view) (files_below base ent) (new_scan fs d jobs) = Inr s1"
    using s1 Walk_files [of "\<lambda>_. False" ent "eager_visit dp view" base "new_scan fs d jobs"] by simp
  from eager_reachable [OF this pass.start [OF assms(2,3)]]
  have "pass dp (seen_paths (files_below base ent)) True s1" by simp
  then show ?thesis unfolding s by (intro pass.flushed pass.walked)
qed

section \<open>A small location\<close>

definition no_tools :: tools where
  "no_tools = \<lparr>tl_exiftool = False, tl_write = (\<lambda>_ _ fs. (False, fs)), tl_exif = (\<lambda>_ _. None), tl_xx = (\<lambda>_. 0), tl_wait = id\<rparr>"

definition sweep_of :: "int \<Rightarrow> scan_deps" where
  "sweep_of t = \<lparr>dp_loc = 2, dp_root = ''/exports'', dp_tier = TIER2_EXPORTS, dp_job = 1, dp_start = t, dp_differential = True,
     dp_user = 0, dp_mint = (\<lambda>_. None), dp_engine = None, dp_inherit = False, dp_tools = no_tools, dp_guard = None,
     dp_policy = ''never'', dp_nophash = True, dp_blake = id\<rparr>"

definition blank_view :: "file_record \<Rightarrow> file_view" where
  "blank_view _ = \<lparr>fv_bytes = None, fv_stat = None, fv_seek = False, fv_again = None, fv_stat_again = None,
     fv_exif = None, fv_phash = None, fv_ffprobe = None\<rparr>"

definition empty_disk :: fs where "empty_disk = \<lparr>fs_tree = [], fs_now = 0\<rparr>"

definition job_rows :: "scan_job list" where
  "job_rows = snd (CreateScanJob (Some 2) INCREMENTAL None 1500 [])"

text \<open>The location of the exports, with the file \<open>b.jpg\<close> in place and \<open>nas\<close> as given.\<close>

definition shelf :: "dirent \<Rightarrow> dirent option" where
  "shelf nas = Some (Folder [(''.trash'', Folder [(''x.jpg'', Plain 1 1)]), (''b.jpg'', Plain 100 1000), (''nas'', nas)])"

definition on_nas :: media_node where
  "on_nas = project\<lparr>n_path := ''/exports/nas/p.drp''\<rparr>"

definition library :: "int \<Rightarrow> media_node list \<Rightarrow> db" where
  "library now rows = studio\<lparr>db_edges := [], db_clock := now, db_nodes := rows\<rparr>"

lemma shelf_readable [simp]: "readable_root (shelf nas)"
  by (simp add: shelf_def)

lemma shelf_files:
  "files_below ''/exports'' (shelf (Folder [(''p.drp'', Plain 100 1000)])) =
     [\<lparr>w_path = ''/exports/b.jpg'', w_size = 100, w_mtime = 1000, w_symlink = False\<rparr>,
      \<lparr>w_path = ''/exports/nas/p.drp'', w_size = 100, w_mtime = 1000, w_symlink = False\<rparr>]"
  "files_below ''/exports'' (shelf Unreadable) =
     [\<lparr>w_path = ''/exports/b.jpg'', w_size = 100, w_mtime = 1000, w_symlink = False\<rparr>]"
  by (simp_all add: files_below_def shelf_def hidden_def path_join_def)

lemma library_sel [simp]:
  "db_nodes (library c ns) = ns" "db_clock (library c ns) = c" "(library c ns)\<lparr>db_nodes := ms\<rparr> = library c ms"
  by (simp_all add: library_def)

lemma library_rows: "n_loc n = 2 \<Longrightarrow> node_check n \<Longrightarrow> n_superseded n = None \<Longrightarrow> n_uploader n = None \<Longrightarrow>
    n_loc m = 2 \<Longrightarrow> node_check m \<Longrightarrow> n_superseded m = None \<Longrightarrow> n_uploader m = None \<Longrightarrow>
    n_id n \<noteq> n_id m \<Longrightarrow> n_uuid n \<noteq> n_uuid m \<Longrightarrow> n_path n \<noteq> n_path m \<Longrightarrow> n_full n = None \<Longrightarrow> n_full m = None \<Longrightarrow>
    node_violation (library c [n, m]) = None"
  by (simp add: node_violation_None unique_on_def hash_indexed_def node_fk_def library_def studio_def sample_loc_def)

lemma library_ok: "node_violation (library c [export, on_nas]) = None"
  by (rule library_rows) (simp_all add: on_nas_def sample_defs node_check_def opt_len_def)

text \<open>The rows after the pass: \<open>b.jpg\<close> touched at \<open>c\<close>, the one on the share swept or not.\<close>

definition touched_export :: "int \<Rightarrow> media_node" where
  "touched_export c = export\<lparr>n_mtime := 1000, n_last_seen := c, n_updated := c\<rparr>"

definition gone :: "int \<Rightarrow> media_node \<Rightarrow> media_node" where
  "gone c n = n\<lparr>n_life := MISSING, n_updated := c\<rparr>"

lemma touch_export:
  "TouchMediaNode 2 1000 (library c [export, on_nas]) = Inr (library c [touched_export c, on_nas])"
proof -
  have "node_violation (library c [touched_export c, on_nas]) = None"
    by (rule library_rows) (simp_all add: touched_export_def on_nas_def sample_defs node_check_def opt_len_def)
  then show ?thesis
    by (simp add: TouchMediaNode_def update_nodes_def checked_nodes_def touched_export_def on_nas_def sample_defs retired_def)
qed

lemma export_unchanged:
  "sweepUnchanged \<lparr>w_path = ''/exports/b.jpg'', w_size = 100, w_mtime = 1000, w_symlink = False\<rparr> (library c [export, on_nas])
     = Some export"
  by (simp add: sweepUnchanged_def GetLiveNodeByPath_def sample_defs retired_def)

text \<open>The walk of the location when the share cannot be read.\<close>

lemma walked_shelf:
  obtains s where "walk_through (sweep_of t) blank_view ''/exports'' (shelf Unreadable)
      (new_scan empty_disk (library c [export, on_nas]) job_rows) = Inr s"
    "sn_db s = library c [touched_export c, on_nas]" "sn_seen s = 1" "sn_uncertain s = {}" "sn_interrupted s = False"
    "drained s" "sn_sidecars s = []"
proof -
  let ?rec = "\<lparr>w_path = ''/exports/b.jpg'', w_size = 100, w_mtime = 1000, w_symlink = False\<rparr>"
  let ?s0 = "new_scan empty_disk (library c [export, on_nas]) job_rows"
  let ?s1 = "?s0\<lparr>sn_seen := 1, sn_touches := [\<lparr>t_id = 2, t_path = ''/exports/b.jpg'', t_mtime = 1000\<rparr>]\<rparr>"
  have id: "n_id export = 2" by (simp add: sample_defs)
  have "eager_visit (sweep_of t) blank_view ?rec ?s0 = Inr ?s1"
    using export_unchanged [of c] id
    by (simp add: eager_visit_def on_file_def sweep_of_def new_scan_def add_touch_def batchSize_def)
  then have walk: "Walk (\<lambda>_. False) (eager_visit (sweep_of t) blank_view) ''/exports'' (shelf Unreadable) ?s0 = Inr ?s1"
    using Walk_files [of "\<lambda>_. False" "shelf Unreadable" "eager_visit (sweep_of t) blank_view" "''/exports''" ?s0]
    by (simp add: shelf_files rfold_one del: rfold.simps(2))
  let ?f = "?s1\<lparr>sn_touches := [], sn_db := library c [touched_export c, on_nas], sn_flushed := 1\<rparr>"
  let ?r = "(report_progress (sweep_of t) ?f)\<lparr>sn_reported := 1\<rparr>"
  have touched: "flush_touches False ?s1 = ?f"
    using touch_export [of c] by (simp add: flush_touches_def touch_rows_def new_scan_def)
  have "flush (sweep_of t) False no_stats False ?f = ?r" by (simp add: flush_def new_scan_def report_progress_def)
  then have "walk_through (sweep_of t) blank_view ''/exports'' (shelf Unreadable) ?s0 = Inr ?r"
    unfolding walk_through_def walk rbind.simps touched by (rule arg_cong)
  then show thesis by (rule that) (simp_all add: report_progress_def drained_def new_scan_def)
qed

text \<open>The sweep of that location.\<close>

lemma sweep_result:
  assumes "node_violation (library c ns) = None"
  shows "MarkUnseenNodesMissing 2 t keep (library c ns) = Inr (library c
     (map (\<lambda>n. if n_loc n = 2 \<and> n_life n = ACTIVE \<and> n_last_seen n < t \<and> n_path n \<notin> keep then gone c n else n) ns))"
proof -
  obtain d where d: "MarkUnseenNodesMissing 2 t keep (library c ns) = Inr d"
    using MarkUnseenNodesMissing_total [OF assms] by blast
  then have "d = library c
     (map (\<lambda>n. if n_loc n = 2 \<and> n_life n = ACTIVE \<and> n_last_seen n < t \<and> n_path n \<notin> keep then gone c n else n) ns)"
    by (simp add: MarkUnseenNodesMissing_def update_nodes_Inr gone_def cong: if_cong)
  with d show ?thesis by simp
qed

lemma touched_ok: "node_violation (library c [touched_export c, on_nas]) = None"
  by (rule library_rows) (simp_all add: touched_export_def on_nas_def sample_defs node_check_def opt_len_def)

lemma swept_shelf:
  assumes "sn_db s = library c [touched_export c, on_nas]" "sn_seen s = 1" "sn_uncertain s = {}"
  shows "db_nodes (sn_db (finish_scan (sweep_of t) None canceled nothing_lost s)) =
     [if c < t then gone c (touched_export c) else touched_export c, if 0 < t then gone c on_nas else on_nas]"
proof -
  have "dp_engine (sweep_of t) = None" "dp_loc (sweep_of t) = 2" "dp_start (sweep_of t) = t" by (simp_all add: sweep_of_def)
  then show ?thesis
    using assms sweep_result [OF touched_ok [of c], of t "{[]}"]
    by (simp add: finish_scan_def walk_complete_nodes retry_sidecars_def missing_sweep_def nothing_lost_def
        touched_export_def on_nas_def sample_defs)
qed

section \<open>Two hazards\<close>

text \<open>C11. A directory that cannot be read counts as empty: the walk skips it and reports success, so the
  sweep marks every file below it missing, although nothing says that the files are gone.\<close>

theorem unreadable_folder_swept:
  "\<exists>s. walk_through (sweep_of 1500) blank_view ''/exports'' (shelf Unreadable)
         (new_scan empty_disk (library 2000 [export, on_nas]) job_rows) = Inr s \<and>
       db_nodes (sn_db (finish_scan (sweep_of 1500) None False nothing_lost s)) = [touched_export 2000, gone 2000 on_nas]"
proof -
  obtain s where s: "walk_through (sweep_of 1500) blank_view ''/exports'' (shelf Unreadable)
      (new_scan empty_disk (library 2000 [export, on_nas]) job_rows) = Inr s"
    "sn_db s = library 2000 [touched_export 2000, on_nas]" "sn_seen s = 1" "sn_uncertain s = {}"
    by (rule walked_shelf [of 1500 2000])
  show ?thesis using swept_shelf [OF s(2-4), of 1500 False] s(1) by simp
qed

text \<open>When the clock is set back during a pass, the sweep marks missing even the files the pass touched.\<close>

lemma clock_set_back_sweeps_seen:
  "\<exists>s. walk_through (sweep_of 3000) blank_view ''/exports'' (shelf Unreadable)
         (new_scan empty_disk (library 2000 [export, on_nas]) job_rows) = Inr s \<and>
       db_nodes (sn_db (finish_scan (sweep_of 3000) None False nothing_lost s)) =
         [gone 2000 (touched_export 2000), gone 2000 on_nas]"
proof -
  obtain s where s: "walk_through (sweep_of 3000) blank_view ''/exports'' (shelf Unreadable)
      (new_scan empty_disk (library 2000 [export, on_nas]) job_rows) = Inr s"
    "sn_db s = library 2000 [touched_export 2000, on_nas]" "sn_seen s = 1" "sn_uncertain s = {}"
    by (rule walked_shelf [of 3000 2000])
  show ?thesis using swept_shelf [OF s(2-4), of 3000 False] s(1) by simp
qed

section \<open>The theorems applied\<close>

lemma shelf_pass:
  obtains s where "pass (sweep_of 1500) {''/exports/b.jpg''} False s" "drained s" "sn_seen s = 1" "sn_uncertain s = {}"
    "sn_db s = library 2000 [touched_export 2000, on_nas]" "sn_interrupted s = False"
proof -
  obtain s where s: "walk_through (sweep_of 1500) blank_view ''/exports'' (shelf Unreadable)
      (new_scan empty_disk (library 2000 [export, on_nas]) job_rows) = Inr s"
    "sn_db s = library 2000 [touched_export 2000, on_nas]" "sn_seen s = 1" "sn_uncertain s = {}"
    "sn_interrupted s = False" "drained s"
    by (rule walked_shelf [of 1500 2000])
  have paths: "seen_paths (files_below ''/exports'' (shelf Unreadable)) = {''/exports/b.jpg''}"
    unfolding shelf_files by (simp add: seen_paths_simps)
  have start: "dp_start (sweep_of 1500) \<le> db_clock (library 2000 [export, on_nas])" by (simp add: sweep_of_def)
  have "pass (sweep_of 1500) {''/exports/b.jpg''} False s"
    using walk_through_reachable [OF s(1) library_ok start] unfolding paths .
  then show thesis by (rule that [OF _ s(6) s(3) s(4) s(2) s(5)])
qed

theorem sweep_is_complete_witness:
  "\<exists>s. pass (sweep_of 1500) {''/exports/b.jpg''} False s \<and>
     (dp_start (sweep_of 1500) \<le> n_last_seen (touched_export 2000) \<or>
      n_path (touched_export 2000) \<in> sn_uncertain s \<or> n_path (touched_export 2000) = [])"
proof -
  obtain s where s: "pass (sweep_of 1500) {''/exports/b.jpg''} False s" "sn_seen s = 1" "sn_uncertain s = {}"
    "sn_db s = library 2000 [touched_export 2000, on_nas]" by (rule shelf_pass)
  have row: "touched_export 2000 \<in> set (db_nodes (sn_db (finish_scan (sweep_of 1500) None False nothing_lost s)))"
    unfolding swept_shelf [OF s(4,2,3)] by simp
  show ?thesis
    using sweep_is_complete [OF s(1) _ _ row] s by (auto simp: nothing_lost_def sweep_of_def touched_export_def sample_defs)
qed

theorem scan_spares_seen_witness:
  "\<exists>s. pass (sweep_of 1500) {''/exports/b.jpg''} False s \<and>
     (\<exists>n \<in> set (db_nodes (sn_db s)). n_id n = 2 \<and> n_path n = ''/exports/b.jpg'' \<and> n_life n = MISSING)"
proof -
  let ?rec = "\<lparr>w_path = ''/exports/b.jpg'', w_size = 100, w_mtime = 1000, w_symlink = False\<rparr>"
  let ?d = "library 2000 [gone 1000 export, on_nas]"
  let ?init = "new_scan empty_disk ?d job_rows"
  let ?s = "?init\<lparr>sn_seen := 1, sn_uncertain := {''/exports/b.jpg''}, sn_failed := 1\<rparr>"
  have ok: "node_violation ?d = None"
    by (rule library_rows) (simp_all add: gone_def on_nas_def sample_defs node_check_def opt_len_def)
  have "sweepUnchanged ?rec ?d = None"
    by (simp add: sweepUnchanged_def GetLiveNodeByPath_def gone_def on_nas_def sample_defs retired_def)
  then have one: "on_file (sweep_of 1500) (Refused False) False ?rec ?init = ?s"
    by (simp add: on_file_def sweep_of_def new_scan_def submit_def interrupt_def give_up_def)
  have "dp_start (sweep_of 1500) \<le> db_clock ?d" by (simp add: sweep_of_def)
  from pass.see [OF pass.start [OF ok this], of ?rec "Refused False" False empty_disk job_rows]
  have "pass (sweep_of 1500) {''/exports/b.jpg''} True ?s" unfolding one by simp
  from pass.walked [OF this, of False] have reach: "pass (sweep_of 1500) {''/exports/b.jpg''} False ?s"
    by (simp add: flush_touches_def new_scan_def)
  have "dp_engine (sweep_of 1500) = None" "dp_loc (sweep_of 1500) = 2" "dp_start (sweep_of 1500) = 1500"
    by (simp_all add: sweep_of_def)
  then have row: "gone 1000 export \<in> set (db_nodes (sn_db (finish_scan (sweep_of 1500) None False nothing_lost ?s)))"
    using sweep_result [OF ok, of 1500 "{''/exports/b.jpg''}"]
    by (simp add: finish_scan_def walk_complete_nodes retry_sidecars_def missing_sweep_def nothing_lost_def new_scan_def
        gone_def sample_defs)
  have "drained ?s" by (simp add: drained_def new_scan_def)
  have rest: "n_path (gone 1000 export) \<in> {''/exports/b.jpg''}" "n_life (gone 1000 export) = MISSING"
    "n_id (gone 1000 export) = 2" "n_path (gone 1000 export) = ''/exports/b.jpg''"
    by (simp_all add: gone_def sample_defs)
  from scan_spares_seen [OF reach \<open>drained ?s\<close> row rest(1,2)]
  have "\<exists>n \<in> set (db_nodes (sn_db ?s)). n_id n = 2 \<and> n_path n = ''/exports/b.jpg'' \<and> n_life n = MISSING"
    unfolding rest(3,4) .
  with reach show ?thesis by (intro exI conjI)
qed

theorem scan_job_ends_witness:
  "\<exists>j. j \<in> set (sn_jobs (finish_scan (sweep_of 1500) (Some (WalkIO, ''no such directory'')) False nothing_lost
          (new_scan empty_disk (library 2000 []) job_rows))) \<and>
     j_state j = FAILED \<and> j_error j = Some ''no such directory''"
proof -
  let ?jobs = "sn_jobs (finish_scan (sweep_of 1500) (Some (WalkIO, ''no such directory'')) False nothing_lost
          (new_scan empty_disk (library 2000 []) job_rows))"
  let ?j = "(hd job_rows)\<lparr>j_state := FAILED, j_finished := Some 2000, j_updated := 2000, j_error := Some ''no such directory''\<rparr>"
  have "?jobs = [?j]"
    by (simp add: finish_scan_def walk_failed_def end_job_def nothing_lost_def FailScanJob_def finish_job_def update_jobs_def
        new_scan_def job_rows_def CreateScanJob_def next_job_def sweep_of_def Let_def)
  then have j: "?j \<in> set ?jobs" "j_id ?j = dp_job (sweep_of 1500)"
    by (simp_all add: job_rows_def CreateScanJob_def next_job_def sweep_of_def Let_def)
  have "\<not> cl_end nothing_lost" by (simp add: nothing_lost_def)
  with scan_job_ends [OF j(1)] show ?thesis
    using j by (intro exI [of _ ?j]) (simp add: job_outcome_def new_scan_def)
qed

end
