(* ===== verification/Spec2Isabelle.thy ===== *)
theory Spec2Isabelle
  imports Engine CommitHazards Prune TrashPurge AgentAuth PairingDelivery RateLimit DrainQueue TrashProps RehashProps
    InheritProps ScanSamples
begin

text \<open>
  BranchDAM keeps a photographer's archive: it scans storage locations, keeps one row per file and
  version, derives a graph of lineage edges between the files (an export comes from a raw original, a
  project file uses it), lets paired devices report what they did offline, and deletes what is safe
  to delete (cached copies whose master is verified, trashed files past their retention). This library
  models that core from \<open>src/internal\<close>, and proves what each part promises to the others.

  \<^bold>\<open>Foundations.\<close>
  \<^item> \<open>Prelude\<close>: strings and lists as Go uses them, \<open>rbind\<close>/\<open>rfold\<close> for functions that return an error, their
    hints. \<open>Paths\<close>: \<open>path/filepath\<close> on Linux. \<open>Float64\<close>: IEEE doubles as rationals with Go's rounding and
    shortest decimals, because confidences are compared with thresholds.
  \<^item> \<open>Effects\<close>: operations that change files before a later step fails; the frame rules \<open>keeps_rules\<close> by
    which such an operation is shown to stay within a relation along its text.
  \<^item> \<open>FileSystem\<close>: a tree of directories, files and symbolic links with the system calls the guard uses;
    a walk follows at most 255 links (40 in the kernel calls), which is where Go and Linux give up.
  \<^item> \<open>Schema\<close>, \<open>NodeQueries\<close>, \<open>EdgeQueries\<close>, \<open>AssetTables\<close>, \<open>PairingTables\<close>: the SQLite tables as lists of
    records with their CHECK, UNIQUE and foreign-key constraints, and one definition per statement of
    \<open>db/sqlcgen\<close> that the modelled code runs. A statement returns the new tables or the constraint it
    violates; \<open>in_tx\<close> is \<open>DB.InTx\<close>.

  \<^bold>\<open>Lineage\<close> (\<open>naming\<close>, \<open>graph\<close>).
  \<^item> \<open>Naming\<close>: \<open>Analyze\<close>, \<open>RenderPath\<close>. A rendered path has exactly the levels of its template.
  \<^item> \<open>Lineage\<close>, \<open>Resolvers\<close>: nodes, lookups and the four resolvers. Which pairs the stem resolver links,
    that a proxy's edge does not depend on the side it is resolved from, that the tier-3 resolver does
    not depend on the order of the database.
  \<^item> \<open>Engine\<close>, \<open>Confidence\<close>: \<open>mergeCandidates\<close> and \<open>ResolveAndCommit\<close>. The graph stays acyclic, human decisions
    and confidences are never taken back, \<open>graph_status\<close> is a function of the persisted edges, the
    registered resolvers never violate a constraint.

  \<^bold>\<open>Files\<close> (\<open>storage\<close>, \<open>pipeline\<close>, \<open>prune\<close>).
  \<^item> \<open>Guard\<close>, \<open>GuardProps\<close>: the one gate to the file system. Containment of every sequence of guarded
    operations in writable locations, for names without dot-dot after a link and without a final
    link, directories made only under roots that are there, and no directory renamed; for each
    condition, a run that shows what happens without it.
  \<^item> \<open>Commit\<close>, \<open>CommitProps\<close>, \<open>CommitHazards\<close>: what a scan pass writes for a file: version collisions, moves,
    duplicates, hash provenance. No row is lost, no live row keeps a disproved hash.
  \<^item> \<open>Prune\<close>: a cached copy is deleted only under a verified master that is on disk and still vouched for.
  \<^item> \<open>Trash\<close>: trashing and restoring with the move log. \<open>TrashPurge\<close>: the retention purge. \<open>TrashNames\<close>: copies are
    distinct, name their node, and are kept for the whole retention by the purge that reads the trash
    tables. \<open>TrashContainment\<close>: trashing never touches an archive, even one the guard lets be written.
    \<open>TrashProps\<close>: the one way it fails for good, with the production guard as well.

  \<^bold>\<open>Scanning\<close> (\<open>indexer\<close>, \<open>pipeline\<close>).
  \<^item> \<open>DirWalk\<close>: \<open>indexer.Walk\<close> over a tree. \<open>ScanJobs\<close>: the table of jobs and the guard against two passes
    over one location.
  \<^item> \<open>Scan\<close>: one pass, a function per atomic action of the walk, the workers, the committing loop and the
    closing sequence (\<open>runScan\<close>, \<open>drainAndCommit\<close>, \<open>resolveNodeEdges\<close>, \<open>sweep.go\<close>).
  \<^item> \<open>Aging\<close>: every operation of a pass leaves no \<open>ACTIVE\<close> row looking older than it did. \<open>ScanProps\<close>: the step
    relation \<open>pass\<close> with every interleaving, and in between any other writer that leaves no \<open>ACTIVE\<close> row
    looking older; restoring a row from the trash or the archive does not qualify, and is excluded by
    name. No file a walk saw is marked missing; when the sweep and the closing write land, and when not. \<open>ScanSamples\<close>: a sequential pass evaluated, and what a folder that cannot be read or a clock
    set back does.

  \<^bold>\<open>Content\<close> (\<open>hashing\<close>, \<open>rehash\<close>, \<open>pipeline/inherit.go\<close>).
  \<^item> \<open>Hashing\<close>: the sampled hash and when it determines the file.
  \<^item> \<open>Rehash\<close>, \<open>RehashProps\<close>: the worker that reads masters whose hash a device asserted. Within a
    batch it vouches only for bytes it read; it reaches every master it has not tried yet in bounded time.
  \<^item> \<open>Inherit\<close>, \<open>InheritProps\<close>: metadata copied from the winning parent into a file, the row brought up to
    date with the new bytes, and the provenance this leaves behind.

  \<^bold>\<open>Devices\<close> (\<open>pairing\<close>, \<open>secrets\<close>, \<open>auth\<close>, \<open>agent\<close>).
  \<^item> \<open>Secrets\<close>, \<open>Pairing\<close>, \<open>PairingProps\<close>, \<open>PairingDelivery\<close>: pairing, key rotation and its delivery,
    revocation; AES-GCM and HMAC are parameters whose laws are named hypotheses. The life cycle of keys is an
    invariant of the step relation \<open>pairing_run\<close>.
  \<^item> \<open>AgentAuth\<close>: admission of an agent's request with signature, window and replay cache, in the two halves
    on either side of reading the body (\<open>AgentBegin\<close>, \<open>AgentFinish\<close>); \<open>agent_run\<close> lets any number of requests
    overlap. A nonce is admitted once while its window is open, and a request whose body outlives the
    window is the way around it. \<open>RateLimit\<close>: the login limiter with attempts in flight as a step relation.
  \<^item> \<open>Drainer\<close>: the six event handlers, one transaction per event, and the batch. \<open>DrainerEffects\<close>: what an
    event can do to the tables, by the frame rules. \<open>DrainerProps\<close>: ownership, suggested edges, hashes
    that get no \<open>SERVER\<close> provenance, idempotent creation. \<open>DrainQueue\<close>: the status machine \<open>queue_step\<close>, that a batch
    implements it, that \<open>DrainAll\<close> terminates and where it stops.

  \<^bold>\<open>How the parts meet.\<close> The commit stage and the drainer insert nodes and hand them to the engine; both
  record where a hash comes from, and pruning accepts a master only by a hash the server computed.
  Everything that touches a file goes through the guard. The trash purge asks the trash tables for the
  time of a copy; the agent's requests are admitted by keys of the pairing service, and its events
  are applied under the identity the admission found. A pass walks, commits, resolves and inherits with
  the operations of those parts, and its sweep rests on what each of them does to \<open>last_seen_at\<close>; the
  re-hash worker turns the device's hashes into the verified ones that pruning asks for.

  \<^bold>\<open>Bounds.\<close> Integers that SQLite or Go keep in 64 bits are \<open>int\<close> where nothing can overflow; the cutoff of the
  trash purge, the perceptual hash and the durations of the limiter, where it matters, are words or
  carry their bound. \<open>DrainAll\<close> and the recursive queries terminate by a measure, not by fuel; the fuel of
  path walks is the limit of the real system call.

  \<^bold>\<open>Interfaces.\<close> Where one part calls another, the calls are the parameters of a locale and what they promise its
  assumptions: \<open>lineage_lookup\<close> (what the resolvers may rely on, provided by the database lookups),
  \<open>guarded_remove\<close> (what pruning and purging rely on, provided by the guard), \<open>key_lookup\<close> (what admission relies
  on, provided by the pairing service), \<open>trash_clock\<close> (what the purge relies on, provided by the trash tables).
  \<open>row_relation\<close> is the contract the statements of a pass share, a relation between the node tables before
  and after that their composition keeps; it is interpreted on \<open>keeps_age\<close> and on \<open>same_life\<close>. Contracts inside a part are definitions: \<open>keeps\<close> for what an operation may change,
  \<open>db_ok\<close> for well-formed tables, \<open>queue_step\<close>, \<open>pairing_step\<close>, \<open>attempt_step\<close>, \<open>agent_run\<close> and
    \<open>pass\<close> for the state machines.

  \<^bold>\<open>Not modelled.\<close> The HTTP layer (\<open>httpapi\<close>, \<open>sse\<close>, \<open>apierr\<close>), the command line and start-up (\<open>cmd\<close>, \<open>config\<close>, migrations),
  worker pools and tickers (\<open>workers\<close>, the goroutines of each worker), logging: I/O and glue around the modelled
  operations. External programs and services and their parsers (\<open>probe\<close>, \<open>metadata\<close>, \<open>thumbs\<close>, \<open>projectfile\<close>,
  \<open>djisrt\<close>, \<open>immich\<close>, \<open>email\<close>): what the modelled code takes from them is a parameter. The file watcher and the
  periodic sweeper only start the modelled passes on notifications and timers. Sessions, passwords and
  second factors of human sign-in are cookies, bcrypt and TOTP around single-row statements; settings are
  a table of names and their validators; remote sync is a client of a service this repository does not
  hold. Database reads do not fail in the model unless an operation says so; where the code's behaviour
  under a lost transaction or a cancelled context matters (a pass, the re-hash worker, cache pruning) these
  are arguments of the operations.
\<close>

end
